(* ===== verification/Prelude.thy ===== *)
theory Prelude
  imports Main "HOL-Library.Word" "HOL-Library.Monad_Syntax"
begin

unbundle bit_operations_syntax

text \<open>
  Shared vocabulary of the development.

  \<^item> Machine integers are words of the C width; a signed \<open>intN_t\<close> is the \<open>N\<close>-bit word that holds
    it and is read with \<^const>\<open>sint\<close>.
  \<^item> A C function that works on a context structure and returns an \<open>NTSTATUS\<close> is a computation
    \<open>'s \<Rightarrow> failure + 'a \<times> 's\<close>: it fails with a status, or gives its out-parameters and the new
    context.  \<open>Fault\<close> is the failure the C code has no value for: an access outside a buffer.
    A context whose operation failed is not used again by the callers, so failures carry no context.
  \<^item> \<open>nbind\<close> is the \<open>NDR_CHECK\<close> discipline (stop at the first failure); \<open>comp_spec\<close> is the
    contract "no fault, and on success a postcondition" with one rule per combinator.
\<close>

type_synonym u8 = "8 word"
type_synonym u16 = "16 word"
type_synonym u32 = "32 word"
type_synonym u64 = "64 word"
type_synonym ptr = nat
type_synonym ntstatus = "32 word"

datatype failure = Status ntstatus | Fault

type_synonym ('s, 'a) comp = "'s \<Rightarrow> failure + 'a \<times> 's"

named_theorems comp_intros \<open>introduction rules for the contract of a computation\<close>

section \<open>Computations that may fail\<close>

definition nreturn :: "'a \<Rightarrow> ('s, 'a) comp" where
  "nreturn v s = Inr (v, s)"

definition nfail :: "failure \<Rightarrow> ('s, 'a) comp" where
  "nfail f s = Inl f"

definition nbind :: "('s, 'a) comp \<Rightarrow> ('a \<Rightarrow> ('s, 'b) comp) \<Rightarrow> ('s, 'b) comp" where
  "nbind m f s = (case m s of Inl e \<Rightarrow> Inl e | Inr (v, s') \<Rightarrow> f v s')"

definition nthen :: "('s, 'a) comp \<Rightarrow> ('s, 'b) comp \<Rightarrow> ('s, 'b) comp" where
  "nthen m k = nbind m (\<lambda>_. k)"

definition nget :: "('s \<Rightarrow> 'a) \<Rightarrow> ('s, 'a) comp" where
  "nget f s = Inr (f s, s)"

definition nmodify :: "('s \<Rightarrow> 's) \<Rightarrow> ('s, unit) comp" where
  "nmodify f s = Inr ((), f s)"

definition ncheck :: "ntstatus \<Rightarrow> ('s \<Rightarrow> bool) \<Rightarrow> ('s, unit) comp" where
  "ncheck st P s = (if P s then Inr ((), s) else Inl (Status st))"

text \<open>A memory access: \<open>None\<close> is an access outside the buffer.\<close>

definition naccess :: "('s \<Rightarrow> 'a option) \<Rightarrow> ('s, 'a) comp" where
  "naccess f s = (case f s of None \<Rightarrow> Inl Fault | Some v \<Rightarrow> Inr (v, s))"

definition nupdate :: "('s \<Rightarrow> 's option) \<Rightarrow> ('s, unit) comp" where
  "nupdate f s = (case f s of None \<Rightarrow> Inl Fault | Some s' \<Rightarrow> Inr ((), s'))"

text \<open>Run a computation on one field of the context.\<close>

definition nzoom :: "('s \<Rightarrow> 't) \<Rightarrow> ('t \<Rightarrow> 's \<Rightarrow> 's) \<Rightarrow> ('t, 'a) comp \<Rightarrow> ('s, 'a) comp" where
  "nzoom get put m s = (case m (get s) of Inl f \<Rightarrow> Inl f | Inr (v, t) \<Rightarrow> Inr (v, put t s))"

text \<open>A counted loop whose body may fail.\<close>

fun nrepeat :: "nat \<Rightarrow> ('s, unit) comp \<Rightarrow> ('s, unit) comp" where
  "nrepeat 0 m = nreturn ()"
| "nrepeat (Suc n) m = nthen m (nrepeat n m)"

fun nmap_list :: "('a \<Rightarrow> ('s, 'b) comp) \<Rightarrow> 'a list \<Rightarrow> ('s, 'b list) comp" where
  "nmap_list f [] = nreturn []"
| "nmap_list f (x # xs) = nbind (f x) (\<lambda>y. nbind (nmap_list f xs) (\<lambda>ys. nreturn (y # ys)))"

lemmas comp_defs = nreturn_def nfail_def nbind_def nthen_def nget_def nmodify_def ncheck_def
  naccess_def nupdate_def

lemma nbind_Inr [simp]: "m s = Inr (v, s') \<Longrightarrow> nbind m f s = f v s'"
  by (simp add: nbind_def)

lemma nbind_Inl [simp]: "m s = Inl e \<Longrightarrow> nbind m f s = Inl e"
  by (simp add: nbind_def)

lemma nbind_eq_Inr:
  "nbind m f s = Inr r \<longleftrightarrow> (\<exists>v s'. m s = Inr (v, s') \<and> f v s' = Inr r)"
  by (auto simp: nbind_def split: sum.splits prod.splits)

lemma nthen_eq_Inr:
  "nthen m k s = Inr r \<longleftrightarrow> (\<exists>v s'. m s = Inr (v, s') \<and> k s' = Inr r)"
  by (simp add: nthen_def nbind_eq_Inr)

lemma nthen_Inr [simp]: "m s = Inr (v, s') \<Longrightarrow> nthen m k s = k s'"
  by (simp add: nthen_def)

lemma nthen_Inl [simp]: "m s = Inl e \<Longrightarrow> nthen m k s = Inl e"
  by (simp add: nthen_def)

lemma nbind_assoc: "nbind (nbind m f) g = nbind m (\<lambda>x. nbind (f x) g)"
  by (rule ext) (auto simp: nbind_def split: sum.splits prod.splits)

lemma nreturn_bind [simp]: "nbind (nreturn v) f = f v"
  by (rule ext) (simp add: nbind_def nreturn_def)

lemma nbind_return [simp]: "nbind m nreturn = m"
  by (rule ext) (auto simp: nbind_def nreturn_def split: sum.splits)

section \<open>The contract of a computation\<close>

text \<open>
  From a context in \<open>P\<close> the computation never accesses memory outside a buffer, and when it
  succeeds its result and the new context are in \<open>Q\<close>.
\<close>

definition comp_spec :: "('s \<Rightarrow> bool) \<Rightarrow> ('s, 'a) comp \<Rightarrow> ('s \<Rightarrow> 'a \<Rightarrow> 's \<Rightarrow> bool) \<Rightarrow> bool" where
  "comp_spec P m Q \<longleftrightarrow> (\<forall>s. P s \<longrightarrow> (case m s of Inl f \<Rightarrow> f \<noteq> Fault | Inr (v, s') \<Rightarrow> Q s v s'))"

lemma comp_specI:
  assumes "\<And>s. P s \<Longrightarrow> m s \<noteq> Inl Fault"
    and "\<And>s v s'. P s \<Longrightarrow> m s = Inr (v, s') \<Longrightarrow> Q s v s'"
  shows "comp_spec P m Q"
  using assms by (auto simp: comp_spec_def split: sum.splits)

lemma comp_spec_no_fault: "comp_spec P m Q \<Longrightarrow> P s \<Longrightarrow> m s \<noteq> Inl Fault"
  by (auto simp: comp_spec_def split: sum.splits)

lemma comp_spec_post: "comp_spec P m Q \<Longrightarrow> P s \<Longrightarrow> m s = Inr (v, s') \<Longrightarrow> Q s v s'"
  by (fastforce simp: comp_spec_def)

lemma comp_spec_conseq:
  assumes "comp_spec P m Q" and "\<And>s. P' s \<Longrightarrow> P s"
    and "\<And>s v s'. P' s \<Longrightarrow> Q s v s' \<Longrightarrow> Q' s v s'"
  shows "comp_spec P' m Q'"
  using assms by (auto simp: comp_spec_def split: sum.splits)

text \<open>
  An operation keeps an invariant and moves the context along a preorder (the frame): the form
  in which the contracts of the operations compose.
\<close>

definition keeps :: "('s \<Rightarrow> bool) \<Rightarrow> ('s \<Rightarrow> 's \<Rightarrow> bool) \<Rightarrow> ('s, 'a) comp \<Rightarrow> bool" where
  "keeps I R m \<longleftrightarrow> comp_spec I m (\<lambda>s _ s'. I s' \<and> R s s')"

lemma keepsI:
  assumes "\<And>s. I s \<Longrightarrow> m s \<noteq> Inl Fault"
    and "\<And>s v s'. I s \<Longrightarrow> m s = Inr (v, s') \<Longrightarrow> I s' \<and> R s s'"
  shows "keeps I R m"
  unfolding keeps_def by (rule comp_specI) (use assms in blast)+

lemma keeps_no_fault: "keeps I R m \<Longrightarrow> I s \<Longrightarrow> m s \<noteq> Inl Fault"
  unfolding keeps_def by (rule comp_spec_no_fault)

lemma keeps_post: "keeps I R m \<Longrightarrow> I s \<Longrightarrow> m s = Inr (v, s') \<Longrightarrow> I s' \<and> R s s'"
  unfolding keeps_def by (drule comp_spec_post)

lemma keeps_bind [comp_intros]:
  assumes "transp R" "keeps I R m" "\<And>v. keeps I R (f v)"
  shows "keeps I R (nbind m f)"
proof (rule keepsI)
  fix s assume "I s"
  then show "nbind m f s \<noteq> Inl Fault"
    using keeps_no_fault [OF assms(2)] keeps_no_fault [OF assms(3)] keeps_post [OF assms(2)]
    by (auto simp: nbind_def split: sum.splits)
next
  fix s v s' assume "I s" and "nbind m f s = Inr (v, s')"
  then obtain w t where "m s = Inr (w, t)" and "f w t = Inr (v, s')"
    by (auto simp: nbind_eq_Inr)
  with \<open>I s\<close> have "I t \<and> R s t" and "I t \<Longrightarrow> I s' \<and> R t s'"
    using keeps_post [OF assms(2)] keeps_post [OF assms(3)] by blast+
  then show "I s' \<and> R s s'" using transpD [OF assms(1)] by blast
qed

lemma keeps_then [comp_intros]:
  "transp R \<Longrightarrow> keeps I R m \<Longrightarrow> keeps I R k \<Longrightarrow> keeps I R (nthen m k)"
  unfolding nthen_def by (rule keeps_bind)

lemma keeps_return [comp_intros]: "reflp R \<Longrightarrow> keeps I R (nreturn v)"
  by (rule keepsI) (auto simp: nreturn_def reflpD)

lemma keeps_fail [comp_intros]: "f \<noteq> Fault \<Longrightarrow> keeps I R (nfail f)"
  by (rule keepsI) (auto simp: nfail_def)

lemma keeps_get [comp_intros]: "reflp R \<Longrightarrow> keeps I R (nget f)"
  by (rule keepsI) (auto simp: nget_def reflpD)

lemma keeps_check [comp_intros]: "reflp R \<Longrightarrow> keeps I R (ncheck st P)"
  by (rule keepsI) (auto simp: ncheck_def reflpD split: if_splits)

lemma keeps_if [comp_intros]:
  "(b \<Longrightarrow> keeps I R m) \<Longrightarrow> (\<not> b \<Longrightarrow> keeps I R k) \<Longrightarrow> keeps I R (if b then m else k)"
  by simp

lemma keeps_modify [comp_intros]:
  "(\<And>s. I s \<Longrightarrow> I (f s)) \<Longrightarrow> (\<And>s. I s \<Longrightarrow> R s (f s)) \<Longrightarrow> keeps I R (nmodify f)"
  by (rule keepsI) (auto simp: nmodify_def)

lemma keeps_zoom [comp_intros]:
  assumes "\<And>t. m t \<noteq> Inl Fault" "\<And>s t. I s \<Longrightarrow> I (put t s)" "\<And>s t. R s (put t s)"
  shows "keeps I R (nzoom get put m)"
  by (rule keepsI) (use assms in \<open>auto simp: nzoom_def split: sum.splits\<close>)

lemma keeps_repeat [comp_intros]:
  "reflp R \<Longrightarrow> transp R \<Longrightarrow> keeps I R m \<Longrightarrow> keeps I R (nrepeat n m)"
  by (induction n) (auto intro!: keeps_return keeps_then)

section \<open>Bytes and buffers\<close>

text \<open>\<open>store buf pos bs\<close> is a \<open>memcpy\<close> of \<open>bs\<close> to \<open>buf + pos\<close>, inside the buffer.\<close>

definition store :: "'a list \<Rightarrow> nat \<Rightarrow> 'a list \<Rightarrow> 'a list" where
  "store buf pos bs = take pos buf @ bs @ drop (pos + length bs) buf"

lemma length_store [simp]: "pos + length bs \<le> length buf \<Longrightarrow> length (store buf pos bs) = length buf"
  by (simp add: store_def)

lemma take_store: "pos \<le> length buf \<Longrightarrow> n \<le> pos \<Longrightarrow> take n (store buf pos bs) = take n buf"
  by (simp add: store_def)

lemma take_store_end:
  "pos + length bs \<le> length buf \<Longrightarrow>
   take (pos + length bs) (store buf pos bs) = take pos buf @ bs"
  by (simp add: store_def)

lemma store_Nil [simp]: "store buf pos [] = buf"
  by (simp add: store_def)

lemma store_Cons:
  "pos + Suc (length bs) \<le> length buf \<Longrightarrow>
   store buf pos (b # bs) = store (buf[pos := b]) (Suc pos) bs"
  by (simp add: store_def take_Suc_conv_app_nth list_update_append)

lemma nth_take_drop:
  "i < n \<Longrightarrow> pos + i < length buf \<Longrightarrow> take n (drop pos buf) ! i = buf ! (pos + i)"
  by simp

section \<open>Unsigned arithmetic without wrap-around\<close>

lemma unat_add_no_wrap:
  "unat (a :: 'a::len word) + unat b < 2 ^ LENGTH('a) \<Longrightarrow> unat (a + b) = unat a + unat b"
  by (simp add: unat_word_ariths)

lemma unat_of_nat_small: "n < 2 ^ LENGTH('a) \<Longrightarrow> unat (of_nat n :: 'a::len word) = n"
  by (simp add: unat_of_nat)

lemma unat_sub_le: "b \<le> (a :: 'a::len word) \<Longrightarrow> unat (a - b) = unat a - unat b"
  by (simp add: unat_sub)

lemma unat_of_nat_mod: "unat (of_nat k :: u32) = k mod 2 ^ 32"
  by (simp add: unsigned_of_nat take_bit_eq_mod)

lemma unat_drop_bit32: "unat (drop_bit k w) = unat w div 2 ^ k" for w :: u32
proof -
  have "unat w < 2 ^ 32" using unsigned_less [of w] by simp
  then show ?thesis by (simp add: unsigned_drop_bit_eq take_bit_nat_eq_self) (simp add: drop_bit_eq_div)
qed

lemma unat_drop_bit64: "unat (drop_bit k w) = unat w div 2 ^ k" for w :: u64
proof -
  have "unat w < 2 ^ 64" using unsigned_less [of w] by simp
  then show ?thesis by (simp add: unsigned_drop_bit_eq take_bit_nat_eq_self) (simp add: drop_bit_eq_div)
qed

end
