(* ===== verification/Byteorder.thy ===== *)
theory Byteorder
  imports Prelude
begin

text \<open>
  The byte-order macros of \<open>lib/util/byteorder.h\<close> (the portable \<open>CAREFUL_ALIGNMENT\<close> variant).
  A read gives \<open>None\<close> when it leaves the buffer.  A write works on a buffer of \<open>u8 option\<close>,
  where \<open>None\<close> is a byte that \<open>talloc\<close> has not initialised, and gives \<open>None\<close> when it leaves
  the buffer.  The lemmas reduce every macro to the byte lists \<open>le16\<close>, \<open>le32\<close> and their
  reverses, the form the rest of the development uses.
\<close>

section \<open>The macros\<close>

definition CVAL :: "u8 list \<Rightarrow> nat \<Rightarrow> u32 option" where
  "CVAL buf pos = (if pos < length buf then Some (ucast (buf ! pos)) else None)"

definition SCVAL :: "u8 option list \<Rightarrow> nat \<Rightarrow> u8 \<Rightarrow> u8 option list option" where
  "SCVAL buf pos val = (if pos < length buf then Some (buf[pos := Some val]) else None)"

definition SVAL :: "u8 list \<Rightarrow> nat \<Rightarrow> u32 option" where
  "SVAL buf pos = do { lo \<leftarrow> CVAL buf pos; hi \<leftarrow> CVAL buf (pos + 1); Some (lo OR push_bit 8 hi) }"

definition IVAL :: "u8 list \<Rightarrow> nat \<Rightarrow> u32 option" where
  "IVAL buf pos = do { lo \<leftarrow> SVAL buf pos; hi \<leftarrow> SVAL buf (pos + 2); Some (lo OR push_bit 16 hi) }"

definition SSVALX :: "u8 option list \<Rightarrow> nat \<Rightarrow> u32 \<Rightarrow> u8 option list option" where
  "SSVALX buf pos val = do {
     buf \<leftarrow> SCVAL buf pos (ucast (val AND 0xFF));
     SCVAL buf (pos + 1) (ucast (drop_bit 8 val)) }"

definition SIVALX :: "u8 option list \<Rightarrow> nat \<Rightarrow> u32 \<Rightarrow> u8 option list option" where
  "SIVALX buf pos val = do {
     buf \<leftarrow> SSVALX buf pos (val AND 0xFFFF);
     SSVALX buf (pos + 2) (drop_bit 16 val) }"

text \<open>With a signed argument the shift of \<open>SIVALX\<close> is arithmetic.\<close>

definition SIVALS :: "u8 option list \<Rightarrow> nat \<Rightarrow> u32 \<Rightarrow> u8 option list option" where
  "SIVALS buf pos val = do {
     buf \<leftarrow> SSVALX buf pos (val AND 0xFFFF);
     SSVALX buf (pos + 2) (signed_drop_bit 16 val) }"

definition SSVAL :: "u8 option list \<Rightarrow> nat \<Rightarrow> u32 \<Rightarrow> u8 option list option" where
  "SSVAL buf pos val = SSVALX buf pos (ucast (ucast val :: u16))"

definition SIVAL :: "u8 option list \<Rightarrow> nat \<Rightarrow> u32 \<Rightarrow> u8 option list option" where
  "SIVAL buf pos val = SIVALX buf pos val"

definition SREV :: "u32 \<Rightarrow> u32" where
  "SREV x = push_bit 8 (x AND 0xFF) OR (drop_bit 8 x AND 0xFF)"

definition IREV :: "u32 \<Rightarrow> u32" where
  "IREV x = push_bit 16 (SREV x) OR SREV (drop_bit 16 x)"

definition RSVAL :: "u8 list \<Rightarrow> nat \<Rightarrow> u32 option" where
  "RSVAL buf pos = do { v \<leftarrow> SVAL buf pos; Some (SREV v) }"

definition RIVAL :: "u8 list \<Rightarrow> nat \<Rightarrow> u32 option" where
  "RIVAL buf pos = do { v \<leftarrow> IVAL buf pos; Some (IREV v) }"

definition RSSVAL :: "u8 option list \<Rightarrow> nat \<Rightarrow> u32 \<Rightarrow> u8 option list option" where
  "RSSVAL buf pos val = SSVAL buf pos (SREV val)"

definition RSIVAL :: "u8 option list \<Rightarrow> nat \<Rightarrow> u32 \<Rightarrow> u8 option list option" where
  "RSIVAL buf pos val = SIVAL buf pos (IREV val)"

definition RSIVALS :: "u8 option list \<Rightarrow> nat \<Rightarrow> u32 \<Rightarrow> u8 option list option" where
  "RSIVALS buf pos val = SIVALS buf pos (IREV val)"

section \<open>Byte lists\<close>

definition le16 :: "u16 \<Rightarrow> u8 list" where
  "le16 v = [ucast v, ucast (drop_bit 8 v)]"

definition le32 :: "u32 \<Rightarrow> u8 list" where
  "le32 v = [ucast v, ucast (drop_bit 8 v), ucast (drop_bit 16 v), ucast (drop_bit 24 v)]"

lemma length_le16 [simp]: "length (le16 v) = 2"
  by (simp add: le16_def)

lemma length_le32 [simp]: "length (le32 v) = 4"
  by (simp add: le32_def)

lemma and_masks: "x AND 0xFF = take_bit 8 (x :: u32)" "x AND 0xFFFF = take_bit 16 (x :: u32)"
  by (simp_all add: take_bit_eq_mask mask_eq_exp_minus_1)

lemma SREV_alt: "SREV x = push_bit 8 (take_bit 8 x) OR take_bit 8 (drop_bit 8 x)"
  by (simp only: SREV_def and_masks)

lemma SREV_halves: "SREV (ucast lo OR push_bit 8 (ucast hi)) = ucast (hi::u8) OR push_bit 8 (ucast (lo::u8))"
proof (rule bit_word_eqI)
  fix n assume "n < LENGTH(32)"
  then consider "n < 8" | "8 \<le> n" "n < 16" | "16 \<le> n" "n < 32" by fastforce
  then show "bit (SREV (ucast lo OR push_bit 8 (ucast hi))) n = bit (ucast hi OR push_bit 8 (ucast lo) :: u32) n"
    by cases (auto simp: SREV_alt bit_simps dest: bit_imp_le_length)
qed

lemma le16_join: "ucast (ucast v :: u8) OR push_bit 8 (ucast (ucast (drop_bit 8 v) :: u8)) = (ucast (v :: u16) :: u32)"
  by (rule bit_word_eqI) (auto simp: bit_simps dest: bit_imp_le_length)

text \<open>The 32-bit value of four bytes, least significant first.\<close>

definition join4 :: "u8 \<Rightarrow> u8 \<Rightarrow> u8 \<Rightarrow> u8 \<Rightarrow> u32" where
  "join4 a b c d = (ucast a OR push_bit 8 (ucast b)) OR push_bit 16 (ucast c OR push_bit 8 (ucast d))"

lemma bit_join4:
  "n < 8 \<Longrightarrow> bit (join4 a b c d) n = bit a n"
  "8 \<le> n \<Longrightarrow> n < 16 \<Longrightarrow> bit (join4 a b c d) n = bit b (n - 8)"
  "16 \<le> n \<Longrightarrow> n < 24 \<Longrightarrow> bit (join4 a b c d) n = bit c (n - 16)"
  "24 \<le> n \<Longrightarrow> n < 32 \<Longrightarrow> bit (join4 a b c d) n = bit d (n - 24)"
  by (auto simp: join4_def bit_simps dest: bit_imp_le_length)

lemma word32_eq_by_bytes:
  fixes x y :: u32
  assumes "\<And>n. n < 8 \<Longrightarrow> bit x n = bit y n" "\<And>n. 8 \<le> n \<Longrightarrow> n < 16 \<Longrightarrow> bit x n = bit y n"
    and "\<And>n. 16 \<le> n \<Longrightarrow> n < 24 \<Longrightarrow> bit x n = bit y n" "\<And>n. 24 \<le> n \<Longrightarrow> n < 32 \<Longrightarrow> bit x n = bit y n"
  shows "x = y"
proof (rule bit_word_eqI)
  fix n assume "n < LENGTH(32)"
  then consider "n < 8" | "8 \<le> n" "n < 16" | "16 \<le> n" "n < 24" | "24 \<le> n" "n < 32" by fastforce
  then show "bit x n = bit y n" by cases (simp_all add: assms)
qed

lemma le32_join:
  "join4 (ucast v) (ucast (drop_bit 8 v)) (ucast (drop_bit 16 v)) (ucast (drop_bit 24 v)) = v"
  by (rule word32_eq_by_bytes) (auto simp add: bit_join4 bit_simps)

lemma slice2: "pos + 2 \<le> length buf \<Longrightarrow> take 2 (drop pos buf) = [buf ! pos, buf ! (pos + 1)]"
  by (simp add: list_eq_iff_nth_eq less_Suc_eq numeral_2_eq_2)

lemma slice4:
  "pos + 4 \<le> length buf \<Longrightarrow>
   take 4 (drop pos buf) = [buf ! pos, buf ! (pos + 1), buf ! (pos + 2), buf ! (pos + 3)]"
  by (simp add: list_eq_iff_nth_eq less_Suc_eq numeral_eq_Suc)

section \<open>Reads\<close>

lemma SVAL_eq:
  "pos + 2 \<le> length buf \<Longrightarrow> SVAL buf pos = Some (ucast (buf ! pos) OR push_bit 8 (ucast (buf ! (pos + 1))))"
  by (simp add: SVAL_def CVAL_def)

lemma IVAL_eq:
  "pos + 4 \<le> length buf \<Longrightarrow>
   IVAL buf pos = Some (join4 (buf ! pos) (buf ! (pos + 1)) (buf ! (pos + 2)) (buf ! (pos + 3)))"
  by (simp add: IVAL_def SVAL_eq join4_def numeral_3_eq_3)

lemma SVAL_le16: "pos + 2 \<le> length buf \<Longrightarrow> take 2 (drop pos buf) = le16 v \<Longrightarrow> SVAL buf pos = Some (ucast v)"
  by (simp add: slice2 SVAL_eq le16_def le16_join)

lemma IVAL_le32: "pos + 4 \<le> length buf \<Longrightarrow> take 4 (drop pos buf) = le32 v \<Longrightarrow> IVAL buf pos = Some v"
  by (simp add: slice4 IVAL_eq le32_def le32_join)

lemma RSVAL_be16:
  "pos + 2 \<le> length buf \<Longrightarrow> take 2 (drop pos buf) = rev (le16 v) \<Longrightarrow> RSVAL buf pos = Some (ucast v)"
  by (simp add: slice2 RSVAL_def SVAL_eq le16_def SREV_halves le16_join)

lemma IREV_join4: "IREV (join4 a b c d) = join4 d c b a"
proof -
  have "bit (IREV x) n = (if n < 8 then bit x (24 + n) else if n < 16 then bit x (8 + n)
      else if n < 24 then bit x (n - 8) else bit x (n - 24))" if "n < 32" for x n
  proof -
    from that consider "n < 8" | "8 \<le> n" "n < 16" | "16 \<le> n" "n < 24" | "24 \<le> n" "n < 32" by fastforce
    then show ?thesis
      by cases (auto simp: IREV_def SREV_alt bit_simps dest: bit_imp_le_length)
  qed
  then show ?thesis
    by (intro word32_eq_by_bytes) (simp_all add: bit_join4)
qed

lemma RIVAL_be32:
  "pos + 4 \<le> length buf \<Longrightarrow> take 4 (drop pos buf) = rev (le32 v) \<Longrightarrow> RIVAL buf pos = Some v"
  by (simp add: slice4 RIVAL_def IVAL_eq le32_def IREV_join4 le32_join)

section \<open>Writes\<close>

lemma SSVALX_eq:
  "pos + 2 \<le> length buf \<Longrightarrow>
   SSVALX buf pos v = Some (store buf pos (map Some [ucast v, ucast (drop_bit 8 v)]))"
proof -
  have "ucast (v AND 0xFF) = (ucast v :: u8)"
    by (rule bit_word_eqI) (auto simp: and_masks bit_simps)
  then show "pos + 2 \<le> length buf \<Longrightarrow> ?thesis"
    by (simp add: SSVALX_def SCVAL_def store_Cons)
qed

lemma SSVAL_eq:
  "pos + 2 \<le> length buf \<Longrightarrow> SSVAL buf pos v = Some (store buf pos (map Some (le16 (ucast v))))"
  by (simp add: SSVAL_def SSVALX_eq le16_def) (rule arg_cong2 [where f = "\<lambda>a b. store buf pos [Some a, Some b]"];
      rule bit_word_eqI; auto simp: bit_simps)

lemma SIVALX_gen:
  assumes "pos + 4 \<le> length buf" and "\<And>n. n < 16 \<Longrightarrow> bit hi n = bit v (16 + n)"
  shows "do { buf \<leftarrow> SSVALX buf pos (v AND 0xFFFF); SSVALX buf (pos + 2) hi } =
         Some (store buf pos (map Some (le32 v)))"
proof -
  have lo: "ucast (v AND 0xFFFF) = (ucast v :: u8)" "ucast (drop_bit 8 v AND 0xFF) = (ucast (drop_bit 8 v) :: u8)"
    by (rule bit_word_eqI; auto simp: and_masks bit_simps)+
  have hi: "ucast hi = (ucast (drop_bit 16 v) :: u8)" "ucast (drop_bit 8 hi) = (ucast (drop_bit 24 v) :: u8)"
    by (rule bit_word_eqI; auto simp: assms(2) bit_simps)+
  show ?thesis
    using assms(1) by (simp add: SSVALX_eq lo hi store_Cons le32_def)
qed

lemma SIVAL_eq: "pos + 4 \<le> length buf \<Longrightarrow> SIVAL buf pos v = Some (store buf pos (map Some (le32 v)))"
  unfolding SIVAL_def SIVALX_def by (rule SIVALX_gen) (auto simp: bit_simps)

lemma SIVALS_eq: "pos + 4 \<le> length buf \<Longrightarrow> SIVALS buf pos v = Some (store buf pos (map Some (le32 v)))"
  unfolding SIVALS_def by (rule SIVALX_gen) (auto simp: bit_simps)

lemma le16_SREV: "le16 (ucast (SREV (ucast v))) = rev (le16 v)"
proof -
  have "SREV (ucast v) = ucast (ucast (drop_bit 8 v) :: u8) OR push_bit 8 (ucast (ucast v :: u8))"
    using SREV_halves [of "ucast v" "ucast (drop_bit 8 v)"] by (simp only: le16_join)
  then show ?thesis
    by (simp add: le16_def) (safe; rule bit_word_eqI; auto simp: bit_simps dest: bit_imp_le_length)
qed

lemma le32_join4: "le32 (join4 a b c d) = [a, b, c, d]"
  unfolding le32_def by (intro list.inject [THEN iffD2] conjI bit_word_eqI) (simp_all add: bit_join4 bit_simps)

lemma le32_IREV: "le32 (IREV v) = rev (le32 v)"
proof -
  have "IREV v = join4 (ucast (drop_bit 24 v)) (ucast (drop_bit 16 v)) (ucast (drop_bit 8 v)) (ucast v)"
    by (subst le32_join [of v, symmetric]) (rule IREV_join4)
  then show ?thesis by (simp only: le32_join4) (simp add: le32_def)
qed

lemma RSSVAL_eq:
  "pos + 2 \<le> length buf \<Longrightarrow> RSSVAL buf pos (ucast v) = Some (store buf pos (map Some (rev (le16 v))))"
  by (simp add: RSSVAL_def SSVAL_eq le16_SREV)

lemma RSIVAL_eq: "pos + 4 \<le> length buf \<Longrightarrow> RSIVAL buf pos v = Some (store buf pos (map Some (rev (le32 v))))"
  by (simp add: RSIVAL_def SIVAL_eq le32_IREV)

lemma RSIVALS_eq: "pos + 4 \<le> length buf \<Longrightarrow> RSIVALS buf pos v = Some (store buf pos (map Some (rev (le32 v))))"
  by (simp add: RSIVALS_def SIVALS_eq le32_IREV)

end
