(* ===== verification/DataBlob.thy ===== *)
theory DataBlob
  imports Byteorder
begin

text \<open>
  \<open>lib/util/data_blob.c\<close>: counted byte buffers, and the two facts about \<open>lib/talloc/talloc.c\<close>
  they rest on (requests of \<open>MAX_TALLOC_SIZE\<close> bytes or more are refused, and a reallocation to
  size 0 frees and gives \<open>NULL\<close>).  Below that limit an allocation succeeds: exhaustion of the
  machine's memory is not modelled.  Nor is the talloc hierarchy: a buffer is its bytes, so the
  parent context of an allocation does not appear.

  A buffer is a list of \<open>u8 option\<close>; \<open>None\<close> is a byte nobody has written yet.  An operation
  gives \<open>None\<close> when it would access memory outside a buffer.
\<close>

definition NT_STATUS_OK :: ntstatus where "NT_STATUS_OK = 0"
definition STATUS_MORE_ENTRIES :: ntstatus where "STATUS_MORE_ENTRIES = 0x105"
definition NT_STATUS_UNSUCCESSFUL :: ntstatus where "NT_STATUS_UNSUCCESSFUL = 0xC0000001"
definition NT_STATUS_NOT_IMPLEMENTED :: ntstatus where "NT_STATUS_NOT_IMPLEMENTED = 0xC0000002"
definition NT_STATUS_INVALID_PARAMETER :: ntstatus where "NT_STATUS_INVALID_PARAMETER = 0xC000000D"
definition NT_STATUS_NO_MEMORY :: ntstatus where "NT_STATUS_NO_MEMORY = 0xC0000017"
definition NT_STATUS_ACCESS_DENIED :: ntstatus where "NT_STATUS_ACCESS_DENIED = 0xC0000022"
definition NT_STATUS_BUFFER_TOO_SMALL :: ntstatus where "NT_STATUS_BUFFER_TOO_SMALL = 0xC0000023"
definition NT_STATUS_ARRAY_BOUNDS_EXCEEDED :: ntstatus where "NT_STATUS_ARRAY_BOUNDS_EXCEEDED = 0xC000008C"
definition NT_STATUS_NOT_SUPPORTED :: ntstatus where "NT_STATUS_NOT_SUPPORTED = 0xC00000BB"
definition NT_STATUS_INTERNAL_ERROR :: ntstatus where "NT_STATUS_INTERNAL_ERROR = 0xC00000E5"
definition NT_STATUS_NOT_FOUND :: ntstatus where "NT_STATUS_NOT_FOUND = 0xC0000225"

lemmas nt_status_defs = NT_STATUS_OK_def NT_STATUS_UNSUCCESSFUL_def NT_STATUS_NOT_IMPLEMENTED_def
  NT_STATUS_INVALID_PARAMETER_def NT_STATUS_NO_MEMORY_def NT_STATUS_ACCESS_DENIED_def
  NT_STATUS_BUFFER_TOO_SMALL_def NT_STATUS_ARRAY_BOUNDS_EXCEEDED_def NT_STATUS_NOT_SUPPORTED_def
  NT_STATUS_INTERNAL_ERROR_def NT_STATUS_NOT_FOUND_def

section \<open>talloc, as far as buffers see it\<close>

definition MAX_TALLOC_SIZE :: nat where "MAX_TALLOC_SIZE = 0x10000000"

type_synonym buffer = "u8 option list"

definition talloc_size :: "nat \<Rightarrow> buffer option" where
  "talloc_size n = (if MAX_TALLOC_SIZE \<le> n then None else Some (replicate n None))"

text \<open>The contents survive a reallocation up to the smaller of the two sizes.\<close>

definition talloc_realloc_size :: "buffer option \<Rightarrow> nat \<Rightarrow> buffer option" where
  "talloc_realloc_size p n =
     (if n = 0 then None
      else if MAX_TALLOC_SIZE \<le> n then None
      else case p of
             None \<Rightarrow> talloc_size n
           | Some buf \<Rightarrow> Some (take n buf @ replicate (n - length buf) None))"

text \<open>\<open>memdup\<close> reads \<open>n\<close> bytes of its source: the outer \<open>None\<close> is the read outside it.\<close>

definition talloc_memdup :: "buffer \<Rightarrow> nat \<Rightarrow> buffer option option" where
  "talloc_memdup src n =
     (if MAX_TALLOC_SIZE \<le> n then Some None
      else if n \<le> length src then Some (Some (take n src)) else None)"

section \<open>Data blobs\<close>

record data_blob =
  blob_data :: "buffer option"
  blob_length :: u64

abbreviation null_blob :: data_blob where
  "null_blob \<equiv> \<lparr>blob_data = None, blob_length = 0\<rparr>"

definition data_blob_named :: "buffer option \<Rightarrow> u64 \<Rightarrow> data_blob option" where
  "data_blob_named p len =
     (if p = None \<and> len = 0 then Some null_blob
      else do {
        d \<leftarrow> (case p of Some src \<Rightarrow> talloc_memdup src (unat len)
                      | None \<Rightarrow> Some (talloc_size (unat len)));
        (case d of None \<Rightarrow> Some null_blob
                 | Some buf \<Rightarrow> Some \<lparr>blob_data = Some buf, blob_length = len\<rparr>) })"

text \<open>\<open>talloc_steal\<close> only changes the parent of the buffer.\<close>

definition data_blob_talloc_named :: "buffer option \<Rightarrow> u64 \<Rightarrow> data_blob option" where
  "data_blob_talloc_named p len = data_blob_named p len"

definition data_blob_clear :: "data_blob \<Rightarrow> data_blob option" where
  "data_blob_clear d =
     (case blob_data d of
        None \<Rightarrow> Some d
      | Some buf \<Rightarrow>
          if unat (blob_length d) \<le> length buf
          then Some (d\<lparr>blob_data := Some (store buf 0 (replicate (unat (blob_length d)) (Some 0)))\<rparr>)
          else None)"

definition data_blob_talloc_zero :: "u64 \<Rightarrow> data_blob option" where
  "data_blob_talloc_zero len = do { blob \<leftarrow> data_blob_talloc_named None len; data_blob_clear blob }"

definition data_blob_free :: "data_blob \<Rightarrow> data_blob" where
  "data_blob_free d = d\<lparr>blob_data := None, blob_length := 0\<rparr>"

definition data_blob_clear_free :: "data_blob \<Rightarrow> data_blob option" where
  "data_blob_clear_free d = do { d \<leftarrow> data_blob_clear d; Some (data_blob_free d) }"

text \<open>
  Two blobs compare equal when their lengths agree and they share their storage or hold the
  same bytes.  Storage is compared by content here: sharing implies equal content, so the
  short cut for \<open>d1->data == d2->data\<close> only matters when both pointers are \<open>NULL\<close>.
\<close>

definition data_blob_equal :: "data_blob \<Rightarrow> data_blob \<Rightarrow> bool option" where
  "data_blob_equal d1 d2 =
     (if blob_length d1 \<noteq> blob_length d2 then Some False
      else case (blob_data d1, blob_data d2) of
             (None, None) \<Rightarrow> Some True
           | (Some b1, Some b2) \<Rightarrow>
               let n = unat (blob_length d1) in
               if n \<le> length b1 \<and> n \<le> length b2 then Some (take n b1 = take n b2) else None
           | _ \<Rightarrow> Some False)"

definition data_blob_const :: "buffer option \<Rightarrow> u64 \<Rightarrow> data_blob" where
  "data_blob_const p len = \<lparr>blob_data = p, blob_length = len\<rparr>"

text \<open>
  \<open>blob->data\<close> is overwritten with the result of the reallocation before it is tested, so a
  refused request leaves a blob with a \<open>NULL\<close> pointer and its old length.
\<close>

definition data_blob_realloc :: "data_blob \<Rightarrow> u64 \<Rightarrow> ntstatus \<times> data_blob" where
  "data_blob_realloc blob len =
     (let blob = blob\<lparr>blob_data := talloc_realloc_size (blob_data blob) (unat len)\<rparr>
      in if blob_data blob = None then (NT_STATUS_NO_MEMORY, blob)
         else (NT_STATUS_OK, blob\<lparr>blob_length := len\<rparr>))"

definition data_blob_append :: "data_blob \<Rightarrow> u8 list \<Rightarrow> (ntstatus \<times> data_blob) option" where
  "data_blob_append blob p =
     (let len = (of_nat (length p) :: u64);
          old_len = blob_length blob;
          new_len = old_len + len
      in if new_len < len \<or> new_len < old_len then Some (NT_STATUS_NO_MEMORY, blob)
         else let (status, blob) = data_blob_realloc blob new_len
              in if status \<noteq> NT_STATUS_OK then Some (status, blob)
                 else case blob_data blob of
                        None \<Rightarrow> None
                      | Some buf \<Rightarrow>
                          if unat old_len + length p \<le> length buf
                          then Some (NT_STATUS_OK,
                                 blob\<lparr>blob_data := Some (store buf (unat old_len) (map Some p))\<rparr>)
                          else None)"

definition hex_digit :: "nat \<Rightarrow> char" where
  "hex_digit d = ''0123456789ABCDEF'' ! d"

definition hex2 :: "u8 \<Rightarrow> string" where
  "hex2 b = [hex_digit (unat b div 16), hex_digit (unat b mod 16)]"

definition data_blob_hex_string :: "u8 list \<Rightarrow> string" where
  "data_blob_hex_string bs = concat (map hex2 bs)"

section \<open>Well-formed blobs\<close>

text \<open>A blob's storage has at least its length; a blob without storage is empty.\<close>

definition blob_ok :: "data_blob \<Rightarrow> bool" where
  "blob_ok d \<longleftrightarrow> (case blob_data d of None \<Rightarrow> blob_length d = 0
                                  | Some buf \<Rightarrow> length buf = unat (blob_length d))"

text \<open>The bytes of a blob that is fully initialised.\<close>

definition blob_bytes :: "data_blob \<Rightarrow> u8 list option" where
  "blob_bytes d = (case blob_data d of None \<Rightarrow> Some []
                    | Some buf \<Rightarrow> if None \<in> set buf then None else Some (map the buf))"

definition blob_of :: "u8 list \<Rightarrow> data_blob" where
  "blob_of bs = \<lparr>blob_data = Some (map Some bs), blob_length = of_nat (length bs)\<rparr>"

lemma blob_ok_of: "length bs < 2 ^ 64 \<Longrightarrow> blob_ok (blob_of bs)"
  by (simp add: blob_ok_def blob_of_def unat_of_nat_small)

lemma map_the_Some_store [simp]: "map the (map Some xs) = xs"
  by (induction xs) auto

lemma blob_bytes_of [simp]: "blob_bytes (blob_of bs) = Some bs"
  by (auto simp: blob_bytes_def blob_of_def comp_def)

lemma data_blob_named_ok:
  assumes "data_blob_named p len = Some d" shows "blob_ok d"
  using assms
  by (auto simp: data_blob_named_def blob_ok_def talloc_memdup_def talloc_size_def min_def
      split: if_splits option.splits)

lemma data_blob_clear_ok:
  assumes "blob_ok d"
  shows "\<exists>d'. data_blob_clear d = Some d' \<and> blob_ok d' \<and> blob_length d' = blob_length d \<and>
              blob_bytes d' = Some (replicate (unat (blob_length d)) 0)"
  using assms
  by (auto simp: data_blob_clear_def blob_ok_def blob_bytes_def store_def split: option.splits)

lemma u64_add_wrap_check:
  fixes a b :: u64
  shows "a + b < b \<or> a + b < a \<longleftrightarrow> 2 ^ 64 \<le> unat a + unat b"
proof -
  have "unat (a + b) = (unat a + unat b) mod 2 ^ 64" by (simp add: unat_word_ariths)
  moreover have "unat a < 2 ^ 64" "unat b < 2 ^ 64" using unsigned_less [of a] unsigned_less [of b] by simp_all
  ultimately show ?thesis
    by (cases "unat a + unat b < 2 ^ 64") (auto simp: word_less_nat_alt mod_if)
qed

text \<open>
  Appending to a well-formed, initialised blob: the bytes are concatenated and the blob stays
  well formed, or the request is refused with \<open>NT_STATUS_NO_MEMORY\<close>, which happens exactly when
  the total is 0 or reaches \<open>MAX_TALLOC_SIZE\<close>.
\<close>

lemma data_blob_append_cases:
  assumes ok: "blob_ok d" and bytes: "blob_bytes d = Some bs" and len: "length p < 2 ^ 64"
  shows "\<exists>st d'. data_blob_append d p = Some (st, d') \<and>
     (if length bs + length p = 0 \<or> MAX_TALLOC_SIZE \<le> length bs + length p
      then st = NT_STATUS_NO_MEMORY
      else st = NT_STATUS_OK \<and> blob_ok d' \<and> blob_bytes d' = Some (bs @ p))"
proof -
  let ?len = "of_nat (length p) :: u64"
  have lp: "unat ?len = length p" using len by (simp add: unat_of_nat_small)
  have lb: "unat (blob_length d) = length bs"
    using ok bytes by (auto simp: blob_ok_def blob_bytes_def split: option.splits if_splits)
  show ?thesis
  proof (cases "2 ^ 64 \<le> length bs + length p")
    case True
    then have "blob_length d + ?len < ?len \<or> blob_length d + ?len < blob_length d"
      by (simp only: u64_add_wrap_check lp lb)
    then have "data_blob_append d p = Some (NT_STATUS_NO_MEMORY, d)"
      by (simp only: data_blob_append_def Let_def if_True)
    with True show ?thesis by (simp add: MAX_TALLOC_SIZE_def)
  next
    case False
    then have nowrap: "\<not> (blob_length d + ?len < ?len \<or> blob_length d + ?len < blob_length d)"
      by (simp only: u64_add_wrap_check lp lb) simp
    have sum: "unat (blob_length d + ?len) = length bs + length p"
      using False by (subst unat_add_no_wrap) (simp_all add: lp lb)
    show ?thesis
    proof (cases "length bs + length p = 0 \<or> MAX_TALLOC_SIZE \<le> length bs + length p")
      case True
      then have "talloc_realloc_size (blob_data d) (length bs + length p) = None"
        by (auto simp: talloc_realloc_size_def)
      with True show ?thesis
        using nowrap by (auto simp: data_blob_append_def data_blob_realloc_def sum Let_def nt_status_defs)
    next
      case small: False
      show ?thesis
      proof (cases "blob_data d")
        case None
        with bytes have "bs = []" by (simp add: blob_bytes_def)
        with None small show ?thesis
          using nowrap ok lb
          by (auto simp: data_blob_append_def data_blob_realloc_def sum Let_def nt_status_defs
              talloc_realloc_size_def talloc_size_def store_def blob_ok_def blob_bytes_def lp)
      next
        case (Some buf)
        with ok bytes lb have buf: "length buf = length bs" "None \<notin> set buf" "bs = map the buf"
          by (auto simp: blob_ok_def blob_bytes_def split: if_splits)
        let ?buf' = "buf @ map Some p"
        have "talloc_realloc_size (blob_data d) (length bs + length p) = Some (buf @ replicate (length p) None)"
          using Some small buf(1) by (simp add: talloc_realloc_size_def)
        then have "data_blob_append d p = Some (NT_STATUS_OK,
            d\<lparr>blob_data := Some ?buf', blob_length := blob_length d + ?len\<rparr>)"
          using nowrap buf(1) by (simp add: data_blob_append_def data_blob_realloc_def sum Let_def lb store_def)
        with small buf(1,2) show ?thesis
          by (auto simp: blob_ok_def blob_bytes_def sum buf(3) [symmetric])
      qed
    qed
  qed
qed

end
