(* ===== verification/Packet.thy ===== *)
theory Packet
  imports DataBlob
begin

text \<open>
  Packets on a stream socket, \<open>lib/stream/packet.c\<close>, with the three ways to find the end of a packet that its
  clients use (\<open>librpc/rpc/dcerpc_sock.c\<close> for the remote calls of the WMI client).

  \<^item> The socket is given by what it answers (\<open>socket\<close>); the check for a full packet and the callback that gets the
    packets are arguments.  The callback may change the context, and frees it by setting \<open>pc_destructor_called\<close>.
  \<^item> \<open>pc_timers\<close> counts the immediate events that will call \<open>packet_next_event\<close>; \<open>pc_readable\<close> and \<open>pc_writeable\<close>
    are the flags of the file event.
  \<^item> The two comparisons of a pointer with itself plus an offset in \<open>packet_recv\<close> never hold and are left out.
\<close>

section \<open>Contexts\<close>

record send_element =
  el_blob :: "u8 list"
  el_nsent :: nat
  el_callback :: "nat option"

record 'p packet_context =
  pc_partial :: data_blob
  pc_num_read :: u32
  pc_initial_read :: u32
  pc_sock :: bool
  pc_packet_size :: u64
  pc_serialise :: bool
  pc_processing :: int
  pc_recv_disable :: bool
  pc_busy :: bool
  pc_destructor_called :: bool
  pc_ev :: bool
  pc_readable :: bool
  pc_writeable :: bool
  pc_timers :: nat
  pc_send_queue :: "send_element list"
  pc_private :: 'p

type_synonym full_request = "u8 list \<Rightarrow> u64 \<Rightarrow> ntstatus \<times> u64"
type_synonym 'p packet_callback = "u8 list \<Rightarrow> 'p packet_context \<Rightarrow> ntstatus \<times> 'p packet_context"

record socket =
  sk_pending :: "ntstatus \<times> u64"
  sk_recv :: "u64 \<Rightarrow> ntstatus \<times> u8 list"

datatype outcome = Returned | Failed ntstatus | Freed | Crashed

definition packet_init :: "'p \<Rightarrow> 'p packet_context" where
  "packet_init p = \<lparr>pc_partial = null_blob, pc_num_read = 0, pc_initial_read = 0, pc_sock = False, pc_packet_size = 0,
     pc_serialise = False, pc_processing = 0, pc_recv_disable = False, pc_busy = False, pc_destructor_called = False,
     pc_ev = False, pc_readable = False, pc_writeable = False, pc_timers = 0, pc_send_queue = [], pc_private = p\<rparr>"

definition packet_set_socket :: "'p packet_context \<Rightarrow> 'p packet_context" where
  "packet_set_socket pc = pc\<lparr>pc_sock := True\<rparr>"

definition packet_set_event_context :: "'p packet_context \<Rightarrow> 'p packet_context" where
  "packet_set_event_context pc = pc\<lparr>pc_ev := True\<rparr>"

definition packet_set_serialise :: "'p packet_context \<Rightarrow> 'p packet_context" where
  "packet_set_serialise pc = pc\<lparr>pc_serialise := True\<rparr>"

definition packet_set_initial_read :: "u32 \<Rightarrow> 'p packet_context \<Rightarrow> 'p packet_context" where
  "packet_set_initial_read n pc = pc\<lparr>pc_initial_read := n\<rparr>"

definition packet_destructor :: "'p packet_context \<Rightarrow> int \<times> 'p packet_context" where
  "packet_destructor pc = (if pc_busy pc then (-1, pc\<lparr>pc_destructor_called := True\<rparr>) else (0, pc))"

definition NT_STATUS_END_OF_FILE :: ntstatus where "NT_STATUS_END_OF_FILE = 0xC0000011"
definition NT_STATUS_CONNECTION_DISCONNECTED :: ntstatus where "NT_STATUS_CONNECTION_DISCONNECTED = 0xC000020C"

definition NT_STATUS_IS_ERR :: "ntstatus \<Rightarrow> bool" where
  "NT_STATUS_IS_ERR st \<longleftrightarrow> st AND 0xC0000000 = 0xC0000000"

definition packet_error :: "'p packet_context \<Rightarrow> ntstatus \<Rightarrow> outcome \<times> 'p packet_context" where
  "packet_error pc status = (Failed status, pc\<lparr>pc_sock := False\<rparr>)"

definition packet_eof :: "'p packet_context \<Rightarrow> outcome \<times> 'p packet_context" where
  "packet_eof pc = packet_error pc NT_STATUS_END_OF_FILE"

section \<open>Receiving\<close>

text \<open>The first \<open>n\<close> bytes of a blob; \<open>None\<close> when they are not all there and initialised.\<close>

definition first_bytes :: "data_blob \<Rightarrow> nat \<Rightarrow> u8 list option" where
  "first_bytes d n =
     (case blob_data d of
        None \<Rightarrow> if n = 0 then Some [] else None
      | Some buf \<Rightarrow> if n \<le> length buf \<and> None \<notin> set (take n buf) then Some (map the (take n buf)) else None)"

text \<open>
  Cutting the first packet off: what is left is copied, and the blob for the caller is shortened in place.
  The result is the status of the last allocation, the packet, and the context.
\<close>

definition cut_packet :: "'p packet_context \<Rightarrow> (ntstatus \<times> data_blob \<times> 'p packet_context) option" where
  "cut_packet pc =
     (let blob = (pc_partial pc)\<lparr>blob_length := ucast (pc_num_read pc)\<rparr>;
          rest = ucast (pc_num_read pc) - pc_packet_size pc
      in if pc_packet_size pc < ucast (pc_num_read pc)
         then (case blob_data blob of
                 None \<Rightarrow> None
               | Some buf \<Rightarrow>
                   do { partial \<leftarrow> data_blob_named (Some (drop (unat (pc_packet_size pc)) buf)) rest;
                        let pc = pc\<lparr>pc_partial := partial\<rparr>
                        in if blob_data partial = None then Some (NT_STATUS_NO_MEMORY, blob, pc)
                           else case data_blob_realloc blob (pc_packet_size pc) of (status, blob) \<Rightarrow> Some (status, blob, pc) })
         else Some (NT_STATUS_OK, blob, pc\<lparr>pc_partial := null_blob\<rparr>))"

text \<open>From the cut to the return of the callback.\<close>

definition deliver :: "'p packet_callback \<Rightarrow> data_blob \<Rightarrow> 'p packet_context \<Rightarrow> (ntstatus \<times> 'p packet_context) option" where
  "deliver callback blob pc =
     do { bytes \<leftarrow> first_bytes blob (unat (blob_length blob));
          let pc = pc\<lparr>pc_num_read := pc_num_read pc - ucast (pc_packet_size pc), pc_packet_size := 0\<rparr>;
              pc = (if pc_serialise pc then pc\<lparr>pc_processing := 1\<rparr> else pc)
          in (case callback bytes (pc\<lparr>pc_busy := True\<rparr>) of (status, pc) \<Rightarrow> Some (status, pc\<lparr>pc_busy := False\<rparr>)) }"

definition end_processing :: "'p packet_context \<Rightarrow> 'p packet_context" where
  "end_processing pc =
     (if pc_processing pc \<noteq> 0
      then (if pc_processing pc > 1 then pc\<lparr>pc_readable := True\<rparr> else pc)\<lparr>pc_processing := 0\<rparr>
      else pc)"

partial_function (option) next_partial ::
  "full_request \<Rightarrow> 'p packet_callback \<Rightarrow> 'p packet_context \<Rightarrow> (outcome \<times> 'p packet_context) option" where
  "next_partial full callback pc =
     (case (if blob_length (pc_partial pc) \<noteq> ucast (pc_num_read pc)
            then data_blob_realloc (pc_partial pc) (ucast (pc_num_read pc)) else (NT_STATUS_OK, pc_partial pc)) of
        (status, partial) \<Rightarrow>
      let pc = pc\<lparr>pc_partial := partial\<rparr> in
      if status \<noteq> NT_STATUS_OK then Some (packet_error pc status)
      else case first_bytes (pc_partial pc) (unat (pc_num_read pc)) of
        None \<Rightarrow> Some (Crashed, pc)
      | Some bytes \<Rightarrow>
      (case full bytes (pc_packet_size pc) of
        (status, sz) \<Rightarrow>
      let pc = pc\<lparr>pc_packet_size := sz\<rparr> in
      if NT_STATUS_IS_ERR status then Some (packet_error pc status)
      else if status \<noteq> NT_STATUS_OK then Some (Returned, pc)
      else if pc_packet_size pc > ucast (pc_num_read pc) then Some (packet_error pc NT_STATUS_INVALID_PARAMETER)
      else case cut_packet pc of
        None \<Rightarrow> Some (Crashed, pc)
      | Some (status, blob, pc) \<Rightarrow>
      if status \<noteq> NT_STATUS_OK then Some (packet_error pc status)
      else case deliver callback blob pc of
        None \<Rightarrow> Some (Crashed, pc)
      | Some (status, pc) \<Rightarrow>
      if pc_destructor_called pc then Some (Freed, pc)
      else let pc = end_processing pc in
      if status \<noteq> NT_STATUS_OK then Some (packet_error pc status)
      else if blob_length (pc_partial pc) = 0 then Some (Returned, pc)
      else if \<not> pc_ev pc then next_partial full callback pc
      else case first_bytes (pc_partial pc) (unat (pc_num_read pc)) of
        None \<Rightarrow> Some (Crashed, pc)
      | Some bytes \<Rightarrow>
      (case full bytes (pc_packet_size pc) of
        (status, sz) \<Rightarrow>
      let pc = pc\<lparr>pc_packet_size := sz\<rparr> in
      if NT_STATUS_IS_ERR status then Some (packet_error pc status)
      else if status \<noteq> NT_STATUS_OK then Some (Returned, pc)
      else Some (Returned, pc\<lparr>pc_timers := Suc (pc_timers pc)\<rparr>))))"

text \<open>How much to read.\<close>

definition recv_amount :: "socket \<Rightarrow> 'p packet_context \<Rightarrow> ntstatus \<times> u64" where
  "recv_amount sk pc =
     (if pc_packet_size pc \<noteq> 0 then (NT_STATUS_OK, pc_packet_size pc - ucast (pc_num_read pc))
      else if pc_initial_read pc \<noteq> 0 then (NT_STATUS_OK, ucast (pc_initial_read pc - pc_num_read pc))
      else if pc_sock pc then sk_pending sk
      else (NT_STATUS_CONNECTION_DISCONNECTED, 0))"

definition store_bytes :: "data_blob \<Rightarrow> nat \<Rightarrow> u8 list \<Rightarrow> data_blob option" where
  "store_bytes d pos bs =
     (case blob_data d of
        None \<Rightarrow> None
      | Some buf \<Rightarrow> if pos + length bs \<le> length buf then Some (d\<lparr>blob_data := Some (store buf pos (map Some bs))\<rparr>) else None)"

definition packet_recv ::
  "full_request \<Rightarrow> 'p packet_callback \<Rightarrow> socket \<Rightarrow> 'p packet_context \<Rightarrow> (outcome \<times> 'p packet_context) option" where
  "packet_recv full callback sk pc =
     (if pc_processing pc \<noteq> 0 then Some (Returned, pc\<lparr>pc_readable := False, pc_processing := pc_processing pc + 1\<rparr>)
      else if pc_recv_disable pc then Some (Returned, pc\<lparr>pc_readable := False\<rparr>)
      else if pc_packet_size pc \<noteq> 0 \<and> ucast (pc_num_read pc) \<ge> pc_packet_size pc then next_partial full callback pc
      else case recv_amount sk pc of (status, npending) \<Rightarrow>
        let total = npending + ucast (pc_num_read pc) in
        if status \<noteq> NT_STATUS_OK then Some (packet_error pc status)
        else if npending = 0 then Some (packet_eof pc)
        else if total < npending \<or> total < ucast (pc_num_read pc) then Some (packet_error pc NT_STATUS_INVALID_PARAMETER)
        else case (if total > blob_length (pc_partial pc) then data_blob_realloc (pc_partial pc) total
                   else (NT_STATUS_OK, pc_partial pc)) of (status, partial) \<Rightarrow>
          let pc = pc\<lparr>pc_partial := partial\<rparr> in
          if status \<noteq> NT_STATUS_OK then Some (packet_error pc status)
          else if blob_length (pc_partial pc) < ucast (pc_num_read pc) + npending
          then Some (packet_error pc NT_STATUS_INVALID_PARAMETER)
          else if \<not> pc_sock pc then Some (Crashed, pc)
          else case sk_recv sk npending of (status, bs) \<Rightarrow>
            if NT_STATUS_IS_ERR status then Some (packet_error pc status)
            else if status \<noteq> NT_STATUS_OK then Some (Returned, pc)
            else if bs = [] then Some (packet_eof pc)
            else case store_bytes (pc_partial pc) (unat (pc_num_read pc)) bs of
              None \<Rightarrow> Some (Crashed, pc)
            | Some partial \<Rightarrow>
                next_partial full callback
                  (pc\<lparr>pc_partial := partial, pc_num_read := pc_num_read pc + of_nat (length bs)\<rparr>))"

definition packet_next_event ::
  "full_request \<Rightarrow> 'p packet_callback \<Rightarrow> socket \<Rightarrow> 'p packet_context \<Rightarrow> (outcome \<times> 'p packet_context) option" where
  "packet_next_event full callback sk pc =
     (if pc_num_read pc \<noteq> 0 \<and> pc_packet_size pc \<noteq> 0 \<and> pc_packet_size pc \<le> ucast (pc_num_read pc)
      then packet_recv full callback sk pc else Some (Returned, pc))"

definition packet_recv_disable :: "'p packet_context \<Rightarrow> 'p packet_context" where
  "packet_recv_disable pc = pc\<lparr>pc_readable := False, pc_recv_disable := True\<rparr>"

definition packet_recv_enable :: "'p packet_context \<Rightarrow> 'p packet_context" where
  "packet_recv_enable pc =
     (let pc = pc\<lparr>pc_readable := True, pc_recv_disable := False\<rparr>
      in if pc_num_read pc \<noteq> 0 \<and> pc_packet_size pc \<ge> ucast (pc_num_read pc)
         then pc\<lparr>pc_timers := Suc (pc_timers pc)\<rparr> else pc)"

section \<open>Sending\<close>

text \<open>
  The answers of \<open>socket_send\<close> are given as a list: a status and the room there is; it writes as many of the bytes it
  is given as there is room for.  An answer that is neither success nor an error means that the socket is full, and so
  does the end of the list.  The log holds the bytes that were written and the callbacks that ran.
\<close>

record send_log =
  sl_bytes :: "u8 list"
  sl_callbacks :: "nat list"

fun packet_queue_run :: "(ntstatus \<times> nat) list \<Rightarrow> 'p packet_context \<Rightarrow> send_log \<Rightarrow> outcome \<times> 'p packet_context \<times> send_log" where
  "packet_queue_run answers pc lg =
     (case pc_send_queue pc of
        [] \<Rightarrow> (Returned, pc\<lparr>pc_writeable := False\<rparr>, lg)
      | el # queue \<Rightarrow>
         (case answers of
            [] \<Rightarrow> (Returned, pc, lg)
          | (status, room) # answers \<Rightarrow>
              if NT_STATUS_IS_ERR status then (case packet_error pc status of (r, pc) \<Rightarrow> (r, pc, lg))
              else if status \<noteq> NT_STATUS_OK then (Returned, pc, lg)
              else let blob = drop (el_nsent el) (el_blob el);
                       nwritten = min room (length blob);
                       lg = lg\<lparr>sl_bytes := sl_bytes lg @ take nwritten blob\<rparr>;
                       el = el\<lparr>el_nsent := el_nsent el + nwritten\<rparr>
                   in if el_nsent el = length (el_blob el)
                      then packet_queue_run answers (pc\<lparr>pc_send_queue := queue\<rparr>)
                             (lg\<lparr>sl_callbacks := sl_callbacks lg @ (case el_callback el of None \<Rightarrow> [] | Some k \<Rightarrow> [k])\<rparr>)
                      else packet_queue_run answers (pc\<lparr>pc_send_queue := el # queue\<rparr>) lg))"

declare packet_queue_run.simps [simp del]

definition packet_send_callback :: "u8 list \<Rightarrow> nat option \<Rightarrow> 'p packet_context \<Rightarrow> 'p packet_context" where
  "packet_send_callback blob send_callback pc =
     pc\<lparr>pc_send_queue := pc_send_queue pc @ [\<lparr>el_blob = blob, el_nsent = 0, el_callback = send_callback\<rparr>], pc_writeable := True\<rparr>"

definition packet_send :: "u8 list \<Rightarrow> 'p packet_context \<Rightarrow> 'p packet_context" where
  "packet_send blob pc = packet_send_callback blob None pc"

section \<open>Full packets\<close>

text \<open>The sums of the two lengths with the header are 32 bits wide.\<close>

definition smb_len :: "u8 list \<Rightarrow> u32" where
  "smb_len buf = ucast (buf ! 3) OR push_bit 8 (ucast (buf ! 2)) OR push_bit 16 (ucast (buf ! 1))"

definition packet_full_request_nbt :: full_request where
  "packet_full_request_nbt blob sz =
     (if length blob < 4 then (STATUS_MORE_ENTRIES, sz)
      else let sz = ucast (4 + smb_len blob) in
           if unat sz > length blob then (STATUS_MORE_ENTRIES, sz) else (NT_STATUS_OK, sz))"

definition packet_full_request_u32 :: full_request where
  "packet_full_request_u32 blob sz =
     (case RIVAL blob 0 of
        None \<Rightarrow> (STATUS_MORE_ENTRIES, sz)
      | Some n \<Rightarrow> let sz = ucast (4 + n) in
          if unat sz > length blob then (STATUS_MORE_ENTRIES, sz) else (NT_STATUS_OK, sz))"

definition DCERPC_DREP_OFFSET :: nat where "DCERPC_DREP_OFFSET = 4"
definition DCERPC_FRAG_LEN_OFFSET :: nat where "DCERPC_FRAG_LEN_OFFSET = 8"
definition DCERPC_DREP_LE :: u32 where "DCERPC_DREP_LE = 0x10"

definition dcerpc_get_frag_length :: "u8 list \<Rightarrow> u16 option" where
  "dcerpc_get_frag_length blob =
     do { drep \<leftarrow> CVAL blob DCERPC_DREP_OFFSET;
          v \<leftarrow> (if drep AND DCERPC_DREP_LE \<noteq> 0 then SVAL blob DCERPC_FRAG_LEN_OFFSET
               else RSVAL blob DCERPC_FRAG_LEN_OFFSET);
          Some (ucast v) }"

definition sock_complete_packet :: full_request where
  "sock_complete_packet blob sz =
     (if length blob < DCERPC_FRAG_LEN_OFFSET + 2 then (STATUS_MORE_ENTRIES, sz)
      else case dcerpc_get_frag_length blob of
             None \<Rightarrow> (STATUS_MORE_ENTRIES, sz)
           | Some n \<Rightarrow> let sz = ucast n in
               if unat sz > length blob then (STATUS_MORE_ENTRIES, sz) else (NT_STATUS_OK, sz))"

lemma packet_status [simp]:
  "\<not> NT_STATUS_IS_ERR NT_STATUS_OK" "\<not> NT_STATUS_IS_ERR STATUS_MORE_ENTRIES" "STATUS_MORE_ENTRIES \<noteq> NT_STATUS_OK"
  by (simp_all add: NT_STATUS_IS_ERR_def NT_STATUS_OK_def STATUS_MORE_ENTRIES_def)

section \<open>The send queue\<close>

text \<open>What is still to be written, and which callbacks are still to run.\<close>

definition queue_bytes :: "send_element list \<Rightarrow> u8 list" where
  "queue_bytes q = concat (map (\<lambda>el. drop (el_nsent el) (el_blob el)) q)"

definition queue_callbacks :: "send_element list \<Rightarrow> nat list" where
  "queue_callbacks q = concat (map (\<lambda>el. case el_callback el of None \<Rightarrow> [] | Some k \<Rightarrow> [k]) q)"

lemma queue_simps [simp]:
  "queue_bytes [] = []" "queue_bytes (el # q) = drop (el_nsent el) (el_blob el) @ queue_bytes q"
  "queue_callbacks [] = []"
  "queue_callbacks (el # q) = (case el_callback el of None \<Rightarrow> [] | Some k \<Rightarrow> [k]) @ queue_callbacks q"
  by (simp_all add: queue_bytes_def queue_callbacks_def)

lemma queue_run_invariant:
  "packet_queue_run answers pc lg = (r, pc', lg') \<Longrightarrow>
   sl_bytes lg' @ queue_bytes (pc_send_queue pc') = sl_bytes lg @ queue_bytes (pc_send_queue pc) \<and>
   sl_callbacks lg' @ queue_callbacks (pc_send_queue pc') = sl_callbacks lg @ queue_callbacks (pc_send_queue pc) \<and>
   pc_writeable pc' = (pc_send_queue pc' \<noteq> [] \<and> pc_writeable pc)"
proof (induction answers arbitrary: pc lg)
  case Nil
  then show ?case by (subst (asm) packet_queue_run.simps) (auto split: list.splits)
next
  case (Cons answer answers)
  obtain status room where ans: "answer = (status, room)" by (cases answer)
  show ?case
  proof (cases "pc_send_queue pc")
    case Nil
    with Cons.prems show ?thesis by (subst (asm) packet_queue_run.simps) auto
  next
    case q: (Cons el queue)
    let ?blob = "drop (el_nsent el) (el_blob el)"
    let ?n = "min room (length ?blob)"
    have split: "take ?n ?blob @ drop (el_nsent el + ?n) (el_blob el) = ?blob"
      by (metis add.commute append_take_drop_id drop_drop)
    show ?thesis
    proof (cases "status = NT_STATUS_OK")
      case False
      with Cons.prems q ans show ?thesis
        by (subst (asm) packet_queue_run.simps) (auto simp: packet_error_def split: if_splits)
    next
      case True
      let ?el = "el\<lparr>el_nsent := el_nsent el + ?n\<rparr>" and ?lg = "lg\<lparr>sl_bytes := sl_bytes lg @ take ?n ?blob\<rparr>"
      show ?thesis
      proof (cases "el_nsent el + ?n = length (el_blob el)")
        case full: True
        have "packet_queue_run answers (pc\<lparr>pc_send_queue := queue\<rparr>)
            (?lg\<lparr>sl_callbacks := sl_callbacks lg @ (case el_callback el of None \<Rightarrow> [] | Some k \<Rightarrow> [k])\<rparr>) = (r, pc', lg')"
          using Cons.prems q ans True full by (subst (asm) packet_queue_run.simps) (simp add: Let_def)
        from Cons.IH [OF this] show ?thesis using split q full by simp
      next
        case part: False
        have "packet_queue_run answers (pc\<lparr>pc_send_queue := ?el # queue\<rparr>) ?lg = (r, pc', lg')"
          using Cons.prems q ans True part by (subst (asm) packet_queue_run.simps) (simp add: Let_def)
        from Cons.IH [OF this] show ?thesis
          using arg_cong [OF split, of "\<lambda>x. x @ queue_bytes queue"] q by simp
      qed
    qed
  qed
qed

text \<open>Calls of \<open>socket_send\<close> that are enough when each finds room for a byte.\<close>

definition queue_calls :: "send_element list \<Rightarrow> nat" where
  "queue_calls q = sum_list (map (\<lambda>el. Suc (length (el_blob el) - el_nsent el)) q)"

lemma queue_run_empties:
  "\<lbrakk>list_all (\<lambda>(status, room). status = NT_STATUS_OK \<and> 0 < room) answers;
    list_all (\<lambda>el. el_nsent el \<le> length (el_blob el)) (pc_send_queue pc);
    queue_calls (pc_send_queue pc) \<le> length answers\<rbrakk> \<Longrightarrow>
   \<exists>pc' lg'. packet_queue_run answers pc lg = (Returned, pc', lg') \<and> pc_send_queue pc' = []"
proof (induction answers arbitrary: pc lg)
  case Nil
  then show ?case by (subst packet_queue_run.simps) (cases "pc_send_queue pc"; simp add: queue_calls_def)
next
  case (Cons answer answers)
  obtain status room where ans: "answer = (status, room)" by (cases answer)
  then have ok: "status = NT_STATUS_OK" "0 < room" using Cons.prems(1) by auto
  show ?case
  proof (cases "pc_send_queue pc")
    case Nil
    then show ?thesis by (subst packet_queue_run.simps) simp
  next
    case q: (Cons el queue)
    let ?n = "min room (length (el_blob el) - el_nsent el)"
    let ?el = "el\<lparr>el_nsent := el_nsent el + ?n\<rparr>"
    have le: "el_nsent el \<le> length (el_blob el)" using Cons.prems(2) q by simp
    show ?thesis
    proof (cases "el_nsent el + ?n = length (el_blob el)")
      case True
      then have "\<exists>lg1. packet_queue_run (answer # answers) pc lg = packet_queue_run answers (pc\<lparr>pc_send_queue := queue\<rparr>) lg1"
        using q ans ok by (subst packet_queue_run.simps) (auto simp: Let_def)
      moreover have "queue_calls queue \<le> length answers" using Cons.prems(3) q by (simp add: queue_calls_def)
      ultimately show ?thesis
        using Cons.IH [of "pc\<lparr>pc_send_queue := queue\<rparr>"] Cons.prems(1,2) q by fastforce
    next
      case False
      then have "\<exists>lg1. packet_queue_run (answer # answers) pc lg = packet_queue_run answers (pc\<lparr>pc_send_queue := ?el # queue\<rparr>) lg1"
        using q ans ok by (subst packet_queue_run.simps) (auto simp: Let_def)
      moreover have "queue_calls (?el # queue) \<le> length answers"
        using Cons.prems(3) q ok(2) le False by (simp add: queue_calls_def min_def split: if_splits)
      moreover have "list_all (\<lambda>el. el_nsent el \<le> length (el_blob el)) (?el # queue)" using Cons.prems(2) q by (auto simp: min_def)
      ultimately show ?thesis
        using Cons.IH [of "pc\<lparr>pc_send_queue := ?el # queue\<rparr>"] Cons.prems(1) by fastforce
    qed
  qed
qed

text \<open>C15: The send queue.  Whatever the socket answers, the bytes that were written are followed by those still in the
  queue exactly as they were queued, callbacks run in the order of their packets and only when their packet is
  written, and the interest in write events is dropped exactly when the queue is empty.  When every call finds room
  for a byte, a call for each byte and each packet empties the queue.
\<close>

theorem packet_queue_run_sends:
  assumes "packet_queue_run answers pc lg = (r, pc', lg')"
  shows "sl_bytes lg' @ queue_bytes (pc_send_queue pc') = sl_bytes lg @ queue_bytes (pc_send_queue pc) \<and>
     sl_callbacks lg' @ queue_callbacks (pc_send_queue pc') = sl_callbacks lg @ queue_callbacks (pc_send_queue pc) \<and>
     pc_writeable pc' = (pc_send_queue pc' \<noteq> [] \<and> pc_writeable pc) \<and>
     (list_all (\<lambda>(status, room). status = NT_STATUS_OK \<and> 0 < room) answers \<and>
       list_all (\<lambda>el. el_nsent el \<le> length (el_blob el)) (pc_send_queue pc) \<and>
       queue_calls (pc_send_queue pc) \<le> length answers \<longrightarrow> r = Returned \<and> pc_send_queue pc' = [])"
proof -
  have "r = Returned \<and> pc_send_queue pc' = []"
    if "list_all (\<lambda>(status, room). status = NT_STATUS_OK \<and> 0 < room) answers"
      "list_all (\<lambda>el. el_nsent el \<le> length (el_blob el)) (pc_send_queue pc)" "queue_calls (pc_send_queue pc) \<le> length answers"
    using queue_run_empties [OF that, of lg] assms by auto
  then show ?thesis using queue_run_invariant [OF assms] by blast
qed

definition example_sender :: "unit packet_context" where
  "example_sender = packet_send [3] (packet_send_callback [1, 2] (Some 7) (packet_init ()))"

theorem packet_queue_run_sends_witness:
  "packet_queue_run (replicate 5 (NT_STATUS_OK, 1)) example_sender \<lparr>sl_bytes = [], sl_callbacks = []\<rparr> =
     (Returned, packet_init (), \<lparr>sl_bytes = [1, 2, 3], sl_callbacks = [7]\<rparr>) \<and>
   [1, 2, 3] @ queue_bytes [] = [] @ queue_bytes (pc_send_queue example_sender)"
proof -
  have run: "packet_queue_run (replicate 5 (NT_STATUS_OK, 1)) example_sender \<lparr>sl_bytes = [], sl_callbacks = []\<rparr> =
     (Returned, packet_init (), \<lparr>sl_bytes = [1, 2, 3], sl_callbacks = [7]\<rparr>)" by code_simp
  show ?thesis using packet_queue_run_sends [OF run] run by (simp add: packet_init_def)
qed

section \<open>Two defects\<close>

text \<open>Sizes that wrap.  A 32-bit length near \<open>2^32\<close> makes \<open>packet_full_request_u32\<close> accept a packet that is shorter
  than its own header, and of size 0 for the length \<open>0xFFFFFFFC\<close>; with smaller lengths the packet holds its header.
\<close>

theorem packet_full_request_u32_wraps:
  assumes "4 \<le> length blob" and "RIVAL blob 0 = Some n"
  shows "if n \<ge> 0xFFFFFFFC
     then packet_full_request_u32 blob sz = (NT_STATUS_OK, ucast (n - 0xFFFFFFFC)) \<and> ucast (n - 0xFFFFFFFC) < (4 :: u64)
     else snd (packet_full_request_u32 blob sz) = ucast n + 4 \<and>
          (fst (packet_full_request_u32 blob sz) = NT_STATUS_OK \<longleftrightarrow> unat n + 4 \<le> length blob)"
proof -
  have full: "packet_full_request_u32 blob sz =
      (if unat (ucast (4 + n) :: u64) > length blob then STATUS_MORE_ENTRIES else NT_STATUS_OK, ucast (4 + n))"
    using assms(2) by (simp add: packet_full_request_u32_def Let_def)
  have up: "unat (ucast m :: u64) = unat m" for m :: u32
  proof -
    have "unat m < 2 ^ 32" using unsigned_less [of m] by simp
    then show ?thesis by (simp add: unsigned_ucast_eq take_bit_nat_eq_self)
  qed
  show ?thesis
  proof (cases "n \<ge> 0xFFFFFFFC")
    case True
    have eq: "4 + n = n - 0xFFFFFFFC" by simp
    have "unat (n - 0xFFFFFFFC) = unat n - 0xFFFFFFFC" using True by (simp add: unat_sub)
    moreover have "unat n < 2 ^ 32" using unsigned_less [of n] by simp
    ultimately have small: "unat (n - 0xFFFFFFFC) < 4" by simp
    then have "ucast (n - 0xFFFFFFFC) < (4 :: u64)" by (simp add: word_less_nat_alt up)
    with True show ?thesis using small assms(1) by (simp only: full eq up if_True) simp
  next
    case False
    then have "unat n < 0xFFFFFFFC" by (simp add: word_le_nat_alt)
    then have sum: "unat (4 + n) = 4 + unat n" by (subst unat_add_no_wrap) simp_all
    have "(ucast (4 + n) :: u64) = ucast n + 4"
      by (rule word_unat_eq_iff [THEN iffD2]) (use sum \<open>unat n < 0xFFFFFFFC\<close> in \<open>subst unat_add_no_wrap; simp add: up\<close>)
    moreover from this have "unat (ucast n + 4 :: u64) = unat n + 4" using up [of "4 + n"] sum by simp
    ultimately show ?thesis using False by (simp add: full)
  qed
qed

theorem packet_full_request_u32_wraps_witness:
  "packet_full_request_u32 [0xFF, 0xFF, 0xFF, 0xFD] 0 = (NT_STATUS_OK, 1)"
  using packet_full_request_u32_wraps [of "[0xFF, 0xFF, 0xFF, 0xFD]" "0xFFFFFFFD" 0] by (simp add: RIVAL_be32 le32_def)

text \<open>A lost wake-up.  \<open>packet_recv_enable\<close> compares the wrong way round: when reading is enabled again while the
  buffer holds a complete packet and more, no event is scheduled, although \<open>packet_next_event\<close> would go on with the
  packet; and for a packet that is not complete an event is scheduled that does nothing.
\<close>

theorem packet_recv_enable_loses_packet:
  assumes "pc_packet_size pc \<noteq> 0" and "pc_num_read pc \<noteq> 0" and "pc_processing pc = 0"
  shows "(pc_packet_size pc < ucast (pc_num_read pc) \<longrightarrow>
       pc_timers (packet_recv_enable pc) = pc_timers pc \<and>
       packet_next_event full callback sk (packet_recv_enable pc) = next_partial full callback (packet_recv_enable pc)) \<and>
     (pc_packet_size pc > ucast (pc_num_read pc) \<longrightarrow>
       pc_timers (packet_recv_enable pc) = Suc (pc_timers pc) \<and>
       packet_next_event full callback sk (packet_recv_enable pc) = Some (Returned, packet_recv_enable pc))"
  using assms by (auto simp: packet_recv_enable_def packet_next_event_def packet_recv_def Let_def)

definition no_data :: socket where
  "no_data = \<lparr>sk_pending = (NT_STATUS_OK, 0), sk_recv = (\<lambda>n. (NT_STATUS_OK, []))\<rparr>"

definition two_packets :: "unit packet_context" where
  "two_packets = packet_recv_disable ((packet_init ())\<lparr>pc_partial := blob_of [0, 0, 0, 0, 0, 0, 0, 0], pc_num_read := 8, pc_packet_size := 4\<rparr>)"

theorem packet_recv_enable_loses_packet_witness:
  "pc_timers (packet_recv_enable two_packets) = 0 \<and>
   packet_next_event packet_full_request_nbt (\<lambda>bytes pc. (NT_STATUS_OK, pc)) no_data (packet_recv_enable two_packets) =
     next_partial packet_full_request_nbt (\<lambda>bytes pc. (NT_STATUS_OK, pc)) (packet_recv_enable two_packets)"
  using packet_recv_enable_loses_packet [of two_packets packet_full_request_nbt "\<lambda>bytes pc. (NT_STATUS_OK, pc)" no_data]
  by (simp add: two_packets_def packet_init_def packet_recv_disable_def)

end
