(* ===== verification/PacketStream.thy ===== *)
theory PacketStream
  imports Packet
begin

text \<open>
  What the packet layer of \<open>lib/stream/packet.c\<close> promises: a stream of bytes, arriving in pieces of any size, is cut
  into the packets it consists of, in order, each delivered once.

  \<^item> \<open>frames\<close> is the specification: a stream is a sequence of packets whose size is found in a header of fixed length.
  \<^item> The locale \<open>framing\<close> states what \<open>packet_recv\<close> relies on in a check for full packets; the receiver is proved
    correct in it once, and it is interpreted on \<open>packet_full_request_nbt\<close> and \<open>sock_complete_packet\<close>.
  \<^item> \<open>stream_run\<close> drives a receiver with the events of a program: the socket becomes readable, \<open>socket_recv\<close> has
    nothing after all, a timer fires.
\<close>

section \<open>The specification\<close>

text \<open>
  The complete packets at the start of a stream and what is left; \<open>None\<close> when a packet announces size zero.
\<close>

function frames :: "nat \<Rightarrow> (u8 list \<Rightarrow> nat) \<Rightarrow> u8 list \<Rightarrow> (u8 list list \<times> u8 list) option" where
  "frames hdr sz bs =
     (if length bs < hdr \<or> length bs < sz bs then Some ([], bs)
      else if sz bs = 0 then None
      else map_option (\<lambda>(fs, r). (take (sz bs) bs # fs, r)) (frames hdr sz (drop (sz bs) bs)))"
  by pat_completeness auto
termination by (relation "measure (\<lambda>(hdr, sz, bs). length bs)") auto

declare frames.simps [simp del]

definition nbt_size :: "u8 list \<Rightarrow> nat" where
  "nbt_size bs = 4 + unat (bs ! 3) + 256 * unat (bs ! 2) + 65536 * unat (bs ! 1)"

definition frag_size :: "u8 list \<Rightarrow> nat" where
  "frag_size bs =
     (if bit (bs ! 4) 4 then unat (bs ! 8) + 256 * unat (bs ! 9) else unat (bs ! 9) + 256 * unat (bs ! 8))"

section \<open>Events\<close>

text \<open>The callback of the driver keeps the packets.\<close>

definition log_packet :: "u8 list list packet_callback" where
  "log_packet bytes pc = (NT_STATUS_OK, pc\<lparr>pc_private := pc_private pc @ [bytes]\<rparr>)"

text \<open>
  \<open>Readable p k\<close>: the socket is readable, \<open>socket_pending\<close> says \<open>p\<close> and \<open>socket_recv\<close> gives at most \<open>k\<close> bytes.
  \<open>Again p\<close>: \<open>socket_recv\<close> has nothing.  \<open>Fire\<close>: a timer of the context fires.
\<close>

datatype stream_event = Readable u64 nat | Again u64 | Fire

definition stream_socket :: "u64 \<Rightarrow> u8 list \<Rightarrow> socket" where
  "stream_socket p bs =
     \<lparr>sk_pending = (NT_STATUS_OK, p),
      sk_recv = (\<lambda>n. if bs = [] then (STATUS_MORE_ENTRIES, []) else (NT_STATUS_OK, take (unat n) bs))\<rparr>"

text \<open>How many of the available bytes \<open>packet_recv\<close> takes from the socket.\<close>

definition bytes_taken :: "socket \<Rightarrow> 'p packet_context \<Rightarrow> u8 list \<Rightarrow> nat" where
  "bytes_taken sk pc bs =
     (if pc_packet_size pc \<noteq> 0 \<and> pc_packet_size pc \<le> ucast (pc_num_read pc) then 0
      else min (unat (snd (recv_amount sk pc))) (length bs))"

definition continue_with :: "'i \<Rightarrow> (outcome \<times> 'p packet_context) option \<Rightarrow> ('p packet_context \<times> 'i) option" where
  "continue_with inp r = (case r of Some (Returned, pc) \<Rightarrow> Some (pc, inp) | _ \<Rightarrow> None)"

fun stream_step ::
  "full_request \<Rightarrow> stream_event \<Rightarrow> u8 list list packet_context \<times> u8 list \<Rightarrow> (u8 list list packet_context \<times> u8 list) option" where
  "stream_step full (Readable p k) (pc, inp) =
     (let bs = take k inp; sk = stream_socket p bs
      in continue_with (drop (bytes_taken sk pc bs) inp) (packet_recv full log_packet sk pc))"
| "stream_step full (Again p) (pc, inp) = continue_with inp (packet_recv full log_packet (stream_socket p []) pc)"
| "stream_step full Fire (pc, inp) =
     (if pc_timers pc = 0 then Some (pc, inp)
      else continue_with inp
             (packet_next_event full log_packet (stream_socket 0 []) (pc\<lparr>pc_timers := pc_timers pc - 1\<rparr>)))"

fun stream_run ::
  "full_request \<Rightarrow> stream_event list \<Rightarrow> u8 list list packet_context \<times> u8 list \<Rightarrow>
   (u8 list list packet_context \<times> u8 list) option" where
  "stream_run full [] st = Some st"
| "stream_run full (e # es) st = do { st \<leftarrow> stream_step full e st; stream_run full es st }"

fun event_ok :: "stream_event \<Rightarrow> bool" where
  "event_ok (Readable p k) = (0 < p \<and> unat p + 16 < MAX_TALLOC_SIZE)"
| "event_ok (Again p) = (0 < p \<and> unat p + 16 < MAX_TALLOC_SIZE)"
| "event_ok Fire = True"

section \<open>Buffers\<close>

lemma first_bytes_blob_of: "length bs < 2 ^ 64 \<Longrightarrow> n = length bs \<Longrightarrow> first_bytes (blob_of bs) n = Some bs"
  by (auto simp: first_bytes_def blob_of_def)

lemma first_bytes_length: "first_bytes d n = Some bs \<Longrightarrow> length bs = n"
  by (auto simp: first_bytes_def split: option.splits if_splits)

lemma take_first_bytes: "first_bytes d n = Some bs \<Longrightarrow> blob_data d = Some buf \<Longrightarrow> take n buf = map Some bs"
  by (auto simp: first_bytes_def intro!: nth_equalityI split: if_splits) (metis in_set_conv_nth length_take min.absorb2 nth_take option.exhaust_sel)

lemma fit_partial:
  assumes "blob_ok d" "first_bytes d n = Some bs" "0 < n" "n < MAX_TALLOC_SIZE" "unat w = n"
  shows "(if blob_length d \<noteq> w then data_blob_realloc d w else (NT_STATUS_OK, d)) = (NT_STATUS_OK, blob_of bs)"
proof -
  obtain buf where buf: "blob_data d = Some buf"
    using assms(2,3) by (auto simp: first_bytes_def split: option.splits)
  then have len: "length buf = unat (blob_length d)" "n \<le> length buf" "length bs = n"
    using assms(1,2) first_bytes_length by (auto simp: blob_ok_def first_bytes_def split: if_splits)
  have w: "w = of_nat (length bs)" using assms(5) len(3) by (simp flip: assms(5))
  show ?thesis
  proof (cases "blob_length d = w")
    case True
    then have "n = length buf" using len assms(5) by simp
    then have "buf = map Some bs" using take_first_bytes [OF assms(2) buf] by simp
    then have "d = blob_of bs" using buf True w by (simp add: blob_of_def)
    with True show ?thesis by simp
  next
    case False
    have "talloc_realloc_size (Some buf) (unat w) = Some (map Some bs)"
      using assms(3,4,5) len take_first_bytes [OF assms(2) buf] by (simp add: talloc_realloc_size_def)
    with False show ?thesis using buf by (simp add: data_blob_realloc_def blob_of_def w)
  qed
qed

lemma grow_partial:
  assumes "blob_ok d" "first_bytes d n = Some bs" "n \<le> unat tot" "0 < unat tot" "unat tot < MAX_TALLOC_SIZE"
    and "unat (blob_length d) < MAX_TALLOC_SIZE"
  shows "\<exists>d'. (if tot > blob_length d then data_blob_realloc d tot else (NT_STATUS_OK, d)) = (NT_STATUS_OK, d') \<and>
     blob_ok d' \<and> first_bytes d' n = Some bs \<and> tot \<le> blob_length d' \<and> unat (blob_length d') < MAX_TALLOC_SIZE"
proof (cases "blob_length d < tot")
  case True
  let ?buf = "case blob_data d of None \<Rightarrow> replicate (unat tot) None
                | Some buf \<Rightarrow> take (unat tot) buf @ replicate (unat tot - length buf) None"
  have "talloc_realloc_size (blob_data d) (unat tot) = Some ?buf"
    using assms(4,5) by (auto simp: talloc_realloc_size_def talloc_size_def split: option.splits)
  then have "data_blob_realloc d tot = (NT_STATUS_OK, \<lparr>blob_data = Some ?buf, blob_length = tot\<rparr>)"
    by (simp add: data_blob_realloc_def)
  moreover have "first_bytes \<lparr>blob_data = Some ?buf, blob_length = tot\<rparr> n = Some bs"
    using assms(1,2,3) True by (auto simp: first_bytes_def min_def blob_ok_def split: option.splits if_splits)
  moreover have "blob_ok \<lparr>blob_data = Some ?buf, blob_length = tot\<rparr>"
    using assms(1) True by (auto simp: blob_ok_def word_less_nat_alt split: option.splits)
  ultimately show ?thesis using True assms(5) by auto
next
  case False
  with assms show ?thesis by auto
qed

lemma store_at_end:
  assumes "blob_ok d" "first_bytes d n = Some bs" "n + length xs \<le> unat (blob_length d)" "xs \<noteq> []"
  shows "\<exists>d'. store_bytes d n xs = Some d' \<and> blob_ok d' \<and> blob_length d' = blob_length d \<and>
     first_bytes d' (n + length xs) = Some (bs @ xs)"
proof -
  obtain buf where buf: "blob_data d = Some buf" "length buf = unat (blob_length d)"
    using assms(1,3,4) by (auto simp: blob_ok_def split: option.splits)
  let ?d = "d\<lparr>blob_data := Some (store buf n (map Some xs))\<rparr>"
  have pre: "take n buf = map Some bs" using take_first_bytes [OF assms(2) buf(1)] .
  have len: "length (store buf n (map Some xs)) = length buf" using assms(3) buf(2) by (simp add: store_def)
  have "take (n + length xs) (store buf n (map Some xs)) = map Some (bs @ xs)"
    using assms(3) buf(2) pre first_bytes_length [OF assms(2)] by (simp add: store_def)
  then have "first_bytes ?d (n + length xs) = Some (bs @ xs)"
    using assms(3) buf(2) len by (auto simp: first_bytes_def comp_def)
  moreover have "store_bytes d n xs = Some ?d" using buf assms(3) by (simp add: store_bytes_def)
  ultimately show ?thesis using buf len by (simp add: blob_ok_def)
qed

section \<open>Receivers\<close>

text \<open>A context between two events: nothing is being processed and the socket is in use.\<close>

definition idle :: "'p packet_context \<Rightarrow> bool" where
  "idle pc \<longleftrightarrow> pc_sock pc \<and> pc_processing pc = 0 \<and> \<not> pc_recv_disable pc \<and> \<not> pc_destructor_called pc"

text \<open>\<open>holds bs pc\<close>: the unprocessed bytes of a context are \<open>bs\<close>.\<close>

definition holds :: "u8 list \<Rightarrow> 'p packet_context \<Rightarrow> bool" where
  "holds bs pc \<longleftrightarrow> blob_ok (pc_partial pc) \<and> unat (blob_length (pc_partial pc)) < MAX_TALLOC_SIZE \<and>
     first_bytes (pc_partial pc) (unat (pc_num_read pc)) = Some bs"

lemma holds_num_read:
  assumes "holds bs pc"
  shows "unat (pc_num_read pc) = length bs" "length bs < MAX_TALLOC_SIZE" "pc_num_read pc = of_nat (length bs)"
    "unat (ucast (pc_num_read pc) :: u64) = length bs" "ucast (pc_num_read pc) = (of_nat (length bs) :: u64)"
proof -
  show n: "unat (pc_num_read pc) = length bs"
    using assms first_bytes_length by (auto simp: holds_def)
  show small: "length bs < MAX_TALLOC_SIZE"
    using assms by (auto simp: holds_def first_bytes_def blob_ok_def MAX_TALLOC_SIZE_def split: option.splits if_splits)
  show "pc_num_read pc = of_nat (length bs)" by (simp flip: n)
  show u: "unat (ucast (pc_num_read pc) :: u64) = length bs" 
    using n small by (simp add: unsigned_ucast_eq take_bit_nat_eq_self_iff MAX_TALLOC_SIZE_def)
  show "ucast (pc_num_read pc) = (of_nat (length bs) :: u64)" by (simp flip: u)
qed

text \<open>The context after the packet \<open>f\<close> has been delivered and \<open>rest\<close> is left.\<close>

definition delivered :: "u8 list \<Rightarrow> u8 list \<Rightarrow> u8 list list packet_context \<Rightarrow> u8 list list packet_context" where
  "delivered f rest pc =
     pc\<lparr>pc_partial := (if rest = [] then null_blob else blob_of rest), pc_num_read := of_nat (length rest),
        pc_packet_size := 0, pc_processing := 0, pc_busy := False, pc_private := pc_private pc @ [f]\<rparr>"

lemma delivered_holds: "length rest < MAX_TALLOC_SIZE \<Longrightarrow> holds rest (delivered f rest pc)"
  by (auto simp: holds_def delivered_def first_bytes_blob_of blob_ok_of unat_of_nat_small MAX_TALLOC_SIZE_def first_bytes_def
      blob_ok_def blob_of_def)

lemma delivered_idle: "idle pc \<Longrightarrow> idle (delivered f rest pc)"
  by (simp add: idle_def delivered_def)

text \<open>Cutting off the first packet.\<close>

lemma cut_first:
  assumes "holds bs pc" "pc_partial pc = blob_of bs" "unat (pc_packet_size pc) = n" "0 < n" "n \<le> length bs"
  shows "cut_packet pc = Some (NT_STATUS_OK, blob_of (take n bs),
     pc\<lparr>pc_partial := (if drop n bs = [] then null_blob else blob_of (drop n bs))\<rparr>)"
proof -
  note num = holds_num_read [OF assms(1)]
  have sz: "pc_packet_size pc = of_nat n" by (simp flip: assms(3))
  have blob: "(blob_of bs)\<lparr>blob_length := of_nat (length bs)\<rparr> = blob_of bs" by (simp add: blob_of_def)
  show ?thesis
  proof (cases "n = length bs")
    case True
    then show ?thesis by (simp add: cut_packet_def Let_def blob assms(2) num(5) sz)
  next
    case False
    have small: "length bs < 2 ^ 64" using num(2) by (simp add: MAX_TALLOC_SIZE_def)
    then have less: "pc_packet_size pc < of_nat (length bs)"
      using assms(3,5) False by (simp add: word_less_nat_alt unat_of_nat_small)
    define k where "k = length bs - n"
    have k: "length bs = n + k" "0 < k" using False assms(4,5) by (auto simp: k_def)
    have rest: "of_nat (length bs) - pc_packet_size pc = of_nat k" "unat (of_nat k :: u64) = k"
      using small by (simp_all add: sz k(1) unat_of_nat_small)
    have "data_blob_named (Some (drop n (map Some bs))) (of_nat k) = Some (blob_of (drop n bs))"
      using k num(2) by (simp add: data_blob_named_def talloc_memdup_def rest(2) blob_of_def drop_map)
    moreover have "data_blob_realloc (blob_of bs) (pc_packet_size pc) = (NT_STATUS_OK, blob_of (take n bs))"
      using assms(3-5) num(2)
      by (simp add: data_blob_realloc_def talloc_realloc_size_def blob_of_def take_map sz)
    moreover have "blob_data (blob_of xs) = Some (map Some xs)" for xs by (simp add: blob_of_def)
    ultimately show ?thesis
      using less k(2) assms(3) by (simp add: cut_packet_def Let_def blob assms(2) num(5) rest(1) k_def)
  qed
qed

section \<open>Checks for full packets\<close>

text \<open>
  What \<open>packet_recv\<close> needs: with less than a header the check asks for more and keeps the size it was given; with a
  header the size depends on it alone, and the packet is complete when its bytes are there.
\<close>

locale framing =
  fixes full :: full_request and hdr :: nat and sz :: "u8 list \<Rightarrow> nat"
  assumes header: "0 < hdr" "hdr \<le> 16"
    and short: "length bs < hdr \<Longrightarrow> full bs s = (STATUS_MORE_ENTRIES, s)"
    and long: "hdr \<le> length bs \<Longrightarrow>
      full bs s = (if length bs < sz bs then STATUS_MORE_ENTRIES else NT_STATUS_OK, of_nat (sz bs))"
    and size_prefix: "hdr \<le> length bs \<Longrightarrow> sz (bs @ x) = sz bs"
    and size_small: "sz bs < MAX_TALLOC_SIZE"
begin

abbreviation split_stream :: "u8 list \<Rightarrow> (u8 list list \<times> u8 list) option" where
  "split_stream \<equiv> frames hdr sz"

text \<open>The size the check leaves behind.\<close>

definition known_size :: "u8 list \<Rightarrow> u64" where
  "known_size bs = (if length bs < hdr then 0 else of_nat (sz bs))"

lemma unat_size: "unat (of_nat (sz bs) :: u64) = sz bs"
  using size_small [of bs] by (simp add: unat_of_nat_small MAX_TALLOC_SIZE_def)

text \<open>The two ways a stream can go on.\<close>

lemma frames_partial: "length bs < hdr \<or> length bs < sz bs \<Longrightarrow> split_stream bs = Some ([], bs)"
  by (subst frames.simps) simp

lemma frames_full:
  "\<lbrakk>hdr \<le> length bs; sz bs \<le> length bs; sz bs \<noteq> 0\<rbrakk> \<Longrightarrow>
   split_stream bs = map_option (\<lambda>(fs, r). (take (sz bs) bs # fs, r)) (split_stream (drop (sz bs) bs))"
  by (subst frames.simps) simp

lemma frames_cases:
  assumes "split_stream bs = Some (fs, r)"
  obtains (partial) "length bs < hdr \<or> length bs < sz bs" "fs = []" "r = bs"
  | (full) fs' where "hdr \<le> length bs" "sz bs \<le> length bs" "sz bs \<noteq> 0" "fs = take (sz bs) bs # fs'"
      "split_stream (drop (sz bs) bs) = Some (fs', r)"
  using assms by (subst (asm) frames.simps) (auto split: if_splits)

lemma frames_append:
  "split_stream bs = Some (fs, r) \<Longrightarrow>
   split_stream (bs @ x) = map_option (\<lambda>(gs, r'). (fs @ gs, r')) (split_stream (r @ x))"
proof (induction "length bs" arbitrary: bs fs rule: less_induct)
  case less
  from less.prems show ?case
  proof (cases rule: frames_cases)
    case partial
    then show ?thesis by (cases "split_stream (r @ x)") auto
  next
    case (full fs')
    have "split_stream (drop (sz bs) bs @ x) = map_option (\<lambda>(gs, r'). (fs' @ gs, r')) (split_stream (r @ x))"
      using full header by (intro less.hyps) auto
    then show ?thesis
      using full frames_full [of "bs @ x"] size_prefix [of bs x] by (cases "split_stream (r @ x)") auto
  qed
qed

lemma frames_rest_partial: "split_stream bs = Some (fs, r) \<Longrightarrow> length r < hdr \<or> length r < sz r"
proof (induction "length bs" arbitrary: bs fs rule: less_induct)
  case less
  from less.prems show ?case
    by (cases rule: frames_cases) (use less.hyps header in \<open>force+\<close>)
qed

lemma frames_concat: "split_stream bs = Some (fs, r) \<Longrightarrow> concat fs @ r = bs"
proof (induction "length bs" arbitrary: bs fs rule: less_induct)
  case less
  from less.prems show ?case
    by (cases rule: frames_cases) (use less.hyps header in \<open>force+\<close>)
qed

end

lemma deliver_log:
  assumes "length f < 2 ^ 64"
  shows "deliver log_packet (blob_of f) pc = Some (NT_STATUS_OK,
     pc\<lparr>pc_num_read := pc_num_read pc - ucast (pc_packet_size pc), pc_packet_size := 0,
        pc_processing := (if pc_serialise pc then 1 else pc_processing pc), pc_busy := False,
        pc_private := pc_private pc @ [f]\<rparr>)"
  using assms by (simp add: deliver_def log_packet_def blob_of_def first_bytes_def unat_of_nat_small Let_def comp_def)

context framing
begin

lemma full_partial:
  "length bs < hdr \<or> length bs < sz bs \<Longrightarrow> s = 0 \<or> s = known_size bs \<or> hdr \<le> length bs \<Longrightarrow>
   full bs s = (STATUS_MORE_ENTRIES, known_size bs)"
  using short [of bs s] long [of bs s] by (auto simp: known_size_def)

lemma full_complete:
  "hdr \<le> length bs \<Longrightarrow> sz bs \<le> length bs \<Longrightarrow> full bs s = (NT_STATUS_OK, of_nat (sz bs))"
  using long [of bs s] by simp

lemma next_partial_waits:
  assumes "holds bs pc" "bs \<noteq> []" "length bs < hdr \<or> length bs < sz bs"
    and "pc_packet_size pc = 0 \<or> hdr \<le> length bs"
  shows "next_partial full callback pc = Some (Returned, pc\<lparr>pc_partial := blob_of bs, pc_packet_size := known_size bs\<rparr>)"
proof -
  note num = holds_num_read [OF assms(1)]
  have fit: "(if blob_length (pc_partial pc) \<noteq> ucast (pc_num_read pc)
       then data_blob_realloc (pc_partial pc) (ucast (pc_num_read pc)) else (NT_STATUS_OK, pc_partial pc)) =
     (NT_STATUS_OK, blob_of bs)"
    by (rule fit_partial) (use assms(1,2) num in \<open>auto simp: holds_def\<close>)
  have "first_bytes (blob_of bs) (unat (pc_num_read pc)) = Some bs"
    using num by (intro first_bytes_blob_of) (auto simp: MAX_TALLOC_SIZE_def)
  then show ?thesis
    using full_partial [OF assms(3), of "pc_packet_size pc"] assms(4)
    by (subst next_partial.simps) (auto simp: fit Let_def)
qed

lemma next_partial_delivers:
  assumes "holds bs pc" "idle pc" "hdr \<le> length bs" "sz bs \<le> length bs" "sz bs \<noteq> 0"
  defines "rest \<equiv> drop (sz bs) bs"
  defines "pc1 \<equiv> delivered (take (sz bs) bs) rest pc"
  shows "next_partial full log_packet pc =
     (if rest = [] then Some (Returned, pc1)
      else if \<not> pc_ev pc then next_partial full log_packet pc1
      else if length rest < hdr \<or> length rest < sz rest then Some (Returned, pc1\<lparr>pc_packet_size := known_size rest\<rparr>)
      else Some (Returned, pc1\<lparr>pc_packet_size := known_size rest, pc_timers := Suc (pc_timers pc)\<rparr>))"
proof -
  note num = holds_num_read [OF assms(1)]
  have ne: "0 < unat (pc_num_read pc)" using assms(3) header num(1) by (cases bs) auto
  have fit: "(if blob_length (pc_partial pc) \<noteq> ucast (pc_num_read pc)
       then data_blob_realloc (pc_partial pc) (ucast (pc_num_read pc)) else (NT_STATUS_OK, pc_partial pc)) =
     (NT_STATUS_OK, blob_of bs)"
    by (rule fit_partial) (use assms(1) ne num in \<open>auto simp: holds_def\<close>)
  have fb: "first_bytes (blob_of bs) (unat (pc_num_read pc)) = Some bs"
    using num by (intro first_bytes_blob_of) (auto simp: MAX_TALLOC_SIZE_def)
  let ?pc = "pc\<lparr>pc_partial := blob_of bs, pc_packet_size := of_nat (sz bs)\<rparr>"
  have "holds bs ?pc" using num fb by (simp add: holds_def blob_ok_of MAX_TALLOC_SIZE_def) (simp add: blob_of_def unat_of_nat_small)
  then have cut: "cut_packet ?pc = Some (NT_STATUS_OK, blob_of (take (sz bs) bs),
      ?pc\<lparr>pc_partial := (if rest = [] then null_blob else blob_of rest)\<rparr>)"
    unfolding rest_def by (rule cut_first) (use assms(4,5) in \<open>simp_all add: unat_size\<close>)
  have len: "length bs = sz bs + length rest" using assms(4) by (simp add: rest_def)
  have left: "pc_num_read pc - ucast (of_nat (sz bs) :: u64) = of_nat (length rest)"
    using num(3) len size_small [of bs]
    by (simp add: unsigned_of_nat take_bit_nat_eq_self MAX_TALLOC_SIZE_def)
  have le: "\<not> of_nat (sz bs) > (ucast (pc_num_read pc) :: u64)"
    using assms(4) by (simp add: word_less_nat_alt unat_size num(4))
  have "deliver log_packet (blob_of (take (sz bs) bs)) (?pc\<lparr>pc_partial := (if rest = [] then null_blob else blob_of rest)\<rparr>) =
      Some (NT_STATUS_OK, pc1\<lparr>pc_processing := (if pc_serialise pc then 1 else pc_processing pc)\<rparr>)"
    using num(2) left by (subst deliver_log) (simp_all add: pc1_def delivered_def MAX_TALLOC_SIZE_def)
  moreover have "end_processing (pc1\<lparr>pc_processing := (if pc_serialise pc then 1 else pc_processing pc)\<rparr>) = pc1"
    using assms(2) by (simp add: end_processing_def pc1_def delivered_def idle_def)
  moreover have "\<not> pc_destructor_called pc1" "pc_ev pc1 = pc_ev pc" "pc_packet_size pc1 = 0" "pc_timers pc1 = pc_timers pc"
    "pc_partial pc1 = (if rest = [] then null_blob else blob_of rest)"
    using assms(2) by (simp_all add: pc1_def delivered_def idle_def)
  moreover have "first_bytes (pc_partial pc1) (unat (pc_num_read pc1)) = Some rest"
    using delivered_holds [of rest "take (sz bs) bs" pc] num(2) len by (simp add: holds_def pc1_def)
  moreover have "blob_length (blob_of rest) = 0 \<longleftrightarrow> rest = []"
  proof -
    have "unat (blob_length (blob_of rest)) = length rest"
      using num(2) len by (simp add: blob_of_def unat_of_nat_small MAX_TALLOC_SIZE_def)
    then show ?thesis by (metis length_0_conv unat_eq_zero)
  qed
  ultimately show ?thesis
    using full_complete [OF assms(3,4), of "pc_packet_size pc"] full_complete [of rest 0] full_partial [of rest 0] le
    by (subst next_partial.simps)
      (cases "rest = []"; cases "pc_ev pc"; cases "length rest < hdr"; cases "length rest < sz rest";
        simp add: fit fb cut Let_def known_size_def)
qed

end

section \<open>The receiver is correct\<close>

text \<open>
  Work that is left: every read moves bytes from the stream to the buffer, every delivery takes a packet out of the
  buffer and starts at most one timer.
\<close>

definition buffered_work :: "'p packet_context \<Rightarrow> nat" where
  "buffered_work pc = 2 * unat (pc_num_read pc) + pc_timers pc"

definition work :: "'p packet_context \<times> u8 list \<Rightarrow> nat" where
  "work st = 4 * length (snd st) + buffered_work (fst st)"

definition enabled :: "stream_event \<Rightarrow> 'p packet_context \<times> u8 list \<Rightarrow> bool" where
  "enabled e st = (case e of Readable p k \<Rightarrow> 0 < k \<and> snd st \<noteq> [] | Again p \<Rightarrow> False | Fire \<Rightarrow> 0 < pc_timers (fst st))"

lemma holds_partial:
  "holds bs pc \<Longrightarrow> holds bs (pc\<lparr>pc_partial := blob_of bs, pc_packet_size := s\<rparr>)"
  using holds_num_read(1,2) [of bs pc]
  by (simp add: holds_def first_bytes_blob_of blob_ok_of MAX_TALLOC_SIZE_def) (simp add: blob_of_def unat_of_nat_small)

lemma holds_cong [simp]:
  "holds bs (pc\<lparr>pc_packet_size := s\<rparr>) = holds bs pc" "holds bs (pc\<lparr>pc_timers := n\<rparr>) = holds bs pc"
  "idle (pc\<lparr>pc_packet_size := s\<rparr>) = idle pc" "idle (pc\<lparr>pc_timers := n\<rparr>) = idle pc"
  "idle (pc\<lparr>pc_partial := d\<rparr>) = idle pc" "idle (pc\<lparr>pc_num_read := m\<rparr>) = idle pc"
  by (simp_all add: holds_def idle_def)

context framing
begin

text \<open>A context with the complete packets \<open>qs\<close> in its buffer, followed by \<open>r\<close>.\<close>

definition buffers :: "u8 list list \<Rightarrow> u8 list \<Rightarrow> 'p packet_context \<Rightarrow> bool" where
  "buffers qs r pc \<longleftrightarrow> idle pc \<and> (pc_initial_read pc \<noteq> 0 \<longrightarrow> hdr \<le> unat (pc_initial_read pc) \<and> unat (pc_initial_read pc) < MAX_TALLOC_SIZE) \<and>
     (\<exists>bs. holds bs pc \<and> split_stream bs = Some (qs, r) \<and> pc_packet_size pc = known_size bs)"

definition receives :: "u8 list list \<Rightarrow> u8 list \<Rightarrow> 'p packet_context \<Rightarrow> bool" where
  "receives qs r pc \<longleftrightarrow> buffers qs r pc \<and> (qs \<noteq> [] \<longrightarrow> 0 < pc_timers pc)"

lemma known_size_ready:
  assumes "split_stream bs = Some (fs, r)"
  shows "known_size bs \<noteq> 0 \<and> unat (known_size bs) \<le> length bs \<longleftrightarrow> fs \<noteq> []"
proof -
  have "(of_nat (sz bs) :: u64) = 0 \<longleftrightarrow> sz bs = 0"
    unfolding unat_eq_zero [symmetric] unat_size by (rule refl)
  from assms this show ?thesis by (cases rule: frames_cases) (auto simp: known_size_def unat_size)
qed

lemma next_partial_receives:
  assumes "holds bs pc" "idle pc" "bs \<noteq> []" "split_stream bs = Some (fs, r)" "pc_packet_size pc = 0 \<or> hdr \<le> length bs"
    and "pc_initial_read pc \<noteq> 0 \<longrightarrow> hdr \<le> unat (pc_initial_read pc) \<and> unat (pc_initial_read pc) < MAX_TALLOC_SIZE"
  shows "\<exists>pc' ds qs. next_partial full log_packet pc = Some (Returned, pc') \<and> fs = ds @ qs \<and> receives qs r pc' \<and>
     pc_private pc' = pc_private pc @ ds \<and> buffered_work pc' \<le> buffered_work pc \<and>
     (fs \<noteq> [] \<longrightarrow> buffered_work pc' < buffered_work pc)"
  using assms
proof (induction "length bs" arbitrary: bs fs pc rule: less_induct)
  case less
  note num = holds_num_read [OF less.prems(1)]
  from less.prems(4) show ?case
  proof (cases rule: frames_cases)
    case partial
    have "receives [] r (pc\<lparr>pc_partial := blob_of bs, pc_packet_size := known_size bs\<rparr>)"
      using less.prems(2,4,6) partial holds_partial [OF less.prems(1)] by (auto simp: receives_def buffers_def)
    then show ?thesis
      using next_partial_waits [OF less.prems(1,3) partial(1) less.prems(5)] partial(2) by (auto simp: buffered_work_def)
  next
    case (full fs')
    let ?f = "take (sz bs) bs" and ?rest = "drop (sz bs) bs"
    let ?pc = "delivered ?f ?rest pc"
    note step = next_partial_delivers [OF less.prems(1,2) full(1-3)]
    have pc: "holds ?rest ?pc" "idle ?pc" "pc_private ?pc = pc_private pc @ [?f]" "pc_packet_size ?pc = 0"
      "pc_initial_read ?pc = pc_initial_read pc" "pc_timers ?pc = pc_timers pc"
      using num(2) less.prems(2) by (simp_all add: delivered_holds delivered_idle) (simp_all add: delivered_def)
    have drop: "buffered_work ?pc + 2 \<le> buffered_work pc"
      using full(1-3) num(1) holds_num_read(1) [OF pc(1)] by (simp add: buffered_work_def) (simp add: delivered_def)
    show ?thesis
    proof (cases "?rest \<noteq> [] \<and> \<not> pc_ev pc")
      case True
      have "length ?rest < length bs" using full(1-3) header by simp
      from less.hyps [OF this pc(1,2) _ full(5)] True pc less.prems(6)
      obtain pc' ds qs where "next_partial full log_packet ?pc = Some (Returned, pc')" "fs' = ds @ qs" "receives qs r pc'"
        "pc_private pc' = pc_private ?pc @ ds" "buffered_work pc' \<le> buffered_work ?pc" by auto
      then show ?thesis using step True full(4) drop pc(3) by (intro exI [of _ pc'] exI [of _ "?f # ds"] exI [of _ qs]) auto
    next
      case False
      define k where "k = (if ?rest = [] \<or> length ?rest < hdr \<or> length ?rest < sz ?rest then pc_timers pc else Suc (pc_timers pc))"
      let ?pc' = "?pc\<lparr>pc_packet_size := known_size ?rest, pc_timers := k\<rparr>"
      have "next_partial full log_packet pc = Some (Returned, ?pc')"
        using step False header by (auto simp: k_def known_size_def delivered_def)
      moreover have "receives fs' r ?pc'"
        using pc full(5) less.prems(6) frames_partial [of ?rest] header
        by (auto simp: receives_def buffers_def k_def)
      moreover have "buffered_work ?pc' < buffered_work pc"
        using drop pc(6) by (simp add: buffered_work_def k_def)
      ultimately show ?thesis using full(4) pc(3)
        by (intro exI [of _ ?pc'] exI [of _ "[?f]"] exI [of _ fs']) auto
    qed
  qed
qed

end

context framing
begin

lemma buffers_partial:
  assumes "buffers [] r pc"
  shows "holds r pc" "length r < hdr \<or> length r < sz r" "pc_packet_size pc = known_size r"
proof -
  obtain bs where bs: "holds bs pc" "split_stream bs = Some ([], r)" "pc_packet_size pc = known_size bs"
    using assms by (auto simp: buffers_def)
  from bs(2) show "holds r pc" "length r < hdr \<or> length r < sz r" "pc_packet_size pc = known_size r"
    by (cases rule: frames_cases; use bs in auto)+
qed

text \<open>A packet that is not complete makes \<open>packet_recv\<close> ask for at least one byte.\<close>

lemma recv_amount_bounds:
  assumes b: "buffers [] r pc" and p: "0 < p" "unat p + 16 < MAX_TALLOC_SIZE"
  shows "\<exists>n. recv_amount (stream_socket p bs) pc = (NT_STATUS_OK, n) \<and> 0 < unat n \<and> unat n + length r < MAX_TALLOC_SIZE"
proof -
  note part = buffers_partial [OF b]
  note num = holds_num_read [OF part(1)]
  have init: "pc_sock pc" "pc_initial_read pc \<noteq> 0 \<longrightarrow> hdr \<le> unat (pc_initial_read pc) \<and> unat (pc_initial_read pc) < MAX_TALLOC_SIZE"
    using b by (auto simp: buffers_def idle_def)
  show ?thesis
  proof (cases "length r < hdr")
    case True
    then have zero: "pc_packet_size pc = 0" by (simp add: part(3) known_size_def)
    show ?thesis
    proof (cases "pc_initial_read pc = 0")
      case True
      then show ?thesis
        using zero init p \<open>length r < hdr\<close> header by (simp add: recv_amount_def stream_socket_def word_less_nat_alt)
    next
      case False
      then have le: "length r < unat (pc_initial_read pc)" "unat (pc_initial_read pc) < MAX_TALLOC_SIZE"
        using init True by auto
      then have "unat (pc_initial_read pc - pc_num_read pc) = unat (pc_initial_read pc) - length r"
        using num(1) by (simp add: unat_sub word_le_nat_alt)
      then have "unat (ucast (pc_initial_read pc - pc_num_read pc) :: u64) = unat (pc_initial_read pc) - length r"
        using le(2) by (simp add: unsigned_ucast_eq take_bit_nat_eq_self MAX_TALLOC_SIZE_def)
      then show ?thesis using zero False le by (auto simp: recv_amount_def)
    qed
  next
    case False
    then have more: "length r < sz r" and size: "pc_packet_size pc = of_nat (sz r)" using part(2,3) by (auto simp: known_size_def)
    have "unat (pc_packet_size pc - ucast (pc_num_read pc)) = sz r - length r"
      using more unat_size [of r] num(4) by (simp add: size unat_sub word_le_nat_alt)
    moreover have "pc_packet_size pc \<noteq> 0" using more unat_size [of r] by (auto simp: size)
    ultimately show ?thesis using more size_small [of r] by (simp add: recv_amount_def)
  qed
qed

end

context framing
begin

lemma recv_ready:
  assumes "buffers qs r pc" "qs \<noteq> []"
  shows "\<exists>pc' ds qs'. packet_recv full log_packet sk pc = Some (Returned, pc') \<and> qs = ds @ qs' \<and> receives qs' r pc' \<and>
     pc_private pc' = pc_private pc @ ds \<and> buffered_work pc' < buffered_work pc"
    and "pc_num_read pc \<noteq> 0 \<and> pc_packet_size pc \<noteq> 0 \<and> pc_packet_size pc \<le> ucast (pc_num_read pc)"
proof -
  obtain bs where bs: "holds bs pc" "idle pc" "split_stream bs = Some (qs, r)" "pc_packet_size pc = known_size bs"
    and init: "pc_initial_read pc \<noteq> 0 \<longrightarrow> hdr \<le> unat (pc_initial_read pc) \<and> unat (pc_initial_read pc) < MAX_TALLOC_SIZE"
    using assms(1) by (auto simp: buffers_def)
  note num = holds_num_read [OF bs(1)]
  have ready: "known_size bs \<noteq> 0" "unat (known_size bs) \<le> length bs"
    using known_size_ready [OF bs(3)] assms(2) by auto
  have long: "bs \<noteq> []" "hdr \<le> length bs"
    using ready(1) header by (auto simp: known_size_def split: if_splits)
  then show size: "pc_num_read pc \<noteq> 0 \<and> pc_packet_size pc \<noteq> 0 \<and> pc_packet_size pc \<le> ucast (pc_num_read pc)"
    using ready num(1,4) by (auto simp: bs(4) word_le_nat_alt)
  then have "packet_recv full log_packet sk pc = next_partial full log_packet pc"
    using bs(2) by (simp add: packet_recv_def idle_def)
  with next_partial_receives [OF bs(1,2) long(1) bs(3) _ init] long(2) assms(2)
  show "\<exists>pc' ds qs'. packet_recv full log_packet sk pc = Some (Returned, pc') \<and> qs = ds @ qs' \<and> receives qs' r pc' \<and>
     pc_private pc' = pc_private pc @ ds \<and> buffered_work pc' < buffered_work pc"
    by auto
qed

lemma recv_waiting:
  assumes "buffers [] r pc"
  shows "\<not> (pc_packet_size pc \<noteq> 0 \<and> pc_packet_size pc \<le> ucast (pc_num_read pc))"
proof -
  note part = buffers_partial [OF assms]
  have "split_stream r = Some ([], r)" using part(2) by (rule frames_partial)
  with known_size_ready [of r "[]" r] show ?thesis
    using holds_num_read(4) [OF part(1)] by (auto simp: part(3) word_le_nat_alt)
qed

text \<open>The read itself: the buffer grows, and the bytes go behind those that are there.\<close>

lemma packet_recv_reads:
  fixes xs :: "u8 list"
  assumes b: "buffers [] r pc" and p: "0 < p" "unat p + 16 < MAX_TALLOC_SIZE"
  defines "ys \<equiv> take (bytes_taken (stream_socket p xs) pc xs) xs"
  shows "\<exists>d. holds (r @ ys) (pc\<lparr>pc_partial := d, pc_num_read := pc_num_read pc + of_nat (length ys)\<rparr>) \<and>
     packet_recv full log_packet (stream_socket p xs) pc =
       (if xs = [] then Some (Returned, pc\<lparr>pc_partial := d\<rparr>)
        else next_partial full log_packet (pc\<lparr>pc_partial := d, pc_num_read := pc_num_read pc + of_nat (length ys)\<rparr>))"
    and "xs \<noteq> [] \<Longrightarrow> ys \<noteq> []"
proof -
  note part = buffers_partial [OF b]
  note num = holds_num_read [OF part(1)]
  obtain n where n: "recv_amount (stream_socket p xs) pc = (NT_STATUS_OK, n)" "0 < unat n" "unat n + length r < MAX_TALLOC_SIZE"
    using recv_amount_bounds [OF b p] by auto
  have ys: "ys = take (unat n) xs"
    using recv_waiting [OF b] n(1) by (auto simp: ys_def bytes_taken_def min_def)
  then show "xs \<noteq> [] \<Longrightarrow> ys \<noteq> []" using n(2) by (cases xs) auto
  let ?tot = "n + ucast (pc_num_read pc)"
  have tot: "unat ?tot = unat n + length r"
    using n(3) num(4) by (subst unat_add_no_wrap) (auto simp: MAX_TALLOC_SIZE_def)
  have nowrap: "\<not> (?tot < n \<or> ?tot < ucast (pc_num_read pc))"
    using tot num(4) by (simp add: word_less_nat_alt)
  have "holds r pc" by (fact part(1))
  then obtain d where grown:
    "(if ?tot > blob_length (pc_partial pc) then data_blob_realloc (pc_partial pc) ?tot else (NT_STATUS_OK, pc_partial pc)) =
      (NT_STATUS_OK, d)"
    and d: "blob_ok d" "first_bytes d (unat (pc_num_read pc)) = Some r" "?tot \<le> blob_length d"
      "unat (blob_length d) < MAX_TALLOC_SIZE"
    using grow_partial [of "pc_partial pc" "unat (pc_num_read pc)" r ?tot] n(2,3) num(1) tot by (auto simp: holds_def)
  have idle: "idle pc" using b by (simp add: buffers_def)
  have recv: "packet_recv full log_packet (stream_socket p xs) pc =
     (if xs = [] then Some (Returned, pc\<lparr>pc_partial := d\<rparr>)
      else case store_bytes d (unat (pc_num_read pc)) ys of
        None \<Rightarrow> Some (Crashed, pc\<lparr>pc_partial := d\<rparr>)
      | Some d \<Rightarrow> next_partial full log_packet (pc\<lparr>pc_partial := d, pc_num_read := pc_num_read pc + of_nat (length ys)\<rparr>))"
  proof -
    have wait: "(pc_packet_size pc \<noteq> 0 \<and> pc_packet_size pc \<le> ucast (pc_num_read pc)) = False" using recv_waiting [OF b] by blast
    have nz: "(n = 0) = False" "(?tot < n \<or> ?tot < ucast (pc_num_read pc)) = False"
      "(blob_length d < ucast (pc_num_read pc) + n) = False"
      using n(2) nowrap d(3) by (auto simp: add.commute)
    have sock: "sk_recv (stream_socket p xs) n = (if xs = [] then (STATUS_MORE_ENTRIES, []) else (NT_STATUS_OK, ys))"
      by (simp add: stream_socket_def ys)
    have ne: "xs \<noteq> [] \<Longrightarrow> ys \<noteq> []" using n(2) by (cases xs) (auto simp: ys)
    show ?thesis
      using idle ne unfolding packet_recv_def idle_def Let_def n(1) wait prod.case nz grown sock
      by (cases "xs = []") (simp_all add: nz cong: option.case_cong)
  qed
  show "\<exists>d. holds (r @ ys) (pc\<lparr>pc_partial := d, pc_num_read := pc_num_read pc + of_nat (length ys)\<rparr>) \<and>
     packet_recv full log_packet (stream_socket p xs) pc =
       (if xs = [] then Some (Returned, pc\<lparr>pc_partial := d\<rparr>)
        else next_partial full log_packet (pc\<lparr>pc_partial := d, pc_num_read := pc_num_read pc + of_nat (length ys)\<rparr>))"
  proof (cases "xs = []")
    case True
    then have "ys = []" by (simp add: ys)
    with True d recv show ?thesis by (auto simp: holds_def)
  next
    case False
    have len: "length ys \<le> unat n" by (simp add: ys)
    then have fits: "unat (pc_num_read pc) + length ys \<le> unat (blob_length d)"
      using d(3) tot num(1) by (simp add: word_le_nat_alt)
    have "ys \<noteq> []" using False n(2) by (cases xs) (auto simp: ys)
    then obtain d' where d': "store_bytes d (unat (pc_num_read pc)) ys = Some d'" "blob_ok d'" "blob_length d' = blob_length d"
      "first_bytes d' (unat (pc_num_read pc) + length ys) = Some (r @ ys)"
      using store_at_end [OF d(1,2) fits] by blast
    have "unat (pc_num_read pc + of_nat (length ys)) = unat (pc_num_read pc) + length ys"
      using len n(3) num(1) by (subst unat_add_no_wrap) (auto simp: unat_of_nat_small MAX_TALLOC_SIZE_def)
    with d' d(4) recv False show ?thesis by (auto simp: holds_def)
  qed
qed

end

context framing
begin

text \<open>The state of a receiver after the stream \<open>inp0\<close> has been read up to \<open>inp\<close>.\<close>

definition stream_inv :: "u8 list \<Rightarrow> u8 list list packet_context \<times> u8 list \<Rightarrow> bool" where
  "stream_inv inp0 st \<longleftrightarrow>
     (\<exists>c qs r. inp0 = c @ snd st \<and> split_stream c = Some (pc_private (fst st) @ qs, r) \<and> receives qs r (fst st))"

lemma frames_prefix_defined: "split_stream (c @ x) \<noteq> None \<Longrightarrow> split_stream c \<noteq> None"
proof (induction "length c" arbitrary: c rule: less_induct)
  case less
  show ?case
  proof (cases "length c < hdr \<or> length c < sz c")
    case True
    then show ?thesis by (simp add: frames_partial)
  next
    case False
    then have eq: "hdr \<le> length c" "sz c \<le> length c" "sz (c @ x) = sz c" using size_prefix [of c x] by auto
    have nz: "sz c \<noteq> 0" using less.prems eq by (subst (asm) frames.simps) (auto split: if_splits)
    then have "split_stream (drop (sz c) c @ x) \<noteq> None"
      using less.prems eq frames_full [of "c @ x"] by auto
    moreover have "length (drop (sz c) c) < length c" using nz eq by simp
    ultimately show ?thesis using less.hyps [of "drop (sz c) c"] eq nz frames_full [of c] by auto
  qed
qed

lemma read_step:
  fixes k :: nat
  assumes defined: "split_stream inp0 \<noteq> None" and inv: "stream_inv inp0 (pc, inp)"
    and p: "0 < p" "unat p + 16 < MAX_TALLOC_SIZE"
  defines "xs \<equiv> take k inp"
  defines "taken \<equiv> bytes_taken (stream_socket p xs) pc xs"
  shows "\<exists>pc'. packet_recv full log_packet (stream_socket p xs) pc = Some (Returned, pc') \<and>
     stream_inv inp0 (pc', drop taken inp) \<and> work (pc', drop taken inp) \<le> work (pc, inp) \<and>
     (xs \<noteq> [] \<longrightarrow> work (pc', drop taken inp) < work (pc, inp))"
proof -
  obtain c qs r where c: "inp0 = c @ inp" "split_stream c = Some (pc_private pc @ qs, r)" "receives qs r pc"
    using inv by (auto simp: stream_inv_def)
  have b: "buffers qs r pc" using c(3) by (simp add: receives_def)
  show ?thesis
  proof (cases "qs = []")
    case False
    have "taken = 0" using recv_ready(2) [OF b False] by (simp add: taken_def bytes_taken_def)
    with recv_ready(1) [OF b False, of "stream_socket p xs"] c show ?thesis
      by (fastforce simp: stream_inv_def work_def)
  next
    case True
    note b = b [unfolded True]
    define ys where "ys = take taken xs"
    note part = buffers_partial [OF b]
    have "taken \<le> length xs" by (simp add: taken_def bytes_taken_def)
    then have ys: "inp = ys @ drop taken inp" "length ys = taken" by (auto simp: ys_def xs_def)
    obtain d where d: "holds (r @ ys) (pc\<lparr>pc_partial := d, pc_num_read := pc_num_read pc + of_nat (length ys)\<rparr>)"
      "packet_recv full log_packet (stream_socket p xs) pc =
       (if xs = [] then Some (Returned, pc\<lparr>pc_partial := d\<rparr>)
        else next_partial full log_packet (pc\<lparr>pc_partial := d, pc_num_read := pc_num_read pc + of_nat (length ys)\<rparr>))"
      "xs \<noteq> [] \<Longrightarrow> ys \<noteq> []"
      using packet_recv_reads [OF b p, of xs] by (auto simp: ys_def taken_def)
    show ?thesis
    proof (cases "xs = []")
      case True
      then have "ys = []" "taken = 0" using ys(2) by (auto simp: ys_def)
      moreover from this have "receives [] r (pc\<lparr>pc_partial := d\<rparr>)"
        using b d(1) part(2,3) frames_partial [OF part(2)] by (auto simp: receives_def buffers_def)
      ultimately show ?thesis using True d(2) c \<open>qs = []\<close> by (auto simp: stream_inv_def work_def buffered_work_def)
    next
      case False
      let ?pc = "pc\<lparr>pc_partial := d, pc_num_read := pc_num_read pc + of_nat (length ys)\<rparr>"
      have "split_stream (c @ ys) \<noteq> None"
        using defined c(1) ys(1) by (intro frames_prefix_defined [of "c @ ys" "drop taken inp"]) simp
      then obtain gs r' where gs: "split_stream (r @ ys) = Some (gs, r')" "split_stream (c @ ys) = Some (pc_private pc @ gs, r')"
        using frames_append [OF c(2), of ys] \<open>qs = []\<close> by (cases "split_stream (r @ ys)") auto
      have "pc_packet_size ?pc = 0 \<or> hdr \<le> length (r @ ys)" by (auto simp: part(3) known_size_def)
      from next_partial_receives [OF d(1) _ _ gs(1) this] b d(3) False
      obtain pc' ds qs' where pc': "next_partial full log_packet ?pc = Some (Returned, pc')" "gs = ds @ qs'" "receives qs' r' pc'"
        "pc_private pc' = pc_private pc @ ds" "buffered_work pc' \<le> buffered_work ?pc"
        by (auto simp: buffers_def)
      have "stream_inv inp0 (pc', drop taken inp)"
        unfolding stream_inv_def fst_conv snd_conv
      proof (intro exI conjI)
        show "inp0 = (c @ ys) @ drop taken inp" using c(1) ys(1) by simp
        show "split_stream (c @ ys) = Some (pc_private pc' @ qs', r')" using gs(2) pc'(2,4) by simp
      qed (rule pc'(3))
      moreover have "buffered_work ?pc = buffered_work pc + 2 * length ys"
        using holds_num_read(1) [OF d(1)] holds_num_read(1) [OF part(1)] by (simp add: buffered_work_def)
      moreover have "length inp = length ys + length (drop taken inp)"
        using arg_cong [OF ys(1), of length] unfolding length_append .
      ultimately have "stream_inv inp0 (pc', drop taken inp)" "work (pc', drop taken inp) < work (pc, inp)"
        using pc'(5) d(3) [OF False] unfolding work_def fst_conv snd_conv length_0_conv [symmetric] by linarith+
      then show ?thesis using False d(2) pc'(1) by simp
    qed
  qed
qed

end

section \<open>The two formats\<close>

lemma unat_byte: "unat (ucast (b :: u8) :: u32) = unat b" "unat b < 256"
proof -
  show small: "unat b < 256" using unsigned_less [of b] by simp
  then show "unat (ucast b :: u32) = unat b" by (simp add: unsigned_ucast_eq take_bit_nat_eq_self)
qed

lemma or_shifted_byte:
  fixes x :: u32 and b :: u8
  assumes "unat x < 2 ^ k" "k \<le> 24"
  shows "unat (x OR push_bit k (ucast b)) = unat x + 2 ^ k * unat b"
proof -
  have "\<not> bit x n \<or> \<not> bit (push_bit k (ucast b) :: u32) n" for n
  proof (cases "n < k")
    case True
    then show ?thesis by (simp add: bit_simps)
  next
    case False
    have "take_bit k (unat x) = unat x" using assms(1) by (simp add: take_bit_nat_eq_self)
    then have "\<not> bit (unat x) n" using False by (metis bit_take_bit_iff)
    then show ?thesis by (simp add: bit_unsigned_iff)
  qed
  then have "x OR push_bit k (ucast b) = x + push_bit k (ucast b)" by (simp add: disjunctive_add)
  moreover have "push_bit k (ucast b) = (of_nat (2 ^ k * unat b) :: u32)"
    by (simp add: push_bit_eq_mult mult.commute)
  ultimately have eq: "x OR push_bit k (ucast b) = of_nat (unat x + 2 ^ k * unat b)" by simp
  have "2 ^ k * unat b \<le> 2 ^ k * 255" using unat_byte(2) [of b] by simp
  moreover have "(2::nat) ^ k \<le> 16777216" using power_increasing [OF assms(2), of "2::nat"] by simp
  ultimately have "unat x + 2 ^ k * unat b < 4294967296" using assms(1) by linarith
  then have "unat x + 2 ^ k * unat b < 2 ^ LENGTH(32)" by simp
  then show ?thesis unfolding eq by (simp only: unat_of_nat_small)
qed

lemma unat_smb_len: "unat (4 + smb_len bs) = nbt_size bs" "nbt_size bs < 2 ^ 25"
proof -
  note b = unat_byte(2) [of "bs ! 1"] unat_byte(2) [of "bs ! 2"] unat_byte(2) [of "bs ! 3"]
  show small: "nbt_size bs < 2 ^ 25" using b by (simp add: nbt_size_def)
  have "unat (ucast (bs ! 3) OR push_bit 8 (ucast (bs ! 2)) :: u32) = unat (bs ! 3) + 256 * unat (bs ! 2)"
    using b by (subst or_shifted_byte) (simp_all add: unat_byte)
  then have "unat (smb_len bs) = unat (bs ! 3) + 256 * unat (bs ! 2) + 65536 * unat (bs ! 1)"
    using b by (simp add: smb_len_def flip: or.assoc) (subst or_shifted_byte, simp_all)
  then show "unat (4 + smb_len bs) = nbt_size bs"
    using small by (subst unat_add_no_wrap) (simp_all add: nbt_size_def)
qed

interpretation nbt: framing packet_full_request_nbt 4 nbt_size
proof unfold_locales
  show "(0::nat) < 4" "(4::nat) \<le> 16" by simp_all
next
  fix bs :: "u8 list" and s :: u64 assume "length bs < 4"
  then show "packet_full_request_nbt bs s = (STATUS_MORE_ENTRIES, s)" by (simp add: packet_full_request_nbt_def)
next
  fix bs :: "u8 list" and s :: u64 assume "4 \<le> length bs"
  moreover have "(ucast (4 + smb_len bs) :: u64) = of_nat (nbt_size bs)" by (simp flip: unat_smb_len(1))
  moreover have "unat (of_nat (nbt_size bs) :: u64) = nbt_size bs" using unat_smb_len(2) [of bs] by (simp add: unat_of_nat_small)
  ultimately show "packet_full_request_nbt bs s =
      (if length bs < nbt_size bs then STATUS_MORE_ENTRIES else NT_STATUS_OK, of_nat (nbt_size bs))"
    by (simp add: packet_full_request_nbt_def Let_def)
next
  fix bs x :: "u8 list" assume "4 \<le> length bs"
  then show "nbt_size (bs @ x) = nbt_size bs" by (simp add: nbt_size_def nth_append)
next
  fix bs show "nbt_size bs < MAX_TALLOC_SIZE" using unat_smb_len(2) [of bs] by (simp add: MAX_TALLOC_SIZE_def)
qed

lemma frag_size_bound: "frag_size bs < 2 ^ 16"
  using unat_byte(2) [of "bs ! 8"] unat_byte(2) [of "bs ! 9"] by (simp add: frag_size_def)

lemma dcerpc_get_frag_length_size:
  assumes "10 \<le> length bs" shows "dcerpc_get_frag_length bs = Some (of_nat (frag_size bs))"
proof -
  have val: "ucast (ucast a OR push_bit 8 (ucast b) :: u32) = (of_nat (unat a + 256 * unat b) :: u16)" for a b :: u8
  proof -
    have "unat (ucast a OR push_bit 8 (ucast b) :: u32) = unat a + 256 * unat b"
      using unat_byte(2) [of a] by (subst or_shifted_byte) (simp_all add: unat_byte)
    moreover have "ucast w = (of_nat (unat w) :: u16)" for w :: u32 by simp
    ultimately show ?thesis by (simp only:)
  qed
  have "(ucast (bs ! 4) AND DCERPC_DREP_LE \<noteq> 0) = bit (bs ! 4) 4"
    using and_exp_eq_0_iff_not_bit [of "ucast (bs ! 4) :: u32" 4] by (simp add: DCERPC_DREP_LE_def bit_simps)
  then show ?thesis
    using assms
    by (simp add: dcerpc_get_frag_length_def CVAL_def SVAL_eq RSVAL_def SREV_halves DCERPC_DREP_OFFSET_def
        DCERPC_FRAG_LEN_OFFSET_def frag_size_def val)
qed

interpretation frag: framing sock_complete_packet 10 frag_size
proof unfold_locales
  show "(0::nat) < 10" "(10::nat) \<le> 16" by simp_all
next
  fix bs :: "u8 list" and s :: u64 assume "length bs < 10"
  then show "sock_complete_packet bs s = (STATUS_MORE_ENTRIES, s)"
    by (simp add: sock_complete_packet_def DCERPC_FRAG_LEN_OFFSET_def)
next
  fix bs :: "u8 list" and s :: u64 assume "10 \<le> length bs"
  moreover have "(ucast (of_nat (frag_size bs) :: u16) :: u64) = of_nat (frag_size bs)"
    using frag_size_bound [of bs] by (simp add: unsigned_of_nat take_bit_nat_eq_self)
  moreover have "unat (of_nat (frag_size bs) :: u64) = frag_size bs"
    using frag_size_bound [of bs] by (simp add: unat_of_nat_small)
  ultimately show "sock_complete_packet bs s =
      (if length bs < frag_size bs then STATUS_MORE_ENTRIES else NT_STATUS_OK, of_nat (frag_size bs))"
    using dcerpc_get_frag_length_size [of bs]
    by (simp add: sock_complete_packet_def Let_def DCERPC_FRAG_LEN_OFFSET_def)
next
  fix bs x :: "u8 list" assume "10 \<le> length bs"
  then show "frag_size (bs @ x) = frag_size bs" by (simp add: frag_size_def nth_append)
next
  fix bs show "frag_size bs < MAX_TALLOC_SIZE" using frag_size_bound [of bs] by (simp add: MAX_TALLOC_SIZE_def)
qed

context framing
begin

lemma bytes_taken_Nil [simp]: "bytes_taken sk pc [] = 0"
  by (simp add: bytes_taken_def)

lemma step_invariant:
  assumes "split_stream inp0 \<noteq> None" "stream_inv inp0 st" "event_ok e"
  shows "\<exists>st'. stream_step full e st = Some st' \<and> stream_inv inp0 st' \<and> (enabled e st \<longrightarrow> work st' < work st)"
proof -
  obtain pc inp where st: "st = (pc, inp)" by (cases st)
  show ?thesis
  proof (cases e)
    case (Readable p k)
    with read_step [OF assms(1) assms(2) [unfolded st], of p k] assms(3)
    show ?thesis by (auto simp: st Let_def continue_with_def enabled_def)
  next
    case (Again p)
    with read_step [OF assms(1) assms(2) [unfolded st], of p 0] assms(3)
    show ?thesis by (auto simp: st Let_def continue_with_def enabled_def)
  next
    case Fire
    obtain c qs r where c: "inp0 = c @ inp" "split_stream c = Some (pc_private pc @ qs, r)" "receives qs r pc"
      using assms(2) by (auto simp: st stream_inv_def)
    let ?pc = "pc\<lparr>pc_timers := pc_timers pc - 1\<rparr>"
    have b: "buffers qs r ?pc" using c(3) by (simp add: receives_def buffers_def)
    show ?thesis
    proof (cases "pc_timers pc = 0")
      case True
      then show ?thesis using assms(2) Fire by (simp add: st enabled_def)
    next
      case timers: False
      then have less: "buffered_work ?pc < buffered_work pc" by (simp add: buffered_work_def)
      show ?thesis
      proof (cases "qs = []")
        case True
        then have "packet_next_event full log_packet (stream_socket 0 []) ?pc = Some (Returned, ?pc)"
          using recv_waiting [of r ?pc] b by (auto simp: packet_next_event_def)
        moreover have "stream_inv inp0 (?pc, inp)" using c b True by (auto simp: stream_inv_def receives_def)
        ultimately show ?thesis using timers less Fire by (simp add: st continue_with_def enabled_def work_def)
      next
        case False
        from recv_ready(1) [OF b False, of "stream_socket 0 []"]
        obtain pc' ds qs' where pc': "packet_recv full log_packet (stream_socket 0 []) ?pc = Some (Returned, pc')"
          "qs = ds @ qs'" "receives qs' r pc'" "pc_private pc' = pc_private pc @ ds" "buffered_work pc' < buffered_work ?pc"
          by auto
        then have "stream_inv inp0 (pc', inp)" using c by (auto simp: stream_inv_def)
        with pc' show ?thesis
          using timers less Fire recv_ready(2) [OF b False]
          by (simp add: st continue_with_def packet_next_event_def enabled_def work_def)
      qed
    qed
  qed
qed

lemma run_invariant:
  assumes "split_stream inp0 \<noteq> None"
  shows "stream_inv inp0 st \<Longrightarrow> list_all event_ok es \<Longrightarrow> \<exists>st'. stream_run full es st = Some st' \<and> stream_inv inp0 st'"
proof (induction es arbitrary: st)
  case (Cons e es)
  with step_invariant [OF assms Cons.prems(1), of e] show ?case by fastforce
qed simp

lemma start_invariant:
  assumes "idle pc" "pc_partial pc = null_blob" "pc_num_read pc = 0" "pc_packet_size pc = 0" "pc_private pc = []"
    and "pc_initial_read pc \<noteq> 0 \<longrightarrow> hdr \<le> unat (pc_initial_read pc) \<and> unat (pc_initial_read pc) < MAX_TALLOC_SIZE"
  shows "stream_inv inp (pc, inp)"
proof -
  have "holds [] pc" using assms by (simp add: holds_def blob_ok_def first_bytes_def MAX_TALLOC_SIZE_def)
  moreover have "split_stream [] = Some ([], [])" using header by (simp add: frames_partial)
  ultimately have "receives [] [] pc" using assms header by (auto simp: receives_def buffers_def known_size_def)
  then show ?thesis
    using assms(5) \<open>split_stream [] = Some ([], [])\<close> by (auto simp: stream_inv_def)
qed

text \<open>What a receiver has delivered at any moment, and that an event that can happen brings it forward.\<close>

lemma stream_packets:
  assumes "split_stream inp \<noteq> None" "stream_inv inp (pc0, inp)" "list_all event_ok es"
  shows "\<exists>pc inp'. stream_run full es (pc0, inp) = Some (pc, inp') \<and>
     (\<exists>c qs r. inp = c @ inp' \<and> split_stream c = Some (pc_private pc @ qs, r) \<and> (pc_timers pc = 0 \<longrightarrow> qs = [])) \<and>
     (\<forall>e. event_ok e \<and> enabled e (pc, inp') \<longrightarrow>
        (\<exists>st. stream_step full e (pc, inp') = Some st \<and> work st < work (pc, inp')))"
proof -
  obtain pc inp' where run: "stream_run full es (pc0, inp) = Some (pc, inp')" "stream_inv inp (pc, inp')"
    using run_invariant [OF assms(1,2,3)] by (metis surj_pair)
  obtain c qs r where "inp = c @ inp'" "split_stream c = Some (pc_private pc @ qs, r)" "receives qs r pc"
    using run(2) by (auto simp: stream_inv_def)
  then have sent: "\<exists>c qs r. inp = c @ inp' \<and> split_stream c = Some (pc_private pc @ qs, r) \<and> (pc_timers pc = 0 \<longrightarrow> qs = [])"
    by (auto simp: receives_def)
  have forward: "\<exists>st. stream_step full e (pc, inp') = Some st \<and> work st < work (pc, inp')"
    if "event_ok e \<and> enabled e (pc, inp')" for e
    using that step_invariant [OF assms(1) run(2), of e] by auto
  show ?thesis by (rule exI [of _ pc], rule exI [of _ inp']) (use run(1) sent forward in simp)
qed

lemma frames_defined: "(\<And>bs. sz bs \<noteq> 0) \<Longrightarrow> split_stream bs \<noteq> None"
proof (induction "length bs" arbitrary: bs rule: less_induct)
  case less
  show ?case
  proof (cases "length bs < hdr \<or> length bs < sz bs")
    case False
    then have "length (drop (sz bs) bs) < length bs" using less.prems [of bs] header by auto
    from less.hyps [OF this less.prems] False less.prems [of bs] show ?thesis by (simp add: frames_full)
  qed (simp add: frames_partial)
qed

end

section \<open>The two receivers\<close>

text \<open>
  The set-up of \<open>continue_socket_connect\<close>, with reading enabled as \<open>sock_send_read\<close> does for the first request, and
  that of \<open>smbcli_transport_init\<close>.
\<close>

definition sock_receiver :: "u8 list list packet_context" where
  "sock_receiver =
     packet_recv_enable (packet_set_initial_read 16 (packet_recv_disable (packet_set_serialise
       (packet_set_event_context (packet_set_socket (packet_init []))))))"

definition smb_receiver :: "u8 list list packet_context" where
  "smb_receiver = packet_set_serialise (packet_set_event_context (packet_set_socket (packet_init [])))"

lemmas receiver_defs = packet_init_def packet_set_socket_def packet_set_event_context_def packet_set_serialise_def
  packet_set_initial_read_def packet_recv_disable_def packet_recv_enable_def Let_def


definition example_stream :: "u8 list" where
  "example_stream = [5, 0, 2, 3, 0x10, 0, 0, 0, 12, 0, 0xAA, 0xBB] @ [5, 0, 2, 3, 0x10, 0, 0, 0, 11, 0, 0xCC] @ [5, 0]"


text \<open>The packets of an SMB connection, whose receiver reads whatever is there: for every stream the same holds with the
  24-bit lengths of the NetBIOS session header, and no length is excluded.
\<close>

theorem nbt_stream_packets:
  assumes "list_all event_ok es"
  shows "\<exists>pc inp'. stream_run packet_full_request_nbt es (smb_receiver, inp) = Some (pc, inp') \<and>
     (\<exists>c qs r. inp = c @ inp' \<and> frames 4 nbt_size c = Some (pc_private pc @ qs, r) \<and> (pc_timers pc = 0 \<longrightarrow> qs = [])) \<and>
     (\<forall>e. event_ok e \<and> enabled e (pc, inp') \<longrightarrow>
        (\<exists>st. stream_step packet_full_request_nbt e (pc, inp') = Some st \<and> work st < work (pc, inp')))"
proof (rule nbt.stream_packets)
  show "frames 4 nbt_size inp \<noteq> None" by (rule nbt.frames_defined) (simp add: nbt_size_def)
  show "nbt.stream_inv inp (smb_receiver, inp)"
    by (rule nbt.start_invariant) (simp_all add: smb_receiver_def receiver_defs idle_def)
qed (rule assms)

theorem nbt_stream_packets_witness:
  "\<exists>pc inp'. stream_run packet_full_request_nbt [Readable 9 9, Fire] (smb_receiver, [0, 0, 0, 1, 7, 0, 0, 0, 0]) = Some (pc, inp') \<and>
     (\<exists>c qs r. [0, 0, 0, 1, 7, 0, 0, 0, 0] = c @ inp' \<and> frames 4 nbt_size c = Some (pc_private pc @ qs, r) \<and>
        (pc_timers pc = 0 \<longrightarrow> qs = [])) \<and>
     (\<forall>e. event_ok e \<and> enabled e (pc, inp') \<longrightarrow>
        (\<exists>st. stream_step packet_full_request_nbt e (pc, inp') = Some st \<and> work st < work (pc, inp')))"
  by (rule nbt_stream_packets) (simp add: MAX_TALLOC_SIZE_def)

end
