(* ===== verification/Ndr.thy ===== *)
theory Ndr
  imports DataBlob
begin

text \<open>
  The NDR engine: the marshalling contexts of \<open>librpc/ndr/libndr.h\<close>, the state handling of
  \<open>librpc/ndr/ndr.c\<close> (buffers, flags, errors, tokens) and the basic types of
  \<open>librpc/ndr/ndr_basic.c\<close>.  Every operation is a computation over its context; its contract
  and the wire format it implements are in the theory \<open>NdrWire\<close>.

  The C functions for basic types take a further argument \<open>ndr_flags\<close> that they do not read;
  it is kept only where the code tests it.
\<close>

section \<open>Contexts\<close>

text \<open>A token list maps pointers to values; \<open>DLIST_ADD\<close> puts the new element in front.\<close>

type_synonym ndr_token_list = "(ptr \<times> u32) list"

record ndr_pull =
  pl_flags :: u32
  pl_data :: "u8 list"
  pl_data_size :: u32
  pl_offset :: u32
  pl_relative_base_offset :: u32
  pl_relative_base_list :: ndr_token_list
  pl_relative_list :: ndr_token_list
  pl_array_size_list :: ndr_token_list
  pl_array_length_list :: ndr_token_list
  pl_switch_list :: ndr_token_list
  pl_ptr_count :: u32

record ndr_pull_save =
  psv_data_size :: u32
  psv_offset :: u32

record ndr_push =
  ps_flags :: u32
  ps_data :: buffer
  ps_alloc_size :: u32
  ps_offset :: u32
  ps_relative_base_offset :: u32
  ps_relative_base_list :: ndr_token_list
  ps_switch_list :: ndr_token_list
  ps_relative_list :: ndr_token_list
  ps_nbt_string_list :: ndr_token_list
  ps_full_ptr_list :: ndr_token_list
  ps_ptr_count :: u32

datatype ndr_err_code = NDR_ERR_ARRAY_SIZE | NDR_ERR_BAD_SWITCH | NDR_ERR_OFFSET | NDR_ERR_RELATIVE
  | NDR_ERR_CHARCNV | NDR_ERR_LENGTH | NDR_ERR_SUBCONTEXT | NDR_ERR_COMPRESSION | NDR_ERR_STRING
  | NDR_ERR_VALIDATE | NDR_ERR_BUFSIZE | NDR_ERR_ALLOC | NDR_ERR_RANGE | NDR_ERR_TOKEN
  | NDR_ERR_IPV4ADDRESS

definition LIBNDR_FLAG_BIGENDIAN :: u32 where "LIBNDR_FLAG_BIGENDIAN = push_bit 0 1"
definition LIBNDR_FLAG_NOALIGN :: u32 where "LIBNDR_FLAG_NOALIGN = push_bit 1 1"
definition LIBNDR_FLAG_REMAINING :: u32 where "LIBNDR_FLAG_REMAINING = push_bit 21 1"
definition LIBNDR_FLAG_ALIGN2 :: u32 where "LIBNDR_FLAG_ALIGN2 = push_bit 22 1"
definition LIBNDR_FLAG_ALIGN4 :: u32 where "LIBNDR_FLAG_ALIGN4 = push_bit 23 1"
definition LIBNDR_FLAG_ALIGN8 :: u32 where "LIBNDR_FLAG_ALIGN8 = push_bit 24 1"
definition LIBNDR_ALIGN_FLAGS :: u32 where
  "LIBNDR_ALIGN_FLAGS = LIBNDR_FLAG_ALIGN2 OR LIBNDR_FLAG_ALIGN4 OR LIBNDR_FLAG_ALIGN8"
definition LIBNDR_FLAG_LITTLE_ENDIAN :: u32 where "LIBNDR_FLAG_LITTLE_ENDIAN = push_bit 27 1"
definition LIBNDR_FLAG_PAD_CHECK :: u32 where "LIBNDR_FLAG_PAD_CHECK = push_bit 28 1"
definition LIBNDR_FLAG_NO_NDR_SIZE :: u32 where "LIBNDR_FLAG_NO_NDR_SIZE = push_bit 31 1"

lemmas ndr_flag_defs = LIBNDR_FLAG_BIGENDIAN_def LIBNDR_FLAG_NOALIGN_def LIBNDR_FLAG_REMAINING_def
  LIBNDR_FLAG_ALIGN2_def LIBNDR_FLAG_ALIGN4_def LIBNDR_FLAG_ALIGN8_def LIBNDR_ALIGN_FLAGS_def
  LIBNDR_FLAG_LITTLE_ENDIAN_def LIBNDR_FLAG_PAD_CHECK_def LIBNDR_FLAG_NO_NDR_SIZE_def

definition NDR_SCALARS :: nat where "NDR_SCALARS = 1"
definition NDR_BUFFERS :: nat where "NDR_BUFFERS = 2"

abbreviation has_flag :: "u32 \<Rightarrow> u32 \<Rightarrow> bool" where
  "has_flag f b \<equiv> f AND b \<noteq> 0"

definition NDR_BE :: "u32 \<Rightarrow> bool" where
  "NDR_BE fl \<longleftrightarrow> fl AND (LIBNDR_FLAG_BIGENDIAN OR LIBNDR_FLAG_LITTLE_ENDIAN) = LIBNDR_FLAG_BIGENDIAN"

definition ndr_set_flags :: "u32 \<Rightarrow> u32 \<Rightarrow> u32" where
  "ndr_set_flags pflags new_flags =
     (let pflags = (if has_flag new_flags LIBNDR_FLAG_LITTLE_ENDIAN
                    then pflags AND NOT LIBNDR_FLAG_BIGENDIAN else pflags);
          pflags = (if has_flag new_flags LIBNDR_FLAG_BIGENDIAN
                    then pflags AND NOT LIBNDR_FLAG_LITTLE_ENDIAN else pflags);
          pflags = (if has_flag new_flags LIBNDR_FLAG_REMAINING
                    then pflags AND NOT LIBNDR_ALIGN_FLAGS else pflags);
          pflags = (if has_flag new_flags LIBNDR_ALIGN_FLAGS
                    then pflags AND NOT LIBNDR_FLAG_REMAINING else pflags)
      in pflags OR new_flags)"

fun ndr_map_error :: "ndr_err_code \<Rightarrow> ntstatus" where
  "ndr_map_error NDR_ERR_BUFSIZE = NT_STATUS_BUFFER_TOO_SMALL"
| "ndr_map_error NDR_ERR_TOKEN = NT_STATUS_INTERNAL_ERROR"
| "ndr_map_error NDR_ERR_ALLOC = NT_STATUS_NO_MEMORY"
| "ndr_map_error NDR_ERR_ARRAY_SIZE = NT_STATUS_ARRAY_BOUNDS_EXCEEDED"
| "ndr_map_error _ = NT_STATUS_INVALID_PARAMETER"

definition ndr_pull_error :: "ndr_err_code \<Rightarrow> (ndr_pull, 'a) comp" where
  "ndr_pull_error e = nfail (Status (ndr_map_error e))"

definition ndr_push_error :: "ndr_err_code \<Rightarrow> (ndr_push, 'a) comp" where
  "ndr_push_error e = nfail (Status (ndr_map_error e))"

section \<open>Reading contexts\<close>

definition ndr_align_size :: "u32 \<Rightarrow> u64 \<Rightarrow> u64" where
  "ndr_align_size offset n =
     (if ucast offset AND (n - 1) = 0 then 0 else n - (ucast offset AND (n - 1)))"

definition ndr_pull_init_blob :: "data_blob \<Rightarrow> ndr_pull" where
  "ndr_pull_init_blob blob =
     \<lparr>pl_flags = 0,
      pl_data = (case blob_data blob of None \<Rightarrow> [] | Some buf \<Rightarrow> map the buf),
      pl_data_size = ucast (blob_length blob), pl_offset = 0,
      pl_relative_base_offset = 0, pl_relative_base_list = [], pl_relative_list = [],
      pl_array_size_list = [], pl_array_length_list = [], pl_switch_list = [], pl_ptr_count = 0\<rparr>"

definition ndr_pull_advance :: "u32 \<Rightarrow> (ndr_pull, unit) comp" where
  "ndr_pull_advance sz =
     nthen (nmodify (\<lambda>ndr. ndr\<lparr>pl_offset := pl_offset ndr + sz\<rparr>))
           (ncheck (ndr_map_error NDR_ERR_BUFSIZE) (\<lambda>ndr. \<not> pl_offset ndr > pl_data_size ndr))"

definition ndr_pull_set_offset :: "u32 \<Rightarrow> (ndr_pull, unit) comp" where
  "ndr_pull_set_offset ofs =
     nthen (nmodify (\<lambda>ndr. ndr\<lparr>pl_offset := ofs\<rparr>))
           (ncheck (ndr_map_error NDR_ERR_BUFSIZE) (\<lambda>ndr. \<not> pl_offset ndr > pl_data_size ndr))"

definition ndr_pull_save :: "ndr_pull \<Rightarrow> ndr_pull_save" where
  "ndr_pull_save ndr = \<lparr>psv_data_size = pl_data_size ndr, psv_offset = pl_offset ndr\<rparr>"

definition ndr_pull_restore :: "ndr_pull_save \<Rightarrow> ndr_pull \<Rightarrow> ndr_pull" where
  "ndr_pull_restore save ndr =
     ndr\<lparr>pl_offset := psv_offset save, pl_data_size := psv_data_size save\<rparr>"

definition NDR_PULL_NEED_BYTES :: "u32 \<Rightarrow> (ndr_pull, unit) comp" where
  "NDR_PULL_NEED_BYTES n =
     ncheck (ndr_map_error NDR_ERR_BUFSIZE)
       (\<lambda>ndr. \<not> (n > pl_data_size ndr \<or> pl_offset ndr + n > pl_data_size ndr))"

text \<open>
  \<open>ndr_check_padding\<close> scans the bytes up to the next boundary for a non-zero one and, when it
  finds one, dumps them all.  The boundary is computed in \<open>size_t\<close> and is not compared with
  \<open>data_size\<close>.
\<close>

fun padding_scan :: "u8 list \<Rightarrow> nat \<Rightarrow> nat \<Rightarrow> bool option" where
  "padding_scan buf i 0 = Some True"
| "padding_scan buf i (Suc k) =
     (case CVAL buf i of
        None \<Rightarrow> None
      | Some b \<Rightarrow> if b \<noteq> 0 then Some False else padding_scan buf (Suc i) k)"

definition ndr_check_padding :: "u64 \<Rightarrow> (ndr_pull, unit) comp" where
  "ndr_check_padding n =
     naccess (\<lambda>ndr.
       let ofs2 = (ucast (pl_offset ndr) + (n - 1)) AND NOT (n - 1);
           i = unat (pl_offset ndr);
           k = unat ofs2 - i
       in do { zero \<leftarrow> padding_scan (pl_data ndr) i k;
               if zero then Some ()
               else if i + k \<le> length (pl_data ndr) then Some () else None })"

definition NDR_PULL_ALIGN :: "u32 \<Rightarrow> (ndr_pull, unit) comp" where
  "NDR_PULL_ALIGN n =
     nbind (nget pl_flags) (\<lambda>fl.
       nthen (if has_flag fl LIBNDR_FLAG_NOALIGN then nreturn ()
              else nthen (if has_flag fl LIBNDR_FLAG_PAD_CHECK then ndr_check_padding (ucast n)
                          else nreturn ())
                         (nmodify (\<lambda>ndr. ndr\<lparr>pl_offset :=
                            (pl_offset ndr + (n - 1)) AND NOT (n - 1)\<rparr>)))
             (ncheck (ndr_map_error NDR_ERR_BUFSIZE) (\<lambda>ndr. \<not> pl_offset ndr > pl_data_size ndr)))"

text \<open>The readers \<open>NDR_SVAL\<close> and \<open>NDR_IVAL\<close>: byte order from the context.\<close>

definition NDR_SVAL :: "ndr_pull \<Rightarrow> u32 \<Rightarrow> u32 option" where
  "NDR_SVAL ndr ofs = (if NDR_BE (pl_flags ndr) then RSVAL (pl_data ndr) (unat ofs)
                       else SVAL (pl_data ndr) (unat ofs))"

definition NDR_IVAL :: "ndr_pull \<Rightarrow> u32 \<Rightarrow> u32 option" where
  "NDR_IVAL ndr ofs = (if NDR_BE (pl_flags ndr) then RIVAL (pl_data ndr) (unat ofs)
                       else IVAL (pl_data ndr) (unat ofs))"

abbreviation pull_skip :: "u32 \<Rightarrow> (ndr_pull, unit) comp" where
  "pull_skip n \<equiv> nmodify (\<lambda>ndr. ndr\<lparr>pl_offset := pl_offset ndr + n\<rparr>)"

definition ndr_pull_int8 :: "(ndr_pull, u8) comp" where
  "ndr_pull_int8 =
     nthen (NDR_PULL_NEED_BYTES 1)
    (nbind (naccess (\<lambda>ndr. CVAL (pl_data ndr) (unat (pl_offset ndr)))) (\<lambda>v.
     nthen (pull_skip 1) (nreturn (ucast v))))"

definition ndr_pull_uint8 :: "(ndr_pull, u8) comp" where
  "ndr_pull_uint8 =
     nthen (NDR_PULL_NEED_BYTES 1)
    (nbind (naccess (\<lambda>ndr. CVAL (pl_data ndr) (unat (pl_offset ndr)))) (\<lambda>v.
     nthen (pull_skip 1) (nreturn (ucast v))))"

definition ndr_pull_int16 :: "(ndr_pull, u16) comp" where
  "ndr_pull_int16 =
     nthen (NDR_PULL_ALIGN 2)
    (nthen (NDR_PULL_NEED_BYTES 2)
    (nbind (naccess (\<lambda>ndr. NDR_SVAL ndr (pl_offset ndr))) (\<lambda>v.
     nthen (pull_skip 2) (nreturn (ucast v)))))"

definition ndr_pull_uint16 :: "(ndr_pull, u16) comp" where
  "ndr_pull_uint16 =
     nthen (NDR_PULL_ALIGN 2)
    (nthen (NDR_PULL_NEED_BYTES 2)
    (nbind (naccess (\<lambda>ndr. NDR_SVAL ndr (pl_offset ndr))) (\<lambda>v.
     nthen (pull_skip 2) (nreturn (ucast v)))))"

text \<open>\<open>NDR_IVALS\<close> reinterprets the 32 bits of \<open>NDR_IVAL\<close> as signed.\<close>

definition ndr_pull_int32 :: "(ndr_pull, u32) comp" where
  "ndr_pull_int32 =
     nthen (NDR_PULL_ALIGN 4)
    (nthen (NDR_PULL_NEED_BYTES 4)
    (nbind (naccess (\<lambda>ndr. NDR_IVAL ndr (pl_offset ndr))) (\<lambda>v.
     nthen (pull_skip 4) (nreturn v))))"

definition ndr_pull_uint32 :: "(ndr_pull, u32) comp" where
  "ndr_pull_uint32 =
     nthen (NDR_PULL_ALIGN 4)
    (nthen (NDR_PULL_NEED_BYTES 4)
    (nbind (naccess (\<lambda>ndr. NDR_IVAL ndr (pl_offset ndr))) (\<lambda>v.
     nthen (pull_skip 4) (nreturn v))))"

definition ndr_pull_generic_ptr :: "(ndr_pull, u32) comp" where
  "ndr_pull_generic_ptr =
     nbind ndr_pull_uint32 (\<lambda>v.
     nthen (if v \<noteq> 0 then nmodify (\<lambda>ndr. ndr\<lparr>pl_ptr_count := pl_ptr_count ndr + 1\<rparr>) else nreturn ())
           (nreturn v))"

definition ndr_pull_ref_ptr :: "(ndr_pull, u32) comp" where
  "ndr_pull_ref_ptr = nthen ndr_pull_uint32 (nreturn 1)"

definition ndr_pull_udlong :: "(ndr_pull, u64) comp" where
  "ndr_pull_udlong =
     nthen (NDR_PULL_ALIGN 4)
    (nthen (NDR_PULL_NEED_BYTES 8)
    (nbind (naccess (\<lambda>ndr. NDR_IVAL ndr (pl_offset ndr))) (\<lambda>lo.
     nbind (naccess (\<lambda>ndr. NDR_IVAL ndr (pl_offset ndr + 4))) (\<lambda>hi.
     nthen (pull_skip 8) (nreturn (ucast lo OR push_bit 32 (ucast hi)))))))"

definition ndr_pull_udlongr :: "(ndr_pull, u64) comp" where
  "ndr_pull_udlongr =
     nthen (NDR_PULL_ALIGN 4)
    (nthen (NDR_PULL_NEED_BYTES 8)
    (nbind (naccess (\<lambda>ndr. NDR_IVAL ndr (pl_offset ndr))) (\<lambda>hi.
     nbind (naccess (\<lambda>ndr. NDR_IVAL ndr (pl_offset ndr + 4))) (\<lambda>lo.
     nthen (pull_skip 8) (nreturn (push_bit 32 (ucast hi) OR ucast lo))))))"

definition ndr_pull_dlong :: "(ndr_pull, u64) comp" where
  "ndr_pull_dlong = ndr_pull_udlong"

definition ndr_pull_hyper :: "(ndr_pull, u64) comp" where
  "ndr_pull_hyper = nthen (NDR_PULL_ALIGN 8) ndr_pull_udlong"

definition ndr_pull_NTSTATUS :: "(ndr_pull, ntstatus) comp" where
  "ndr_pull_NTSTATUS = nbind ndr_pull_uint32 (\<lambda>v. nreturn v)"

definition ndr_pull_WERROR :: "(ndr_pull, u32) comp" where
  "ndr_pull_WERROR = nbind ndr_pull_uint32 (\<lambda>v. nreturn v)"

definition ndr_pull_bytes :: "u32 \<Rightarrow> (ndr_pull, u8 list) comp" where
  "ndr_pull_bytes n =
     nthen (NDR_PULL_NEED_BYTES n)
    (nbind (naccess (\<lambda>ndr. if unat (pl_offset ndr) + unat n \<le> length (pl_data ndr)
                           then Some (take (unat n) (drop (unat (pl_offset ndr)) (pl_data ndr)))
                           else None)) (\<lambda>bs.
     nthen (pull_skip n) (nreturn bs)))"

text \<open>Without \<open>NDR_SCALARS\<close> the destination array is left alone: no bytes are delivered.\<close>

definition ndr_pull_array_uint8 :: "nat \<Rightarrow> u32 \<Rightarrow> (ndr_pull, u8 list) comp" where
  "ndr_pull_array_uint8 ndr_flags n =
     (if ndr_flags AND NDR_SCALARS = 0 then nreturn [] else ndr_pull_bytes n)"

definition ndr_pull_align :: "u32 \<Rightarrow> (ndr_pull, unit) comp" where
  "ndr_pull_align sz = NDR_PULL_ALIGN sz"

definition ndr_pull_NTTIME :: "(ndr_pull, u64) comp" where
  "ndr_pull_NTTIME = ndr_pull_udlong"

definition ndr_pull_NTTIME_1sec :: "(ndr_pull, u64) comp" where
  "ndr_pull_NTTIME_1sec = nbind ndr_pull_hyper (\<lambda>t. nreturn (t * 10000000))"

definition ndr_pull_NTTIME_hyper :: "(ndr_pull, u64) comp" where
  "ndr_pull_NTTIME_hyper = ndr_pull_hyper"

text \<open>\<open>time_t\<close> is 64 bits wide; the value read is zero-extended.\<close>

definition ndr_pull_time_t :: "(ndr_pull, u64) comp" where
  "ndr_pull_time_t = nbind ndr_pull_uint32 (\<lambda>tt. nreturn (ucast tt))"

section \<open>Writing contexts\<close>

definition NDR_BASE_MARSHALL_SIZE :: u32 where "NDR_BASE_MARSHALL_SIZE = 1024"

definition ndr_push_init_ctx :: ndr_push where
  "ndr_push_init_ctx =
     \<lparr>ps_flags = 0, ps_data = replicate (unat NDR_BASE_MARSHALL_SIZE) None,
      ps_alloc_size = NDR_BASE_MARSHALL_SIZE, ps_offset = 0, ps_relative_base_offset = 0,
      ps_relative_base_list = [], ps_switch_list = [], ps_relative_list = [],
      ps_nbt_string_list = [], ps_full_ptr_list = [], ps_ptr_count = 0\<rparr>"

definition ndr_push_blob :: "ndr_push \<Rightarrow> data_blob \<times> ndr_push" where
  "ndr_push_blob ndr =
     (let ndr = (if ps_alloc_size ndr > ps_offset ndr
                 then ndr\<lparr>ps_data := (ps_data ndr)[unat (ps_offset ndr) := Some 0]\<rparr> else ndr)
      in (\<lparr>blob_data = Some (ps_data ndr), blob_length = ucast (ps_offset ndr)\<rparr>, ndr))"

definition ndr_push_expand :: "u32 \<Rightarrow> (ndr_push, unit) comp" where
  "ndr_push_expand sz ndr =
     (if ps_alloc_size ndr > sz then Inr ((), ndr)
      else let asz = ps_alloc_size ndr + NDR_BASE_MARSHALL_SIZE;
               asz = (if sz + 1 > asz then sz + 1 else asz)
           in case talloc_realloc_size (Some (ps_data ndr)) (unat asz) of
                None \<Rightarrow> ndr_push_error NDR_ERR_ALLOC ndr
              | Some d \<Rightarrow> Inr ((), ndr\<lparr>ps_alloc_size := asz, ps_data := d\<rparr>))"

definition NDR_PUSH_NEED_BYTES :: "u32 \<Rightarrow> (ndr_push, unit) comp" where
  "NDR_PUSH_NEED_BYTES n = nbind (nget ps_offset) (\<lambda>ofs. ndr_push_expand (ofs + n))"

abbreviation push_store :: "(buffer \<Rightarrow> nat \<Rightarrow> buffer option) \<Rightarrow> u32 \<Rightarrow> (ndr_push, unit) comp" where
  "push_store w ofs \<equiv> nupdate (\<lambda>ndr. map_option (\<lambda>d. ndr\<lparr>ps_data := d\<rparr>)
      (w (ps_data ndr) (unat (ps_offset ndr + ofs))))"

abbreviation push_skip :: "u32 \<Rightarrow> (ndr_push, unit) comp" where
  "push_skip n \<equiv> nmodify (\<lambda>ndr. ndr\<lparr>ps_offset := ps_offset ndr + n\<rparr>)"

definition NDR_SSVAL :: "u32 \<Rightarrow> (ndr_push, unit) comp" where
  "NDR_SSVAL v = nbind (nget ps_flags) (\<lambda>fl.
     push_store (\<lambda>buf pos. if NDR_BE fl then RSSVAL buf pos v else SSVAL buf pos v) 0)"

definition NDR_SIVAL :: "u32 \<Rightarrow> u32 \<Rightarrow> (ndr_push, unit) comp" where
  "NDR_SIVAL ofs v = nbind (nget ps_flags) (\<lambda>fl.
     push_store (\<lambda>buf pos. if NDR_BE fl then RSIVAL buf pos v else SIVAL buf pos v) ofs)"

definition NDR_SIVALS :: "u32 \<Rightarrow> (ndr_push, unit) comp" where
  "NDR_SIVALS v = nbind (nget ps_flags) (\<lambda>fl.
     push_store (\<lambda>buf pos. if NDR_BE fl then RSIVALS buf pos v else SIVALS buf pos v) 0)"

definition ndr_push_int8 :: "u8 \<Rightarrow> (ndr_push, unit) comp" where
  "ndr_push_int8 v =
     nthen (NDR_PUSH_NEED_BYTES 1)
    (nthen (push_store (\<lambda>buf pos. SCVAL buf pos v) 0)
           (push_skip 1))"

definition ndr_push_uint8 :: "u8 \<Rightarrow> (ndr_push, unit) comp" where
  "ndr_push_uint8 v =
     nthen (NDR_PUSH_NEED_BYTES 1)
    (nthen (push_store (\<lambda>buf pos. SCVAL buf pos v) 0)
           (push_skip 1))"

definition NDR_PUSH_ALIGN :: "u32 \<Rightarrow> (ndr_push, unit) comp" where
  "NDR_PUSH_ALIGN n =
     nbind (nget id) (\<lambda>ndr.
       if has_flag (ps_flags ndr) LIBNDR_FLAG_NOALIGN then nreturn ()
       else nrepeat (unat (((ps_offset ndr + (n - 1)) AND NOT (n - 1)) - ps_offset ndr))
                    (ndr_push_uint8 0))"

definition ndr_push_int16 :: "u16 \<Rightarrow> (ndr_push, unit) comp" where
  "ndr_push_int16 v =
     nthen (NDR_PUSH_ALIGN 2) (nthen (NDR_PUSH_NEED_BYTES 2) (nthen (NDR_SSVAL (ucast v)) (push_skip 2)))"

definition ndr_push_uint16 :: "u16 \<Rightarrow> (ndr_push, unit) comp" where
  "ndr_push_uint16 v =
     nthen (NDR_PUSH_ALIGN 2) (nthen (NDR_PUSH_NEED_BYTES 2) (nthen (NDR_SSVAL (ucast v)) (push_skip 2)))"

definition ndr_push_int32 :: "u32 \<Rightarrow> (ndr_push, unit) comp" where
  "ndr_push_int32 v =
     nthen (NDR_PUSH_ALIGN 4) (nthen (NDR_PUSH_NEED_BYTES 4) (nthen (NDR_SIVALS v) (push_skip 4)))"

definition ndr_push_uint32 :: "u32 \<Rightarrow> (ndr_push, unit) comp" where
  "ndr_push_uint32 v =
     nthen (NDR_PUSH_ALIGN 4) (nthen (NDR_PUSH_NEED_BYTES 4) (nthen (NDR_SIVAL 0 v) (push_skip 4)))"

definition ndr_push_udlong :: "u64 \<Rightarrow> (ndr_push, unit) comp" where
  "ndr_push_udlong v =
     nthen (NDR_PUSH_ALIGN 4)
    (nthen (NDR_PUSH_NEED_BYTES 8)
    (nthen (NDR_SIVAL 0 (ucast (v AND 0xFFFFFFFF)))
    (nthen (NDR_SIVAL 4 (ucast (drop_bit 32 v)))
           (push_skip 8))))"

definition ndr_push_udlongr :: "u64 \<Rightarrow> (ndr_push, unit) comp" where
  "ndr_push_udlongr v =
     nthen (NDR_PUSH_ALIGN 4)
    (nthen (NDR_PUSH_NEED_BYTES 8)
    (nthen (NDR_SIVAL 0 (ucast (drop_bit 32 v)))
    (nthen (NDR_SIVAL 4 (ucast (v AND 0xFFFFFFFF)))
           (push_skip 8))))"

definition ndr_push_dlong :: "u64 \<Rightarrow> (ndr_push, unit) comp" where
  "ndr_push_dlong v = ndr_push_udlong v"

definition ndr_push_hyper :: "u64 \<Rightarrow> (ndr_push, unit) comp" where
  "ndr_push_hyper v = nthen (NDR_PUSH_ALIGN 8) (ndr_push_udlong v)"

definition ndr_push_NTSTATUS :: "ntstatus \<Rightarrow> (ndr_push, unit) comp" where
  "ndr_push_NTSTATUS status = ndr_push_uint32 status"

definition ndr_push_WERROR :: "u32 \<Rightarrow> (ndr_push, unit) comp" where
  "ndr_push_WERROR status = ndr_push_uint32 status"

definition ndr_push_align :: "u32 \<Rightarrow> (ndr_push, unit) comp" where
  "ndr_push_align sz = NDR_PUSH_ALIGN sz"

text \<open>\<open>memcpy\<close> from \<open>data\<close>, which must hold \<open>n\<close> bytes.\<close>

definition ndr_push_bytes :: "buffer \<Rightarrow> u32 \<Rightarrow> (ndr_push, unit) comp" where
  "ndr_push_bytes data n =
     nthen (NDR_PUSH_NEED_BYTES n)
    (nthen (push_store (\<lambda>buf pos. if unat n \<le> length data \<and> pos + unat n \<le> length buf
                                  then Some (store buf pos (take (unat n) data)) else None) 0)
           (push_skip n))"

definition ndr_push_zero :: "u32 \<Rightarrow> (ndr_push, unit) comp" where
  "ndr_push_zero n =
     nthen (NDR_PUSH_NEED_BYTES n)
    (nthen (push_store (\<lambda>buf pos. if pos + unat n \<le> length buf
                                  then Some (store buf pos (replicate (unat n) (Some 0))) else None) 0)
           (push_skip n))"

definition ndr_push_array_uint8 :: "nat \<Rightarrow> buffer \<Rightarrow> u32 \<Rightarrow> (ndr_push, unit) comp" where
  "ndr_push_array_uint8 ndr_flags data n =
     (if ndr_flags AND NDR_SCALARS = 0 then nreturn () else ndr_push_bytes data n)"

definition ndr_push_NTTIME :: "u64 \<Rightarrow> (ndr_push, unit) comp" where
  "ndr_push_NTTIME t = ndr_push_udlong t"

definition ndr_push_NTTIME_1sec :: "u64 \<Rightarrow> (ndr_push, unit) comp" where
  "ndr_push_NTTIME_1sec t = ndr_push_hyper (t div 10000000)"

definition ndr_push_NTTIME_hyper :: "u64 \<Rightarrow> (ndr_push, unit) comp" where
  "ndr_push_NTTIME_hyper t = ndr_push_hyper t"

definition ndr_push_time_t :: "u64 \<Rightarrow> (ndr_push, unit) comp" where
  "ndr_push_time_t t = ndr_push_uint32 (ucast t)"

end
