(* ===== verification/NdrWire.thy ===== *)
theory NdrWire
  imports Ndr "HOL-Library.Sublist"
begin

text \<open>
  The wire format of the NDR basic types and the contracts of the engine.

  \<^item> A writing context is abstracted to the bytes written so far (\<open>written\<close>); \<open>push_spec e m\<close>
    says that \<open>m\<close> appends the encoding \<open>e\<close> to them, or is refused memory because the buffer
    would come within one growth step of talloc's limit; it never writes outside the buffer.
  \<^item> A reading context is abstracted to the bytes not yet consumed (\<open>unread\<close>);
    \<open>pull_spec v e m\<close> says that \<open>m\<close> gives \<open>v\<close> and consumes \<open>e\<close> when \<open>e\<close> is next.
  \<^item> \<open>pull_safe m\<close> says that \<open>m\<close> never reads outside the buffer, whatever the bytes are.

  An encoding depends on the flags of the context and on the offset, which decides the padding.
  The locale \<open>ndr_codec\<close> is the contract of a pair of push and pull functions for one type; the
  round trip of sequences of elements is proved once in it, and every basic type is an instance.
\<close>

section \<open>Alignment\<close>

definition pad :: "nat \<Rightarrow> nat \<Rightarrow> nat" where
  "pad n ofs = (n - ofs mod n) mod n"

lemma pad_less: "0 < n \<Longrightarrow> pad n ofs < n"
  by (simp add: pad_def)

lemma unat_and_not_mask:
  "unat (x AND NOT (mask k)) = unat x - unat (x :: 'a::len word) mod 2 ^ k"
proof -
  have "x = (x AND NOT (mask k)) + (x AND mask k)"
    by (subst disjunctive_add) (auto simp: bit_simps bit_eq_iff)
  then have "x AND NOT (mask k) = x - take_bit k x" by (simp add: take_bit_eq_mask algebra_simps)
  moreover have "take_bit k x \<le> x" by (simp add: take_bit_eq_mask word_and_le2)
  moreover have "unat (take_bit k x) = unat x mod 2 ^ k"
    by (simp only: unsigned_take_bit_eq take_bit_nat_def)
  ultimately show ?thesis by (simp add: unat_sub)
qed

lemma round_up_nat:
  assumes "0 < n"
  shows "(m + (n - 1)) - (m + (n - 1)) mod n = m + pad n m"
proof -
  obtain k where n: "n = Suc k" using assms by (cases n) auto
  define q r where "q = m div n" and "r = m mod n"
  have m: "m = q * n + r" and r: "r < n" using assms by (simp_all add: q_def r_def)
  have pad: "pad n m = (n - r) mod n" by (simp add: pad_def r_def)
  show ?thesis
  proof (cases r)
    case 0
    then have "(m + k) mod n = (q * n + k) mod n" by (simp add: m)
    also have "\<dots> = k" by (simp only: mod_mult_self3) (simp add: n)
    finally have "(m + k) mod n = k" .
    then show ?thesis using 0 pad by (simp add: n)
  next
    case (Suc r')
    then have mk: "m + (n - 1) = (q + 1) * n + r'" by (simp add: m n)
    then have "(m + (n - 1)) mod n = r'" using Suc r by (simp only: mod_mult_self3) simp
    then have "(m + (n - 1)) - (m + (n - 1)) mod n = (q + 1) * n" using mk by simp
    also have "\<dots> = m + (n - r)" using r by (simp add: m)
    also have "n - r = pad n m" using pad Suc r by simp
    finally show ?thesis .
  qed
qed

lemma pad_aligns:
  assumes "0 < n" shows "n dvd ofs + pad n ofs"
  unfolding round_up_nat [OF assms, symmetric] by (simp add: minus_mod_eq_mult_div)

lemma unat_round_up:
  fixes ofs n :: "'a::len word"
  assumes "n - 1 = mask k" "unat n = 2 ^ k" "k \<le> 3" "unat ofs + unat n \<le> 2 ^ LENGTH('a)"
  shows "unat ((ofs + (n - 1)) AND NOT (n - 1)) = unat ofs + pad (unat n) (unat ofs)"
proof -
  have n: "unat n \<in> {1, 2, 4, 8}"
    using assms(2,3) by (auto simp: le_Suc_eq numeral_3_eq_3)
  then have "n \<noteq> 0" by auto
  then have "unat (n - 1) = unat n - 1" by (rule unat_minus_one)
  then have "unat (ofs + (n - 1)) = unat ofs + (unat n - 1)"
    using assms(4) n by (subst unat_add_no_wrap) auto
  then show ?thesis
    using round_up_nat [of "unat n" "unat ofs"] \<open>n \<noteq> 0\<close> unat_and_not_mask [of "ofs + (n - 1)" k]
    by (simp add: assms(1,2) unat_gt_0)
qed

abbreviation align_ok :: "u32 \<Rightarrow> bool" where
  "align_ok n \<equiv> n \<in> {1, 2, 4, 8}"

lemma unat_round_up32:
  assumes "align_ok n" "unat ofs + 8 < 2 ^ 32"
  shows "unat ((ofs + (n - 1)) AND NOT (n - 1)) = unat ofs + pad (unat n) (unat ofs)"
proof -
  have "\<exists>k. n - 1 = mask k \<and> unat n = 2 ^ k \<and> k \<le> 3"
    using assms(1)
    by (auto simp: mask_eq_exp_minus_1 intro: exI [of _ 0] exI [of _ 1] exI [of _ 2] exI [of _ 3])
  then obtain k where "n - 1 = mask k" "unat n = 2 ^ k" "k \<le> 3" by blast
  moreover have "unat ofs + unat n \<le> 2 ^ 32" using assms by auto
  ultimately show ?thesis by (intro unat_round_up) simp_all
qed

section \<open>Writing contexts\<close>

definition push_ok :: "ndr_push \<Rightarrow> bool" where
  "push_ok p \<longleftrightarrow> length (ps_data p) = unat (ps_alloc_size p) \<and>
     unat (ps_alloc_size p) < MAX_TALLOC_SIZE \<and> unat (ps_offset p) < unat (ps_alloc_size p) \<and>
     None \<notin> set (take (unat (ps_offset p)) (ps_data p))"

definition written :: "ndr_push \<Rightarrow> u8 list" where
  "written p = map the (take (unat (ps_offset p)) (ps_data p))"

text \<open>What appending bytes leaves alone.\<close>

definition push_frame :: "ndr_push \<Rightarrow> ndr_push \<Rightarrow> bool" where
  "push_frame p p' \<longleftrightarrow>
     p'\<lparr>ps_data := ps_data p, ps_alloc_size := ps_alloc_size p, ps_offset := ps_offset p\<rparr> = p"

definition pushes :: "u8 list \<Rightarrow> ndr_push \<Rightarrow> ndr_push \<Rightarrow> bool" where
  "pushes bs p p' \<longleftrightarrow> push_ok p' \<and> written p' = written p @ bs \<and> push_frame p p'"

type_synonym encoding = "u32 \<Rightarrow> nat \<Rightarrow> u8 list"

definition push_at :: "u8 list \<Rightarrow> (ndr_push, unit) comp \<Rightarrow> ndr_push \<Rightarrow> bool" where
  "push_at bs m p \<longleftrightarrow>
     (case m p of
        Inl f \<Rightarrow> f = Status NT_STATUS_NO_MEMORY \<and>
                 MAX_TALLOC_SIZE \<le> unat (ps_offset p) + length bs + 1024
      | Inr (_, p') \<Rightarrow> pushes bs p p')"

definition push_spec :: "encoding \<Rightarrow> (ndr_push, unit) comp \<Rightarrow> bool" where
  "push_spec e m \<longleftrightarrow> (\<forall>p. push_ok p \<longrightarrow> push_at (e (ps_flags p) (unat (ps_offset p))) m p)"

lemma push_specI:
  "(\<And>p. push_ok p \<Longrightarrow> push_at (e (ps_flags p) (unat (ps_offset p))) m p) \<Longrightarrow> push_spec e m"
  by (simp add: push_spec_def)

lemma push_specD:
  "push_spec e m \<Longrightarrow> push_ok p \<Longrightarrow> push_at (e (ps_flags p) (unat (ps_offset p))) m p"
  by (simp add: push_spec_def)

lemma push_okD:
  assumes "push_ok p"
  shows "length (ps_data p) = unat (ps_alloc_size p)" "unat (ps_offset p) < length (ps_data p)"
    "length (ps_data p) < MAX_TALLOC_SIZE" "unat (ps_offset p) < 0x10000000"
    "None \<notin> set (take (unat (ps_offset p)) (ps_data p))"
  using assms by (auto simp: push_ok_def MAX_TALLOC_SIZE_def)

lemma push_frame_fields:
  assumes "push_frame p p'"
  shows "ps_flags p' = ps_flags p" "ps_relative_base_offset p' = ps_relative_base_offset p"
    "ps_relative_base_list p' = ps_relative_base_list p" "ps_switch_list p' = ps_switch_list p"
    "ps_relative_list p' = ps_relative_list p" "ps_full_ptr_list p' = ps_full_ptr_list p"
    "ps_nbt_string_list p' = ps_nbt_string_list p" "ps_ptr_count p' = ps_ptr_count p"
  using assms by (cases p; cases p'; simp add: push_frame_def)+

lemma push_frame_refl [simp]: "push_frame p p"
  by (simp add: push_frame_def)

lemma push_frame_trans: "push_frame p q \<Longrightarrow> push_frame q r \<Longrightarrow> push_frame p r"
  by (cases p; cases q; cases r; simp add: push_frame_def)

lemma push_frame_update [simp]:
  "push_frame p (p\<lparr>ps_data := d, ps_alloc_size := a, ps_offset := ofs\<rparr>)"
  "push_frame p (p\<lparr>ps_data := d, ps_offset := ofs\<rparr>)"
  "push_frame p (p\<lparr>ps_alloc_size := a, ps_data := d\<rparr>)"
  by (simp_all add: push_frame_def)

lemma length_written: "push_ok p \<Longrightarrow> length (written p) = unat (ps_offset p)"
  by (auto simp: written_def dest: push_okD)

lemma pushes_offset:
  assumes "push_ok p" "pushes bs p p'"
  shows "unat (ps_offset p') = unat (ps_offset p) + length bs"
proof -
  have "length (written p') = length (written p) + length bs" and "push_ok p'"
    using assms(2) by (simp_all add: pushes_def)
  with assms(1) show ?thesis by (simp add: length_written)
qed

lemma pushes_refl: "push_ok p \<Longrightarrow> pushes [] p p"
  by (simp add: pushes_def)

lemma pushes_trans: "pushes a p q \<Longrightarrow> pushes b q r \<Longrightarrow> pushes (a @ b) p r"
  by (auto simp: pushes_def intro: push_frame_trans)

lemma pushes_ok: "pushes bs p p' \<Longrightarrow> push_ok p'"
  by (simp add: pushes_def)

lemma push_at_then:
  assumes "push_ok p" "push_at a m p" "\<And>q. pushes a p q \<Longrightarrow> push_at b k q"
  shows "push_at (a @ b) (nthen m k) p"
proof (cases "m p")
  case (Inl f)
  with assms(2) show ?thesis by (auto simp: push_at_def)
next
  case (Inr r)
  then obtain q where q: "m p = Inr ((), q)" "pushes a p q"
    using assms(2) by (cases r) (auto simp: push_at_def)
  from assms(3) [OF q(2)] show ?thesis
    using q pushes_offset [OF assms(1) q(2)]
    by (auto simp: push_at_def intro: pushes_trans split: sum.splits)
qed

text \<open>Encodings in sequence: the second starts where the first ends.\<close>

definition enc_seq :: "encoding \<Rightarrow> encoding \<Rightarrow> encoding" where
  "enc_seq a b fl ofs = a fl ofs @ b fl (ofs + length (a fl ofs))"

lemma push_spec_then:
  assumes "push_spec a m" "push_spec b k"
  shows "push_spec (enc_seq a b) (nthen m k)"
proof (rule push_specI)
  fix p assume p: "push_ok p"
  let ?a = "a (ps_flags p) (unat (ps_offset p))"
  have "push_at (b (ps_flags p) (unat (ps_offset p) + length ?a)) k q" if "pushes ?a p q" for q
    using push_specD [OF assms(2) pushes_ok [OF that]] pushes_offset [OF p that]
      push_frame_fields(1) [of p q] that by (simp add: pushes_def)
  then show "push_at (enc_seq a b (ps_flags p) (unat (ps_offset p))) (nthen m k) p"
    unfolding enc_seq_def by (intro push_at_then p push_specD [OF assms(1) p])
qed

lemma push_spec_return: "push_spec (\<lambda>_ _. []) (nreturn ())"
  by (rule push_specI) (simp add: push_at_def nreturn_def pushes_refl)

subsection \<open>Growing the buffer\<close>

lemma ndr_push_expand_cases:
  assumes ok: "push_ok p" and sz: "unat sz + 1 < 2 ^ 32"
  shows "(\<exists>p'. ndr_push_expand sz p = Inr ((), p') \<and> push_ok p' \<and> written p' = written p \<and>
            push_frame p p' \<and> ps_offset p' = ps_offset p \<and> unat sz < length (ps_data p')) \<or>
         (ndr_push_expand sz p = Inl (Status NT_STATUS_NO_MEMORY) \<and> MAX_TALLOC_SIZE \<le> unat sz + 1024)"
proof (cases "ps_alloc_size p > sz")
  case True
  then show ?thesis
    using ok push_okD(1) [OF ok] by (auto simp: ndr_push_expand_def word_less_nat_alt)
next
  case False
  note p = push_okD [OF ok]
  define asz where "asz = (if sz + 1 > ps_alloc_size p + 1024 then sz + 1 else ps_alloc_size p + 1024)"
  have "unat (ps_alloc_size p + 1024) = length (ps_data p) + 1024"
    using p(1,3) by (subst unat_add_no_wrap) (simp_all add: MAX_TALLOC_SIZE_def)
  moreover have "unat (sz + 1) = unat sz + 1"
    using sz by (subst unat_add_no_wrap) simp_all
  ultimately have asz: "unat asz = max (unat sz + 1) (length (ps_data p) + 1024)"
    by (simp add: asz_def word_less_nat_alt)
  have le: "length (ps_data p) \<le> unat sz" using False p(1) by (simp add: word_less_nat_alt)
  show ?thesis
  proof (cases "MAX_TALLOC_SIZE \<le> unat asz")
    case True
    then have "talloc_realloc_size (Some (ps_data p)) (unat asz) = None"
      by (simp add: talloc_realloc_size_def)
    with True False asz le show ?thesis
      by (auto simp: ndr_push_expand_def Let_def asz_def [symmetric] NDR_BASE_MARSHALL_SIZE_def
          ndr_push_error_def nfail_def)
  next
    case small: False
    let ?d = "ps_data p @ replicate (unat asz - length (ps_data p)) None"
    have "talloc_realloc_size (Some (ps_data p)) (unat asz) = Some ?d"
      using small asz by (simp add: talloc_realloc_size_def)
    then have "ndr_push_expand sz p = Inr ((), p\<lparr>ps_alloc_size := asz, ps_data := ?d\<rparr>)"
      using False by (simp add: ndr_push_expand_def Let_def asz_def [symmetric] NDR_BASE_MARSHALL_SIZE_def)
    moreover have "push_ok (p\<lparr>ps_alloc_size := asz, ps_data := ?d\<rparr>)"
      using p small asz by (auto simp: push_ok_def)
    ultimately show ?thesis
      using p(2) asz by (auto simp: written_def)
  qed
qed

text \<open>Reserve, write the bytes at the offset, advance: the common shape of the primitive writers.\<close>

lemma push_at_raw:
  assumes ok: "push_ok p" and len: "length bs = unat n" "unat n < 2 ^ 31"
    and W: "\<And>q. push_frame p q \<Longrightarrow> ps_offset q = ps_offset p \<Longrightarrow>
       unat (ps_offset q) + unat n \<le> length (ps_data q) \<Longrightarrow>
       W q = Inr ((), q\<lparr>ps_data := store (ps_data q) (unat (ps_offset q)) (map Some bs)\<rparr>)"
  shows "push_at bs (nthen (NDR_PUSH_NEED_BYTES n) (nthen W (push_skip n))) p"
proof -
  note p = push_okD [OF ok]
  have sum: "unat (ps_offset p + n) = unat (ps_offset p) + unat n"
    using p(4) len(2) by (subst unat_add_no_wrap) simp_all
  have "unat (ps_offset p + n) + 1 < 2 ^ 32" using sum p(4) len(2) by simp
  from ndr_push_expand_cases [OF ok this] show ?thesis
  proof (elim disjE exE conjE)
    fix q assume q: "ndr_push_expand (ps_offset p + n) p = Inr ((), q)" "push_ok q"
      "written q = written p" "push_frame p q" "ps_offset q = ps_offset p"
      "unat (ps_offset p + n) < length (ps_data q)"
    let ?d = "store (ps_data q) (unat (ps_offset q)) (map Some bs)"
    let ?r = "q\<lparr>ps_data := ?d, ps_offset := ps_offset q + n\<rparr>"
    have room: "unat (ps_offset q) + unat n < length (ps_data q)" using q(5,6) sum by simp
    have run: "nthen (NDR_PUSH_NEED_BYTES n) (nthen W (push_skip n)) p = Inr ((), ?r)"
      using q(1,4,5) room W [of q] by (simp add: NDR_PUSH_NEED_BYTES_def nthen_def nbind_def nget_def nmodify_def)
    have tk: "take (unat (ps_offset ?r)) (ps_data ?r) = take (unat (ps_offset q)) (ps_data q) @ map Some bs"
      using room len q(5) sum take_store_end [of "unat (ps_offset q)" "map Some bs" "ps_data q"] by simp
    have "push_ok ?r"
      using push_okD [OF q(2)] room len tk q(5) sum by (auto simp: push_ok_def)
    moreover have "written ?r = written p @ bs"
      unfolding q(3) [symmetric] by (simp only: written_def tk) (simp add: comp_def)
    moreover have "push_frame p ?r"
      using q(4) by (rule push_frame_trans) simp
    ultimately show ?thesis by (simp add: push_at_def run pushes_def)
  next
    assume "ndr_push_expand (ps_offset p + n) p = Inl (Status NT_STATUS_NO_MEMORY)"
      "MAX_TALLOC_SIZE \<le> unat (ps_offset p + n) + 1024"
    then show ?thesis
      using len sum by (simp add: push_at_def NDR_PUSH_NEED_BYTES_def nthen_def nbind_def nget_def)
  qed
qed

subsection \<open>The primitive writers\<close>

lemma push_store_eq:
  "w (ps_data q) (unat (ps_offset q + ofs)) = Some d \<Longrightarrow>
   push_store w ofs q = Inr ((), q\<lparr>ps_data := d\<rparr>)"
  by (simp add: nupdate_def)

lemma push_uint8_spec: "push_spec (\<lambda>_ _. [v]) (ndr_push_uint8 v)"
proof (rule push_specI)
  fix p assume "push_ok p"
  then show "push_at [v] (ndr_push_uint8 v) p"
    unfolding ndr_push_uint8_def
    by (rule push_at_raw) (auto simp: nupdate_def SCVAL_def store_Cons)
qed

lemma push_int8_spec: "push_spec (\<lambda>_ _. [v]) (ndr_push_int8 v)"
  using push_uint8_spec by (simp add: ndr_push_int8_def ndr_push_uint8_def)

definition enc_pad :: "u32 \<Rightarrow> encoding" where
  "enc_pad n fl ofs = (if has_flag fl LIBNDR_FLAG_NOALIGN then [] else replicate (pad (unat n) ofs) 0)"

lemma push_zeroes: "push_spec (\<lambda>_ _. replicate k 0) (nrepeat k (ndr_push_uint8 0))"
proof (induction k)
  case 0
  show ?case by (simp add: push_spec_return)
next
  case (Suc k)
  from push_spec_then [OF push_uint8_spec [of 0] this] show ?case by (simp add: enc_seq_def [abs_def])
qed

lemma push_align_spec:
  assumes "align_ok n" shows "push_spec (enc_pad n) (NDR_PUSH_ALIGN n)"
proof (rule push_specI)
  fix p assume p: "push_ok p"
  let ?r = "(ps_offset p + (n - 1)) AND NOT (n - 1)"
  have "unat ?r = unat (ps_offset p) + pad (unat n) (unat (ps_offset p))"
    using assms push_okD(4) [OF p] by (intro unat_round_up32) simp_all
  then have "unat (?r - ps_offset p) = pad (unat n) (unat (ps_offset p))"
    by (subst unat_sub_le) (simp_all add: word_le_nat_alt)
  then have run: "NDR_PUSH_ALIGN n p = (if has_flag (ps_flags p) LIBNDR_FLAG_NOALIGN then nreturn () p
      else nrepeat (pad (unat n) (unat (ps_offset p))) (ndr_push_uint8 0) p)"
    by (simp add: NDR_PUSH_ALIGN_def nget_def nbind_def)
  show "push_at (enc_pad n (ps_flags p) (unat (ps_offset p))) (NDR_PUSH_ALIGN n) p"
    using push_specD [OF push_spec_return p] push_specD [OF push_zeroes p]
    unfolding push_at_def run enc_pad_def by (simp add: if_distrib)
qed

text \<open>Byte order of a context applied to the little-endian bytes of a value.\<close>

definition order :: "u32 \<Rightarrow> u8 list \<Rightarrow> u8 list" where
  "order fl bs = (if NDR_BE fl then rev bs else bs)"

lemma length_order [simp]: "length (order fl bs) = length bs"
  by (simp add: order_def)

lemma push_spec_raw:
  assumes "\<And>fl. length (bs fl) = unat n" "unat n < 2 ^ 31"
    and "\<And>q. unat (ps_offset q) + unat n \<le> length (ps_data q) \<Longrightarrow> unat (ps_offset q) < 0x10000000 \<Longrightarrow>
       W q = Inr ((), q\<lparr>ps_data := store (ps_data q) (unat (ps_offset q)) (map Some (bs (ps_flags q)))\<rparr>)"
  shows "push_spec (\<lambda>fl _. bs fl) (nthen (NDR_PUSH_NEED_BYTES n) (nthen W (push_skip n)))"
proof (rule push_specI)
  fix p assume p: "push_ok p"
  show "push_at (bs (ps_flags p)) (nthen (NDR_PUSH_NEED_BYTES n) (nthen W (push_skip n))) p"
    using p assms(1,2)
  proof (rule push_at_raw)
    fix q assume "push_frame p q" "ps_offset q = ps_offset p"
      "unat (ps_offset q) + unat n \<le> length (ps_data q)"
    then show "W q = Inr ((), q\<lparr>ps_data := store (ps_data q) (unat (ps_offset q)) (map Some (bs (ps_flags p)))\<rparr>)"
      using assms(3) [of q] push_frame_fields(1) [of p q] push_okD(4) [OF p] by simp
  qed
qed

definition enc16 :: "u16 \<Rightarrow> encoding" where
  "enc16 v = enc_seq (enc_pad 2) (\<lambda>fl _. order fl (le16 v))"

definition enc32 :: "u32 \<Rightarrow> encoding" where
  "enc32 v = enc_seq (enc_pad 4) (\<lambda>fl _. order fl (le32 v))"

definition enc_udlong :: "u64 \<Rightarrow> encoding" where
  "enc_udlong v = enc_seq (enc_pad 4)
     (\<lambda>fl _. order fl (le32 (ucast v)) @ order fl (le32 (ucast (drop_bit 32 v))))"

definition enc_udlongr :: "u64 \<Rightarrow> encoding" where
  "enc_udlongr v = enc_seq (enc_pad 4)
     (\<lambda>fl _. order fl (le32 (ucast (drop_bit 32 v))) @ order fl (le32 (ucast v)))"

definition enc_hyper :: "u64 \<Rightarrow> encoding" where
  "enc_hyper v = enc_seq (enc_pad 8) (enc_udlong v)"

lemma ucast_u16_u32 [simp]: "ucast (ucast (v :: u16) :: u32) = v"
  by (rule bit_word_eqI) (auto simp: bit_simps)

lemma push_uint16_spec: "push_spec (enc16 v) (ndr_push_uint16 v)"
  unfolding ndr_push_uint16_def enc16_def
  by (intro push_spec_then push_align_spec push_spec_raw)
     (auto simp: NDR_SSVAL_def nbind_def nget_def nupdate_def order_def SSVAL_eq RSSVAL_eq)

lemma push_int16_spec: "push_spec (enc16 v) (ndr_push_int16 v)"
  using push_uint16_spec by (simp add: ndr_push_int16_def ndr_push_uint16_def)

lemma push_uint32_spec: "push_spec (enc32 v) (ndr_push_uint32 v)"
  unfolding ndr_push_uint32_def enc32_def
  by (intro push_spec_then push_align_spec push_spec_raw)
     (auto simp: NDR_SIVAL_def nbind_def nget_def nupdate_def order_def SIVAL_eq RSIVAL_eq)

lemma push_int32_spec: "push_spec (enc32 v) (ndr_push_int32 v)"
  unfolding ndr_push_int32_def enc32_def
  by (intro push_spec_then push_align_spec push_spec_raw)
     (auto simp: NDR_SIVALS_def nbind_def nget_def nupdate_def order_def SIVALS_eq RSIVALS_eq)

lemma NDR_SIVAL_run:
  "unat (ps_offset q + ofs) + 4 \<le> length (ps_data q) \<Longrightarrow>
   NDR_SIVAL ofs v q = Inr ((), q\<lparr>ps_data :=
     store (ps_data q) (unat (ps_offset q + ofs)) (map Some (order (ps_flags q) (le32 v)))\<rparr>)"
  by (simp add: NDR_SIVAL_def nbind_def nget_def nupdate_def order_def SIVAL_eq RSIVAL_eq)

lemma store_store:
  "pos + length a + length b \<le> length buf \<Longrightarrow>
   store (store buf pos a) (pos + length a) b = store buf pos (a @ b)"
  by (simp add: store_def ac_simps)

lemma NDR_SIVAL_pair_run:
  assumes "unat (ps_offset q) + 8 \<le> length (ps_data q)" "unat (ps_offset q) < 0x10000000"
  shows "nthen (NDR_SIVAL 0 a) (nthen (NDR_SIVAL 4 b) k) q =
     k (q\<lparr>ps_data := store (ps_data q) (unat (ps_offset q))
        (map Some (order (ps_flags q) (le32 a) @ order (ps_flags q) (le32 b)))\<rparr>)"
proof -
  have "unat (ps_offset q + 4) = unat (ps_offset q) + 4"
    using assms(2) by (subst unat_add_no_wrap) simp_all
  then show ?thesis
    using assms(1) store_store [of "unat (ps_offset q)" "map Some (order (ps_flags q) (le32 a))"
        "map Some (order (ps_flags q) (le32 b))" "ps_data q"]
    by (simp add: NDR_SIVAL_run)
qed

lemma nthen_assoc: "nthen (nthen a b) c = nthen a (nthen b c)"
  by (simp add: nthen_def nbind_assoc)

lemma ucast_low_word: "ucast ((v :: u64) AND 0xFFFFFFFF) = (ucast v :: u32)"
proof -
  have "v AND 0xFFFFFFFF = take_bit 32 v" by (simp add: take_bit_eq_mask mask_eq_exp_minus_1)
  then show ?thesis by (simp add: bit_eq_iff bit_simps)
qed

lemma push_pair_spec:
  "push_spec (\<lambda>fl _. order fl (le32 a) @ order fl (le32 b))
     (nthen (NDR_PUSH_NEED_BYTES 8) (nthen (NDR_SIVAL 0 a) (nthen (NDR_SIVAL 4 b) (push_skip 8))))"
proof -
  have "push_spec (\<lambda>fl _. order fl (le32 a) @ order fl (le32 b))
     (nthen (NDR_PUSH_NEED_BYTES 8) (nthen (nthen (NDR_SIVAL 0 a) (nthen (NDR_SIVAL 4 b) (nreturn ()))) (push_skip 8)))"
    by (rule push_spec_raw) (auto simp: NDR_SIVAL_pair_run nreturn_def)
  moreover have "nthen (nreturn ()) k = k" for k :: "(ndr_push, unit) comp" by (simp add: nthen_def)
  ultimately show ?thesis by (simp only: nthen_assoc)
qed

lemma push_udlong_spec: "push_spec (enc_udlong v) (ndr_push_udlong v)"
  unfolding ndr_push_udlong_def enc_udlong_def ucast_low_word
  by (intro push_spec_then push_align_spec push_pair_spec) simp

lemma push_udlongr_spec: "push_spec (enc_udlongr v) (ndr_push_udlongr v)"
  unfolding ndr_push_udlongr_def enc_udlongr_def ucast_low_word
  by (intro push_spec_then push_align_spec push_pair_spec) simp

lemma push_hyper_spec: "push_spec (enc_hyper v) (ndr_push_hyper v)"
  unfolding ndr_push_hyper_def enc_hyper_def
  by (intro push_spec_then push_align_spec push_udlong_spec) simp

lemma push_bytes_spec:
  assumes "length bs = unat n" "unat n < 2 ^ 31"
  shows "push_spec (\<lambda>_ _. bs) (ndr_push_bytes (map Some bs @ rest) n)"
  unfolding ndr_push_bytes_def
  by (rule push_spec_raw) (use assms in \<open>auto simp: nupdate_def\<close>)

lemma push_zero_spec:
  assumes "unat n < 2 ^ 31" shows "push_spec (\<lambda>_ _. replicate (unat n) 0) (ndr_push_zero n)"
  unfolding ndr_push_zero_def
  by (rule push_spec_raw) (use assms in \<open>auto simp: nupdate_def\<close>)

section \<open>Reading contexts\<close>

text \<open>
  The buffer holds \<open>data_size\<close> bytes and the offset is inside it.  Below \<open>2\<^sup>3\<^sup>1\<close> bytes the sums in
  the bounds checks cannot wrap; talloc bounds a received buffer by \<open>2\<^sup>2\<^sup>8\<close>.  The padding check is a
  debugging aid (\<open>LIBNDR_FLAG_PAD_CHECK\<close>) and off.
\<close>

definition pull_ok :: "ndr_pull \<Rightarrow> bool" where
  "pull_ok q \<longleftrightarrow> unat (pl_data_size q) \<le> length (pl_data q) \<and> pl_offset q \<le> pl_data_size q \<and>
     unat (pl_data_size q) < 2 ^ 31 \<and> \<not> has_flag (pl_flags q) LIBNDR_FLAG_PAD_CHECK"

definition unread :: "ndr_pull \<Rightarrow> u8 list" where
  "unread q = drop (unat (pl_offset q)) (take (unat (pl_data_size q)) (pl_data q))"

definition pull_frame :: "ndr_pull \<Rightarrow> ndr_pull \<Rightarrow> bool" where
  "pull_frame q q' \<longleftrightarrow> pl_data q' = pl_data q \<and> pl_data_size q' = pl_data_size q \<and> pl_flags q' = pl_flags q"

abbreviation adv :: "nat \<Rightarrow> ndr_pull \<Rightarrow> ndr_pull" where
  "adv k q \<equiv> q\<lparr>pl_offset := pl_offset q + of_nat k\<rparr>"

definition pull_spec :: "'a \<Rightarrow> encoding \<Rightarrow> (ndr_pull, 'a) comp \<Rightarrow> bool" where
  "pull_spec v e m \<longleftrightarrow> (\<forall>q. pull_ok q \<longrightarrow>
     prefix (e (pl_flags q) (unat (pl_offset q))) (unread q) \<longrightarrow>
     m q = Inr (v, adv (length (e (pl_flags q) (unat (pl_offset q)))) q))"

abbreviation pull_safe :: "(ndr_pull, 'a) comp \<Rightarrow> bool" where
  "pull_safe m \<equiv> keeps pull_ok pull_frame m"

lemma pull_specI:
  "(\<And>q. pull_ok q \<Longrightarrow> prefix (e (pl_flags q) (unat (pl_offset q))) (unread q) \<Longrightarrow>
     m q = Inr (v, adv (length (e (pl_flags q) (unat (pl_offset q)))) q)) \<Longrightarrow> pull_spec v e m"
  by (simp add: pull_spec_def)

lemma pull_specD:
  "pull_spec v e m \<Longrightarrow> pull_ok q \<Longrightarrow> prefix (e (pl_flags q) (unat (pl_offset q))) (unread q) \<Longrightarrow>
   m q = Inr (v, adv (length (e (pl_flags q) (unat (pl_offset q)))) q)"
  by (simp add: pull_spec_def)

lemma pull_frame_refl [intro, simp]: "reflp pull_frame"
  by (rule reflpI) (simp add: pull_frame_def)

lemma pull_frame_trans [intro, simp]: "transp pull_frame"
  by (rule transpI) (simp add: pull_frame_def)

lemma pull_okD:
  assumes "pull_ok q"
  shows "unat (pl_data_size q) \<le> length (pl_data q)" "unat (pl_offset q) \<le> unat (pl_data_size q)"
    "unat (pl_data_size q) < 2 ^ 31" "\<not> has_flag (pl_flags q) LIBNDR_FLAG_PAD_CHECK"
  using assms by (auto simp: pull_ok_def word_le_nat_alt)

lemma length_unread: "pull_ok q \<Longrightarrow> length (unread q) = unat (pl_data_size q) - unat (pl_offset q)"
  by (auto simp: unread_def dest: pull_okD)

lemma adv_ok:
  assumes "pull_ok q" "k \<le> length (unread q)"
  shows "pull_ok (adv k q)" "unat (pl_offset (adv k q)) = unat (pl_offset q) + k"
    "unread (adv k q) = drop k (unread q)"
proof -
  have "unat (pl_offset q) + k \<le> unat (pl_data_size q)"
    using assms length_unread [OF assms(1)] pull_okD [OF assms(1)] by simp
  moreover from this have "unat (of_nat k :: u32) = k"
    using pull_okD(3) [OF assms(1)] by (intro unat_of_nat_small) simp
  ultimately show u: "unat (pl_offset (adv k q)) = unat (pl_offset q) + k"
    using pull_okD(3) [OF assms(1)] by (simp, subst unat_add_no_wrap) simp_all
  then show "pull_ok (adv k q)"
    using assms(1) \<open>unat (pl_offset q) + k \<le> unat (pl_data_size q)\<close>
    by (simp add: pull_ok_def word_le_nat_alt)
  show "unread (adv k q) = drop k (unread q)"
    using u by (simp add: unread_def add.commute)
qed

lemma adv_adv: "adv j (adv i q) = adv (i + j) q"
  by (simp add: add.assoc)

lemma adv_0 [simp]: "adv 0 q = q"
  by simp

lemma pull_spec_return: "pull_spec v (\<lambda>_ _. []) (nreturn v)"
  by (rule pull_specI) (simp add: nreturn_def)

lemma pull_spec_bind:
  assumes "pull_spec v a m" "pull_spec w b (f v)"
  shows "pull_spec w (enc_seq a b) (nbind m f)"
proof (rule pull_specI)
  fix q assume q: "pull_ok q"
    and pre: "prefix (enc_seq a b (pl_flags q) (unat (pl_offset q))) (unread q)"
  let ?a = "a (pl_flags q) (unat (pl_offset q))"
  let ?q = "adv (length ?a) q"
  let ?b = "b (pl_flags q) (unat (pl_offset q) + length ?a)"
  from pre obtain rest where un: "unread q = ?a @ ?b @ rest"
    by (auto simp: enc_seq_def prefix_def)
  then have len: "length ?a \<le> length (unread q)" by simp
  note q' = adv_ok [OF q len]
  have "m q = Inr (v, ?q)" using un by (intro pull_specD [OF assms(1) q]) simp
  moreover have "f v ?q = Inr (w, adv (length ?b) ?q)"
    using pull_specD [OF assms(2) q'(1)] q'(2,3) un by simp
  ultimately show "nbind m f q = Inr (w, adv (length (enc_seq a b (pl_flags q) (unat (pl_offset q)))) q)"
    by (simp add: enc_seq_def add.assoc)
qed

lemma pull_spec_then:
  "pull_spec v a m \<Longrightarrow> pull_spec w b k \<Longrightarrow> pull_spec w (enc_seq a b) (nthen m k)"
  unfolding nthen_def by (rule pull_spec_bind)

lemma enc_seq_Nil [simp]: "enc_seq a (\<lambda>_ _. []) = a" "enc_seq (\<lambda>_ _. []) b = b"
  by (simp_all add: enc_seq_def [abs_def])

lemma pull_spec_map: "pull_spec v e m \<Longrightarrow> pull_spec (g v) e (nbind m (\<lambda>x. nreturn (g x)))"
  by (erule pull_spec_bind [where b = "\<lambda>_ _. []", unfolded enc_seq_Nil]) (rule pull_spec_return)

subsection \<open>The bounds check and alignment\<close>

lemma need_bytes_cases:
  assumes "pull_ok q"
  shows "if unat n \<le> length (unread q) then NDR_PULL_NEED_BYTES n q = Inr ((), q)
         else NDR_PULL_NEED_BYTES n q = Inl (Status NT_STATUS_BUFFER_TOO_SMALL)"
proof -
  note q = pull_okD [OF assms]
  have "(n > pl_data_size q \<or> pl_offset q + n > pl_data_size q) \<longleftrightarrow> \<not> unat n \<le> length (unread q)"
  proof (cases "unat n \<le> unat (pl_data_size q)")
    case True
    then have "unat (pl_offset q + n) = unat (pl_offset q) + unat n"
      using q by (subst unat_add_no_wrap) simp_all
    then show ?thesis using True q length_unread [OF assms] by (auto simp: word_less_nat_alt)
  next
    case False
    then show ?thesis using length_unread [OF assms] by (auto simp: word_less_nat_alt)
  qed
  then show ?thesis by (auto simp: NDR_PULL_NEED_BYTES_def ncheck_def)
qed

lemma need_bytes_safe [comp_intros]: "pull_safe (NDR_PULL_NEED_BYTES n)"
  unfolding NDR_PULL_NEED_BYTES_def by (rule keeps_check) simp

lemma pull_align_run:
  assumes "pull_ok q" "align_ok n"
  shows "NDR_PULL_ALIGN n q =
    (let k = length (enc_pad n (pl_flags q) (unat (pl_offset q)))
     in if k \<le> length (unread q) then Inr ((), adv k q) else Inl (Status NT_STATUS_BUFFER_TOO_SMALL))"
proof (cases "has_flag (pl_flags q) LIBNDR_FLAG_NOALIGN")
  case True
  then show ?thesis
    using pull_okD(2) [OF assms(1)]
    by (simp add: NDR_PULL_ALIGN_def nbind_def nget_def nthen_def nreturn_def ncheck_def enc_pad_def
        word_less_nat_alt)
next
  case False
  note q = pull_okD [OF assms(1)]
  let ?r = "(pl_offset q + (n - 1)) AND NOT (n - 1)"
  have r: "unat ?r = unat (pl_offset q) + pad (unat n) (unat (pl_offset q))"
    using assms(2) q by (intro unat_round_up32) simp_all
  have "pad (unat n) (unat (pl_offset q)) < 8"
    using assms(2) pad_less [of "unat n" "unat (pl_offset q)"] by auto
  then have "?r = pl_offset q + of_nat (pad (unat n) (unat (pl_offset q)))"
    using q r by (simp add: word_unat_eq_iff unat_add_no_wrap unat_of_nat_small)
  then show ?thesis
    using False q r length_unread [OF assms(1)]
    by (auto simp: NDR_PULL_ALIGN_def nbind_def nget_def nthen_def nreturn_def nmodify_def ncheck_def
        enc_pad_def word_less_nat_alt Let_def)
qed

lemma pull_align_safe [comp_intros]:
  assumes "align_ok n" shows "pull_safe (NDR_PULL_ALIGN n)"
  by (rule keepsI) (auto simp: pull_align_run [OF _ assms] Let_def pull_frame_def intro: adv_ok split: if_splits)

lemma pull_align_spec: "align_ok n \<Longrightarrow> pull_spec () (enc_pad n) (NDR_PULL_ALIGN n)"
  by (rule pull_specI) (auto simp: pull_align_run Let_def dest: prefix_length_le)

lemma pull_aligned:
  "align_ok n \<Longrightarrow> pull_spec w b k \<Longrightarrow> pull_spec w (enc_seq (enc_pad n) b) (nthen (NDR_PULL_ALIGN n) k)"
  by (rule pull_spec_then [OF pull_align_spec])

lemma pull_aligned_safe:
  "align_ok n \<Longrightarrow> pull_safe k \<Longrightarrow> pull_safe (nthen (NDR_PULL_ALIGN n) k)"
  by (intro keeps_then pull_align_safe) simp_all

subsection \<open>The primitive readers\<close>

text \<open>Check the room, decode at the offset, advance.\<close>

lemma pull_raw_safe:
  assumes "\<And>q. unat (pl_offset q) + unat n \<le> length (pl_data q) \<Longrightarrow> unat (pl_offset q) + unat n < 2 ^ 32 \<Longrightarrow>
      \<exists>v. A q = Inr (v, q)"
  shows "pull_safe (nthen (NDR_PULL_NEED_BYTES n) (nbind A (\<lambda>v. nthen (pull_skip n) (nreturn v))))"
proof (rule keepsI)
  fix q assume q: "pull_ok q"
  let ?m = "nthen (NDR_PULL_NEED_BYTES n) (nbind A (\<lambda>v. nthen (pull_skip n) (nreturn v)))"
  have *: "\<exists>v. ?m q = Inr (v, adv (unat n) q)" if "unat n \<le> length (unread q)"
  proof -
    have "unat (pl_offset q) + unat n \<le> length (pl_data q)" "unat (pl_offset q) + unat n < 2 ^ 32"
      using that length_unread [OF q] pull_okD [OF q] by simp_all
    then obtain v where "A q = Inr (v, q)" using assms by blast
    then show ?thesis
      using need_bytes_cases [OF q, of n] that by (simp add: nthen_def nbind_def nmodify_def nreturn_def)
  qed
  show "?m q \<noteq> Inl Fault"
    using * need_bytes_cases [OF q, of n] by (cases "unat n \<le> length (unread q)") auto
  fix v q' assume "?m q = Inr (v, q')"
  then show "pull_ok q' \<and> pull_frame q q'"
    using * need_bytes_cases [OF q, of n] adv_ok(1) [OF q, of "unat n"]
    by (cases "unat n \<le> length (unread q)") (auto simp: pull_frame_def)
qed

lemma pull_raw_spec:
  assumes "\<And>fl. length (bs fl) = unat n"
    and "\<And>q. unat (pl_offset q) + unat n \<le> length (pl_data q) \<Longrightarrow> unat (pl_offset q) + unat n < 2 ^ 32 \<Longrightarrow>
      take (unat n) (drop (unat (pl_offset q)) (pl_data q)) = bs (pl_flags q) \<Longrightarrow> A q = Inr (v, q)"
  shows "pull_spec v (\<lambda>fl _. bs fl) (nthen (NDR_PULL_NEED_BYTES n) (nbind A (\<lambda>v. nthen (pull_skip n) (nreturn v))))"
proof (rule pull_specI)
  fix q assume q: "pull_ok q" and pre: "prefix (bs (pl_flags q)) (unread q)"
  then have len: "unat n \<le> length (unread q)" using assms(1) prefix_length_le by metis
  have "unat (pl_offset q) + unat n \<le> length (pl_data q)" "unat (pl_offset q) + unat n < 2 ^ 32"
    using len length_unread [OF q] pull_okD [OF q] by simp_all
  moreover have "take (unat n) (drop (unat (pl_offset q)) (pl_data q)) = bs (pl_flags q)"
  proof -
    have "bs (pl_flags q) = take (unat n) (unread q)" using pre assms(1) by (metis prefix_def append_eq_conv_conj)
    moreover have "unat n + unat (pl_offset q) \<le> unat (pl_data_size q)"
      using len length_unread [OF q] pull_okD(2) [OF q] by simp
    ultimately show ?thesis by (simp add: unread_def take_drop min_absorb1)
  qed
  ultimately have "A q = Inr (v, q)" by (rule assms(2))
  then show "nthen (NDR_PULL_NEED_BYTES n) (nbind A (\<lambda>v. nthen (pull_skip n) (nreturn v))) q =
      Inr (v, adv (length (bs (pl_flags q))) q)"
    using need_bytes_cases [OF q, of n] len
    by (simp add: nthen_def nbind_def nmodify_def nreturn_def assms(1))
qed

lemma keeps_map [comp_intros]: "keeps I R m \<Longrightarrow> keeps I R (nbind m (\<lambda>x. nreturn (g x)))"
  unfolding keeps_def comp_spec_def nbind_def nreturn_def by (auto split: sum.splits prod.splits)

lemma naccess_map: "nbind (naccess f) (\<lambda>x. nbind (nreturn (g x)) k) = nbind (naccess (\<lambda>s. map_option g (f s))) k"
  by (rule ext) (simp add: nbind_def naccess_def nreturn_def split: option.splits)

lemma reader_shape:
  "nbind (naccess f) (\<lambda>x. nthen (pull_skip n) (nreturn (g x))) =
   nbind (nbind (naccess f) (\<lambda>x. nreturn (g x))) (\<lambda>v. nthen (pull_skip n) (nreturn v))"
  by (simp add: nbind_assoc)

lemma reader_shape2:
  "nbind (naccess f) (\<lambda>x. nbind (naccess h) (\<lambda>y. nthen (pull_skip n) (nreturn (g x y)))) =
   nbind (nbind (naccess f) (\<lambda>x. nbind (naccess h) (\<lambda>y. nreturn (g x y)))) (\<lambda>v. nthen (pull_skip n) (nreturn v))"
  by (simp add: nbind_assoc)

lemmas run_simps = nbind_def naccess_def nreturn_def

lemma ucast_u8_u32 [simp]: "ucast (ucast (v :: u8) :: u32) = v"
  by (rule bit_word_eqI) (auto simp: bit_simps)

lemma pull_uint8_spec: "pull_spec v (\<lambda>_ _. [v]) ndr_pull_uint8"
  unfolding ndr_pull_uint8_def reader_shape
  by (rule pull_raw_spec)
     (auto simp: run_simps CVAL_def take_Suc_conv_app_nth hd_drop_conv_nth split: list.splits)

lemma pull_uint8_safe [comp_intros]: "pull_safe ndr_pull_uint8"
  unfolding ndr_pull_uint8_def reader_shape by (rule pull_raw_safe) (auto simp: run_simps CVAL_def)

lemma SVAL_total: "pos + 2 \<le> length buf \<Longrightarrow> \<exists>v. SVAL buf pos = Some v \<and> RSVAL buf pos = Some (SREV v)"
  by (simp add: SVAL_eq RSVAL_def)

lemma IVAL_total: "pos + 4 \<le> length buf \<Longrightarrow> \<exists>v. IVAL buf pos = Some v \<and> RIVAL buf pos = Some (IREV v)"
  by (simp add: IVAL_eq RIVAL_def)

lemma NDR_SVAL_total: "unat ofs + 2 \<le> length (pl_data q) \<Longrightarrow> \<exists>v. NDR_SVAL q ofs = Some v"
  using SVAL_total [of "unat ofs" "pl_data q"] by (auto simp: NDR_SVAL_def)

lemma NDR_IVAL_total: "unat ofs + 4 \<le> length (pl_data q) \<Longrightarrow> \<exists>v. NDR_IVAL q ofs = Some v"
  using IVAL_total [of "unat ofs" "pl_data q"] by (auto simp: NDR_IVAL_def)

lemma NDR_SVAL_order:
  "unat ofs + 2 \<le> length (pl_data q) \<Longrightarrow> take 2 (drop (unat ofs) (pl_data q)) = order (pl_flags q) (le16 v) \<Longrightarrow>
   NDR_SVAL q ofs = Some (ucast v)"
  by (auto simp: NDR_SVAL_def order_def SVAL_le16 RSVAL_be16 split: if_splits)

lemma NDR_IVAL_order:
  "unat ofs + 4 \<le> length (pl_data q) \<Longrightarrow> take 4 (drop (unat ofs) (pl_data q)) = order (pl_flags q) (le32 v) \<Longrightarrow>
   NDR_IVAL q ofs = Some v"
  by (auto simp: NDR_IVAL_def order_def IVAL_le32 RIVAL_be32 split: if_splits)

lemma pull_uint16_spec: "pull_spec v (enc16 v) ndr_pull_uint16"
  unfolding ndr_pull_uint16_def enc16_def reader_shape
  by (intro pull_aligned pull_raw_spec) (auto simp: run_simps NDR_SVAL_order)

lemma pull_uint16_safe [comp_intros]: "pull_safe ndr_pull_uint16"
  unfolding ndr_pull_uint16_def reader_shape
  by (intro pull_aligned_safe pull_raw_safe)
     (auto simp: run_simps intro!: NDR_SVAL_total split: option.splits)

lemma pull_uint32_spec: "pull_spec v (enc32 v) ndr_pull_uint32"
  unfolding ndr_pull_uint32_def enc32_def
  by (intro pull_aligned pull_raw_spec) (auto simp: run_simps NDR_IVAL_order)

lemma pull_uint32_safe [comp_intros]: "pull_safe ndr_pull_uint32"
  unfolding ndr_pull_uint32_def
  by (intro pull_aligned_safe pull_raw_safe)
     (auto simp: run_simps dest!: NDR_IVAL_total split: option.splits)

lemma pull_twins: "ndr_pull_int8 = ndr_pull_uint8" "ndr_pull_int16 = ndr_pull_uint16"
  "ndr_pull_int32 = ndr_pull_uint32"
  by (simp_all add: ndr_pull_int8_def ndr_pull_uint8_def ndr_pull_int16_def ndr_pull_uint16_def
      ndr_pull_int32_def ndr_pull_uint32_def)

lemma offset_plus_4:
  "unat ofs + 8 < 2 ^ 32 \<Longrightarrow> unat (ofs + 4 :: u32) = unat ofs + 4"
  by (subst unat_add_no_wrap) simp_all

lemma slice8:
  assumes "take 8 (drop pos buf) = a @ b" "length a = 4" "length b = 4"
  shows "take 4 (drop pos buf) = a" "take 4 (drop (pos + 4) buf) = b"
proof -
  have "take 4 (take 8 (drop pos buf)) = a" using assms by simp
  then show "take 4 (drop pos buf) = a" by simp
  have "drop 4 (take 8 (drop pos buf)) = b" using assms by simp
  then show "take 4 (drop (pos + 4) buf) = b" by (simp add: drop_take add.commute)
qed

lemma NDR_IVAL_pair:
  assumes "unat (pl_offset q) + 8 \<le> length (pl_data q)" "unat (pl_offset q) + 8 < 2 ^ 32"
    and "take 8 (drop (unat (pl_offset q)) (pl_data q)) =
         order (pl_flags q) (le32 a) @ order (pl_flags q) (le32 b)"
  shows "NDR_IVAL q (pl_offset q) = Some a" "NDR_IVAL q (pl_offset q + 4) = Some b"
  using assms(1) slice8 [OF assms(3)] offset_plus_4 [OF assms(2)] by (auto intro!: NDR_IVAL_order)

lemma NDR_IVAL_pair_total:
  assumes "unat (pl_offset q) + 8 \<le> length (pl_data q)" "unat (pl_offset q) + 8 < 2 ^ 32"
  shows "\<exists>a b. NDR_IVAL q (pl_offset q) = Some a \<and> NDR_IVAL q (pl_offset q + 4) = Some b"
  using NDR_IVAL_total [of "pl_offset q" q] NDR_IVAL_total [of "pl_offset q + 4" q]
    offset_plus_4 [OF assms(2)] assms(1) by auto

lemma join_u64:
  "ucast (ucast v :: u32) OR push_bit 32 (ucast (ucast (drop_bit 32 v) :: u32)) = (v :: u64)"
  "push_bit 32 (ucast (ucast (drop_bit 32 v) :: u32)) OR ucast (ucast v :: u32) = (v :: u64)"
  by (rule bit_word_eqI, auto simp: bit_simps)+

lemma pull_udlong_spec: "pull_spec v (enc_udlong v) ndr_pull_udlong"
  unfolding ndr_pull_udlong_def enc_udlong_def reader_shape2
  by (intro pull_aligned pull_raw_spec)
     (auto simp: run_simps NDR_IVAL_pair join_u64)

lemma pull_udlong_safe [comp_intros]: "pull_safe ndr_pull_udlong"
  unfolding ndr_pull_udlong_def reader_shape2
  by (intro pull_aligned_safe pull_raw_safe)
     (auto simp: run_simps dest!: NDR_IVAL_pair_total split: option.splits)

lemma pull_udlongr_spec: "pull_spec v (enc_udlongr v) ndr_pull_udlongr"
  unfolding ndr_pull_udlongr_def enc_udlongr_def reader_shape2
  by (intro pull_aligned pull_raw_spec)
     (auto simp: run_simps NDR_IVAL_pair join_u64)

lemma pull_udlongr_safe [comp_intros]: "pull_safe ndr_pull_udlongr"
  unfolding ndr_pull_udlongr_def reader_shape2
  by (intro pull_aligned_safe pull_raw_safe)
     (auto simp: run_simps dest!: NDR_IVAL_pair_total split: option.splits)

lemma pull_hyper_spec: "pull_spec v (enc_hyper v) ndr_pull_hyper"
  unfolding ndr_pull_hyper_def enc_hyper_def
  by (intro pull_aligned pull_udlong_spec) simp

lemma pull_hyper_safe [comp_intros]: "pull_safe ndr_pull_hyper"
  unfolding ndr_pull_hyper_def by (intro pull_aligned_safe pull_udlong_safe) simp

lemma pull_bytes_spec: "length bs = unat n \<Longrightarrow> pull_spec bs (\<lambda>_ _. bs) (ndr_pull_bytes n)"
  unfolding ndr_pull_bytes_def by (rule pull_raw_spec) (auto simp: run_simps)

lemma pull_bytes_safe [comp_intros]: "pull_safe (ndr_pull_bytes n)"
  unfolding ndr_pull_bytes_def by (rule pull_raw_safe) (auto simp: run_simps)

section \<open>Codecs\<close>

text \<open>
  The round trip of a pair of functions: whatever a writer appends, a reader whose buffer starts
  with the writer's bytes and that stands where the writer stood gives back, and stops where the
  writer stopped.
\<close>

definition roundtrips :: "('a \<Rightarrow> bool) \<Rightarrow> ('a \<Rightarrow> (ndr_push, unit) comp) \<Rightarrow> (ndr_pull, 'a) comp \<Rightarrow> bool" where
  "roundtrips valid push pull \<longleftrightarrow> (\<forall>v p p' q. valid v \<longrightarrow> push_ok p \<longrightarrow> push v p = Inr ((), p') \<longrightarrow>
     pull_ok q \<longrightarrow> pl_flags q = ps_flags p \<longrightarrow> pl_offset q = ps_offset p \<longrightarrow>
     prefix (written p') (take (unat (pl_data_size q)) (pl_data q)) \<longrightarrow>
     pull q = Inr (v, q\<lparr>pl_offset := ps_offset p'\<rparr>))"

text \<open>Loops over the elements of an array.\<close>

fun push_list :: "('a \<Rightarrow> (ndr_push, unit) comp) \<Rightarrow> 'a list \<Rightarrow> (ndr_push, unit) comp" where
  "push_list push [] = nreturn ()"
| "push_list push (v # vs) = nthen (push v) (push_list push vs)"

fun pull_list :: "(ndr_pull, 'a) comp \<Rightarrow> nat \<Rightarrow> (ndr_pull, 'a list) comp" where
  "pull_list pull 0 = nreturn []"
| "pull_list pull (Suc n) = nbind pull (\<lambda>v. nbind (pull_list pull n) (\<lambda>vs. nreturn (v # vs)))"

fun enc_list :: "('a \<Rightarrow> encoding) \<Rightarrow> 'a list \<Rightarrow> encoding" where
  "enc_list enc [] = (\<lambda>_ _. [])"
| "enc_list enc (v # vs) = enc_seq (enc v) (enc_list enc vs)"

locale ndr_codec =
  fixes valid :: "'a \<Rightarrow> bool"
    and push :: "'a \<Rightarrow> (ndr_push, unit) comp"
    and pull :: "(ndr_pull, 'a) comp"
    and enc :: "'a \<Rightarrow> encoding"
  assumes push_enc: "valid v \<Longrightarrow> push_spec (enc v) (push v)"
    and pull_enc: "valid v \<Longrightarrow> pull_spec v (enc v) pull"
    and pull_total: "pull_safe pull"
begin

lemma push_appends:
  assumes "valid v" "push_ok p" "push v p = Inr ((), p')"
  shows "pushes (enc v (ps_flags p) (unat (ps_offset p))) p p'"
  using push_specD [OF push_enc [OF assms(1)] assms(2)] assms(3) by (simp add: push_at_def)

lemma push_succeeds:
  assumes "valid v" "push_ok p"
    and "unat (ps_offset p) + length (enc v (ps_flags p) (unat (ps_offset p))) + 1024 < MAX_TALLOC_SIZE"
  shows "\<exists>p'. push v p = Inr ((), p')"
  using push_specD [OF push_enc [OF assms(1)] assms(2)] assms(3)
  by (auto simp: push_at_def split: sum.splits)

lemma push_no_fault: "valid v \<Longrightarrow> push_ok p \<Longrightarrow> push v p \<noteq> Inl Fault"
  using push_specD [OF push_enc] by (fastforce simp: push_at_def)

lemma roundtrip: "roundtrips valid push pull"
  unfolding roundtrips_def
proof (intro allI impI)
  fix v p p' q
  assume v: "valid v" and p: "push_ok p" "push v p = Inr ((), p')" and q: "pull_ok q"
    and fl: "pl_flags q = ps_flags p" and ofs: "pl_offset q = ps_offset p"
    and buf: "prefix (written p') (take (unat (pl_data_size q)) (pl_data q))"
  let ?e = "enc v (ps_flags p) (unat (ps_offset p))"
  have app: "pushes ?e p p'" by (rule push_appends [OF v p])
  then have w: "written p' = written p @ ?e" by (simp add: pushes_def)
  then have pre: "prefix ?e (unread q)"
    using buf length_written [OF p(1)] by (auto simp: prefix_def unread_def ofs)
  then have "pull q = Inr (v, adv (length ?e) q)"
    using pull_specD [OF pull_enc [OF v] q] by (simp add: fl ofs)
  moreover have "unat (pl_offset q + of_nat (length ?e)) = unat (ps_offset p')"
    using adv_ok(2) [OF q prefix_length_le [OF pre]] pushes_offset [OF p(1) app] by (simp add: ofs)
  ultimately show "pull q = Inr (v, q\<lparr>pl_offset := ps_offset p'\<rparr>)"
    by (simp add: word_unat_eq_iff)
qed

lemma list_push_enc: "list_all valid vs \<Longrightarrow> push_spec (enc_list enc vs) (push_list push vs)"
  by (induction vs) (auto intro: push_spec_return push_spec_then push_enc)

lemma list_pull_enc: "list_all valid vs \<Longrightarrow> pull_spec vs (enc_list enc vs) (pull_list pull (length vs))"
proof (induction vs)
  case Nil
  show ?case by (simp add: pull_spec_return)
next
  case (Cons v vs)
  then show ?case by (auto intro!: pull_spec_bind [OF pull_enc] pull_spec_map)
qed

lemma list_pull_total: "pull_safe (pull_list pull n)"
  by (induction n) (auto intro!: keeps_return keeps_bind pull_total)

end

text \<open>Arrays of a codec's elements are a codec again, for every length.\<close>

lemma ndr_codec_list:
  assumes "ndr_codec valid push pull enc"
  shows "ndr_codec (\<lambda>vs. length vs = n \<and> list_all valid vs) (push_list push) (pull_list pull n) (enc_list enc)"
proof -
  from assms have c: "ndr_codec valid push pull enc" .
  show ?thesis
    by (unfold_locales)
       (use ndr_codec.list_push_enc [OF c] ndr_codec.list_pull_enc [OF c] ndr_codec.list_pull_total [OF c] in auto)
qed

interpretation c_uint8: ndr_codec "\<lambda>_. True" ndr_push_uint8 ndr_pull_uint8 "\<lambda>v _ _. [v]"
  by unfold_locales (rule push_uint8_spec pull_uint8_spec pull_uint8_safe)+

interpretation c_int8: ndr_codec "\<lambda>_. True" ndr_push_int8 ndr_pull_int8 "\<lambda>v _ _. [v]"
  by (unfold pull_twins, unfold_locales) (rule push_int8_spec pull_uint8_spec pull_uint8_safe)+

interpretation c_uint16: ndr_codec "\<lambda>_. True" ndr_push_uint16 ndr_pull_uint16 enc16
  by unfold_locales (rule push_uint16_spec pull_uint16_spec pull_uint16_safe)+

interpretation c_int16: ndr_codec "\<lambda>_. True" ndr_push_int16 ndr_pull_int16 enc16
  by (unfold pull_twins, unfold_locales) (rule push_int16_spec pull_uint16_spec pull_uint16_safe)+

interpretation c_uint32: ndr_codec "\<lambda>_. True" ndr_push_uint32 ndr_pull_uint32 enc32
  by unfold_locales (rule push_uint32_spec pull_uint32_spec pull_uint32_safe)+

interpretation c_int32: ndr_codec "\<lambda>_. True" ndr_push_int32 ndr_pull_int32 enc32
  by (unfold pull_twins, unfold_locales) (rule push_int32_spec pull_uint32_spec pull_uint32_safe)+

interpretation c_udlong: ndr_codec "\<lambda>_. True" ndr_push_udlong ndr_pull_udlong enc_udlong
  by unfold_locales (rule push_udlong_spec pull_udlong_spec pull_udlong_safe)+

interpretation c_udlongr: ndr_codec "\<lambda>_. True" ndr_push_udlongr ndr_pull_udlongr enc_udlongr
  by unfold_locales (rule push_udlongr_spec pull_udlongr_spec pull_udlongr_safe)+

interpretation c_hyper: ndr_codec "\<lambda>_. True" ndr_push_hyper ndr_pull_hyper enc_hyper
  by unfold_locales (rule push_hyper_spec pull_hyper_spec pull_hyper_safe)+

lemma NTTIME_1sec_scale:
  assumes "10000000 dvd unat (t :: u64)" shows "t div 10000000 * 10000000 = t"
proof -
  have "unat t < 18446744073709551616" using unsigned_less [of t] by simp
  with assms show ?thesis by (simp add: word_unat_eq_iff unat_word_ariths)
qed

interpretation c_NTTIME_1sec: ndr_codec "\<lambda>t. 10000000 dvd unat t" ndr_push_NTTIME_1sec ndr_pull_NTTIME_1sec
  "\<lambda>t. enc_hyper (t div 10000000)"
proof unfold_locales
  fix t :: u64 assume t: "10000000 dvd unat t"
  show "push_spec (enc_hyper (t div 10000000)) (ndr_push_NTTIME_1sec t)"
    unfolding ndr_push_NTTIME_1sec_def by (rule push_hyper_spec)
  show "pull_spec t (enc_hyper (t div 10000000)) ndr_pull_NTTIME_1sec"
    using pull_spec_map [OF pull_hyper_spec, where g = "\<lambda>t. t * 10000000" and v = "t div 10000000"]
    by (simp only: NTTIME_1sec_scale [OF t] ndr_pull_NTTIME_1sec_def)
qed (unfold ndr_pull_NTTIME_1sec_def, intro keeps_map pull_hyper_safe)

interpretation c_time_t: ndr_codec "\<lambda>t. unat t < 2 ^ 32" ndr_push_time_t ndr_pull_time_t "\<lambda>t. enc32 (ucast t)"
proof unfold_locales
  fix t :: u64 assume t: "unat t < 2 ^ 32"
  then have [simp]: "ucast (ucast t :: u32) = t"
    by (simp add: word_unat_eq_iff unsigned_ucast_eq unsigned_take_bit_eq take_bit_nat_eq_self_iff)
  show "push_spec (enc32 (ucast t)) (ndr_push_time_t t)"
    unfolding ndr_push_time_t_def by (rule push_uint32_spec)
  show "pull_spec t (enc32 (ucast t)) ndr_pull_time_t"
    using pull_spec_map [OF pull_uint32_spec, where g = "ucast :: u32 \<Rightarrow> u64" and v = "ucast t"]
    by (simp add: ndr_pull_time_t_def)
qed (unfold ndr_pull_time_t_def, intro keeps_map pull_uint32_safe)

end
