(* ===== verification/NdrCore.thy ===== *)
theory NdrCore
  imports NdrWire
begin

text \<open>
  The parts of \<open>librpc/ndr/ndr.c\<close> and \<open>librpc/ndr/ndr_basic.c\<close> that sit on the basic types:
  token lists, array sizes, pointers, relative pointers, sub-contexts, counted blobs, and the
  conversion of whole structures to and from blobs.  The functions generated from IDL that these
  drivers call are arguments (\<open>ndr_push_flags_fn_t\<close>, \<open>ndr_pull_flags_fn_t\<close>).
\<close>

section \<open>Tokens\<close>

definition ndr_token_store :: "ptr \<Rightarrow> u32 \<Rightarrow> (ndr_token_list, unit) comp" where
  "ndr_token_store key val list = Inr ((), (key, val) # list)"

definition token_match :: "(ptr \<Rightarrow> ptr \<Rightarrow> int) option \<Rightarrow> ptr \<Rightarrow> ptr \<Rightarrow> bool" where
  "token_match cmp_fn k key = (case cmp_fn of Some f \<Rightarrow> f k key = 0 | None \<Rightarrow> k = key)"

fun ndr_token_retrieve_cmp_fn :: "(ptr \<Rightarrow> ptr \<Rightarrow> int) option \<Rightarrow> bool \<Rightarrow> ptr \<Rightarrow> (ndr_token_list, u32) comp" where
  "ndr_token_retrieve_cmp_fn cmp_fn remove_tok key [] = Inl (Status (ndr_map_error NDR_ERR_TOKEN))"
| "ndr_token_retrieve_cmp_fn cmp_fn remove_tok key (tok # toks) =
     (if token_match cmp_fn (fst tok) key
      then Inr (snd tok, if remove_tok then toks else tok # toks)
      else case ndr_token_retrieve_cmp_fn cmp_fn remove_tok key toks of
             Inl f \<Rightarrow> Inl f
           | Inr (v, toks') \<Rightarrow> Inr (v, tok # toks'))"

definition ndr_token_retrieve :: "ptr \<Rightarrow> (ndr_token_list, u32) comp" where
  "ndr_token_retrieve key = ndr_token_retrieve_cmp_fn None True key"

definition ndr_token_peek :: "ndr_token_list \<Rightarrow> ptr \<Rightarrow> u32" where
  "ndr_token_peek list key =
     (case ndr_token_retrieve_cmp_fn None False key list of Inr (v, _) \<Rightarrow> v | Inl _ \<Rightarrow> 0)"

section \<open>Array sizes and switch values\<close>

abbreviation "on_array_size \<equiv> nzoom pl_array_size_list (\<lambda>l ndr. ndr\<lparr>pl_array_size_list := l\<rparr>)"
abbreviation "on_array_length \<equiv> nzoom pl_array_length_list (\<lambda>l ndr. ndr\<lparr>pl_array_length_list := l\<rparr>)"
abbreviation "on_pull_switch \<equiv> nzoom pl_switch_list (\<lambda>l ndr. ndr\<lparr>pl_switch_list := l\<rparr>)"
abbreviation "on_push_switch \<equiv> nzoom ps_switch_list (\<lambda>l ndr. ndr\<lparr>ps_switch_list := l\<rparr>)"
abbreviation "on_push_relative \<equiv> nzoom ps_relative_list (\<lambda>l ndr. ndr\<lparr>ps_relative_list := l\<rparr>)"
abbreviation "on_pull_relative \<equiv> nzoom pl_relative_list (\<lambda>l ndr. ndr\<lparr>pl_relative_list := l\<rparr>)"
abbreviation "on_push_base \<equiv> nzoom ps_relative_base_list (\<lambda>l ndr. ndr\<lparr>ps_relative_base_list := l\<rparr>)"
abbreviation "on_pull_base \<equiv> nzoom pl_relative_base_list (\<lambda>l ndr. ndr\<lparr>pl_relative_base_list := l\<rparr>)"

definition ndr_pull_array_size :: "ptr \<Rightarrow> (ndr_pull, unit) comp" where
  "ndr_pull_array_size p = nbind ndr_pull_uint32 (\<lambda>sz. on_array_size (ndr_token_store p sz))"

definition ndr_get_array_size :: "ndr_pull \<Rightarrow> ptr \<Rightarrow> u32" where
  "ndr_get_array_size ndr p = ndr_token_peek (pl_array_size_list ndr) p"

definition ndr_check_array_size :: "ptr \<Rightarrow> u32 \<Rightarrow> (ndr_pull, unit) comp" where
  "ndr_check_array_size p sz =
     ncheck (ndr_map_error NDR_ERR_ARRAY_SIZE) (\<lambda>ndr. ndr_token_peek (pl_array_size_list ndr) p = sz)"

definition ndr_pull_array_length :: "ptr \<Rightarrow> (ndr_pull, unit) comp" where
  "ndr_pull_array_length p =
     nbind ndr_pull_uint32 (\<lambda>offset.
       if offset \<noteq> 0 then ndr_pull_error NDR_ERR_ARRAY_SIZE
       else nbind ndr_pull_uint32 (\<lambda>len. on_array_length (ndr_token_store p len)))"

definition ndr_get_array_length :: "ndr_pull \<Rightarrow> ptr \<Rightarrow> u32" where
  "ndr_get_array_length ndr p = ndr_token_peek (pl_array_length_list ndr) p"

definition ndr_check_array_length :: "ptr \<Rightarrow> u32 \<Rightarrow> (ndr_pull, unit) comp" where
  "ndr_check_array_length p len =
     ncheck (ndr_map_error NDR_ERR_ARRAY_SIZE) (\<lambda>ndr. ndr_token_peek (pl_array_length_list ndr) p = len)"

definition ndr_push_set_switch_value :: "ptr \<Rightarrow> u32 \<Rightarrow> (ndr_push, unit) comp" where
  "ndr_push_set_switch_value p val = on_push_switch (ndr_token_store p val)"

definition ndr_pull_set_switch_value :: "ptr \<Rightarrow> u32 \<Rightarrow> (ndr_pull, unit) comp" where
  "ndr_pull_set_switch_value p val = on_pull_switch (ndr_token_store p val)"

definition ndr_push_get_switch_value :: "ndr_push \<Rightarrow> ptr \<Rightarrow> u32" where
  "ndr_push_get_switch_value ndr p = ndr_token_peek (ps_switch_list ndr) p"

definition ndr_pull_get_switch_value :: "ndr_pull \<Rightarrow> ptr \<Rightarrow> u32" where
  "ndr_pull_get_switch_value ndr p = ndr_token_peek (pl_switch_list ndr) p"

section \<open>Pointers\<close>

text \<open>\<open>0\<close> is the null pointer.\<close>

definition ndr_push_unique_ptr :: "ptr \<Rightarrow> (ndr_push, unit) comp" where
  "ndr_push_unique_ptr p =
     nbind (nget ps_ptr_count) (\<lambda>count.
       if p \<noteq> 0
       then nthen (nmodify (\<lambda>ndr. ndr\<lparr>ps_ptr_count := count + 1\<rparr>))
                  (ndr_push_uint32 ((count * 4) OR 0x00020000))
       else ndr_push_uint32 0)"

definition ndr_push_full_ptr :: "ptr \<Rightarrow> (ndr_push, unit) comp" where
  "ndr_push_full_ptr p =
     nbind (nget id) (\<lambda>ndr.
       if p = 0 then ndr_push_uint32 0
       else let ptr = ndr_token_peek (ps_full_ptr_list ndr) p
            in if ptr = 0
               then let ptr = ps_ptr_count ndr + 1
                    in nthen (nmodify (\<lambda>ndr. ndr\<lparr>ps_ptr_count := ptr,
                                ps_full_ptr_list := (p, ptr) # ps_full_ptr_list ndr\<rparr>))
                             (ndr_push_uint32 ptr)
               else ndr_push_uint32 ptr)"

definition ndr_push_ref_ptr :: "(ndr_push, unit) comp" where
  "ndr_push_ref_ptr = ndr_push_uint32 0xAEF1AEF1"

section \<open>Relative pointers\<close>

definition ndr_push_restore_relative_base_offset :: "u32 \<Rightarrow> ndr_push \<Rightarrow> ndr_push" where
  "ndr_push_restore_relative_base_offset offset ndr = ndr\<lparr>ps_relative_base_offset := offset\<rparr>"

definition ndr_push_setup_relative_base_offset1 :: "ptr \<Rightarrow> u32 \<Rightarrow> (ndr_push, unit) comp" where
  "ndr_push_setup_relative_base_offset1 p offset =
     nthen (nmodify (\<lambda>ndr. ndr\<lparr>ps_relative_base_offset := offset\<rparr>)) (on_push_base (ndr_token_store p offset))"

definition ndr_push_setup_relative_base_offset2 :: "ptr \<Rightarrow> (ndr_push, unit) comp" where
  "ndr_push_setup_relative_base_offset2 p =
     nbind (on_push_base (ndr_token_retrieve p)) (\<lambda>v.
       nmodify (\<lambda>ndr. ndr\<lparr>ps_relative_base_offset := v\<rparr>))"

definition ndr_push_relative_ptr1 :: "ptr \<Rightarrow> (ndr_push, unit) comp" where
  "ndr_push_relative_ptr1 p =
     (if p = 0 then ndr_push_uint32 0
      else nthen (ndr_push_align 4)
          (nthen (nbind (nget ps_offset) (\<lambda>ofs. on_push_relative (ndr_token_store p ofs)))
                 (ndr_push_uint32 0xFFFFFFFF)))"

definition ndr_push_relative_ptr2 :: "ptr \<Rightarrow> (ndr_push, unit) comp" where
  "ndr_push_relative_ptr2 p =
     (if p = 0 then nreturn ()
      else nbind (nget ps_offset) (\<lambda>save_offset.
           nbind (on_push_relative (ndr_token_retrieve p)) (\<lambda>ptr_offset.
           nbind (nget id) (\<lambda>ndr.
           if ptr_offset > ps_offset ndr then ndr_push_error NDR_ERR_BUFSIZE
           else if save_offset < ps_relative_base_offset ndr then ndr_push_error NDR_ERR_BUFSIZE
           else nthen (nmodify (\<lambda>ndr. ndr\<lparr>ps_offset := ptr_offset\<rparr>))
               (nthen (ndr_push_uint32 (save_offset - ps_relative_base_offset ndr))
                      (nmodify (\<lambda>ndr. ndr\<lparr>ps_offset := save_offset\<rparr>)))))))"

definition ndr_pull_restore_relative_base_offset :: "u32 \<Rightarrow> ndr_pull \<Rightarrow> ndr_pull" where
  "ndr_pull_restore_relative_base_offset offset ndr = ndr\<lparr>pl_relative_base_offset := offset\<rparr>"

definition ndr_pull_setup_relative_base_offset1 :: "ptr \<Rightarrow> u32 \<Rightarrow> (ndr_pull, unit) comp" where
  "ndr_pull_setup_relative_base_offset1 p offset =
     nthen (nmodify (\<lambda>ndr. ndr\<lparr>pl_relative_base_offset := offset\<rparr>)) (on_pull_base (ndr_token_store p offset))"

definition ndr_pull_setup_relative_base_offset2 :: "ptr \<Rightarrow> (ndr_pull, unit) comp" where
  "ndr_pull_setup_relative_base_offset2 p =
     nbind (on_pull_base (ndr_token_retrieve p)) (\<lambda>v.
       nmodify (\<lambda>ndr. ndr\<lparr>pl_relative_base_offset := v\<rparr>))"

definition ndr_pull_relative_ptr1 :: "ptr \<Rightarrow> u32 \<Rightarrow> (ndr_pull, unit) comp" where
  "ndr_pull_relative_ptr1 p rel_offset = on_pull_relative (ndr_token_store p rel_offset)"

definition ndr_pull_relative_ptr2 :: "ptr \<Rightarrow> (ndr_pull, unit) comp" where
  "ndr_pull_relative_ptr2 p =
     nbind (on_pull_relative (ndr_token_retrieve p)) (\<lambda>rel_offset.
     nbind (nget id) (\<lambda>ndr.
       let rel_offset = rel_offset + pl_relative_base_offset ndr
       in if rel_offset > pl_data_size ndr then ndr_pull_error NDR_ERR_BUFSIZE
          else ndr_pull_set_offset rel_offset))"

section \<open>Sub-contexts\<close>

text \<open>
  \<open>size_is\<close> is signed; a negative value means "not given".  The sub-context reads the memory
  from the current offset on.
\<close>

definition ndr_pull_subcontext_start :: "nat \<Rightarrow> int \<Rightarrow> (ndr_pull, ndr_pull) comp" where
  "ndr_pull_subcontext_start header_size size_is =
     nbind (if header_size = 0
            then nget (\<lambda>ndr. if size_is \<ge> 0 then word_of_int size_is else pl_data_size ndr - pl_offset ndr)
            else if header_size = 2
            then nbind ndr_pull_uint16 (\<lambda>content_size.
                   if size_is \<ge> 0 \<and> size_is \<noteq> uint content_size then ndr_pull_error NDR_ERR_SUBCONTEXT
                   else nreturn (ucast content_size))
            else if header_size = 4
            then nbind ndr_pull_uint32 (\<lambda>content_size.
                   if size_is \<ge> 0 \<and> size_is \<noteq> uint content_size then ndr_pull_error NDR_ERR_SUBCONTEXT
                   else nreturn content_size)
            else ndr_pull_error NDR_ERR_SUBCONTEXT) (\<lambda>r_content_size.
     nthen (NDR_PULL_NEED_BYTES r_content_size)
           (nget (\<lambda>ndr. \<lparr>pl_flags = pl_flags ndr,
              pl_data = drop (unat (pl_offset ndr)) (pl_data ndr),
              pl_data_size = r_content_size, pl_offset = 0,
              pl_relative_base_offset = 0, pl_relative_base_list = [], pl_relative_list = [],
              pl_array_size_list = [], pl_array_length_list = [], pl_switch_list = [],
              pl_ptr_count = 0\<rparr>)))"

definition ndr_pull_subcontext_end :: "ndr_pull \<Rightarrow> nat \<Rightarrow> int \<Rightarrow> (ndr_pull, unit) comp" where
  "ndr_pull_subcontext_end subndr header_size size_is =
     ndr_pull_advance (if size_is \<ge> 0 then word_of_int size_is
                       else if header_size > 0 then pl_data_size subndr
                       else pl_offset subndr)"

definition ndr_push_subcontext_start :: "(ndr_push, ndr_push) comp" where
  "ndr_push_subcontext_start = nget (\<lambda>ndr. ndr_push_init_ctx\<lparr>ps_flags := ps_flags ndr\<rparr>)"

definition ndr_push_subcontext_end :: "ndr_push \<Rightarrow> nat \<Rightarrow> int \<Rightarrow> (ndr_push, unit) comp" where
  "ndr_push_subcontext_end subndr header_size size_is ndr =
     (let padding_len = size_is - uint (ps_offset subndr)
      in case (if size_is \<ge> 0
               then if padding_len > 0 then ndr_push_zero (word_of_int padding_len) subndr
                    else if padding_len < 0 then ndr_push_error NDR_ERR_SUBCONTEXT subndr
                    else Inr ((), subndr)
               else Inr ((), subndr)) of
           Inl f \<Rightarrow> Inl f
         | Inr (_, subndr) \<Rightarrow>
             nthen (if header_size = 0 then nreturn ()
                    else if header_size = 2 then ndr_push_uint16 (ucast (ps_offset subndr))
                    else if header_size = 4 then ndr_push_uint32 (ps_offset subndr)
                    else ndr_push_error NDR_ERR_SUBCONTEXT)
                   (ndr_push_bytes (ps_data subndr) (ps_offset subndr)) ndr)"

section \<open>Counted blobs\<close>

definition blob_align :: "u32 \<Rightarrow> u32 \<Rightarrow> u64 \<Rightarrow> u64" where
  "blob_align fl ofs len =
     (if has_flag fl LIBNDR_FLAG_ALIGN2 then ndr_align_size ofs 2
      else if has_flag fl LIBNDR_FLAG_ALIGN4 then ndr_align_size ofs 4
      else if has_flag fl LIBNDR_FLAG_ALIGN8 then ndr_align_size ofs 8
      else len)"

abbreviation blob_mem :: "data_blob \<Rightarrow> buffer" where
  "blob_mem b \<equiv> (case blob_data b of None \<Rightarrow> [] | Some buf \<Rightarrow> buf)"

definition ndr_push_DATA_BLOB :: "data_blob \<Rightarrow> (ndr_push, unit) comp" where
  "ndr_push_DATA_BLOB blob =
     nbind (nget id) (\<lambda>ndr.
     nbind (if has_flag (ps_flags ndr) LIBNDR_ALIGN_FLAGS
            then let len = blob_align (ps_flags ndr) (ps_offset ndr) (blob_length blob)
                 in case talloc_size (unat len) of
                      None \<Rightarrow> ndr_push_error NDR_ERR_ALLOC
                    | Some buf \<Rightarrow> naccess (\<lambda>_. data_blob_clear \<lparr>blob_data = Some buf, blob_length = len\<rparr>)
            else if \<not> has_flag (ps_flags ndr) LIBNDR_FLAG_REMAINING
            then nthen (ndr_push_uint32 (ucast (blob_length blob))) (nreturn blob)
            else nreturn blob) (\<lambda>blob.
     ndr_push_bytes (blob_mem blob) (ucast (blob_length blob))))"

definition ndr_pull_DATA_BLOB :: "(ndr_pull, data_blob) comp" where
  "ndr_pull_DATA_BLOB =
     nbind (nget id) (\<lambda>ndr.
     nbind (if has_flag (pl_flags ndr) LIBNDR_ALIGN_FLAGS
            then let len = ucast (blob_align (pl_flags ndr) (pl_offset ndr) 0)
                 in nreturn (if pl_data_size ndr - pl_offset ndr < len
                             then pl_data_size ndr - pl_offset ndr else len)
            else if has_flag (pl_flags ndr) LIBNDR_FLAG_REMAINING
            then nreturn (pl_data_size ndr - pl_offset ndr)
            else ndr_pull_uint32) (\<lambda>len.
     nthen (NDR_PULL_NEED_BYTES len)
    (nbind (naccess (\<lambda>ndr. data_blob_talloc_named
              (Some (map Some (drop (unat (pl_offset ndr)) (pl_data ndr)))) (ucast len))) (\<lambda>blob.
     nthen (pull_skip len) (nreturn blob)))))"

section \<open>Whole structures\<close>

type_synonym 'a pull_fn = "nat \<Rightarrow> (ndr_pull, 'a) comp"
type_synonym push_fn = "nat \<Rightarrow> (ndr_push, unit) comp"

definition ndr_pull_struct_blob :: "data_blob \<Rightarrow> 'a pull_fn \<Rightarrow> failure + 'a" where
  "ndr_pull_struct_blob blob fn =
     (case fn (NDR_SCALARS OR NDR_BUFFERS) (ndr_pull_init_blob blob) of
        Inl f \<Rightarrow> Inl f | Inr (v, ndr) \<Rightarrow> Inr v)"

definition ndr_pull_struct_blob_all :: "data_blob \<Rightarrow> 'a pull_fn \<Rightarrow> failure + 'a" where
  "ndr_pull_struct_blob_all blob fn =
     (case fn (NDR_SCALARS OR NDR_BUFFERS) (ndr_pull_init_blob blob) of
        Inl f \<Rightarrow> Inl f
      | Inr (v, ndr) \<Rightarrow> if pl_offset ndr \<noteq> pl_data_size ndr then Inl (Status NT_STATUS_BUFFER_TOO_SMALL)
                       else Inr v)"

definition ndr_pull_union_blob :: "data_blob \<Rightarrow> ptr \<Rightarrow> u32 \<Rightarrow> 'a pull_fn \<Rightarrow> failure + 'a" where
  "ndr_pull_union_blob blob p level fn =
     (case nthen (ndr_pull_set_switch_value p level) (fn (NDR_SCALARS OR NDR_BUFFERS)) (ndr_pull_init_blob blob) of
        Inl f \<Rightarrow> Inl f
      | Inr (v, ndr) \<Rightarrow> if pl_offset ndr \<noteq> pl_data_size ndr then Inl (Status NT_STATUS_BUFFER_TOO_SMALL)
                       else Inr v)"

definition ndr_push_struct_blob :: "push_fn \<Rightarrow> failure + data_blob" where
  "ndr_push_struct_blob fn =
     (case fn (NDR_SCALARS OR NDR_BUFFERS) ndr_push_init_ctx of
        Inl f \<Rightarrow> Inl f | Inr (_, ndr) \<Rightarrow> Inr (fst (ndr_push_blob ndr)))"

definition ndr_push_union_blob :: "ptr \<Rightarrow> u32 \<Rightarrow> push_fn \<Rightarrow> failure + data_blob" where
  "ndr_push_union_blob p level fn =
     (case nthen (ndr_push_set_switch_value p level) (fn (NDR_SCALARS OR NDR_BUFFERS)) ndr_push_init_ctx of
        Inl f \<Rightarrow> Inl f | Inr (_, ndr) \<Rightarrow> Inr (fst (ndr_push_blob ndr)))"

definition ndr_size_struct :: "u32 \<Rightarrow> push_fn \<Rightarrow> u32" where
  "ndr_size_struct fl push =
     (if has_flag fl LIBNDR_FLAG_NO_NDR_SIZE then 0
      else case push (NDR_SCALARS OR NDR_BUFFERS)
                  (ndr_push_init_ctx\<lparr>ps_flags := 0 OR (fl OR LIBNDR_FLAG_NO_NDR_SIZE)\<rparr>) of
             Inl _ \<Rightarrow> 0 | Inr (_, ndr) \<Rightarrow> ps_offset ndr)"

definition ndr_size_union :: "ptr \<Rightarrow> u32 \<Rightarrow> u32 \<Rightarrow> push_fn \<Rightarrow> u32" where
  "ndr_size_union p fl level push =
     (if has_flag fl LIBNDR_FLAG_NO_NDR_SIZE then 0
      else case nthen (ndr_push_set_switch_value p level) (push (NDR_SCALARS OR NDR_BUFFERS))
                  (ndr_push_init_ctx\<lparr>ps_flags := 0 OR (fl OR LIBNDR_FLAG_NO_NDR_SIZE)\<rparr>) of
             Inl _ \<Rightarrow> 0 | Inr (_, ndr) \<Rightarrow> ps_offset ndr)"


section \<open>Token lists as stacks of values per key\<close>

text \<open>
  What the clients of a token list rely on: a store pushes a value for its key, a retrieve pops the
  latest one or fails, and the other keys are not touched.
\<close>

locale token_stack =
  fixes put :: "'k \<Rightarrow> 'v \<Rightarrow> 'l \<Rightarrow> 'l"
    and pop :: "'k \<Rightarrow> 'l \<Rightarrow> ('v \<times> 'l) option"
    and stack :: "'l \<Rightarrow> 'k \<Rightarrow> 'v list"
  assumes stack_put: "stack (put k v l) = (stack l)(k := v # stack l k)"
    and pop_empty: "stack l k = [] \<Longrightarrow> pop k l = None"
    and pop_top: "stack l k = v # vs \<Longrightarrow> \<exists>l'. pop k l = Some (v, l') \<and> stack l' = (stack l)(k := vs)"
begin

lemma pop_put: "\<exists>l'. pop k (put k v l) = Some (v, l') \<and> stack l' = stack l"
  using pop_top [of "put k v l" k v "stack l k"] by (simp add: stack_put)

lemma stack_puts_other:
  "k \<notin> fst ` set kvs \<Longrightarrow> stack (fold (\<lambda>(k, v). put k v) kvs l) k = stack l k"
  by (induction kvs arbitrary: l) (auto simp: stack_put)

lemma pop_after_others:
  assumes "k \<notin> fst ` set kvs"
  shows "\<exists>l'. pop k (fold (\<lambda>(k, v). put k v) kvs (put k v l)) = Some (v, l') \<and> stack l' k = stack l k"
proof -
  have "stack (fold (\<lambda>(k, v). put k v) kvs (put k v l)) k = v # stack l k"
    using stack_puts_other [OF assms] by (simp add: stack_put)
  from pop_top [OF this] show ?thesis by auto
qed

end

definition tokens_of :: "ndr_token_list \<Rightarrow> ptr \<Rightarrow> u32 list" where
  "tokens_of l k = map snd (filter (\<lambda>t. fst t = k) l)"

lemma token_retrieve_cases:
  "ndr_token_retrieve_cmp_fn None True k l =
     (case tokens_of l k of
        [] \<Rightarrow> Inl (Status NT_STATUS_INTERNAL_ERROR)
      | v # _ \<Rightarrow> Inr (v, remove1 (k, v) l))"
  by (induction l) (auto simp: tokens_of_def token_match_def split: list.splits sum.splits)

lemma token_peek_cases:
  "ndr_token_retrieve_cmp_fn None False k l =
     (case tokens_of l k of [] \<Rightarrow> Inl (Status NT_STATUS_INTERNAL_ERROR) | v # _ \<Rightarrow> Inr (v, l))"
  by (induction l) (auto simp: tokens_of_def token_match_def split: list.splits sum.splits)

lemma ndr_token_peek_hd: "ndr_token_peek l k = (case tokens_of l k of [] \<Rightarrow> 0 | v # _ \<Rightarrow> v)"
  by (simp add: ndr_token_peek_def token_peek_cases split: list.splits)

lemma tokens_of_Cons: "tokens_of ((k, v) # l) = (tokens_of l)(k := v # tokens_of l k)"
  by (rule ext) (simp add: tokens_of_def)

lemma tokens_of_remove1:
  "tokens_of l k = v # vs \<Longrightarrow> tokens_of (remove1 (k, v) l) = (tokens_of l)(k := vs)"
proof (induction l)
  case (Cons t l)
  show ?case
  proof (cases "fst t = k")
    case True
    with Cons.prems show ?thesis by (cases t) (auto simp: tokens_of_Cons)
  next
    case False
    with Cons.prems have "tokens_of l k = v # vs" by (cases t) (simp add: tokens_of_Cons)
    with False Cons.IH show ?thesis by (cases t) (auto simp: tokens_of_Cons fun_upd_twist)
  qed
qed (simp add: tokens_of_def)

abbreviation token_put :: "ptr \<Rightarrow> u32 \<Rightarrow> ndr_token_list \<Rightarrow> ndr_token_list" where
  "token_put k v l \<equiv> (case ndr_token_store k v l of Inr (_, l') \<Rightarrow> l' | Inl _ \<Rightarrow> l)"

abbreviation token_pop :: "ptr \<Rightarrow> ndr_token_list \<Rightarrow> (u32 \<times> ndr_token_list) option" where
  "token_pop k l \<equiv> (case ndr_token_retrieve k l of Inr r \<Rightarrow> Some r | Inl _ \<Rightarrow> None)"

interpretation tk: token_stack token_put token_pop tokens_of
  by unfold_locales
     (simp_all add: ndr_token_store_def tokens_of_Cons ndr_token_retrieve_def token_retrieve_cases
        tokens_of_remove1)

lemma token_store_no_fault [simp]: "ndr_token_store k v l \<noteq> Inl Fault"
  by (simp add: ndr_token_store_def)

lemma token_retrieve_no_fault [simp]: "ndr_token_retrieve k l \<noteq> Inl Fault"
  by (simp add: ndr_token_retrieve_def token_retrieve_cases split: list.splits)

section \<open>Reading never leaves the buffer\<close>

lemma pull_frame_upd [simp]:
  "pull_frame q (q\<lparr>pl_relative_base_list := a\<rparr>)" "pull_frame q (q\<lparr>pl_relative_list := a\<rparr>)"
  "pull_frame q (q\<lparr>pl_array_size_list := a\<rparr>)" "pull_frame q (q\<lparr>pl_array_length_list := a\<rparr>)"
  "pull_frame q (q\<lparr>pl_switch_list := a\<rparr>)" "pull_frame q (q\<lparr>pl_ptr_count := c\<rparr>)"
  "pull_frame q (q\<lparr>pl_relative_base_offset := c\<rparr>)"
  by (simp_all add: pull_frame_def)

lemma pull_ok_upd [simp]:
  "pull_ok (q\<lparr>pl_relative_base_list := a\<rparr>) = pull_ok q" "pull_ok (q\<lparr>pl_relative_list := a\<rparr>) = pull_ok q"
  "pull_ok (q\<lparr>pl_array_size_list := a\<rparr>) = pull_ok q" "pull_ok (q\<lparr>pl_array_length_list := a\<rparr>) = pull_ok q"
  "pull_ok (q\<lparr>pl_switch_list := a\<rparr>) = pull_ok q" "pull_ok (q\<lparr>pl_ptr_count := c\<rparr>) = pull_ok q"
  "pull_ok (q\<lparr>pl_relative_base_offset := c\<rparr>) = pull_ok q"
  by (simp_all add: pull_ok_def)

lemma pull_error_safe [comp_intros]: "pull_safe (ndr_pull_error e)"
  unfolding ndr_pull_error_def by (rule keeps_fail) simp

lemma set_offset_safe [comp_intros]: "pull_safe (ndr_pull_set_offset ofs)"
  by (rule keepsI)
     (auto simp: ndr_pull_set_offset_def comp_defs pull_ok_def pull_frame_def split: if_splits)

lemma advance_safe [comp_intros]: "pull_safe (ndr_pull_advance n)"
  by (rule keepsI)
     (auto simp: ndr_pull_advance_def comp_defs pull_ok_def pull_frame_def split: if_splits)

lemmas pull_safe_intros = comp_intros pull_frame_refl pull_frame_trans

lemma generic_ptr_safe [comp_intros]: "pull_safe ndr_pull_generic_ptr"
  unfolding ndr_pull_generic_ptr_def by (intro pull_safe_intros) simp_all

lemma ref_ptr_safe [comp_intros]: "pull_safe ndr_pull_ref_ptr"
  unfolding ndr_pull_ref_ptr_def by (intro pull_safe_intros)

lemma array_size_safe [comp_intros]: "pull_safe (ndr_pull_array_size p)"
  unfolding ndr_pull_array_size_def by (intro pull_safe_intros) simp_all

lemma array_length_safe [comp_intros]: "pull_safe (ndr_pull_array_length p)"
  unfolding ndr_pull_array_length_def by (intro pull_safe_intros) simp_all

lemma check_array_safe [comp_intros]:
  "pull_safe (ndr_check_array_size p n)" "pull_safe (ndr_check_array_length p n)"
  unfolding ndr_check_array_size_def ndr_check_array_length_def by (intro pull_safe_intros)+

lemma relative_ptr_safe [comp_intros]:
  "pull_safe (ndr_pull_relative_ptr1 p ofs)" "pull_safe (ndr_pull_relative_ptr2 p)"
  "pull_safe (ndr_pull_setup_relative_base_offset1 p ofs)"
  "pull_safe (ndr_pull_setup_relative_base_offset2 p)" "pull_safe (ndr_pull_set_switch_value p ofs)"
  unfolding ndr_pull_relative_ptr1_def ndr_pull_relative_ptr2_def Let_def
    ndr_pull_setup_relative_base_offset1_def ndr_pull_setup_relative_base_offset2_def
    ndr_pull_set_switch_value_def
  by (intro pull_safe_intros; simp)+


section \<open>Sub-contexts nest codecs\<close>

text \<open>
  The calls that the IDL compiler emits around a field with a sub-context
  (\<open>ParseSubcontextPushStart\<close> and its siblings in \<open>pidl\<close>).
\<close>

definition push_subcontext :: "nat \<Rightarrow> int \<Rightarrow> (ndr_push, unit) comp \<Rightarrow> (ndr_push, unit) comp" where
  "push_subcontext h sz m =
     nbind ndr_push_subcontext_start (\<lambda>sub ndr.
       case m sub of Inl f \<Rightarrow> Inl f | Inr (_, sub') \<Rightarrow> ndr_push_subcontext_end sub' h sz ndr)"

definition pull_subcontext :: "nat \<Rightarrow> int \<Rightarrow> (ndr_pull, 'a) comp \<Rightarrow> (ndr_pull, 'a) comp" where
  "pull_subcontext h sz m =
     nbind (ndr_pull_subcontext_start h sz) (\<lambda>sub ndr.
       case m sub of
         Inl f \<Rightarrow> Inl f
       | Inr (v, sub') \<Rightarrow> nthen (ndr_pull_subcontext_end sub' h sz) (nreturn v) ndr)"

definition sub_header :: "nat \<Rightarrow> int \<Rightarrow> (ndr_pull, u32) comp" where
  "sub_header h sz =
     (if h = 0
      then nget (\<lambda>ndr. if sz \<ge> 0 then word_of_int sz else pl_data_size ndr - pl_offset ndr)
      else if h = 2
      then nbind ndr_pull_uint16 (\<lambda>n.
             if sz \<ge> 0 \<and> sz \<noteq> uint n then ndr_pull_error NDR_ERR_SUBCONTEXT else nreturn (ucast n))
      else if h = 4
      then nbind ndr_pull_uint32 (\<lambda>n.
             if sz \<ge> 0 \<and> sz \<noteq> uint n then ndr_pull_error NDR_ERR_SUBCONTEXT else nreturn n)
      else ndr_pull_error NDR_ERR_SUBCONTEXT)"

definition sub_ctx :: "u32 \<Rightarrow> ndr_pull \<Rightarrow> ndr_pull" where
  "sub_ctx n ndr = \<lparr>pl_flags = pl_flags ndr, pl_data = drop (unat (pl_offset ndr)) (pl_data ndr),
      pl_data_size = n, pl_offset = 0, pl_relative_base_offset = 0, pl_relative_base_list = [],
      pl_relative_list = [], pl_array_size_list = [], pl_array_length_list = [], pl_switch_list = [],
      pl_ptr_count = 0\<rparr>"

lemma subcontext_start_shape:
  "ndr_pull_subcontext_start h sz =
     nbind (sub_header h sz) (\<lambda>n. nthen (NDR_PULL_NEED_BYTES n) (nget (sub_ctx n)))"
  unfolding ndr_pull_subcontext_start_def sub_header_def sub_ctx_def ..

lemma sub_header_safe: "pull_safe (sub_header h sz)"
  unfolding sub_header_def by (intro pull_safe_intros)

lemma subcontext_end_safe [comp_intros]: "pull_safe (ndr_pull_subcontext_end sub h sz)"
  unfolding ndr_pull_subcontext_end_def by (intro pull_safe_intros)

lemma sub_ctx_ok:
  assumes "pull_ok q" "unat n \<le> length (unread q)"
  shows "pull_ok (sub_ctx n q)" "unread (sub_ctx n q) = take (unat n) (unread q)"
proof -
  note q = pull_okD [OF assms(1)] length_unread [OF assms(1)]
  then have le: "unat (pl_offset q) + unat n \<le> unat (pl_data_size q)" using assms(2) by simp
  then show "pull_ok (sub_ctx n q)"
    using q by (auto simp: pull_ok_def sub_ctx_def)
  show "unread (sub_ctx n q) = take (unat n) (unread q)"
    using le by (simp add: unread_def sub_ctx_def take_drop min_absorb1 add.commute)
qed

lemma subcontext_start_safe: "pull_safe (ndr_pull_subcontext_start h sz)"
  unfolding subcontext_start_shape by (intro pull_safe_intros sub_header_safe)

lemma subcontext_start_sub_ok:
  assumes "pull_ok q" "ndr_pull_subcontext_start h sz q = Inr (sub, q')"
  shows "pull_ok sub"
proof -
  from assms(2) obtain n q1 where h: "sub_header h sz q = Inr (n, q1)"
    and n: "NDR_PULL_NEED_BYTES n q1 = Inr ((), q')" and sub: "sub = sub_ctx n q'"
    by (auto simp: subcontext_start_shape nbind_eq_Inr nthen_eq_Inr nget_def)
  have q1: "pull_ok q1" using keeps_post [OF sub_header_safe assms(1) h] by simp
  then have "q' = q1 \<and> unat n \<le> length (unread q1)"
    using need_bytes_cases [of q1 n] n by (auto split: if_splits)
  then show ?thesis using sub sub_ctx_ok(1) [OF q1] by simp
qed

lemma pull_subcontext_safe [comp_intros]:
  assumes "pull_safe m" shows "pull_safe (pull_subcontext h sz m)"
proof (rule keepsI)
  fix q assume q: "pull_ok q"
  let ?body = "\<lambda>sub q1. case m sub of Inl f \<Rightarrow> Inl f
      | Inr (v, sub') \<Rightarrow> nthen (ndr_pull_subcontext_end sub' h sz) (nreturn v) q1"
  have fin: "pull_safe (nthen (ndr_pull_subcontext_end sub' h sz) (nreturn v))" for sub' and v :: 'a
    by (intro pull_safe_intros subcontext_end_safe)
  have body: "?body sub q1 \<noteq> Inl Fault \<and> (\<forall>v q'. ?body sub q1 = Inr (v, q') \<longrightarrow> pull_ok q' \<and> pull_frame q1 q')"
    if "pull_ok sub" "pull_ok q1" for sub q1
    using keeps_no_fault [OF assms that(1)] keeps_no_fault [OF fin that(2)] keeps_post [OF fin that(2)]
    by (auto split: sum.splits)
  show "pull_subcontext h sz m q \<noteq> Inl Fault"
    using keeps_no_fault [OF subcontext_start_safe q, of h sz] keeps_post [OF subcontext_start_safe q, of h sz]
      subcontext_start_sub_ok [OF q, of h sz] body
    by (auto simp: pull_subcontext_def nbind_def split: sum.splits)
  fix v q' assume "pull_subcontext h sz m q = Inr (v, q')"
  then obtain sub q1 where s: "ndr_pull_subcontext_start h sz q = Inr (sub, q1)" and b: "?body sub q1 = Inr (v, q')"
    by (auto simp: pull_subcontext_def nbind_eq_Inr)
  have "pull_ok q1 \<and> pull_frame q q1" by (rule keeps_post [OF subcontext_start_safe q s])
  moreover from this have "pull_ok q' \<and> pull_frame q1 q'"
    using body [OF subcontext_start_sub_ok [OF q s]] b by blast
  ultimately show "pull_ok q' \<and> pull_frame q q'" using transpD [OF pull_frame_trans] by blast
qed


text \<open>
  What a sub-context puts on the wire: the header with the size of the content, the content encoded
  from offset 0, and zeroes up to the fixed size when there is one.
\<close>

definition sub_total :: "int \<Rightarrow> nat \<Rightarrow> nat" where
  "sub_total sz len = (if sz \<ge> 0 then nat sz else len)"

definition enc_header :: "nat \<Rightarrow> nat \<Rightarrow> encoding" where
  "enc_header h n = (if h = 0 then (\<lambda>_ _. []) else if h = 2 then enc16 (of_nat n) else enc32 (of_nat n))"

definition enc_sub :: "nat \<Rightarrow> int \<Rightarrow> encoding \<Rightarrow> encoding" where
  "enc_sub h sz e fl ofs =
     (let bs = e fl 0; n = sub_total sz (length bs)
      in enc_seq (enc_header h n) (\<lambda>_ _. bs @ replicate (n - length bs) 0) fl ofs)"

definition sub_fits :: "nat \<Rightarrow> int \<Rightarrow> encoding \<Rightarrow> bool" where
  "sub_fits h sz e \<longleftrightarrow> h \<in> {0, 2, 4} \<and>
     (\<forall>fl. length (e fl 0) \<le> sub_total sz (length (e fl 0)) \<and>
           sub_total sz (length (e fl 0)) < (if h = 2 then 2 ^ 16 else 2 ^ 31))"

lemma push_ok_init: "push_ok (ndr_push_init_ctx\<lparr>ps_flags := fl\<rparr>)" "push_ok ndr_push_init_ctx"
  by (simp_all add: push_ok_def ndr_push_init_ctx_def NDR_BASE_MARSHALL_SIZE_def MAX_TALLOC_SIZE_def)

lemma written_init [simp]: "written (ndr_push_init_ctx\<lparr>ps_flags := fl\<rparr>) = []" "written ndr_push_init_ctx = []"
  by (simp_all add: written_def ndr_push_init_ctx_def)

lemma init_fields [simp]: "ps_offset ndr_push_init_ctx = 0" "ps_flags ndr_push_init_ctx = 0"
  by (simp_all add: ndr_push_init_ctx_def)

lemma written_data:
  assumes "push_ok p"
  shows "ps_data p = map Some (written p) @ drop (unat (ps_offset p)) (ps_data p)"
proof -
  have "map Some (map the xs) = xs" if "None \<notin> set xs" for xs :: buffer
    using that by (induction xs) auto
  then have "map Some (written p) = take (unat (ps_offset p)) (ps_data p)"
    using push_okD(5) [OF assms] by (simp only: written_def)
  then show ?thesis by simp
qed

text \<open>Padding the content of the sub-context, as the first half of \<open>ndr_push_subcontext_end\<close> does.\<close>

definition sub_pad :: "int \<Rightarrow> (ndr_push, unit) comp" where
  "sub_pad sz sub =
     (let padding_len = sz - uint (ps_offset sub)
      in if sz \<ge> 0
         then if padding_len > 0 then ndr_push_zero (word_of_int padding_len) sub
              else if padding_len < 0 then ndr_push_error NDR_ERR_SUBCONTEXT sub
              else Inr ((), sub)
         else Inr ((), sub))"

definition push_header :: "nat \<Rightarrow> u32 \<Rightarrow> (ndr_push, unit) comp" where
  "push_header h n = (if h = 0 then nreturn () else if h = 2 then ndr_push_uint16 (ucast n)
     else if h = 4 then ndr_push_uint32 n else ndr_push_error NDR_ERR_SUBCONTEXT)"

lemma subcontext_end_shape:
  "ndr_push_subcontext_end sub h sz ndr =
     (case sub_pad sz sub of Inl f \<Rightarrow> Inl f
      | Inr (_, sub) \<Rightarrow> nthen (push_header h (ps_offset sub)) (ndr_push_bytes (ps_data sub) (ps_offset sub)) ndr)"
  unfolding ndr_push_subcontext_end_def sub_pad_def push_header_def Let_def by simp

lemma unat_word_of_int_small:
  assumes "0 \<le> k" "k < 2 ^ LENGTH('a)" shows "unat (word_of_int k :: 'a::len word) = nat k"
proof -
  have "uint (word_of_int k :: 'a word) = k"
    unfolding uint_word_of_int_eq using assms by (simp add: take_bit_int_eq_self_iff)
  then show ?thesis by (simp add: unat_eq_nat_uint)
qed

lemma sub_pad_at:
  assumes "push_ok sub" "unat (ps_offset sub) = len" "len \<le> sub_total sz len" "sub_total sz len < 2 ^ 31"
  shows "push_at (replicate (sub_total sz len - len) 0) (sub_pad sz) sub"
proof -
  have u: "uint (ps_offset sub) = int len" using assms(2) by (simp add: uint_nat)
  show ?thesis
  proof (cases "sz > int len")
    case True
    let ?n = "word_of_int (sz - int len) :: u32"
    have "sz < 2 ^ 31" using True assms(4) by (simp add: sub_total_def nat_less_iff)
    then have "unat ?n = nat (sz - int len)" using True by (intro unat_word_of_int_small) simp_all
    also have "\<dots> = sub_total sz len - len" using True by (simp add: sub_total_def nat_diff_distrib)
    finally have "unat ?n = sub_total sz len - len" .
    moreover from this have "push_at (replicate (unat ?n) 0) (ndr_push_zero ?n) sub"
      using push_specD [OF push_zero_spec [of ?n] assms(1)] assms(4) by simp
    ultimately show ?thesis using True by (simp add: push_at_def sub_pad_def u Let_def)
  next
    case False
    then have "sub_pad sz sub = Inr ((), sub) \<and> sub_total sz len = len"
      using assms(3) by (auto simp: sub_pad_def u sub_total_def Let_def)
    then show ?thesis using pushes_refl [OF assms(1)] by (simp add: push_at_def)
  qed
qed

lemma push_header_spec:
  assumes "h \<in> {0, 2, 4}" "unat n < (if h = 2 then 2 ^ 16 else 2 ^ 31)"
  shows "push_spec (enc_header h (unat n)) (push_header h n)"
  using assms push_spec_return push_uint16_spec push_uint32_spec
  by (auto simp: enc_header_def push_header_def word_of_nat_eq_iff)


lemma push_subcontext_spec:
  assumes e: "push_spec e m" and fits: "sub_fits h sz e"
  shows "push_spec (enc_sub h sz e) (push_subcontext h sz m)"
proof (rule push_specI)
  fix p assume p: "push_ok p"
  let ?fl = "ps_flags p" and ?s = "ndr_push_init_ctx\<lparr>ps_flags := ps_flags p\<rparr>"
  let ?bs = "e ?fl 0"
  let ?n = "sub_total sz (length ?bs)"
  have init: "unat (ps_offset ?s) = 0" "ps_flags ?s = ?fl" by simp_all
  have n: "length ?bs \<le> ?n" "?n < (if h = 2 then 2 ^ 16 else 2 ^ 31)" and h: "h \<in> {0, 2, 4}"
    using fits by (simp_all add: sub_fits_def)
  then have n31: "?n < 2 ^ 31" by (simp split: if_splits)
  let ?c = "?bs @ replicate (?n - length ?bs) 0"
  have "push_at ?c (nthen m (sub_pad sz)) ?s"
  proof (intro push_at_then push_ok_init)
    show "push_at ?bs m ?s" using push_specD [OF e push_ok_init(1), of ?fl] by simp
  next
    fix s1 assume s1: "pushes ?bs ?s s1"
    have "unat (ps_offset s1) = length ?bs" using pushes_offset [OF push_ok_init(1) s1] init by simp
    then show "push_at (replicate (?n - length ?bs) 0) (sub_pad sz) s1"
      using sub_pad_at [OF pushes_ok [OF s1]] n(1) n31 by simp
  qed
  then consider (refused) "nthen m (sub_pad sz) ?s = Inl (Status NT_STATUS_NO_MEMORY)"
      "MAX_TALLOC_SIZE \<le> length ?c + 1024"
    | (content) s2 where "nthen m (sub_pad sz) ?s = Inr ((), s2)" "pushes ?c ?s s2"
    by (auto simp: push_at_def init split: sum.splits)
  then show "push_at (enc_sub h sz e ?fl (unat (ps_offset p))) (push_subcontext h sz m) p"
  proof cases
    case refused
    then have "push_subcontext h sz m p = Inl (Status NT_STATUS_NO_MEMORY)"
      by (auto simp: push_subcontext_def ndr_push_subcontext_start_def nbind_def nget_def nthen_def
          subcontext_end_shape split: sum.splits)
    then show ?thesis
      using refused(2) by (simp add: push_at_def enc_sub_def Let_def enc_seq_def)
  next
    case content
    then have run: "push_subcontext h sz m p =
        nthen (push_header h (ps_offset s2)) (ndr_push_bytes (ps_data s2) (ps_offset s2)) p"
      by (auto simp: push_subcontext_def ndr_push_subcontext_start_def nbind_def nget_def nthen_def
          subcontext_end_shape split: sum.splits)
    have len: "unat (ps_offset s2) = ?n"
      using pushes_offset [OF push_ok_init(1) content(2)] n(1) init by simp
    have "written s2 = ?c" using content(2) by (simp add: pushes_def)
    then have d: "ps_data s2 = map Some ?c @ drop (unat (ps_offset s2)) (ps_data s2)"
      using written_data [OF pushes_ok [OF content(2)]] by simp
    have "push_spec (\<lambda>_ _. ?c) (ndr_push_bytes (ps_data s2) (ps_offset s2))"
      by (subst d, rule push_bytes_spec) (use len n n31 in simp_all)
    moreover have "push_spec (enc_header h ?n) (push_header h (ps_offset s2))"
      using push_header_spec [OF h, of "ps_offset s2"] n(2) by (simp add: len)
    ultimately have "push_spec (enc_seq (enc_header h ?n) (\<lambda>_ _. ?c))
        (nthen (push_header h (ps_offset s2)) (ndr_push_bytes (ps_data s2) (ps_offset s2)))"
      by (intro push_spec_then)
    from push_specD [OF this p] show ?thesis
      by (simp add: push_at_def run enc_sub_def Let_def)
  qed
qed


lemma pull_bind_return:
  assumes "pull_spec v e m" "f v = nreturn w" shows "pull_spec w e (nbind m f)"
proof -
  have "pull_spec w (\<lambda>_ _. []) (f v)" using assms(2) pull_spec_return by simp
  with assms(1) have "pull_spec w (enc_seq e (\<lambda>_ _. [])) (nbind m f)" by (rule pull_spec_bind)
  then show ?thesis by simp
qed

lemma sub_header_spec:
  assumes "h \<in> {0, 2, 4}" "h \<noteq> 0 \<or> sz \<ge> 0" "sz \<ge> 0 \<longrightarrow> nat sz = n"
    "n < (if h = 2 then 2 ^ 16 else 2 ^ 31)"
  shows "pull_spec (of_nat n) (enc_header h n) (sub_header h sz)"
proof -
  have 16: "uint (of_nat n :: u16) = int n" "ucast (of_nat n :: u16) = (of_nat n :: u32)" if "h = 2"
    using assms(4) that
    by (simp_all add: uint_nat word_unat_eq_iff unat_of_nat_small unsigned_ucast_eq take_bit_nat_eq_self_iff)
  have 32: "uint (of_nat n :: u32) = int n" if "h \<noteq> 2"
    using assms(4) that by (simp add: uint_nat unat_of_nat_small)
  consider "h = 0" | "h = 2" | "h = 4" using assms(1) by blast
  then show ?thesis
  proof cases
    assume h: "h = 0"
    then have "(word_of_int sz :: u32) = of_nat n"
      using assms(2,3) by (metis int_nat_eq of_int_of_nat_eq)
    then show ?thesis
      using h assms(2) by (intro pull_specI) (simp add: sub_header_def enc_header_def nget_def)
  next
    assume h: "h = 2"
    then show ?thesis
      using assms(3) 16
      by (auto simp: sub_header_def enc_header_def intro!: pull_bind_return [OF pull_uint16_spec])
  next
    assume h: "h = 4"
    then show ?thesis
      using assms(3) 32
      by (auto simp: sub_header_def enc_header_def intro!: pull_bind_return [OF pull_uint32_spec])
  qed
qed

lemma advance_run:
  assumes "pull_ok q" "k \<le> length (unread q)"
  shows "ndr_pull_advance (of_nat k) q = Inr ((), adv k q)"
  using adv_ok(1) [OF assms]
  by (simp add: ndr_pull_advance_def nthen_def nbind_def nmodify_def ncheck_def pull_ok_def not_less)

text \<open>The body of the sub-context, on the content that the header announced.\<close>

lemma sub_body_run:
  assumes m: "pull_spec v e m" and q: "pull_ok q" and n: "unat n \<le> length (unread q)"
    and pre: "prefix (e (pl_flags q) 0) (take (unat n) (unread q))"
  shows "nthen (NDR_PULL_NEED_BYTES n) (nget (sub_ctx n)) q = Inr (sub_ctx n q, q)"
    "m (sub_ctx n q) = Inr (v, adv (length (e (pl_flags q) 0)) (sub_ctx n q))"
proof -
  show "nthen (NDR_PULL_NEED_BYTES n) (nget (sub_ctx n)) q = Inr (sub_ctx n q, q)"
    using need_bytes_cases [OF q, of n] n by (simp add: nthen_def nbind_def nget_def)
  have "pl_flags (sub_ctx n q) = pl_flags q" "pl_offset (sub_ctx n q) = 0" by (simp_all add: sub_ctx_def)
  then show "m (sub_ctx n q) = Inr (v, adv (length (e (pl_flags q) 0)) (sub_ctx n q))"
    using pull_specD [OF m sub_ctx_ok(1) [OF q n]] pre by (simp add: sub_ctx_ok(2) [OF q n])
qed

lemma pull_subcontext_spec:
  assumes m: "pull_spec v e m" and fits: "sub_fits h sz e"
  shows "pull_spec v (enc_sub h sz e) (pull_subcontext h sz m)"
proof (rule pull_specI)
  fix q assume q: "pull_ok q" and pre: "prefix (enc_sub h sz e (pl_flags q) (unat (pl_offset q))) (unread q)"
  let ?bs = "e (pl_flags q) 0"
  let ?t = "sub_total sz (length ?bs)"
  let ?h = "enc_header h ?t (pl_flags q) (unat (pl_offset q))"
  let ?c = "?bs @ replicate (?t - length ?bs) 0"
  have n: "length ?bs \<le> ?t" "?t < (if h = 2 then 2 ^ 16 else 2 ^ 31)" and h: "h \<in> {0, 2, 4}"
    using fits by (simp_all add: sub_fits_def)
  have un: "prefix (?h @ ?c) (unread q)" using pre by (simp add: enc_sub_def Let_def enc_seq_def)
  then have hl: "length ?h \<le> length (unread q)" by (auto dest: prefix_length_le)
  define q1 where "q1 = adv (length ?h) q"
  note q1 = adv_ok [OF q hl, folded q1_def]
  have fl: "pl_flags q1 = pl_flags q" by (simp add: q1_def)
  have c: "prefix ?c (unread q1)" using un q1(3) by (auto simp: prefix_def)
  then have tl: "?t \<le> length (unread q1)" using n(1) prefix_length_le [OF c] by simp
  have "\<exists>n. sub_header h sz q = Inr (n, q1) \<and> ?t \<le> unat n \<and> unat n \<le> length (unread q1) \<and>
      (h = 0 \<and> sz < 0 \<or> n = of_nat ?t)"
  proof (cases "h = 0 \<and> sz < 0")
    case True
    then have "unat (pl_data_size q - pl_offset q) = length (unread q)"
      using pull_okD(2) [OF q] by (simp add: unat_sub_le word_le_nat_alt length_unread [OF q])
    then show ?thesis
      using True tl by (auto simp: sub_header_def nget_def q1_def enc_header_def)
  next
    case False
    then have "sub_header h sz q = Inr (of_nat ?t, q1)"
      using pull_specD [OF sub_header_spec [OF h _ _ n(2)] q] un False n
      by (auto simp: q1_def sub_total_def dest: append_prefixD)
    moreover have "unat (of_nat ?t :: u32) = ?t"
      using n(2) by (intro unat_of_nat_small) (simp split: if_splits)
    ultimately show ?thesis using tl by auto
  qed
  then obtain n where hd: "sub_header h sz q = Inr (n, q1)" and nt: "?t \<le> unat n" "unat n \<le> length (unread q1)"
    and cases: "h = 0 \<and> sz < 0 \<or> n = of_nat ?t" by blast
  have "prefix ?bs (take (unat n) (unread q1))"
    using c nt n(1) by (auto simp: prefix_def)
  note body = sub_body_run [OF m q1(1) nt(2), unfolded fl, OF this]
  let ?s = "adv (length ?bs) (sub_ctx n q1)"
  have "ndr_pull_subcontext_end ?s h sz q1 = Inr ((), adv ?t q1)"
  proof -
    have "(if sz \<ge> 0 then word_of_int sz else if h > 0 then pl_data_size ?s else pl_offset ?s) = (of_nat ?t :: u32)"
      using cases by (auto simp: sub_ctx_def sub_total_def)
    then show ?thesis
      unfolding ndr_pull_subcontext_end_def using advance_run [OF q1(1) tl] by simp
  qed
  then have "pull_subcontext h sz m q = Inr (v, adv ?t q1)"
    using hd body by (simp add: pull_subcontext_def subcontext_start_shape nreturn_def)
  then show "pull_subcontext h sz m q = Inr (v, adv (length (enc_sub h sz e (pl_flags q) (unat (pl_offset q)))) q)"
    using n(1) by (simp add: enc_sub_def Let_def enc_seq_def q1_def add.assoc)
qed

text \<open>A sub-context around a codec is a codec.\<close>

lemma ndr_codec_subcontext:
  assumes c: "ndr_codec valid push pull enc"
  shows "ndr_codec (\<lambda>v. valid v \<and> sub_fits h sz (enc v)) (\<lambda>v. push_subcontext h sz (push v))
           (pull_subcontext h sz pull) (\<lambda>v. enc_sub h sz (enc v))"
  by unfold_locales
     (auto intro!: push_subcontext_spec pull_subcontext_spec pull_subcontext_safe
        ndr_codec.push_enc [OF c] ndr_codec.pull_enc [OF c] ndr_codec.pull_total [OF c])


section \<open>Whole structures and counted blobs\<close>

lemma ucast_u32_u64 [simp]: "ucast (ucast (v :: u32) :: u64) = v"
  by (rule bit_word_eqI) (auto simp: bit_simps)

lemma pull_init_blob_of_push:
  assumes p: "push_ok p"
  defines "q \<equiv> ndr_pull_init_blob (fst (ndr_push_blob p))"
  shows "pull_ok q" "unread q = written p" "pl_flags q = 0" "pl_offset q = 0" "pl_data_size q = ps_offset p"
proof -
  note p' = push_okD [OF p]
  have ds: "pl_data_size q = ps_offset p" and d: "pl_data q = map the ((ps_data p)[unat (ps_offset p) := Some 0])"
    using p' by (simp_all add: q_def ndr_pull_init_blob_def ndr_push_blob_def word_less_nat_alt)
  show "pl_data_size q = ps_offset p" by (rule ds)
  show "pl_flags q = 0" "pl_offset q = 0" by (simp_all add: q_def ndr_pull_init_blob_def)
  then show "unread q = written p"
    by (simp add: unread_def ds d written_def take_map)
  show "pull_ok q"
    using p' \<open>pl_flags q = 0\<close> \<open>pl_offset q = 0\<close> by (auto simp: pull_ok_def ds d)
qed

lemma struct_blob_roundtrip_codec:
  assumes c: "ndr_codec valid push pull enc" and v: "valid v"
    and run: "push v ndr_push_init_ctx = Inr ((), p)"
  shows "pull (ndr_pull_init_blob (fst (ndr_push_blob p))) =
     Inr (v, (ndr_pull_init_blob (fst (ndr_push_blob p)))\<lparr>pl_offset := ps_offset p\<rparr>)"
proof -
  let ?q = "ndr_pull_init_blob (fst (ndr_push_blob p))"
  have app: "pushes (enc v 0 0) ndr_push_init_ctx p"
    using ndr_codec.push_appends [OF c v push_ok_init(2) run] by simp
  then have p: "push_ok p" "written p = enc v 0 0" by (simp_all add: pushes_def)
  note q = pull_init_blob_of_push [OF p(1)]
  have "pull ?q = Inr (v, adv (length (enc v 0 0)) ?q)"
    using pull_specD [OF ndr_codec.pull_enc [OF c v] q(1)] p(2) q(2,3,4) by simp
  moreover have "of_nat (length (enc v 0 0)) = ps_offset p"
    using length_written [OF p(1)] p(2) by simp
  ultimately show ?thesis using q(4) by simp
qed

text \<open>A structure pushed into a blob with \<open>ndr_push_struct_blob\<close> is read back, and read completely, by
  \<open>ndr_pull_struct_blob_all\<close>, for every pair of push and pull functions that satisfies the codec contract.\<close>

theorem struct_blob_roundtrip:
  assumes "ndr_codec valid (push (NDR_SCALARS OR NDR_BUFFERS)) (pull (NDR_SCALARS OR NDR_BUFFERS)) enc"
    and "valid v" and "ndr_push_struct_blob (\<lambda>fl. push fl v) = Inr blob"
  shows "ndr_pull_struct_blob_all blob pull = Inr v"
proof -
  from assms(3) obtain p where p: "push (NDR_SCALARS OR NDR_BUFFERS) v ndr_push_init_ctx = Inr ((), p)"
    and blob: "blob = fst (ndr_push_blob p)"
    by (auto simp: ndr_push_struct_blob_def split: sum.splits)
  have "pl_data_size (ndr_pull_init_blob blob) = ps_offset p"
    by (auto simp: blob ndr_pull_init_blob_def ndr_push_blob_def Let_def)
  then show ?thesis
    using struct_blob_roundtrip_codec [OF assms(1,2) p]
    by (simp add: ndr_pull_struct_blob_all_def blob)
qed

theorem struct_blob_roundtrip_witness:
  "ndr_pull_struct_blob_all
     (case ndr_push_struct_blob (\<lambda>_. ndr_push_uint32 0x12345678) of Inr b \<Rightarrow> b) (\<lambda>_. ndr_pull_uint32)
   = Inr 0x12345678"
proof -
  obtain b where "ndr_push_struct_blob (\<lambda>_. ndr_push_uint32 0x12345678) = Inr b"
    using c_uint32.push_succeeds [OF TrueI push_ok_init(2), of "0x12345678"]
    by (auto simp: ndr_push_struct_blob_def MAX_TALLOC_SIZE_def enc32_def enc_seq_def enc_pad_def le32_def pad_def)
  then show ?thesis
    using struct_blob_roundtrip [of "\<lambda>_. True" "\<lambda>_. ndr_push_uint32" "\<lambda>_. ndr_pull_uint32" enc32, OF _ TrueI]
      c_uint32.ndr_codec_axioms by simp
qed


section \<open>Pointers on the wire\<close>

lemma referent_id:
  assumes "unat c < 0x8000" shows "unat ((c * 4) OR 0x20000 :: u32) = unat c * 4 + 0x20000"
proof -
  have c4: "unat (c * 4) = unat c * 4" using assms by (simp add: unat_word_ariths)
  then have "take_bit 17 (c * 4) = c * 4"
    using assms by (simp add: word_unat_eq_iff unsigned_take_bit_eq take_bit_nat_eq_self_iff)
  then have "\<not> bit (c * 4) 17" by (metis bit_take_bit_iff less_irrefl)
  then have "c * 4 + push_bit 17 1 = (c * 4) OR push_bit 17 1"
    by (intro disjunctive_add) (metis bit_1_iff bit_push_bit_iff diff_is_0_eq le_antisym)
  then have "(c * 4) OR 0x20000 = c * 4 + 0x20000" by simp
  then show ?thesis using c4 assms by (simp add: unat_add_no_wrap)
qed


text \<open>The \<open>i\<close>-th unique pointer of a context, for \<open>i\<close> below \<open>2\<^sup>1\<^sup>5\<close>, is written as the referent id
  \<open>0x20000 + 4 i\<close>, so these ids are distinct and none is null.\<close>

theorem unique_ptr_referents:
  assumes "unat (ps_ptr_count p) < 0x8000" "push_ok p" "a \<noteq> 0" "ndr_push_unique_ptr a p = Inr ((), p')"
  shows "written p' = written p @
       enc32 (0x20000 + 4 * ps_ptr_count p) (ps_flags p) (unat (ps_offset p)) \<and>
     unat (ps_ptr_count p') = unat (ps_ptr_count p) + 1 \<and> push_ok p'"
proof -
  let ?c = "ps_ptr_count p" and ?q = "p\<lparr>ps_ptr_count := ps_ptr_count p + 1\<rparr>"
  have "unat (0x20000 + 4 * ?c) = 0x20000 + 4 * unat ?c" using assms(1) by (simp add: unat_word_ariths)
  then have "(?c * 4) OR 0x20000 = 0x20000 + 4 * ?c"
    using referent_id [OF assms(1)] by (simp add: word_unat_eq_iff)
  then have run: "ndr_push_uint32 (0x20000 + 4 * ?c) ?q = Inr ((), p')"
    using assms(3,4) by (simp add: ndr_push_unique_ptr_def nbind_def nthen_def nget_def nmodify_def)
  have q: "push_ok ?q" "written ?q = written p"
    using assms(2) by (simp_all add: push_ok_def written_def)
  have "unat (?c + 1) = unat ?c + 1" using assms(1) by (simp add: unat_add_no_wrap)
  then show ?thesis
    using c_uint32.push_appends [OF TrueI q(1) run] q(2) push_frame_fields(8) [of ?q p'] by (simp add: pushes_def)
qed

section \<open>Relative pointers resolve\<close>

lemma push_uint32_in_place:
  assumes ok: "push_ok p" and slot: "unat o' + 4 \<le> unat (ps_offset p)"
    and al: "has_flag (ps_flags p) LIBNDR_FLAG_NOALIGN \<or> pad 4 (unat o') = 0"
  shows "ndr_push_uint32 v (p\<lparr>ps_offset := o'\<rparr>) =
     Inr ((), p\<lparr>ps_data := store (ps_data p) (unat o') (map Some (order (ps_flags p) (le32 v))), ps_offset := o' + 4\<rparr>)"
proof -
  note p = push_okD [OF ok]
  have sum: "unat (o' + 4) = unat o' + 4" using slot p(4) by (simp add: unat_add_no_wrap)
  have "unat ((o' + (4 - 1)) AND NOT (4 - 1)) = unat o' + pad 4 (unat o')"
    using unat_round_up32 [of 4 o'] slot p(4) by simp
  then have "pad 4 (unat o') = 0 \<Longrightarrow> (o' + 3) AND NOT 3 = o'"
    by (simp add: word_unat_eq_iff)
  then have a: "NDR_PUSH_ALIGN 4 (p\<lparr>ps_offset := o'\<rparr>) = Inr ((), p\<lparr>ps_offset := o'\<rparr>)"
    using al by (auto simp: NDR_PUSH_ALIGN_def nbind_def nget_def nreturn_def)
  have "NDR_PUSH_NEED_BYTES 4 (p\<lparr>ps_offset := o'\<rparr>) = Inr ((), p\<lparr>ps_offset := o'\<rparr>)"
    using slot p sum by (simp add: NDR_PUSH_NEED_BYTES_def nbind_def nget_def ndr_push_expand_def word_less_nat_alt)
  then show ?thesis
    using a slot p by (simp add: ndr_push_uint32_def NDR_SIVAL_run nmodify_def)
qed


text \<open>What \<open>ndr_push_relative_ptr1\<close> leaves behind: an aligned slot, remembered under the pointer.\<close>

lemma pad_aligned: "n dvd m \<Longrightarrow> pad n m = 0"
  by (simp add: pad_def)

lemma relative_ptr1_slot:
  assumes ok: "push_ok p" and a: "a \<noteq> 0" and run: "ndr_push_relative_ptr1 a p = Inr ((), p1)"
  defines "k \<equiv> length (enc_pad 4 (ps_flags p) (unat (ps_offset p)))"
  shows "push_ok p1" "written p1 = written p @ enc32 0xFFFFFFFF (ps_flags p) (unat (ps_offset p))"
    "unat (ps_offset p1) = unat (ps_offset p) + k + 4"
    "ps_flags p1 = ps_flags p" "ps_relative_base_offset p1 = ps_relative_base_offset p"
    "ps_relative_list p1 = (a, ps_offset p + of_nat k) # ps_relative_list p"
    "unat (ps_offset p + of_nat k) = unat (ps_offset p) + k"
    "has_flag (ps_flags p) LIBNDR_FLAG_NOALIGN \<or> pad 4 (unat (ps_offset p) + k) = 0"
proof -
  let ?f = "ps_flags p" and ?o = "unat (ps_offset p)"
  from run a obtain q where al: "NDR_PUSH_ALIGN 4 p = Inr ((), q)"
    and w: "ndr_push_uint32 0xFFFFFFFF (q\<lparr>ps_relative_list := (a, ps_offset q) # ps_relative_list q\<rparr>) = Inr ((), p1)"
    by (auto simp: ndr_push_relative_ptr1_def ndr_push_align_def nthen_eq_Inr nbind_eq_Inr nget_def
        nzoom_def ndr_token_store_def)
  have "pushes (enc_pad 4 ?f ?o) p q"
    using push_specD [OF push_align_spec ok, of 4] al by (simp add: push_at_def)
  then have q: "push_ok q" "written q = written p @ enc_pad 4 ?f ?o" "push_frame p q"
    "unat (ps_offset q) = ?o + k" using pushes_offset [OF ok] by (simp_all add: pushes_def k_def)
  note fr = push_frame_fields [OF q(3)]
  let ?q = "q\<lparr>ps_relative_list := (a, ps_offset q) # ps_relative_list q\<rparr>"
  have q': "push_ok ?q" "written ?q = written q" using q(1) by (simp_all add: push_ok_def written_def)
  show pad: "has_flag ?f LIBNDR_FLAG_NOALIGN \<or> pad 4 (?o + k) = 0"
    using pad_aligned [OF pad_aligns [of 4 ?o]] by (simp add: k_def enc_pad_def)
  have k8: "k < 4" using pad_less [of 4 ?o] by (simp add: k_def enc_pad_def)
  show u: "unat (ps_offset p + of_nat k) = ?o + k"
    using push_okD(4) [OF ok] k8 by (simp add: unat_add_no_wrap unat_of_nat_small)
  then have qo: "ps_offset q = ps_offset p + of_nat k" using q(4) by (simp add: word_unat_eq_iff)
  have e: "enc32 0xFFFFFFFF ?f (?o + k) = order ?f (le32 0xFFFFFFFF)"
    using pad by (auto simp: enc32_def enc_seq_def enc_pad_def)
  have "pushes (enc32 0xFFFFFFFF ?f (?o + k)) ?q p1"
    using c_uint32.push_appends [OF TrueI q'(1) w] fr(1) q(4) by simp
  then have p1: "push_ok p1" "written p1 = written q @ order ?f (le32 0xFFFFFFFF)" "push_frame ?q p1"
    "unat (ps_offset p1) = ?o + k + 4"
    using pushes_offset [OF q'(1)] q'(2) q(4) by (simp_all add: pushes_def e le32_def)
  note fr1 = push_frame_fields [OF p1(3)]
  show "push_ok p1" "unat (ps_offset p1) = ?o + k + 4" by (fact p1)+
  show "written p1 = written p @ enc32 0xFFFFFFFF ?f ?o"
    using p1(2) q(2) by (simp add: enc32_def enc_seq_def)
  show "ps_flags p1 = ps_flags p" "ps_relative_base_offset p1 = ps_relative_base_offset p"
    "ps_relative_list p1 = (a, ps_offset p + of_nat k) # ps_relative_list p"
    using fr fr1 qo by simp_all
qed

lemma written_patch:
  assumes "push_ok p" "pos + length bs \<le> unat (ps_offset p)"
  shows "push_ok (p\<lparr>ps_data := store (ps_data p) pos (map Some bs)\<rparr>)"
    "written (p\<lparr>ps_data := store (ps_data p) pos (map Some bs)\<rparr>) = store (written p) pos bs"
proof -
  note p = push_okD [OF assms(1)]
  have t: "take (unat (ps_offset p)) (store (ps_data p) pos (map Some bs)) =
      store (take (unat (ps_offset p)) (ps_data p)) pos (map Some bs)"
    using assms(2) p(2) by (simp add: store_def min_absorb1 min_absorb2 take_drop)
  then show "written (p\<lparr>ps_data := store (ps_data p) pos (map Some bs)\<rparr>) = store (written p) pos bs"
    by (simp add: written_def store_def take_map drop_map comp_def)
  have "None \<notin> set (store (take (unat (ps_offset p)) (ps_data p)) pos (map Some bs))"
    using p(5) unfolding store_def by (auto simp del: take_take dest: in_set_takeD in_set_dropD)
  then show "push_ok (p\<lparr>ps_data := store (ps_data p) pos (map Some bs)\<rparr>)"
    using assms p t by (simp add: push_ok_def)
qed


text \<open>
  Between the two halves the context may write anything and use other relative pointers, as long as
  it keeps the pending token of \<open>a\<close>.  The slot is then filled as if the final value had been written
  there in the first place, and nothing else of what was written changes.
\<close>

lemma relative_ptr2_patches:
  assumes ok: "push_ok p" and a: "a \<noteq> 0" and run: "ndr_push_relative_ptr1 a p = Inr ((), p1)"
    and p2: "push_ok p2" "written p2 = written p1 @ bs" "ps_flags p2 = ps_flags p1"
      "tokens_of (ps_relative_list p2) a = tokens_of (ps_relative_list p1) a"
    and base: "ps_relative_base_offset p2 \<le> ps_offset p2"
  shows "\<exists>p3. ndr_push_relative_ptr2 a p2 = Inr ((), p3) \<and> push_ok p3 \<and> ps_offset p3 = ps_offset p2 \<and>
     tokens_of (ps_relative_list p3) a = tokens_of (ps_relative_list p) a \<and>
     written p3 = written p @
       enc32 (ps_offset p2 - ps_relative_base_offset p2) (ps_flags p) (unat (ps_offset p)) @ bs"
proof -
  let ?k = "length (enc_pad 4 (ps_flags p) (unat (ps_offset p)))"
  let ?s = "ps_offset p + of_nat ?k" and ?v = "ps_offset p2 - ps_relative_base_offset p2"
  note s = relative_ptr1_slot [OF ok a run]
  let ?l = "remove1 (a, ?s) (ps_relative_list p2)"
  let ?p = "p2\<lparr>ps_relative_list := ?l\<rparr>"
  let ?b = "order (ps_flags p) (le32 ?v)"
  have tk: "tokens_of (ps_relative_list p2) a = ?s # tokens_of (ps_relative_list p) a"
    using p2(4) s(6) by (simp add: tokens_of_Cons)
  have "length (written p2) = length (written p1) + length bs" using p2(2) by simp
  then have ofs: "unat ?s + 4 \<le> unat (ps_offset p2)"
    using s(1,3,7) p2(1) by (simp add: length_written)
  have q: "push_ok ?p" "written ?p = written p2" using p2(1) by (simp_all add: push_ok_def written_def)
  have w: "ndr_push_uint32 ?v (?p\<lparr>ps_offset := ?s\<rparr>) =
      Inr ((), ?p\<lparr>ps_data := store (ps_data p2) (unat ?s) (map Some ?b), ps_offset := ?s + 4\<rparr>)"
    using push_uint32_in_place [OF q(1), of ?s ?v] ofs s(4,7,8) p2(3) by simp
  define p3 where "p3 = ?p\<lparr>ps_data := store (ps_data ?p) (unat ?s) (map Some ?b)\<rparr>"
  have "ndr_push_relative_ptr2 a p2 = Inr ((), p3)"
    using a tk base ofs w unfolding p3_def
    by (simp add: ndr_push_relative_ptr2_def nbind_def nthen_def nget_def nzoom_def nmodify_def
        ndr_token_retrieve_def token_retrieve_cases word_less_nat_alt word_le_nat_alt)
  moreover have "push_ok p3" "written p3 = store (written p2) (unat ?s) ?b"
    unfolding p3_def using written_patch [OF q(1), of "unat ?s" ?b] ofs q(2) by (simp_all add: le32_def)
  moreover have "store (written p2) (unat ?s) ?b = written p @ enc32 ?v (ps_flags p) (unat (ps_offset p)) @ bs"
    using s(2,7) p2(2) length_written [OF ok] by (simp add: store_def enc32_def enc_seq_def le32_def)
  moreover have "tokens_of (ps_relative_list p3) a = tokens_of (ps_relative_list p) a"
    using tokens_of_remove1 [OF tk] by (simp add: p3_def)
  ultimately show ?thesis by (auto simp: p3_def)
qed

text \<open>C29: a reader that reads the slot written by \<open>ndr_push_relative_ptr1\<close> and patched by
  \<open>ndr_push_relative_ptr2\<close>, and follows it with its own two halves, stands exactly where the writer put
  the target, whatever was written in between.\<close>

theorem relative_ptr_resolves:
  assumes ok: "push_ok p" and a: "a \<noteq> 0" and run: "ndr_push_relative_ptr1 a p = Inr ((), p1)"
    and p2: "push_ok p2" "written p2 = written p1 @ bs" "ps_flags p2 = ps_flags p1"
      "tokens_of (ps_relative_list p2) a = tokens_of (ps_relative_list p1) a"
    and base: "ps_relative_base_offset p2 \<le> ps_offset p2"
    and fin: "ndr_push_relative_ptr2 a p2 = Inr ((), p3)"
    and q: "pull_ok q" "pl_flags q = ps_flags p" "pl_offset q = ps_offset p"
      "pl_relative_base_offset q = ps_relative_base_offset p2"
      "prefix (written p3) (take (unat (pl_data_size q)) (pl_data q))"
  shows "nbind ndr_pull_uint32 (\<lambda>rel. nthen (ndr_pull_relative_ptr1 b rel) (ndr_pull_relative_ptr2 b)) q =
     Inr ((), q\<lparr>pl_offset := ps_offset p2\<rparr>)"
proof -
  let ?v = "ps_offset p2 - ps_relative_base_offset p2"
  let ?e = "enc32 ?v (ps_flags p) (unat (ps_offset p))"
  have p3: "push_ok p3" "ps_offset p3 = ps_offset p2" "written p3 = written p @ ?e @ bs"
    using relative_ptr2_patches [OF ok a run p2 base] fin by auto
  then have "prefix ?e (unread q)"
    using q(3,5) length_written [OF ok] by (auto simp: prefix_def unread_def)
  then have r: "ndr_pull_uint32 q = Inr (?v, adv (length ?e) q)"
    using pull_specD [OF pull_uint32_spec q(1), of ?v] q(2,3) by simp
  have "unat (ps_offset p2) \<le> unat (pl_data_size q)"
    using prefix_length_le [OF q(5)] length_written [OF p3(1)] p3(2) by simp
  then show ?thesis
    using r q(4) by (simp add: ndr_pull_relative_ptr1_def ndr_pull_relative_ptr2_def ndr_pull_set_offset_def
        nbind_def nthen_def nget_def nzoom_def nmodify_def ncheck_def ndr_token_store_def
        ndr_token_retrieve_def token_match_def word_less_nat_alt)
qed


section \<open>Counted blobs round-trip\<close>

lemma push_DATA_BLOB_counted:
  assumes p: "push_ok p" "\<not> has_flag (ps_flags p) LIBNDR_ALIGN_FLAGS" "\<not> has_flag (ps_flags p) LIBNDR_FLAG_REMAINING"
    and len: "length bs < 2 ^ 28"
  shows "push_at (enc_seq (enc32 (of_nat (length bs))) (\<lambda>_ _. bs) (ps_flags p) (unat (ps_offset p)))
     (ndr_push_DATA_BLOB (blob_of bs)) p"
proof -
  let ?n = "of_nat (length bs) :: u32"
  have u: "ucast (of_nat (length bs) :: u64) = ?n" by (simp add: unsigned_of_nat word_unat_eq_iff take_bit_nat_eq_self_iff)
  have n: "unat ?n = length bs" using len by (intro unat_of_nat_small) simp
  have "push_spec (\<lambda>_ _. bs) (ndr_push_bytes (map Some bs @ []) ?n)"
    by (rule push_bytes_spec) (use n len in simp_all)
  then have "push_spec (enc_seq (enc32 ?n) (\<lambda>_ _. bs)) (nthen (ndr_push_uint32 ?n) (ndr_push_bytes (map Some bs) ?n))"
    by (intro push_spec_then push_uint32_spec) simp
  moreover have "ndr_push_DATA_BLOB (blob_of bs) p = nthen (ndr_push_uint32 ?n) (ndr_push_bytes (map Some bs) ?n) p"
    using p(2,3) u by (simp add: ndr_push_DATA_BLOB_def blob_of_def nbind_def nget_def nthen_def nreturn_def
        split: sum.split)
  ultimately show ?thesis using push_specD [OF _ p(1)] by (simp add: push_at_def)
qed

lemma pull_DATA_BLOB_tail:
  assumes "length bs = unat n" "unat n < MAX_TALLOC_SIZE"
  shows "pull_spec (blob_of bs) (\<lambda>_ _. bs) (nthen (NDR_PULL_NEED_BYTES n)
    (nbind (naccess (\<lambda>ndr. data_blob_talloc_named
              (Some (map Some (drop (unat (pl_offset ndr)) (pl_data ndr)))) (ucast n))) (\<lambda>blob.
     nthen (pull_skip n) (nreturn blob))))"
proof (rule pull_raw_spec)
  fix q assume q: "unat (pl_offset q) + unat n \<le> length (pl_data q)"
    "take (unat n) (drop (unat (pl_offset q)) (pl_data q)) = bs"
  have n32: "unat n < 2 ^ LENGTH(32)" by (rule unsigned_less)
  then have "unat (ucast n :: u64) = unat n" by (simp add: unsigned_ucast_eq take_bit_nat_eq_self_iff)
  moreover from this n32 have "(ucast n :: u64) = of_nat (length bs)"
    by (simp add: word_unat_eq_iff assms(1) unat_of_nat_small)
  ultimately
  show "naccess (\<lambda>ndr. data_blob_talloc_named
      (Some (map Some (drop (unat (pl_offset ndr)) (pl_data ndr)))) (ucast n)) q = Inr (blob_of bs, q)"
    using q assms(2) by (auto simp: naccess_def data_blob_talloc_named_def data_blob_named_def
        talloc_memdup_def blob_of_def take_map)
qed (use assms in simp)

lemma pull_DATA_BLOB_counted:
  assumes q: "pull_ok q" "\<not> has_flag (pl_flags q) LIBNDR_ALIGN_FLAGS" "\<not> has_flag (pl_flags q) LIBNDR_FLAG_REMAINING"
    and len: "length bs < MAX_TALLOC_SIZE"
    and pre: "prefix (enc_seq (enc32 (of_nat (length bs))) (\<lambda>_ _. bs) (pl_flags q) (unat (pl_offset q))) (unread q)"
  shows "ndr_pull_DATA_BLOB q = Inr (blob_of bs,
     adv (length (enc_seq (enc32 (of_nat (length bs))) (\<lambda>_ _. bs) (pl_flags q) (unat (pl_offset q)))) q)"
proof -
  let ?n = "of_nat (length bs) :: u32"
  let ?tail = "\<lambda>n. nthen (NDR_PULL_NEED_BYTES n)
    (nbind (naccess (\<lambda>ndr. data_blob_talloc_named
              (Some (map Some (drop (unat (pl_offset ndr)) (pl_data ndr)))) (ucast n))) (\<lambda>blob.
     nthen (pull_skip n) (nreturn blob)))"
  have "unat ?n = length bs" using len by (intro unat_of_nat_small) (simp add: MAX_TALLOC_SIZE_def)
  then have "pull_spec (blob_of bs) (\<lambda>_ _. bs) (?tail ?n)"
    using len by (intro pull_DATA_BLOB_tail) simp_all
  then have "pull_spec (blob_of bs) (enc_seq (enc32 ?n) (\<lambda>_ _. bs)) (nbind ndr_pull_uint32 ?tail)"
    by (rule pull_spec_bind [OF pull_uint32_spec])
  moreover have "ndr_pull_DATA_BLOB q = nbind ndr_pull_uint32 ?tail q"
    using q(2,3) by (simp add: ndr_pull_DATA_BLOB_def nbind_def nget_def)
  ultimately show ?thesis using q(1) pre by (simp add: pull_spec_def)
qed


section \<open>Properties of the engine\<close>

text \<open>A small writing context and the contexts along a relative pointer, for concrete evaluation.\<close>

definition small_push :: ndr_push where
  "small_push = ndr_push_init_ctx\<lparr>ps_data := replicate 32 None, ps_alloc_size := 32\<rparr>"

definition after_push :: "(ndr_push, unit) comp \<Rightarrow> ndr_push \<Rightarrow> ndr_push" where
  "after_push m p = (case m p of Inr (_, p') \<Rightarrow> p' | Inl _ \<Rightarrow> p)"

definition reader_of :: "ndr_push \<Rightarrow> ndr_pull" where
  "reader_of p = ndr_pull_init_blob (fst (ndr_push_blob p))"

lemma push_ok_small:
  "length (ps_data p) = unat (ps_alloc_size p) \<and> ps_alloc_size p < 1000 \<and> ps_offset p < ps_alloc_size p \<and>
   None \<notin> set (take (unat (ps_offset p)) (ps_data p)) \<Longrightarrow> push_ok p"
  by (simp add: push_ok_def MAX_TALLOC_SIZE_def word_less_nat_alt)

lemma pull_ok_small:
  "unat (pl_data_size q) \<le> length (pl_data q) \<and> pl_offset q \<le> pl_data_size q \<and> pl_data_size q < 1000 \<and>
   \<not> has_flag (pl_flags q) LIBNDR_FLAG_PAD_CHECK \<Longrightarrow> pull_ok q"
  by (simp add: pull_ok_def word_less_nat_alt)

lemma small_push_ok: "push_ok small_push"
  by (rule push_ok_small) code_simp

text \<open>C28: a value of any codec, written inside a sub-context with a header of 0, 2 or 4 bytes and a fixed or free
  size, is read back from the sub-context; the reader stops where the writer stopped.\<close>

theorem subcontext_roundtrip:
  assumes "ndr_codec valid push pull enc"
  shows "roundtrips (\<lambda>v. valid v \<and> sub_fits h sz (enc v)) (\<lambda>v. push_subcontext h sz (push v)) (pull_subcontext h sz pull)"
  using ndr_codec.roundtrip [OF ndr_codec_subcontext [OF assms]] .

theorem subcontext_roundtrip_witness:
  "roundtrips (\<lambda>v. True \<and> sub_fits 4 (-1) (enc32 v)) (\<lambda>v. push_subcontext 4 (-1) (ndr_push_uint32 v))
     (pull_subcontext 4 (-1) ndr_pull_uint32)"
  by (rule subcontext_roundtrip [OF c_uint32.ndr_codec_axioms])

text \<open>The context in which a relative pointer to the object 7 was announced, a byte written, and the slot patched.\<close>

definition rel1 :: ndr_push where "rel1 = after_push (ndr_push_relative_ptr1 7) small_push"
definition rel2 :: ndr_push where "rel2 = after_push (ndr_push_uint8 9) rel1"
definition rel3 :: ndr_push where "rel3 = after_push (ndr_push_relative_ptr2 7) rel2"

theorem relative_ptr_resolves_witness:
  "nbind ndr_pull_uint32 (\<lambda>rel. nthen (ndr_pull_relative_ptr1 7 rel) (ndr_pull_relative_ptr2 7)) (reader_of rel3) =
   Inr ((), (reader_of rel3)\<lparr>pl_offset := ps_offset rel2\<rparr>)"
proof (rule relative_ptr_resolves [where p = small_push and a = 7 and ?p1.0 = rel1 and ?p2.0 = rel2 and bs = "[9]"])
  show "push_ok small_push" by (rule small_push_ok)
  show "push_ok rel2" by (rule push_ok_small) code_simp
  show "pull_ok (reader_of rel3)" by (rule pull_ok_small) code_simp
  show "ndr_push_relative_ptr1 7 small_push = Inr ((), rel1)" "ndr_push_relative_ptr2 7 rel2 = Inr ((), rel3)"
    by code_simp+
  show "written rel2 = written rel1 @ [9]" "ps_flags rel2 = ps_flags rel1"
    "tokens_of (ps_relative_list rel2) 7 = tokens_of (ps_relative_list rel1) 7"
    "ps_relative_base_offset rel2 \<le> ps_offset rel2" by code_simp+
  show "pl_flags (reader_of rel3) = ps_flags small_push" "pl_offset (reader_of rel3) = ps_offset small_push"
    "pl_relative_base_offset (reader_of rel3) = ps_relative_base_offset rel2" by code_simp+
  show "prefix (written rel3) (take (unat (pl_data_size (reader_of rel3))) (pl_data (reader_of rel3)))"
    by code_simp
qed simp

text \<open>A counted blob below talloc's limit, written with \<open>ndr_push_DATA_BLOB\<close>, is read back with the same bytes.\<close>

theorem DATA_BLOB_roundtrip:
  assumes "push_ok p" "\<not> has_flag (ps_flags p) LIBNDR_ALIGN_FLAGS" "\<not> has_flag (ps_flags p) LIBNDR_FLAG_REMAINING"
    and "length bs < MAX_TALLOC_SIZE" and "ndr_push_DATA_BLOB (blob_of bs) p = Inr ((), p')"
    and "pull_ok q" "pl_flags q = ps_flags p" "pl_offset q = ps_offset p"
    and "prefix (written p') (take (unat (pl_data_size q)) (pl_data q))"
  shows "ndr_pull_DATA_BLOB q = Inr (blob_of bs, q\<lparr>pl_offset := ps_offset p'\<rparr>)"
proof -
  let ?e = "enc_seq (enc32 (of_nat (length bs))) (\<lambda>_ _. bs) (ps_flags p) (unat (ps_offset p))"
  have app: "pushes ?e p p'"
    using push_DATA_BLOB_counted [OF assms(1-3), of bs] assms(4,5) by (simp add: push_at_def MAX_TALLOC_SIZE_def)
  then have "written p' = written p @ ?e" by (simp add: pushes_def)
  then have pre: "prefix ?e (unread q)"
    using assms(9) length_written [OF assms(1)] by (auto simp: prefix_def unread_def assms(8))
  have "unat (pl_offset q + of_nat (length ?e)) = unat (ps_offset p')"
    using adv_ok(2) [OF assms(6) prefix_length_le [OF pre]] pushes_offset [OF assms(1) app] by (simp add: assms(8))
  then show ?thesis
    using pull_DATA_BLOB_counted [OF assms(6), of bs] assms(2-4,7,8) pre by (simp add: word_unat_eq_iff)
qed

definition blob3 :: ndr_push where "blob3 = after_push (ndr_push_DATA_BLOB (blob_of [1, 2, 3])) small_push"

theorem DATA_BLOB_roundtrip_witness:
  "ndr_pull_DATA_BLOB (reader_of blob3) = Inr (blob_of [1, 2, 3], (reader_of blob3)\<lparr>pl_offset := ps_offset blob3\<rparr>)"
proof (rule DATA_BLOB_roundtrip [where p = small_push])
  show "push_ok small_push" by (rule small_push_ok)
  show "\<not> has_flag (ps_flags small_push) LIBNDR_ALIGN_FLAGS"
    "\<not> has_flag (ps_flags small_push) LIBNDR_FLAG_REMAINING" by code_simp+
  show "length [1, 2, 3 :: u8] < MAX_TALLOC_SIZE" by (simp add: MAX_TALLOC_SIZE_def)
  show "ndr_push_DATA_BLOB (blob_of [1, 2, 3]) small_push = Inr ((), blob3)" by code_simp
  show "pull_ok (reader_of blob3)" by (rule pull_ok_small) code_simp
  show "pl_flags (reader_of blob3) = ps_flags small_push"
    "pl_offset (reader_of blob3) = ps_offset small_push" by code_simp+
  show "prefix (written blob3) (take (unat (pl_data_size (reader_of blob3))) (pl_data (reader_of blob3)))"
    by code_simp
qed

theorem unique_ptr_referents_witness:
  "written (after_push (ndr_push_unique_ptr 5) small_push) = written small_push @ [0, 0, 2, 0]"
proof -
  have "ps_ptr_count small_push = 0"
    "ndr_push_unique_ptr 5 small_push = Inr ((), after_push (ndr_push_unique_ptr 5) small_push)"
    "enc32 (0x20000 + 4 * ps_ptr_count small_push) (ps_flags small_push) (unat (ps_offset small_push))
      = [0, 0, 2, 0]"
    by code_simp+
  then show ?thesis using unique_ptr_referents [of small_push 5, OF _ small_push_ok] by simp
qed

text \<open>After \<open>2\<^sup>1\<^sup>5\<close> unique pointers the referent ids repeat: two different objects get the same id.\<close>

theorem unique_ptr_collision:
  "written (after_push (ndr_push_unique_ptr 5) (small_push\<lparr>ps_ptr_count := 0\<rparr>)) =
   written (after_push (ndr_push_unique_ptr 6) (small_push\<lparr>ps_ptr_count := 0x8000\<rparr>))"
  by code_simp

text \<open>The token of a key is a stack: a retrieve after any number of stores under other keys gives the value stored
  last under the key and uncovers the one before it.\<close>

theorem token_lifo:
  assumes "k \<notin> fst ` set kvs"
  shows "\<exists>l'. ndr_token_retrieve k (fold (\<lambda>(k, v). token_put k v) kvs (token_put k v l)) = Inr (v, l') \<and>
     tokens_of l' k = tokens_of l k"
  using tk.pop_after_others [OF assms, where v = v and l = l] by (auto split: sum.splits)

theorem token_lifo_witness:
  "\<exists>l'. ndr_token_retrieve 1 (fold (\<lambda>(k, v). token_put k v) [(2, 8), (3, 9)] (token_put 1 7 [(1, 6)])) = Inr (7, l') \<and>
     tokens_of l' 1 = tokens_of [(1, 6)] 1"
  by (rule token_lifo) simp




text \<open>Below \<open>2\<^sup>3\<^sup>1\<close> bytes the bounds check passes exactly when the bytes are there, and fails with
  \<open>NT_STATUS_BUFFER_TOO_SMALL\<close> otherwise.\<close>

theorem need_bytes_exact:
  assumes "pull_ok q"
  shows "NDR_PULL_NEED_BYTES n q =
     (if unat (pl_offset q) + unat n \<le> unat (pl_data_size q) then Inr ((), q) else Inl (Status NT_STATUS_BUFFER_TOO_SMALL))"
  using need_bytes_cases [OF assms, of n] length_unread [OF assms] pull_okD(2) [OF assms]
  by (simp split: if_splits)

theorem need_bytes_exact_witness:
  "NDR_PULL_NEED_BYTES 7 (reader_of blob3) = Inr ((), reader_of blob3) \<and>
   NDR_PULL_NEED_BYTES 8 (reader_of blob3) = Inl (Status NT_STATUS_BUFFER_TOO_SMALL)"
proof -
  have "pull_ok (reader_of blob3)" by (rule pull_ok_small) code_simp
  moreover have "pl_offset (reader_of blob3) = 0" "pl_data_size (reader_of blob3) = 7" by code_simp+
  ultimately show ?thesis using need_bytes_exact [of "reader_of blob3"] by simp
qed

text \<open>From \<open>2\<^sup>3\<^sup>1\<close> bytes on the 32-bit sums wrap: the bounds check accepts a read past the end, and
  \<open>ndr_pull_advance\<close> moves backwards without an error.\<close>

theorem offset_sums_wrap:
  "NDR_PULL_NEED_BYTES 0x20 (q\<lparr>pl_data_size := 0xFFFFFFFF, pl_offset := 0xFFFFFFF0\<rparr>) =
     Inr ((), q\<lparr>pl_data_size := 0xFFFFFFFF, pl_offset := 0xFFFFFFF0\<rparr>) \<and>
   unat (0xFFFFFFF0 :: u32) + unat (0x20 :: u32) > unat (0xFFFFFFFF :: u32) \<and>
   ndr_pull_advance 0xFFFFFFFF (q\<lparr>pl_data_size := 8, pl_offset := 4\<rparr>) = Inr ((), q\<lparr>pl_data_size := 8, pl_offset := 3\<rparr>)"
  by (simp add: NDR_PULL_NEED_BYTES_def ndr_pull_advance_def comp_defs)

text \<open>With the padding check switched on, aligning at the end of a message reads past the buffer.\<close>

theorem padding_check_overreads:
  "NDR_PULL_ALIGN 4 ((reader_of small_push)\<lparr>pl_flags := LIBNDR_FLAG_PAD_CHECK, pl_data := [0], pl_data_size := 1, pl_offset := 1\<rparr>)
   = Inl Fault"
  by code_simp

subsection \<open>Flags\<close>

lemma has_flag_bit: "has_flag f (push_bit k 1) \<longleftrightarrow> bit f k"
  by (simp add: push_bit_of_1 and_exp_eq_0_iff_not_bit)

lemma flag_bits:
  "has_flag f LIBNDR_FLAG_BIGENDIAN \<longleftrightarrow> bit f 0" "has_flag f LIBNDR_FLAG_LITTLE_ENDIAN \<longleftrightarrow> bit f 27"
  "has_flag f LIBNDR_FLAG_REMAINING \<longleftrightarrow> bit f 21"
  "has_flag f LIBNDR_ALIGN_FLAGS \<longleftrightarrow> bit f 22 \<or> bit f 23 \<or> bit f 24"
  unfolding ndr_flag_defs by (simp_all only: has_flag_bit bit.conj_disj_distrib or_eq_0_iff de_Morgan_conj)

lemma NDR_BE_bits: "NDR_BE f \<longleftrightarrow> bit f 0 \<and> \<not> bit f 27"
proof -
  define m :: u32 where "m = push_bit 0 1 OR push_bit 27 1"
  have m: "bit m n \<longleftrightarrow> n = 0 \<or> n = 27" for n
    unfolding m_def bit_or_iff bit_push_bit_iff bit_1_iff by (auto simp: possible_bit_word)
  have "f AND m = 1 \<longleftrightarrow> bit f 0 \<and> \<not> bit f 27"
  proof
    assume eq: "f AND m = 1"
    have "bit (f AND m) 0 \<longleftrightarrow> True" "bit (f AND m) 27 \<longleftrightarrow> False" unfolding eq by (simp_all add: bit_1_iff)
    then show "bit f 0 \<and> \<not> bit f 27" unfolding bit_and_iff m by simp
  next
    assume "bit f 0 \<and> \<not> bit f 27"
    then show "f AND m = 1" by (intro bit_word_eqI) (auto simp: bit_and_iff m bit_1_iff)
  qed
  then show ?thesis
    unfolding NDR_BE_def LIBNDR_FLAG_BIGENDIAN_def LIBNDR_FLAG_LITTLE_ENDIAN_def m_def by simp
qed

lemma set_flags_bit:
  "bit (ndr_set_flags f n) k \<longleftrightarrow> bit n k \<or> bit f k \<and>
     \<not> (bit n 27 \<and> bit LIBNDR_FLAG_BIGENDIAN k) \<and> \<not> (bit n 0 \<and> bit LIBNDR_FLAG_LITTLE_ENDIAN k) \<and>
     \<not> (bit n 21 \<and> bit LIBNDR_ALIGN_FLAGS k) \<and> \<not> ((bit n 22 \<or> bit n 23 \<or> bit n 24) \<and> bit LIBNDR_FLAG_REMAINING k)"
  unfolding ndr_set_flags_def Let_def flag_bits
  by (auto simp: bit_or_iff bit_and_iff bit_not_iff possible_bit_word dest: bit_imp_le_length)

text \<open>New flags override the old ones: the byte order of the new flags wins, and a request for the remaining
  bytes and one for alignment padding cancel each other.\<close>

theorem ndr_set_flags_override:
  "NDR_BE (ndr_set_flags f n) =
     (if has_flag n LIBNDR_FLAG_LITTLE_ENDIAN then False
      else if has_flag n LIBNDR_FLAG_BIGENDIAN then True else NDR_BE f) \<and>
   has_flag (ndr_set_flags f n) LIBNDR_FLAG_REMAINING =
     (if has_flag n LIBNDR_FLAG_REMAINING then True
      else if has_flag n LIBNDR_ALIGN_FLAGS then False else has_flag f LIBNDR_FLAG_REMAINING) \<and>
   has_flag (ndr_set_flags f n) LIBNDR_ALIGN_FLAGS =
     (if has_flag n LIBNDR_ALIGN_FLAGS then True
      else if has_flag n LIBNDR_FLAG_REMAINING then False else has_flag f LIBNDR_ALIGN_FLAGS)"
proof -
  have b: "bit LIBNDR_FLAG_BIGENDIAN k \<longleftrightarrow> k = 0" "bit LIBNDR_FLAG_LITTLE_ENDIAN k \<longleftrightarrow> k = 27"
    "bit LIBNDR_FLAG_REMAINING k \<longleftrightarrow> k = 21" "bit LIBNDR_ALIGN_FLAGS k \<longleftrightarrow> k \<in> {22, 23, 24}" for k
    unfolding ndr_flag_defs bit_or_iff bit_push_bit_iff bit_1_iff by (auto simp: possible_bit_word)
  show ?thesis unfolding NDR_BE_bits flag_bits set_flags_bit b by auto
qed

end
