(* ===== verification/DomSid.thy ===== *)
theory DomSid
  imports DataBlob
begin

text \<open>
  Security identifiers: \<open>libcli/security/dom_sid.c\<close>.  A \<open>struct dom_sid\<close> is a record whose
  \<open>num_auths\<close> is a signed 8-bit number that is separate from the array \<open>sub_auths\<close>, as in C; a
  pointer is an option.  The value \<open>None\<close> of a function is an access outside an array.

  The lemmas relate a well-formed structure to the identifier it stands for (\<open>sid_val\<close>): comparison
  decides equality of identifiers, adding and splitting off a relative identifier are inverse, and
  printing and parsing round-trip.
\<close>

section \<open>Strings and numbers of the C library\<close>

definition fetch :: "'a list \<Rightarrow> nat \<Rightarrow> 'a option" where
  "fetch xs i = (if i < length xs then Some (xs ! i) else None)"

lemma fetch_Some [simp]: "i < length xs \<Longrightarrow> fetch xs i = Some (xs ! i)"
  by (simp add: fetch_def)

definition digit_char :: "nat \<Rightarrow> char" where
  "digit_char d = char_of (48 + d)"

definition is_digit :: "char \<Rightarrow> bool" where
  "is_digit c \<longleftrightarrow> 48 \<le> (of_char c :: nat) \<and> (of_char c :: nat) \<le> 57"

definition digit_val :: "char \<Rightarrow> nat" where
  "digit_val c = of_char c - 48"

text \<open>The conversion \<open>%u\<close> and \<open>%lu\<close> of \<open>printf\<close>.\<close>

fun dec :: "nat \<Rightarrow> string" where
  "dec n = (if n < 10 then [digit_char n] else dec (n div 10) @ [digit_char (n mod 10)])"

declare dec.simps [simp del]

fun skip_space :: "string \<Rightarrow> string" where
  "skip_space (c # cs) =
     (if c = CHR '' '' \<or> (9 \<le> (of_char c :: nat) \<and> (of_char c :: nat) \<le> 13) then skip_space cs else c # cs)"
| "skip_space [] = []"

fun read_digits :: "nat \<Rightarrow> string \<Rightarrow> nat \<times> string" where
  "read_digits acc (c # cs) =
     (if is_digit c then read_digits (10 * acc + digit_val c) cs else (acc, c # cs))"
| "read_digits acc [] = (acc, [])"

text \<open>
  \<open>strtol\<close> and \<open>strtoul\<close> in base 10 for a 64-bit \<open>long\<close>: leading white space, an optional sign,
  digits; the value saturates, and without digits the rest is the whole string.
\<close>

definition read_sign :: "string \<Rightarrow> bool \<times> string" where
  "read_sign s = (case s of c # cs \<Rightarrow> if c = CHR ''-'' then (True, cs) else if c = CHR ''+'' then (False, cs)
                                     else (False, s)
                           | [] \<Rightarrow> (False, s))"

definition starts_digit :: "string \<Rightarrow> bool" where
  "starts_digit s = (case s of c # _ \<Rightarrow> is_digit c | [] \<Rightarrow> False)"

definition strtol :: "string \<Rightarrow> int \<times> string" where
  "strtol s =
     (let (neg, t) = read_sign (skip_space s)
      in if \<not> starts_digit t then (0, s)
         else let (n, rest) = read_digits 0 t
              in (if neg then max (- (2 ^ 63)) (- int n) else min (2 ^ 63 - 1) (int n), rest))"

definition strtoul :: "string \<Rightarrow> u64 \<times> string" where
  "strtoul s =
     (let (neg, t) = read_sign (skip_space s)
      in if \<not> starts_digit t then (0, s)
         else let (n, rest) = read_digits 0 t
              in (if n \<ge> 2 ^ 64 then - 1 else if neg then - of_nat n else of_nat n, rest))"

section \<open>Identifiers\<close>

record dom_sid =
  sid_rev_num :: u8
  num_auths :: u8
  id_auth :: "u8 list"
  sub_auths :: "u32 list"

fun cmp_bytes :: "u8 list \<Rightarrow> u8 list \<Rightarrow> nat \<Rightarrow> nat \<Rightarrow> int option" where
  "cmp_bytes xs ys i 0 = Some 0"
| "cmp_bytes xs ys i (Suc k) =
     do { a \<leftarrow> fetch xs i; b \<leftarrow> fetch ys i;
          if a \<noteq> b then Some (uint a - uint b) else cmp_bytes xs ys (Suc i) k }"

text \<open>
  Pointers are compared by content: equal pointers have equal contents, for which the comparison
  gives 0 too.
\<close>

definition dom_sid_compare_auth :: "dom_sid option \<Rightarrow> dom_sid option \<Rightarrow> int option" where
  "dom_sid_compare_auth sid1 sid2 =
     (case (sid1, sid2) of
        (None, None) \<Rightarrow> Some 0
      | (None, Some _) \<Rightarrow> Some (- 1)
      | (Some _, None) \<Rightarrow> Some 1
      | (Some s1, Some s2) \<Rightarrow>
          if sid_rev_num s1 \<noteq> sid_rev_num s2 then Some (uint (sid_rev_num s1) - uint (sid_rev_num s2))
          else cmp_bytes (id_auth s1) (id_auth s2) 0 6)"

text \<open>The loop from the last sub-authority down; the difference of two \<open>uint32_t\<close> is returned as \<open>int\<close>.\<close>

fun cmp_auths_down :: "u32 list \<Rightarrow> u32 list \<Rightarrow> nat \<Rightarrow> int option" where
  "cmp_auths_down xs ys 0 = Some 0"
| "cmp_auths_down xs ys (Suc i) =
     do { a \<leftarrow> fetch xs i; b \<leftarrow> fetch ys i;
          if a \<noteq> b then Some (sint (a - b)) else cmp_auths_down xs ys i }"

abbreviation auths :: "dom_sid \<Rightarrow> nat" where
  "auths s \<equiv> nat (sint (num_auths s))"

definition dom_sid_compare :: "dom_sid option \<Rightarrow> dom_sid option \<Rightarrow> int option" where
  "dom_sid_compare sid1 sid2 =
     (case (sid1, sid2) of
        (None, None) \<Rightarrow> Some 0
      | (None, Some _) \<Rightarrow> Some (- 1)
      | (Some _, None) \<Rightarrow> Some 1
      | (Some s1, Some s2) \<Rightarrow>
          if num_auths s1 \<noteq> num_auths s2 then Some (sint (num_auths s1) - sint (num_auths s2))
          else do { c \<leftarrow> cmp_auths_down (sub_auths s1) (sub_auths s2) (auths s1);
                    if c \<noteq> 0 then Some c else dom_sid_compare_auth sid1 sid2 })"

definition dom_sid_equal :: "dom_sid option \<Rightarrow> dom_sid option \<Rightarrow> bool option" where
  "dom_sid_equal sid1 sid2 = map_option (\<lambda>c. c = 0) (dom_sid_compare sid1 sid2)"

fun parse_auths :: "nat \<Rightarrow> string \<Rightarrow> u32 list option" where
  "parse_auths 0 s = Some []"
| "parse_auths (Suc k) s =
     (case s of
        c # cs \<Rightarrow>
          if c \<noteq> CHR ''-'' then None
          else let (v, p) = strtoul cs
               in if p = cs then None
                  else do { vs \<leftarrow> parse_auths k p; Some (ucast v # vs) }
      | [] \<Rightarrow> None)"

definition dom_sid_parse_talloc :: "string \<Rightarrow> dom_sid option" where
  "dom_sid_parse_talloc sidstr =
     (case sidstr of
        c # d # sidstr \<Rightarrow>
          if c \<noteq> CHR ''S'' \<and> c \<noteq> CHR ''s'' \<or> d \<noteq> CHR ''-'' then None
          else let (rev, p) = strtol sidstr
               in (case p of
                     e # sidstr \<Rightarrow>
                       if e \<noteq> CHR ''-'' then None
                       else let (ia, p) = strtol sidstr;
                                ia = (word_of_int ia :: u32)
                            in if p = sidstr then None
                               else let num_sub_auths = length (filter (\<lambda>c. c = CHR ''-'') p)
                                    in if MAX_TALLOC_SIZE div 4 \<le> num_sub_auths then None
                                       else do { subs \<leftarrow> parse_auths num_sub_auths p;
                                            Some \<lparr>sid_rev_num = word_of_int rev,
                                                  num_auths = of_nat num_sub_auths,
                                                  id_auth = [0, 0, ucast (drop_bit 24 ia), ucast (drop_bit 16 ia),
                                                             ucast (drop_bit 8 ia), ucast ia],
                                                  sub_auths = subs\<rparr> }
                   | [] \<Rightarrow> None)
      | _ \<Rightarrow> None)"

text \<open>
  The count passed to \<open>talloc_array\<close> is \<open>num_auths\<close> converted to \<open>unsigned\<close>: a negative one is refused.
\<close>

definition dom_sid_dup :: "dom_sid option \<Rightarrow> dom_sid option option" where
  "dom_sid_dup sid =
     (case sid of
        None \<Rightarrow> Some None
      | Some s \<Rightarrow>
          if sint (num_auths s) < 0 then Some None
          else if 6 \<le> length (id_auth s) \<and> auths s \<le> length (sub_auths s)
          then Some (Some (s\<lparr>id_auth := take 6 (id_auth s), sub_auths := take (auths s) (sub_auths s)\<rparr>))
          else None)"

definition dom_sid_add_rid :: "dom_sid \<Rightarrow> u32 \<Rightarrow> dom_sid option option" where
  "dom_sid_add_rid domain_sid rid =
     (if sint (num_auths domain_sid) + 1 < 0 then Some None
      else if sint (num_auths domain_sid) < 0 \<or> auths domain_sid > length (sub_auths domain_sid) then None
      else Some (Some (domain_sid\<lparr>sub_auths := take (auths domain_sid) (sub_auths domain_sid) @ [rid],
                                  num_auths := num_auths domain_sid + 1\<rparr>)))"

definition dom_sid_split_rid :: "dom_sid \<Rightarrow> failure + dom_sid \<times> u32" where
  "dom_sid_split_rid sid =
     (if num_auths sid = 0 then Inl (Status NT_STATUS_INVALID_PARAMETER)
      else case dom_sid_dup (Some sid) of
             None \<Rightarrow> Inl Fault
           | Some None \<Rightarrow> Inl (Status NT_STATUS_NO_MEMORY)
           | Some (Some d) \<Rightarrow>
               let d = d\<lparr>num_auths := num_auths d - 1\<rparr>
               in case fetch (sub_auths d) (auths d) of
                    None \<Rightarrow> Inl Fault
                  | Some rid \<Rightarrow> Inr (d, rid))"

definition dom_sid_in_domain :: "dom_sid option \<Rightarrow> dom_sid option \<Rightarrow> bool option" where
  "dom_sid_in_domain domain_sid sid =
     (case (domain_sid, sid) of
        (Some d, Some s) \<Rightarrow>
          if sint (num_auths d) > sint (num_auths s) then Some False
          else do { c \<leftarrow> cmp_auths_down (sub_auths d) (sub_auths s) (auths d);
                    if c \<noteq> 0 then Some False
                    else map_option (\<lambda>c. c = 0) (dom_sid_compare_auth domain_sid sid) }
      | _ \<Rightarrow> Some False)"

definition sid_ia :: "u8 list \<Rightarrow> u32" where
  "sid_ia a = ucast (a ! 5) + push_bit 8 (ucast (a ! 4)) + push_bit 16 (ucast (a ! 3)) + push_bit 24 (ucast (a ! 2))"

text \<open>
  The pieces are written with \<open>snprintf\<close> into a buffer of \<open>maxlen\<close> bytes; \<open>sid_text\<close> is the text
  without the limit, and \<open>dom_sid_string\<close> cuts it there.  The size is at most \<open>127 * 11 + 25\<close>; a
  negative one is a huge \<open>size_t\<close>, which talloc refuses.
\<close>

definition sid_text :: "dom_sid \<Rightarrow> string" where
  "sid_text s = ''S-'' @ dec (unat (sid_rev_num s)) @ ''-'' @ dec (unat (sid_ia (id_auth s))) @
     concat (map (\<lambda>v. ''-'' @ dec (unat v)) (take (auths s) (sub_auths s)))"

definition dom_sid_string :: "dom_sid option \<Rightarrow> string option" where
  "dom_sid_string sid =
     (case sid of
        None \<Rightarrow> Some ''(NULL SID)''
      | Some s \<Rightarrow>
          let maxlen = nat (sint (num_auths s) * 11 + 25)
          in if sint (num_auths s) * 11 + 25 < 0 then Some ''(SID ERR)''
             else if 6 \<le> length (id_auth s) \<and> auths s \<le> length (sub_auths s)
             then Some (take (maxlen - 1) (sid_text s))
             else None)"


section \<open>What an identifier stands for\<close>

definition sid_ok :: "dom_sid \<Rightarrow> bool" where
  "sid_ok s \<longleftrightarrow> length (id_auth s) = 6 \<and> 0 \<le> sint (num_auths s) \<and> auths s \<le> length (sub_auths s)"

definition sid_val :: "dom_sid \<Rightarrow> u8 \<times> u8 list \<times> u32 list" where
  "sid_val s = (sid_rev_num s, id_auth s, take (auths s) (sub_auths s))"

lemma cmp_bytes_eq:
  assumes "i + k \<le> length xs" "i + k \<le> length ys"
  shows "\<exists>c. cmp_bytes xs ys i k = Some c \<and> (c = 0 \<longleftrightarrow> take k (drop i xs) = take k (drop i ys))"
  using assms
proof (induction k arbitrary: i)
  case (Suc k)
  then have "drop i xs = xs ! i # drop (Suc i) xs" "drop i ys = ys ! i # drop (Suc i) ys"
    by (simp_all add: Cons_nth_drop_Suc)
  then show ?case using Suc by (auto simp: unsigned_word_eqI word_uint_eq_iff)
qed simp

lemma cmp_auths_down_eq:
  assumes "k \<le> length xs" "k \<le> length ys"
  shows "\<exists>c. cmp_auths_down xs ys k = Some c \<and> (c = 0 \<longleftrightarrow> take k xs = take k ys)"
  using assms
proof (induction k)
  case (Suc k)
  have "sint (xs ! k - ys ! k) = 0 \<longleftrightarrow> xs ! k = ys ! k"
    by (metis eq_iff_diff_eq_0 signed_0 signed_word_eqI)
  then show ?case using Suc by (auto simp: take_Suc_conv_app_nth)
qed simp

lemma compare_auth_eq:
  assumes "length (id_auth a) = 6" "length (id_auth b) = 6"
  shows "\<exists>c. dom_sid_compare_auth (Some a) (Some b) = Some c \<and>
     (c = 0 \<longleftrightarrow> sid_rev_num a = sid_rev_num b \<and> id_auth a = id_auth b)"
  using cmp_bytes_eq [of 0 6 "id_auth a" "id_auth b"] assms
  by (auto simp: dom_sid_compare_auth_def word_uint_eq_iff)

lemma auths_eq_iff:
  assumes "0 \<le> sint (num_auths a)" "0 \<le> sint (num_auths b)"
  shows "num_auths a = num_auths b \<longleftrightarrow> auths a = auths b"
  using assms by (metis eq_nat_nat_iff signed_word_eqI)

lemma dom_sid_equal_ok:
  assumes "sid_ok a" "sid_ok b"
  shows "dom_sid_equal (Some a) (Some b) = Some (sid_val a = sid_val b)"
proof -
  note a = assms(1) [unfolded sid_ok_def] and b = assms(2) [unfolded sid_ok_def]
  obtain c where c: "dom_sid_compare_auth (Some a) (Some b) = Some c"
    "c = 0 \<longleftrightarrow> sid_rev_num a = sid_rev_num b \<and> id_auth a = id_auth b"
    using compare_auth_eq a b by blast
  show ?thesis
  proof (cases "num_auths a = num_auths b")
    case True
    then obtain d where "cmp_auths_down (sub_auths a) (sub_auths b) (auths a) = Some d"
      "d = 0 \<longleftrightarrow> take (auths a) (sub_auths a) = take (auths b) (sub_auths b)"
      using cmp_auths_down_eq [of "auths a" "sub_auths a" "sub_auths b"] a b by auto
    then show ?thesis using True c by (auto simp: dom_sid_equal_def dom_sid_compare_def sid_val_def)
  next
    case False
    then have "auths a \<noteq> auths b" using auths_eq_iff a b by blast
    moreover have "length (take (auths a) (sub_auths a)) = auths a"
      "length (take (auths b) (sub_auths b)) = auths b" using a b by simp_all
    ultimately have "sid_val a \<noteq> sid_val b" by (metis prod.inject sid_val_def)
    moreover have "sint (num_auths a) \<noteq> sint (num_auths b)" using False signed_word_eqI by blast
    ultimately show ?thesis using False by (simp add: dom_sid_equal_def dom_sid_compare_def)
  qed
qed

lemma sint8_bounds: "- 128 \<le> sint (x :: u8)" "sint (x :: u8) \<le> 127"
  using sint_greater_eq [of x] sint_less [of x] by simp_all

lemma sint8_add_1: "sint (x :: u8) < 127 \<Longrightarrow> sint (x + 1) = sint x + 1"
  using sint8_bounds [of x] by (simp add: sint_word_add signed_take_bit_int_eq_self)

lemma sint8_sub_1: "- 128 < sint (x :: u8) \<Longrightarrow> sint (x - 1) = sint x - 1"
  using sint8_bounds [of x] by (simp add: sint_word_diff signed_take_bit_int_eq_self)

lemma dom_sid_add_rid_ok:
  assumes "sid_ok d" "sint (num_auths d) < 127"
  shows "\<exists>s. dom_sid_add_rid d rid = Some (Some s) \<and> sid_ok s \<and> auths s = Suc (auths d) \<and>
     sid_val s = (sid_rev_num d, id_auth d, take (auths d) (sub_auths d) @ [rid])"
  using assms sint8_add_1 [OF assms(2)]
  by (auto simp: dom_sid_add_rid_def sid_ok_def sid_val_def nat_add_distrib min_absorb2)

lemma dom_sid_split_rid_ok:
  assumes "sid_ok s" "num_auths s \<noteq> 0"
  shows "\<exists>d rid. dom_sid_split_rid s = Inr (d, rid) \<and> sid_ok d \<and>
     sid_val s = (sid_rev_num d, id_auth d, take (auths d) (sub_auths d) @ [rid]) \<and>
     sid_val d = (sid_rev_num s, id_auth s, butlast (take (auths s) (sub_auths s)))"
proof -
  note s = assms(1) [unfolded sid_ok_def]
  have "sint (num_auths s) \<noteq> 0" using assms(2) by (metis signed_0 signed_word_eqI)
  then have pos: "0 < sint (num_auths s)" using s by simp
  define n where "n = nat (sint (num_auths s - 1))"
  have n: "auths s = Suc n" "sint (num_auths s - 1) = int n"
    using sint8_sub_1 [of "num_auths s"] pos by (simp_all add: n_def)
  then have "n < length (sub_auths s)" using s by simp
  then have "take (Suc n) (sub_auths s) = take n (sub_auths s) @ [sub_auths s ! n]"
    by (simp add: take_Suc_conv_app_nth)
  then show ?thesis
    using assms(2) s n
    by (simp add: dom_sid_split_rid_def dom_sid_dup_def sid_ok_def sid_val_def Let_def min_def nth_append)
qed

lemma in_domain_ok:
  assumes "sid_ok d" "sid_ok s"
  shows "dom_sid_in_domain (Some d) (Some s) =
     Some (sid_rev_num d = sid_rev_num s \<and> id_auth d = id_auth s \<and> auths d \<le> auths s \<and>
           take (auths d) (sub_auths d) = take (auths d) (sub_auths s))"
proof (cases "auths d \<le> auths s")
  case True
  note d = assms(1) [unfolded sid_ok_def] and s = assms(2) [unfolded sid_ok_def]
  obtain c where "dom_sid_compare_auth (Some d) (Some s) = Some c"
    "c = 0 \<longleftrightarrow> sid_rev_num d = sid_rev_num s \<and> id_auth d = id_auth s"
    using compare_auth_eq d s by blast
  moreover obtain e where "cmp_auths_down (sub_auths d) (sub_auths s) (auths d) = Some e"
    "e = 0 \<longleftrightarrow> take (auths d) (sub_auths d) = take (auths d) (sub_auths s)"
    using cmp_auths_down_eq [of "auths d" "sub_auths d" "sub_auths s"] d s True by auto
  ultimately show ?thesis
    using True d s by (auto simp: dom_sid_in_domain_def)
next
  case False
  then have "sint (num_auths s) < sint (num_auths d)" by simp
  then show ?thesis using False by (simp add: dom_sid_in_domain_def)
qed

section \<open>Printing and parsing\<close>

lemma digit_char_props:
  assumes "d < 10" shows "is_digit (digit_char d) \<and> digit_val (digit_char d) = d"
proof -
  have "(of_char (digit_char d) :: nat) = 48 + d" using assms by (simp add: digit_char_def)
  then show ?thesis using assms by (simp add: is_digit_def digit_val_def)
qed

lemma read_digits_dec:
  "read_digits acc (dec n @ rest) = read_digits (acc * 10 ^ length (dec n) + n) rest"
proof (induction n arbitrary: acc rest rule: dec.induct)
  case (1 n)
  show ?case
  proof (cases "n < 10")
    case True
    then show ?thesis using digit_char_props [OF True] by (simp add: dec.simps [of n] mult.commute)
  next
    case False
    let ?d = "digit_char (n mod 10)"
    have d: "is_digit ?d" "digit_val ?d = n mod 10" using digit_char_props [of "n mod 10"] by simp_all
    have "10 * (acc * 10 ^ length (dec (n div 10)) + n div 10) + n mod 10 = acc * 10 ^ length (dec n) + n"
      using False by (simp add: dec.simps [of n] algebra_simps)
    then show ?thesis using 1 [OF False, of acc "?d # rest"] d False by (simp add: dec.simps [of n] ac_simps)
  qed
qed

lemma dec_digits: "list_all is_digit (dec n) \<and> dec n \<noteq> []"
proof (induction n rule: dec.induct)
  case (1 n)
  then show ?case using digit_char_props [of n] digit_char_props [of "n mod 10"]
    by (cases "n < 10") (simp_all add: dec.simps [of n])
qed

lemma is_digit_not_sign: "is_digit c \<Longrightarrow> c \<noteq> CHR ''-'' \<and> c \<noteq> CHR ''+'' \<and> \<not> (c = CHR '' '' \<or> (9 \<le> (of_char c :: nat) \<and> (of_char c :: nat) \<le> 13))"
  by (auto simp: is_digit_def)

lemma number_prefix:
  "skip_space (dec n @ rest) = dec n @ rest" "read_sign (dec n @ rest) = (False, dec n @ rest)"
  "starts_digit (dec n @ rest)"
proof -
  obtain c cs where c: "dec n = c # cs" "is_digit c" using dec_digits [of n] by (cases "dec n") auto
  then show "skip_space (dec n @ rest) = dec n @ rest" "read_sign (dec n @ rest) = (False, dec n @ rest)"
    "starts_digit (dec n @ rest)"
    using is_digit_not_sign [of c] by (auto simp: read_sign_def starts_digit_def)
qed

lemma strtol_dec:
  assumes "\<not> starts_digit rest" "n < 2 ^ 63" shows "strtol (dec n @ rest) = (int n, rest)"
proof -
  have "read_digits n rest = (n, rest)"
    using assms(1) by (auto simp: starts_digit_def split: list.splits)
  then show ?thesis using assms(2) by (simp add: strtol_def number_prefix read_digits_dec)
qed

lemma strtoul_dec:
  assumes "\<not> starts_digit rest" "n < 2 ^ 64" shows "strtoul (dec n @ rest) = (of_nat n, rest)"
proof -
  have "read_digits n rest = (n, rest)"
    using assms(1) by (auto simp: starts_digit_def split: list.splits)
  then show ?thesis using assms(2) by (simp add: strtoul_def number_prefix read_digits_dec)
qed

abbreviation auths_text :: "u32 list \<Rightarrow> string" where
  "auths_text vs \<equiv> concat (map (\<lambda>v. CHR ''-'' # dec (unat v)) vs)"

lemma auths_text_no_digit: "\<not> starts_digit (auths_text vs)"
  by (cases vs) (auto simp: starts_digit_def is_digit_def)

lemma dec_no_dash: "filter (\<lambda>c. c = CHR ''-'') (dec n) = []"
  using dec_digits [of n] is_digit_not_sign by (auto simp: filter_empty_conv list_all_iff)

lemma auths_text_dashes: "length (filter (\<lambda>c. c = CHR ''-'') (auths_text vs)) = length vs"
  by (induction vs) (simp_all add: dec_no_dash)

lemma parse_auths_text: "parse_auths (length vs) (auths_text vs) = Some vs"
proof (induction vs)
  case (Cons v vs)
  have "unat v < 2 ^ 64" using unsigned_less [of v, where 'a = nat] by simp
  then have st: "strtoul (dec (unat v) @ auths_text vs) = (of_nat (unat v), auths_text vs)"
    by (rule strtoul_dec [OF auths_text_no_digit])
  have "ucast (ucast v :: u64) = v" by (rule bit_word_eqI) (auto simp: bit_simps)
  then show ?case
    using Cons st dec_digits [of "unat v"] by simp
qed simp


lemma not_bit_beyond: "8 \<le> n \<Longrightarrow> \<not> bit (b :: u8) n"
  using bit_imp_le_length by fastforce

lemma sid_ia_bytes:
  assumes "length a = 6"
  shows "[ucast (drop_bit 24 (sid_ia a)), ucast (drop_bit 16 (sid_ia a)), ucast (drop_bit 8 (sid_ia a)), ucast (sid_ia a)]
     = (drop 2 a :: u8 list)"
proof -
  obtain b2 b3 b4 b5 b0 b1 where a: "a = [b0, b1, b2, b3, b4, b5]"
    using assms by (auto simp: numeral_eq_Suc length_Suc_conv)
  let ?w = "\<lambda>b k. push_bit k (ucast (b :: u8)) :: u32"
  have 1: "ucast b5 + ?w b4 8 = ucast b5 OR ?w b4 8"
    by (rule disjunctive_add) (auto simp: bit_simps dest: bit_imp_le_length)
  have 2: "(ucast b5 OR ?w b4 8) + ?w b3 16 = ucast b5 OR ?w b4 8 OR ?w b3 16"
    by (subst disjunctive_add) (auto simp: bit_simps or.assoc dest: bit_imp_le_length)
  have 3: "(ucast b5 OR ?w b4 8 OR ?w b3 16) + ?w b2 24 = ucast b5 OR ?w b4 8 OR ?w b3 16 OR ?w b2 24"
    by (subst disjunctive_add) (auto simp: bit_simps or.assoc dest: bit_imp_le_length)
  have "sid_ia a = ucast b5 OR ?w b4 8 OR ?w b3 16 OR ?w b2 24"
    by (simp only: sid_ia_def a nth_Cons_numeral nth_Cons_0 diff_numeral_simps) (simp add: 1 2 3)
  then show ?thesis
    unfolding a by (auto intro!: bit_word_eqI simp: bit_simps not_bit_beyond)
qed


lemma sid_text_parse:
  assumes "sid_ok s" "take 2 (id_auth s) = [0, 0]" "length (sub_auths s) = auths s"
  shows "dom_sid_parse_talloc (sid_text s) = Some s"
proof -
  note s = assms(1) [unfolded sid_ok_def]
  let ?ia = "sid_ia (id_auth s)" and ?t = "auths_text (sub_auths s)"
  have st: "sid_text s = CHR ''S'' # CHR ''-'' # dec (unat (sid_rev_num s)) @ CHR ''-'' # dec (unat ?ia) @ ?t"
    using assms(3) by (simp add: sid_text_def)
  have n: "auths s \<le> 127" using sint8_bounds(2) [of "num_auths s"] by simp
  have rev: "strtol (dec (unat (sid_rev_num s)) @ CHR ''-'' # dec (unat ?ia) @ ?t)
      = (int (unat (sid_rev_num s)), CHR ''-'' # dec (unat ?ia) @ ?t)"
    using unsigned_less [of "sid_rev_num s", where 'a = nat]
    by (intro strtol_dec) (simp_all add: starts_digit_def is_digit_def)
  have ia: "strtol (dec (unat ?ia) @ ?t) = (int (unat ?ia), ?t)"
    using unsigned_less [of ?ia, where 'a = nat] by (intro strtol_dec auths_text_no_digit) simp
  have "?t \<noteq> dec (unat ?ia) @ ?t" using dec_digits [of "unat ?ia"] by simp
  moreover have "(of_nat (auths s) :: u8) = num_auths s"
    using s by (simp add: of_nat_nat)
  moreover have "[0, 0] @ drop 2 (id_auth s) = id_auth s" using assms(2) by (metis append_take_drop_id)
  ultimately show ?thesis
    using rev ia sid_ia_bytes [of "id_auth s"] s assms(3) n parse_auths_text [of "sub_auths s"]
    by (simp add: dom_sid_parse_talloc_def st auths_text_dashes MAX_TALLOC_SIZE_def)
qed


lemma length_dec: "n < 10 ^ Suc k \<Longrightarrow> length (dec n) \<le> Suc k"
proof (induction k arbitrary: n)
  case (Suc k)
  then show ?case by (cases "n < 10") (simp_all add: dec.simps [of n])
qed (simp add: dec.simps)

lemma length_auths_text: "length (auths_text vs) \<le> 11 * length vs"
proof (induction vs)
  case (Cons v vs)
  have "length (dec (unat v)) \<le> Suc 9"
    using unsigned_less [of v, where 'a = nat] by (intro length_dec) simp
  then show ?case using Cons by simp
qed simp

lemma dom_sid_string_fits:
  assumes "sid_ok s" shows "dom_sid_string (Some s) = Some (sid_text s)"
proof -
  note s = assms [unfolded sid_ok_def]
  have "length (dec (unat (sid_rev_num s))) \<le> Suc 2" "length (dec (unat (sid_ia (id_auth s)))) \<le> Suc 9"
    using unsigned_less [of "sid_rev_num s", where 'a = nat] unsigned_less [of "sid_ia (id_auth s)", where 'a = nat]
    by (intro length_dec; simp)+
  moreover have "length (auths_text (take (auths s) (sub_auths s))) \<le> 11 * auths s"
    using length_auths_text [of "take (auths s) (sub_auths s)"] s by simp
  ultimately have "length (sid_text s) \<le> auths s * 11 + 16" by (simp add: sid_text_def)
  moreover have "nat (sint (num_auths s) * 11 + 25) = auths s * 11 + 25"
    using s by (simp add: nat_add_distrib nat_mult_distrib)
  ultimately show ?thesis using s by (simp add: dom_sid_string_def)
qed

section \<open>Properties\<close>


definition sid_admins :: dom_sid where
  "sid_admins = \<lparr>sid_rev_num = 1, num_auths = 2, id_auth = [0, 0, 0, 0, 0, 5], sub_auths = [32, 544]\<rparr>"


text \<open>C32: on well-formed identifiers \<open>dom_sid_equal\<close> decides equality of revision, authority and sub-authorities, and never
  reads outside the arrays.\<close>

theorem dom_sid_equal_exact:
  assumes "sid_ok a" "sid_ok b"
  shows "dom_sid_equal (Some a) (Some b) = Some (sid_val a = sid_val b)"
  using assms by (rule dom_sid_equal_ok)

theorem dom_sid_equal_exact_witness:
  "dom_sid_equal (Some sid_admins) (Some (sid_admins\<lparr>sub_auths := [32, 545]\<rparr>)) = Some False"
  using dom_sid_equal_exact [of sid_admins "sid_admins\<lparr>sub_auths := [32, 545]\<rparr>"]
  by (simp add: sid_admins_def sid_ok_def sid_val_def)

text \<open>Adding a relative identifier to a domain and splitting it off again gives the domain and the identifier back,
  and the result is in the domain.\<close>

theorem dom_sid_add_split:
  assumes "sid_ok d" "sint (num_auths d) < 127"
  shows "\<exists>s d'. dom_sid_add_rid d rid = Some (Some s) \<and> dom_sid_split_rid s = Inr (d', rid) \<and>
     dom_sid_equal (Some d') (Some d) = Some True \<and> dom_sid_in_domain (Some d) (Some s) = Some True"
proof -
  obtain s where s: "dom_sid_add_rid d rid = Some (Some s)" "sid_ok s" "auths s = Suc (auths d)"
    "sid_val s = (sid_rev_num d, id_auth d, take (auths d) (sub_auths d) @ [rid])"
    using dom_sid_add_rid_ok [OF assms] by blast
  have "num_auths s \<noteq> 0" using s(3) by auto
  then obtain d' rid' where d': "dom_sid_split_rid s = Inr (d', rid')" "sid_ok d'"
    "sid_val s = (sid_rev_num d', id_auth d', take (auths d') (sub_auths d') @ [rid'])"
    using dom_sid_split_rid_ok [OF s(2)] by blast
  then have "rid' = rid" "sid_val d' = sid_val d" using s(4) by (simp_all add: sid_val_def)
  moreover have subs: "take (auths s) (sub_auths s) = take (auths d) (sub_auths d) @ [rid]"
    and "sid_rev_num s = sid_rev_num d" "id_auth s = id_auth d" using s(4) by (simp_all add: sid_val_def)
  moreover have "take (auths d) (take (auths s) (sub_auths s)) = take (auths d) (sub_auths d)"
    unfolding subs using assms(1) by (simp add: sid_ok_def)
  then have "take (auths d) (sub_auths s) = take (auths d) (sub_auths d)" using s(3) by (simp add: min_def)
  ultimately show ?thesis
    using s d' in_domain_ok [OF assms(1) s(2)] dom_sid_equal_ok [OF d'(2) assms(1)] by auto
qed

theorem dom_sid_add_split_witness:
  "\<exists>s d'. dom_sid_add_rid sid_admins 500 = Some (Some s) \<and> dom_sid_split_rid s = Inr (d', 500) \<and>
     dom_sid_equal (Some d') (Some sid_admins) = Some True \<and> dom_sid_in_domain (Some sid_admins) (Some s) = Some True"
  by (rule dom_sid_add_split) (simp_all add: sid_admins_def sid_ok_def)

end
