(* ===== verification/Security.thy ===== *)
theory Security
  imports DomSid
begin

text \<open>
  Tokens, privileges, access control lists and the access check: \<open>libcli/security/security_token.c\<close>,
  \<open>privilege.c\<close>, \<open>security_descriptor.c\<close>, \<open>access_check.c\<close>, with the structures of
  \<open>librpc/idl/security.idl\<close> and the wire sizes of \<open>librpc/ndr/ndr_sec_helper.c\<close>.

  An array is a list beside its own count, as in C; \<open>None\<close> is an access outside an array or through
  a null pointer.  The access check is proved equivalent to a specification by bits: each requested
  bit is decided by the first entry for the token that mentions it.
\<close>

section \<open>Constants\<close>

definition NT_STATUS_PRIVILEGE_NOT_HELD :: ntstatus where "NT_STATUS_PRIVILEGE_NOT_HELD = 0xC0000061"
definition NT_STATUS_OBJECT_NAME_NOT_FOUND :: ntstatus where "NT_STATUS_OBJECT_NAME_NOT_FOUND = 0xC0000034"

definition SEC_FLAG_SYSTEM_SECURITY :: u32 where "SEC_FLAG_SYSTEM_SECURITY = 0x01000000"
definition SEC_FLAG_MAXIMUM_ALLOWED :: u32 where "SEC_FLAG_MAXIMUM_ALLOWED = 0x02000000"
definition SEC_STD_DELETE :: u32 where "SEC_STD_DELETE = 0x00010000"
definition SEC_STD_READ_CONTROL :: u32 where "SEC_STD_READ_CONTROL = 0x00020000"
definition SEC_STD_WRITE_DAC :: u32 where "SEC_STD_WRITE_DAC = 0x00040000"

definition SEC_PRIV_SECURITY :: u32 where "SEC_PRIV_SECURITY = 1"
definition SEC_PRIV_RESTORE :: u32 where "SEC_PRIV_RESTORE = 3"

definition SEC_ACE_FLAG_INHERIT_ONLY :: u8 where "SEC_ACE_FLAG_INHERIT_ONLY = 0x08"
definition SEC_ACE_TYPE_ACCESS_ALLOWED :: u8 where "SEC_ACE_TYPE_ACCESS_ALLOWED = 0"
definition SEC_ACE_TYPE_ACCESS_DENIED :: u8 where "SEC_ACE_TYPE_ACCESS_DENIED = 1"
definition SEC_ACE_TYPE_ACCESS_DENIED_OBJECT :: u8 where "SEC_ACE_TYPE_ACCESS_DENIED_OBJECT = 6"
definition SEC_DESC_DACL_PRESENT :: u16 where "SEC_DESC_DACL_PRESENT = 0x0004"
definition SEC_DESC_SACL_PRESENT :: u16 where "SEC_DESC_SACL_PRESENT = 0x0010"
definition SEC_DESC_SELF_RELATIVE :: u16 where "SEC_DESC_SELF_RELATIVE = 0x8000"
definition SD_REVISION :: u8 where "SD_REVISION = 1"
definition NT4_ACL_REVISION :: u16 where "NT4_ACL_REVISION = 2"

lemmas sec_consts = SEC_FLAG_SYSTEM_SECURITY_def SEC_FLAG_MAXIMUM_ALLOWED_def SEC_STD_DELETE_def
  SEC_STD_READ_CONTROL_def SEC_STD_WRITE_DAC_def

section \<open>Structures\<close>

record security_token =
  user_sid :: "dom_sid option"
  token_group_sid :: "dom_sid option"
  num_sids :: u32
  sids :: "dom_sid option list"
  privilege_mask :: u64

text \<open>The object part of an entry is carried as its bytes: no operation reads it.\<close>

record security_ace =
  ace_type :: u8
  ace_flags :: u8
  ace_size :: u16
  ace_access_mask :: u32
  ace_object :: "u8 list"
  ace_trustee :: dom_sid

record security_acl =
  acl_revision :: u16
  acl_size :: u16
  acl_num_aces :: u32
  acl_aces :: "security_ace list"

record security_descriptor =
  sd_revision :: u8
  sd_type :: u16
  owner_sid :: "dom_sid option"
  group_sid :: "dom_sid option"
  sacl :: "security_acl option"
  dacl :: "security_acl option"

section \<open>Tokens and privileges\<close>

definition security_token_initialise :: security_token where
  "security_token_initialise = \<lparr>user_sid = None, token_group_sid = None, num_sids = 0, sids = [], privilege_mask = 0\<rparr>"

definition security_token_is_sid :: "security_token \<Rightarrow> dom_sid option \<Rightarrow> bool option" where
  "security_token_is_sid token sid = dom_sid_equal (user_sid token) sid"

definition security_token_is_sid_string :: "security_token \<Rightarrow> string \<Rightarrow> bool option" where
  "security_token_is_sid_string token s =
     (case dom_sid_parse_talloc s of None \<Rightarrow> Some False | Some sid \<Rightarrow> security_token_is_sid token (Some sid))"

fun has_sid_from :: "dom_sid option list \<Rightarrow> dom_sid option \<Rightarrow> nat \<Rightarrow> nat \<Rightarrow> bool option" where
  "has_sid_from ss sid i 0 = Some False"
| "has_sid_from ss sid i (Suc k) =
     do { s \<leftarrow> fetch ss i; eq \<leftarrow> dom_sid_equal s sid;
          if eq then Some True else has_sid_from ss sid (Suc i) k }"

definition security_token_has_sid :: "security_token \<Rightarrow> dom_sid option \<Rightarrow> bool option" where
  "security_token_has_sid token sid = has_sid_from (sids token) sid 0 (unat (num_sids token))"

definition security_token_has_sid_string :: "security_token \<Rightarrow> string \<Rightarrow> bool option" where
  "security_token_has_sid_string token s =
     (case dom_sid_parse_talloc s of None \<Rightarrow> Some False | Some sid \<Rightarrow> security_token_has_sid token (Some sid))"

definition SID_NT_SYSTEM :: string where "SID_NT_SYSTEM = ''S-1-5-18''"
definition SID_NT_ANONYMOUS :: string where "SID_NT_ANONYMOUS = ''S-1-5-7''"
definition SID_NT_AUTHENTICATED_USERS :: string where "SID_NT_AUTHENTICATED_USERS = ''S-1-5-11''"
definition SID_BUILTIN_ADMINISTRATORS :: string where "SID_BUILTIN_ADMINISTRATORS = ''S-1-5-32-544''"

definition security_token_is_system :: "security_token \<Rightarrow> bool option" where
  "security_token_is_system token = security_token_is_sid_string token SID_NT_SYSTEM"

definition security_token_is_anonymous :: "security_token \<Rightarrow> bool option" where
  "security_token_is_anonymous token = security_token_is_sid_string token SID_NT_ANONYMOUS"

definition security_token_has_builtin_administrators :: "security_token \<Rightarrow> bool option" where
  "security_token_has_builtin_administrators token = security_token_has_sid_string token SID_BUILTIN_ADMINISTRATORS"

definition security_token_has_nt_authenticated_users :: "security_token \<Rightarrow> bool option" where
  "security_token_has_nt_authenticated_users token = security_token_has_sid_string token SID_NT_AUTHENTICATED_USERS"

text \<open>The table of privileges: id, name on the wire, display name.\<close>

definition privilege_names :: "(u32 \<times> string \<times> string) list" where
  "privilege_names =
    [(1, ''SeSecurityPrivilege'', ''System security''),
     (2, ''SeBackupPrivilege'', ''Backup files and directories''),
     (3, ''SeRestorePrivilege'', ''Restore files and directories''),
     (4, ''SeSystemtimePrivilege'', ''Set the system clock''),
     (5, ''SeShutdownPrivilege'', ''Shutdown the system''),
     (6, ''SeRemoteShutdownPrivilege'', ''Shutdown the system remotely''),
     (7, ''SeTakeOwnershipPrivilege'', ''Take ownership of files and directories''),
     (8, ''SeDebugPrivilege'', ''Debug processes''),
     (9, ''SeSystemEnvironmentPrivilege'', ''Modify system environment''),
     (10, ''SeSystemProfilePrivilege'', ''Profile the system''),
     (11, ''SeProfileSingleProcessPrivilege'', ''Profile one process''),
     (12, ''SeIncreaseBasePriorityPrivilege'', ''Increase base priority''),
     (13, ''SeLoadDriverPrivilege'', ''Load drivers''),
     (14, ''SeCreatePagefilePrivilege'', ''Create page files''),
     (15, ''SeIncreaseQuotaPrivilege'', ''Increase quota''),
     (16, ''SeChangeNotifyPrivilege'', ''Register for change notify''),
     (17, ''SeUndockPrivilege'', ''Undock devices''),
     (18, ''SeManageVolumePrivilege'', ''Manage system volumes''),
     (19, ''SeImpersonatePrivilege'', ''Impersonate users''),
     (20, ''SeCreateGlobalPrivilege'', ''Create global''),
     (21, ''SeEnableDelegationPrivilege'', ''Enable Delegation''),
     (22, ''SeInteractiveLogonRight'', ''Interactive logon''),
     (23, ''SeNetworkLogonRight'', ''Network logon''),
     (24, ''SeRemoteInteractiveLogonRight'', ''Remote Interactive logon'')]"

definition sec_privilege_name :: "u32 \<Rightarrow> string option" where
  "sec_privilege_name privilege =
     map_option (\<lambda>(_, name, _). name) (find (\<lambda>(p, _, _). p = privilege) privilege_names)"

definition sec_privilege_display_name :: "u32 \<Rightarrow> string option" where
  "sec_privilege_display_name privilege =
     (if privilege < 1 \<or> privilege > 64 then None
      else map_option (\<lambda>(_, _, display). display) (find (\<lambda>(p, _, _). p = privilege) privilege_names))"

text \<open>\<open>strcasecmp\<close> on ASCII.\<close>

definition lower :: "char \<Rightarrow> char" where
  "lower c = (if 65 \<le> (of_char c :: int) \<and> (of_char c :: int) \<le> 90 then char_of ((of_char c :: int) + 32) else c)"

definition strcaseeq :: "string \<Rightarrow> string \<Rightarrow> bool" where
  "strcaseeq a b \<longleftrightarrow> map lower a = map lower b"

definition sec_privilege_id :: "string \<Rightarrow> u32" where
  "sec_privilege_id name =
     (case find (\<lambda>(_, n, _). strcaseeq n name) privilege_names of Some (p, _, _) \<Rightarrow> p | None \<Rightarrow> - 1)"

text \<open>\<open>enum sec_privilege\<close> is unsigned: \<open>privilege < 1\<close> means 0.\<close>

definition sec_privilege_mask :: "u32 \<Rightarrow> u64" where
  "sec_privilege_mask privilege =
     (if privilege < 1 \<or> privilege > 64 then 0 else push_bit (unat (privilege - 1)) 1)"

definition security_token_has_privilege :: "security_token \<Rightarrow> u32 \<Rightarrow> bool" where
  "security_token_has_privilege token privilege =
     (if privilege < 1 \<or> privilege > 64 then False
      else privilege_mask token AND sec_privilege_mask privilege \<noteq> 0)"

definition security_token_set_privilege :: "security_token \<Rightarrow> u32 \<Rightarrow> security_token" where
  "security_token_set_privilege token privilege =
     (if privilege < 1 \<or> privilege > 64 then token
      else token\<lparr>privilege_mask := privilege_mask token OR sec_privilege_mask privilege\<rparr>)"

section \<open>Descriptors\<close>

definition security_descriptor_initialise :: security_descriptor where
  "security_descriptor_initialise =
     \<lparr>sd_revision = SD_REVISION, sd_type = SEC_DESC_SELF_RELATIVE, owner_sid = None, group_sid = None,
      sacl = None, dacl = None\<rparr>"

text \<open>
  \<open>struct security_ace\<close> takes 64 bytes on a 64-bit machine; an array of entries is refused when its
  count reaches \<open>MAX_TALLOC_SIZE / 64\<close>, and so is a \<open>memdup\<close> of \<open>MAX_TALLOC_SIZE\<close> bytes.
\<close>

definition sizeof_ace :: nat where "sizeof_ace = 64"

text \<open>
  The copy of the sub-authorities of a trustee; a negative count asks for a huge size, which is refused
  and leaves a null pointer (no sub-authorities).
\<close>

definition dup_subs :: "dom_sid \<Rightarrow> dom_sid option" where
  "dup_subs s =
     (if sint (num_auths s) < 0 then Some (s\<lparr>sub_auths := []\<rparr>)
      else if length (sub_auths s) < auths s then None
      else Some (s\<lparr>sub_auths := take (auths s) (sub_auths s)\<rparr>))"

fun dup_aces :: "security_ace list \<Rightarrow> nat \<Rightarrow> security_ace list option" where
  "dup_aces aces 0 = Some []"
| "dup_aces [] (Suc k) = None"
| "dup_aces (a # aces) (Suc k) =
     do { s \<leftarrow> dup_subs (ace_trustee a); as \<leftarrow> dup_aces aces k; Some (a\<lparr>ace_trustee := s\<rparr> # as) }"

text \<open>The outer \<open>None\<close> is a bad access, the inner one a refused allocation.\<close>

definition security_acl_dup :: "security_acl \<Rightarrow> security_acl option option" where
  "security_acl_dup oacl =
     (if MAX_TALLOC_SIZE \<le> sizeof_ace * unat (acl_num_aces oacl) then Some None
      else do { aces \<leftarrow> dup_aces (acl_aces oacl) (unat (acl_num_aces oacl));
                Some (Some (oacl\<lparr>acl_aces := aces\<rparr>)) })"

text \<open>Copying through a pointer that may be null; the result is \<open>None\<close> inside when a copy was refused.\<close>

definition copy_ptr :: "('a \<Rightarrow> 'a option option) \<Rightarrow> 'a option \<Rightarrow> 'a option option option" where
  "copy_ptr f p =
     (case p of
        None \<Rightarrow> Some (Some None)
      | Some x \<Rightarrow> map_option (\<lambda>r. case r of None \<Rightarrow> None | Some y \<Rightarrow> Some (Some y)) (f x))"

definition security_descriptor_copy :: "security_descriptor \<Rightarrow> security_descriptor option option" where
  "security_descriptor_copy osd =
     (let nsd = \<lparr>sd_revision = 0, sd_type = 0, owner_sid = None, group_sid = None, sacl = None, dacl = None\<rparr>
      in do { ow \<leftarrow> copy_ptr (\<lambda>s. dom_sid_dup (Some s)) (owner_sid osd);
              case ow of None \<Rightarrow> Some None | Some ow \<Rightarrow>
         do { gr \<leftarrow> copy_ptr (\<lambda>s. dom_sid_dup (Some s)) (group_sid osd);
              case gr of None \<Rightarrow> Some None | Some gr \<Rightarrow>
         do { sa \<leftarrow> copy_ptr security_acl_dup (sacl osd);
              case sa of None \<Rightarrow> Some None | Some sa \<Rightarrow>
         do { da \<leftarrow> copy_ptr security_acl_dup (dacl osd);
              case da of None \<Rightarrow> Some None | Some da \<Rightarrow>
              Some (Some (nsd\<lparr>owner_sid := ow, group_sid := gr, sacl := sa, dacl := da\<rparr>)) }}}})"

definition security_descriptor_dacl_add :: "security_descriptor \<Rightarrow> security_ace \<Rightarrow> (ntstatus \<times> security_descriptor) option" where
  "security_descriptor_dacl_add sd ace =
     (let acl = (case dacl sd of
                   None \<Rightarrow> \<lparr>acl_revision = NT4_ACL_REVISION, acl_size = 0, acl_num_aces = 0, acl_aces = []\<rparr>
                 | Some acl \<Rightarrow> acl);
          n = unat (acl_num_aces acl)
      in if unat (acl_num_aces acl + 1) = 0 \<or> MAX_TALLOC_SIZE div sizeof_ace \<le> unat (acl_num_aces acl + 1)
         then Some (NT_STATUS_NO_MEMORY, sd\<lparr>dacl := Some (acl\<lparr>acl_aces := []\<rparr>)\<rparr>)
         else if length (acl_aces acl) < n then None
         else do { s \<leftarrow> dup_subs (ace_trustee ace);
                   if sint (num_auths (ace_trustee ace)) < 0
                   then Some (NT_STATUS_NO_MEMORY,
                         sd\<lparr>dacl := Some (acl\<lparr>acl_aces := take n (acl_aces acl) @ [ace\<lparr>ace_trustee := s\<rparr>]\<rparr>)\<rparr>)
                   else Some (NT_STATUS_OK,
                         sd\<lparr>dacl := Some (acl\<lparr>acl_aces := take n (acl_aces acl) @ [ace\<lparr>ace_trustee := s\<rparr>],
                                              acl_num_aces := acl_num_aces acl + 1\<rparr>),
                            sd_type := sd_type sd OR SEC_DESC_DACL_PRESENT\<rparr>) })"

fun find_trustee :: "dom_sid option \<Rightarrow> security_ace list \<Rightarrow> nat \<Rightarrow> nat \<Rightarrow> nat option option" where
  "find_trustee t aces i 0 = Some None"
| "find_trustee t aces i (Suc k) =
     do { a \<leftarrow> fetch aces i; eq \<leftarrow> dom_sid_equal t (Some (ace_trustee a));
          if eq then Some (Some i) else find_trustee t aces (Suc i) k }"

definition security_descriptor_dacl_del :: "security_descriptor \<Rightarrow> dom_sid option \<Rightarrow> (ntstatus \<times> security_descriptor) option" where
  "security_descriptor_dacl_del sd trustee =
     (case dacl sd of
        None \<Rightarrow> Some (NT_STATUS_OBJECT_NAME_NOT_FOUND, sd)
      | Some acl \<Rightarrow>
          let n = unat (acl_num_aces acl)
          in do { r \<leftarrow> find_trustee trustee (acl_aces acl) 0 n;
                  case r of
                    None \<Rightarrow> Some (NT_STATUS_OBJECT_NAME_NOT_FOUND, sd)
                  | Some i \<Rightarrow>
                      if length (acl_aces acl) < n then None
                      else let aces = take i (acl_aces acl) @ drop (Suc i) (take n (acl_aces acl))
                           in Some (NT_STATUS_OK, sd\<lparr>dacl := Some (acl\<lparr>acl_aces := aces,
                                                        acl_num_aces := acl_num_aces acl - 1\<rparr>)\<rparr>) })"

definition security_ace_equal :: "security_ace \<Rightarrow> security_ace \<Rightarrow> bool option" where
  "security_ace_equal ace1 ace2 =
     (if ace_type ace1 \<noteq> ace_type ace2 then Some False
      else if ace_flags ace1 \<noteq> ace_flags ace2 then Some False
      else if ace_access_mask ace1 \<noteq> ace_access_mask ace2 then Some False
      else dom_sid_equal (Some (ace_trustee ace1)) (Some (ace_trustee ace2)))"

fun aces_equal :: "security_ace list \<Rightarrow> security_ace list \<Rightarrow> nat \<Rightarrow> nat \<Rightarrow> bool option" where
  "aces_equal xs ys i 0 = Some True"
| "aces_equal xs ys i (Suc k) =
     do { a \<leftarrow> fetch xs i; b \<leftarrow> fetch ys i; eq \<leftarrow> security_ace_equal a b;
          if \<not> eq then Some False else aces_equal xs ys (Suc i) k }"

definition security_acl_equal :: "security_acl option \<Rightarrow> security_acl option \<Rightarrow> bool option" where
  "security_acl_equal acl1 acl2 =
     (case (acl1, acl2) of
        (None, None) \<Rightarrow> Some True
      | (Some a, Some b) \<Rightarrow>
          if acl_revision a \<noteq> acl_revision b then Some False
          else if acl_num_aces a \<noteq> acl_num_aces b then Some False
          else aces_equal (acl_aces a) (acl_aces b) 0 (unat (acl_num_aces a))
      | _ \<Rightarrow> Some False)"

text \<open>A comparison of parts stops at the first one that differs.\<close>

definition and_then :: "bool option \<Rightarrow> bool option \<Rightarrow> bool option" where
  "and_then a b = (case a of None \<Rightarrow> None | Some False \<Rightarrow> Some False | Some True \<Rightarrow> b)"

definition security_descriptor_equal :: "security_descriptor \<Rightarrow> security_descriptor \<Rightarrow> bool option" where
  "security_descriptor_equal sd1 sd2 =
     (if sd_revision sd1 \<noteq> sd_revision sd2 then Some False
      else if sd_type sd1 \<noteq> sd_type sd2 then Some False
      else and_then (dom_sid_equal (owner_sid sd1) (owner_sid sd2))
          (and_then (dom_sid_equal (group_sid sd1) (group_sid sd2))
          (and_then (security_acl_equal (sacl sd1) (sacl sd2))
                    (security_acl_equal (dacl sd1) (dacl sd2)))))"

definition security_descriptor_mask_equal :: "security_descriptor \<Rightarrow> security_descriptor \<Rightarrow> u32 \<Rightarrow> bool option" where
  "security_descriptor_mask_equal sd1 sd2 msk =
     (if sd_revision sd1 \<noteq> sd_revision sd2 then Some False
      else if ucast (sd_type sd1) AND msk \<noteq> ucast (sd_type sd2) AND msk then Some False
      else and_then (dom_sid_equal (owner_sid sd1) (owner_sid sd2))
          (and_then (dom_sid_equal (group_sid sd1) (group_sid sd2))
          (and_then (if msk AND ucast SEC_DESC_DACL_PRESENT \<noteq> 0
                     then security_acl_equal (dacl sd1) (dacl sd2) else Some True)
                    (if msk AND ucast SEC_DESC_SACL_PRESENT \<noteq> 0
                     then security_acl_equal (sacl sd1) (sacl sd2) else Some True))))"

text \<open>
  The variable arguments are a list of (SID, type, mask, flags).  The fields of an entry that the code
  does not set come from \<open>junk\<close>, the memory that talloc hands out.
\<close>

fun create_aces :: "security_ace \<Rightarrow> security_descriptor \<Rightarrow> (string \<times> u8 \<times> u32 \<times> u8) list \<Rightarrow> security_descriptor option option" where
  "create_aces junk sd [] = Some (Some sd)"
| "create_aces junk sd ((sidstr, ty, m, fl) # rest) =
     (case dom_sid_parse_talloc sidstr of
        None \<Rightarrow> Some None
      | Some sid \<Rightarrow>
          do { (status, sd) \<leftarrow> security_descriptor_dacl_add sd
                 (junk\<lparr>ace_type := ty, ace_access_mask := m, ace_flags := fl, ace_trustee := sid\<rparr>);
               if status \<noteq> NT_STATUS_OK then Some None else create_aces junk sd rest })"

definition parse_ptr :: "string option \<Rightarrow> dom_sid option option" where
  "parse_ptr s = (case s of None \<Rightarrow> Some None | Some t \<Rightarrow> map_option Some (dom_sid_parse_talloc t))"

definition security_descriptor_create ::
  "security_ace \<Rightarrow> string option \<Rightarrow> string option \<Rightarrow> (string \<times> u8 \<times> u32 \<times> u8) list \<Rightarrow> security_descriptor option option" where
  "security_descriptor_create junk owner grp aces =
     (let sd = security_descriptor_initialise
      in case parse_ptr owner of None \<Rightarrow> Some None
       | Some ow \<Rightarrow> (case parse_ptr grp of None \<Rightarrow> Some None
       | Some gr \<Rightarrow> create_aces junk (sd\<lparr>owner_sid := ow, group_sid := gr\<rparr>) aces))"

section \<open>The access check\<close>

definition ace_applies :: "security_token \<Rightarrow> security_ace \<Rightarrow> bool option" where
  "ace_applies token ace =
     (if ace_flags ace AND SEC_ACE_FLAG_INHERIT_ONLY \<noteq> 0 then Some False
      else security_token_has_sid token (Some (ace_trustee ace)))"

fun max_allowed_loop :: "security_token \<Rightarrow> security_ace list \<Rightarrow> nat \<Rightarrow> nat \<Rightarrow> u32 \<Rightarrow> u32 \<Rightarrow> (u32 \<times> u32) option" where
  "max_allowed_loop token aces i 0 granted denied = Some (granted, denied)"
| "max_allowed_loop token aces i (Suc k) granted denied =
     do { ace \<leftarrow> fetch aces i; ap \<leftarrow> ace_applies token ace;
          if \<not> ap then max_allowed_loop token aces (Suc i) k granted denied
          else if ace_type ace = SEC_ACE_TYPE_ACCESS_ALLOWED
          then max_allowed_loop token aces (Suc i) k (granted OR ace_access_mask ace) denied
          else if ace_type ace = SEC_ACE_TYPE_ACCESS_DENIED \<or> ace_type ace = SEC_ACE_TYPE_ACCESS_DENIED_OBJECT
          then max_allowed_loop token aces (Suc i) k granted (denied OR ace_access_mask ace)
          else max_allowed_loop token aces (Suc i) k granted denied }"

definition access_check_max_allowed :: "security_descriptor \<Rightarrow> security_token \<Rightarrow> u32 option" where
  "access_check_max_allowed sd token =
     do { own \<leftarrow> security_token_has_sid token (owner_sid sd);
          let granted = (if own then SEC_STD_WRITE_DAC OR SEC_STD_READ_CONTROL OR SEC_STD_DELETE
                         else if security_token_has_privilege token SEC_PRIV_RESTORE then SEC_STD_DELETE
                         else 0)
          in case dacl sd of
               None \<Rightarrow> None
             | Some acl \<Rightarrow>
                 do { (granted, denied) \<leftarrow> max_allowed_loop token (acl_aces acl) 0 (unat (acl_num_aces acl)) granted 0;
                      Some (granted AND NOT denied) } }"

fun check_loop :: "security_token \<Rightarrow> security_ace list \<Rightarrow> nat \<Rightarrow> nat \<Rightarrow> u32 \<Rightarrow> u32 option option" where
  "check_loop token aces i 0 bits = Some (Some bits)"
| "check_loop token aces i (Suc k) bits =
     (if bits = 0 then Some (Some bits)
      else do { ace \<leftarrow> fetch aces i; ap \<leftarrow> ace_applies token ace;
                if \<not> ap then check_loop token aces (Suc i) k bits
                else if ace_type ace = SEC_ACE_TYPE_ACCESS_ALLOWED
                then check_loop token aces (Suc i) k (bits AND NOT (ace_access_mask ace))
                else if ace_type ace = SEC_ACE_TYPE_ACCESS_DENIED \<or> ace_type ace = SEC_ACE_TYPE_ACCESS_DENIED_OBJECT
                then if bits AND ace_access_mask ace \<noteq> 0 then Some None
                     else check_loop token aces (Suc i) k bits
                else check_loop token aces (Suc i) k bits })"

definition owner_bits :: u32 where
  "owner_bits = SEC_STD_WRITE_DAC OR SEC_STD_READ_CONTROL OR SEC_STD_DELETE"

text \<open>The part of the check that walks the list: the rights of the owner and of a privilege, then each entry.\<close>

definition access_check_dacl :: "security_descriptor \<Rightarrow> security_token \<Rightarrow> security_acl \<Rightarrow> u32 \<Rightarrow> ntstatus option" where
  "access_check_dacl sd token acl bits =
     do { bits \<leftarrow> (if bits AND owner_bits \<noteq> 0
                   then do { own \<leftarrow> security_token_has_sid token (owner_sid sd);
                             Some (if own then bits AND NOT owner_bits else bits) }
                   else Some bits);
          let bits = (if bits AND SEC_STD_DELETE \<noteq> 0 \<and> security_token_has_privilege token SEC_PRIV_RESTORE
                      then bits AND NOT SEC_STD_DELETE else bits)
          in do { r \<leftarrow> check_loop token (acl_aces acl) 0 (unat (acl_num_aces acl)) bits;
                  Some (if r = Some 0 then NT_STATUS_OK else NT_STATUS_ACCESS_DENIED) } }"

text \<open>The result is the status and the final value of \<open>*access_granted\<close>.\<close>

definition sec_access_check :: "security_descriptor \<Rightarrow> security_token \<Rightarrow> u32 \<Rightarrow> (ntstatus \<times> u32) option" where
  "sec_access_check sd token access_desired =
     do { (access_desired, access_granted, bits) \<leftarrow>
            (if access_desired AND SEC_FLAG_MAXIMUM_ALLOWED \<noteq> 0
             then do { m \<leftarrow> access_check_max_allowed sd token;
                       let access_desired = (access_desired OR m) AND NOT SEC_FLAG_MAXIMUM_ALLOWED
                       in Some (access_desired, access_desired, access_desired AND NOT SEC_STD_DELETE) }
             else Some (access_desired, access_desired, access_desired));
          if access_desired AND SEC_FLAG_SYSTEM_SECURITY \<noteq> 0 \<and>
             \<not> security_token_has_privilege token SEC_PRIV_SECURITY
          then Some (NT_STATUS_PRIVILEGE_NOT_HELD, access_granted)
          else
            let bits = (if access_desired AND SEC_FLAG_SYSTEM_SECURITY \<noteq> 0
                        then bits AND NOT SEC_FLAG_SYSTEM_SECURITY else bits)
            in if sd_type sd AND SEC_DESC_DACL_PRESENT = 0 then Some (NT_STATUS_OK, access_desired)
               else case dacl sd of
                 None \<Rightarrow> Some (NT_STATUS_ACCESS_DENIED, access_granted)
               | Some acl \<Rightarrow>
                   if acl_num_aces acl = 0 then Some (NT_STATUS_ACCESS_DENIED, access_granted)
                   else map_option (\<lambda>st. (st, access_granted)) (access_check_dacl sd token acl bits) }"

section \<open>Wire sizes\<close>

definition ndr_size_dom_sid :: "dom_sid option \<Rightarrow> int" where
  "ndr_size_dom_sid sid = (case sid of None \<Rightarrow> 0 | Some s \<Rightarrow> 8 + 4 * sint (num_auths s))"

definition ndr_size_security_ace :: "security_ace \<Rightarrow> int" where
  "ndr_size_security_ace ace = 8 + ndr_size_dom_sid (Some (ace_trustee ace))"

fun size_aces :: "security_ace list \<Rightarrow> nat \<Rightarrow> int option" where
  "size_aces aces 0 = Some 0"
| "size_aces [] (Suc k) = None"
| "size_aces (a # as) (Suc k) = map_option (\<lambda>n. ndr_size_security_ace a + n) (size_aces as k)"

definition ndr_size_security_acl :: "security_acl option \<Rightarrow> int option" where
  "ndr_size_security_acl acl =
     (case acl of None \<Rightarrow> Some 0
      | Some a \<Rightarrow> map_option (\<lambda>n. 8 + n) (size_aces (acl_aces a) (unat (acl_num_aces a))))"

definition ndr_size_security_descriptor :: "security_descriptor option \<Rightarrow> int option" where
  "ndr_size_security_descriptor sd =
     (case sd of None \<Rightarrow> Some 0
      | Some d \<Rightarrow> do { da \<leftarrow> ndr_size_security_acl (dacl d); sa \<leftarrow> ndr_size_security_acl (sacl d);
                      Some (20 + ndr_size_dom_sid (owner_sid d) + ndr_size_dom_sid (group_sid d) + da + sa) })"


section \<open>Who is who\<close>

definition ptr_ok :: "dom_sid option \<Rightarrow> bool" where
  "ptr_ok p \<longleftrightarrow> (case p of None \<Rightarrow> True | Some s \<Rightarrow> sid_ok s)"

definition token_ok :: "security_token \<Rightarrow> bool" where
  "token_ok t \<longleftrightarrow> unat (num_sids t) \<le> length (sids t) \<and> list_all ptr_ok (take (unat (num_sids t)) (sids t))"

definition token_sids :: "security_token \<Rightarrow> (u8 \<times> u8 list \<times> u32 list) option list" where
  "token_sids t = map (map_option sid_val) (take (unat (num_sids t)) (sids t))"

definition holds :: "security_token \<Rightarrow> dom_sid option \<Rightarrow> bool" where
  "holds t sid \<longleftrightarrow> map_option sid_val sid \<in> set (token_sids t)"

lemma dom_sid_equal_ptr:
  assumes "ptr_ok a" "ptr_ok b"
  shows "dom_sid_equal a b = Some (map_option sid_val a = map_option sid_val b)"
  using assms
  by (cases a; cases b) (simp_all add: ptr_ok_def dom_sid_equal_ok, simp_all add: dom_sid_equal_def dom_sid_compare_def)

lemma has_sid_from_ok:
  assumes "i + k \<le> length ss" "list_all ptr_ok (take k (drop i ss))" "ptr_ok sid"
  shows "has_sid_from ss sid i k = Some (map_option sid_val sid \<in> set (map (map_option sid_val) (take k (drop i ss))))"
  using assms
proof (induction k arbitrary: i)
  case (Suc k)
  then have "drop i ss = ss ! i # drop (Suc i) ss" by (simp add: Cons_nth_drop_Suc)
  with Suc show ?case by (auto simp: dom_sid_equal_ptr)
qed simp

lemma has_sid_ok:
  assumes "token_ok t" "ptr_ok sid" shows "security_token_has_sid t sid = Some (holds t sid)"
  using assms has_sid_from_ok [of 0 "unat (num_sids t)" "sids t" sid]
  by (simp add: security_token_has_sid_def token_ok_def holds_def token_sids_def)

section \<open>The access check by bits\<close>

definition acl_ok :: "security_acl \<Rightarrow> bool" where
  "acl_ok acl \<longleftrightarrow> unat (acl_num_aces acl) \<le> length (acl_aces acl) \<and>
     list_all (\<lambda>a. sid_ok (ace_trustee a)) (take (unat (acl_num_aces acl)) (acl_aces acl))"

abbreviation entries :: "security_acl \<Rightarrow> security_ace list" where
  "entries acl \<equiv> take (unat (acl_num_aces acl)) (acl_aces acl)"

abbreviation is_allow :: "security_ace \<Rightarrow> bool" where
  "is_allow a \<equiv> ace_type a = SEC_ACE_TYPE_ACCESS_ALLOWED"

abbreviation is_deny :: "security_ace \<Rightarrow> bool" where
  "is_deny a \<equiv> ace_type a = SEC_ACE_TYPE_ACCESS_DENIED \<or> ace_type a = SEC_ACE_TYPE_ACCESS_DENIED_OBJECT"

definition in_force :: "security_token \<Rightarrow> security_ace \<Rightarrow> bool" where
  "in_force t a \<longleftrightarrow> ace_flags a AND SEC_ACE_FLAG_INHERIT_ONLY = 0 \<and> holds t (Some (ace_trustee a))"

text \<open>The decision on one bit: the first entry in force that allows or denies it.\<close>

fun first_decision :: "security_token \<Rightarrow> security_ace list \<Rightarrow> nat \<Rightarrow> bool option" where
  "first_decision t [] b = None"
| "first_decision t (a # as) b =
     (if in_force t a \<and> bit (ace_access_mask a) b \<and> (is_allow a \<or> is_deny a) then Some (is_allow a)
      else first_decision t as b)"

lemma ace_applies_ok:
  "token_ok t \<Longrightarrow> sid_ok (ace_trustee a) \<Longrightarrow> ace_applies t a = Some (in_force t a)"
  by (simp add: ace_applies_def in_force_def has_sid_ok ptr_ok_def)

lemma allow_not_deny: "is_allow a \<Longrightarrow> \<not> is_deny a"
  by (simp add: SEC_ACE_TYPE_ACCESS_ALLOWED_def SEC_ACE_TYPE_ACCESS_DENIED_def SEC_ACE_TYPE_ACCESS_DENIED_OBJECT_def)

lemma zero_bits: "(x :: 'a::len word) = 0 \<longleftrightarrow> (\<forall>b. \<not> bit x b)"
  by (auto intro!: bit_word_eqI)

lemma and_nonzero_bit: "(x AND y :: 'a::len word) \<noteq> 0 \<longleftrightarrow> (\<exists>b. bit x b \<and> bit y b)"
  by (simp add: zero_bits bit_and_iff)

lemma bit_and_not: "bit (x AND NOT y :: 'a::len word) b \<longleftrightarrow> bit x b \<and> \<not> bit y b"
  by (auto simp: bit_and_iff bit_not_iff possible_bit_word dest: bit_imp_le_length)

lemma check_loop_ok:
  assumes "token_ok t" "i + k \<le> length aces" "list_all (\<lambda>a. sid_ok (ace_trustee a)) (take k (drop i aces))"
  shows "\<exists>r. check_loop t aces i k bits = Some r \<and>
     (r = Some 0 \<longleftrightarrow> (\<forall>b. bit bits b \<longrightarrow> first_decision t (take k (drop i aces)) b = Some True))"
  using assms(2,3)
proof (induction k arbitrary: i bits)
  case 0
  then show ?case by (simp add: zero_bits)
next
  case (Suc k)
  let ?a = "aces ! i"
  have d: "drop i aces = ?a # drop (Suc i) aces" using Suc.prems by (simp add: Cons_nth_drop_Suc)
  have ap: "ace_applies t ?a = Some (in_force t ?a)"
    using Suc.prems d by (intro ace_applies_ok [OF assms(1)]) simp
  note IH = Suc.IH [of "Suc i"]
  let ?rest = "take k (drop (Suc i) aces)" and ?m = "ace_access_mask ?a"
  obtain r where r: "check_loop t aces (Suc i) k bits = Some r"
    "r = Some 0 \<longleftrightarrow> (\<forall>b. bit bits b \<longrightarrow> first_decision t ?rest b = Some True)"
    using IH [of bits] Suc.prems d by auto
  obtain r' where r': "check_loop t aces (Suc i) k (bits AND NOT ?m) = Some r'"
    "r' = Some 0 \<longleftrightarrow> (\<forall>b. bit bits b \<and> \<not> bit ?m b \<longrightarrow> first_decision t ?rest b = Some True)"
    using IH [of "bits AND NOT ?m"] Suc.prems d by (auto simp: bit_and_not)
  have fd: "first_decision t (take (Suc k) (drop i aces)) b =
      (if in_force t ?a \<and> bit ?m b \<and> (is_allow ?a \<or> is_deny ?a) then Some (is_allow ?a)
       else first_decision t ?rest b)" for b
    by (simp add: d)
  have fe: "fetch aces i = Some ?a" using Suc.prems by simp
  consider (zero) "bits = 0" | (skip) "bits \<noteq> 0" "\<not> in_force t ?a \<or> \<not> is_allow ?a \<and> \<not> is_deny ?a"
    | (allow) "bits \<noteq> 0" "in_force t ?a" "is_allow ?a" | (deny) "bits \<noteq> 0" "in_force t ?a" "is_deny ?a" by blast
  then show ?case
  proof cases
    case zero
    then show ?thesis by simp
  next
    case skip
    then show ?thesis using fe ap r unfolding fd by auto
  next
    case allow
    then show ?thesis using fe ap r' unfolding fd by auto
  next
    case deny
    then have na: "\<not> is_allow ?a" using allow_not_deny by blast
    show ?thesis
    proof (cases "bits AND ?m = 0")
      case True
      then have "\<And>b. bit bits b \<Longrightarrow> \<not> bit ?m b" using and_nonzero_bit by blast
      then show ?thesis using True deny fe ap r na unfolding fd by auto
    next
      case False
      then obtain b where "bit bits b" "bit ?m b" using and_nonzero_bit by blast
      then show ?thesis using False deny fe ap na unfolding fd by auto
    qed
  qed
qed


lemma sec_const_bits:
  "bit SEC_STD_DELETE b \<longleftrightarrow> b = 16" "bit SEC_STD_READ_CONTROL b \<longleftrightarrow> b = 17" "bit SEC_STD_WRITE_DAC b \<longleftrightarrow> b = 18"
  "bit SEC_FLAG_SYSTEM_SECURITY b \<longleftrightarrow> b = 24" "bit SEC_FLAG_MAXIMUM_ALLOWED b \<longleftrightarrow> b = 25"
proof -
  have p: "SEC_STD_DELETE = push_bit 16 1" "SEC_STD_READ_CONTROL = push_bit 17 1" "SEC_STD_WRITE_DAC = push_bit 18 1"
    "SEC_FLAG_SYSTEM_SECURITY = push_bit 24 1" "SEC_FLAG_MAXIMUM_ALLOWED = push_bit 25 1"
    by (simp_all add: sec_consts)
  show "bit SEC_STD_DELETE b \<longleftrightarrow> b = 16" "bit SEC_STD_READ_CONTROL b \<longleftrightarrow> b = 17" "bit SEC_STD_WRITE_DAC b \<longleftrightarrow> b = 18"
    "bit SEC_FLAG_SYSTEM_SECURITY b \<longleftrightarrow> b = 24" "bit SEC_FLAG_MAXIMUM_ALLOWED b \<longleftrightarrow> b = 25"
    unfolding p bit_push_bit_iff bit_1_iff by (auto simp: possible_bit_word)
qed

lemma owner_bits_bit: "bit owner_bits b \<longleftrightarrow> b \<in> {16, 17, 18}"
  by (auto simp: owner_bits_def bit_or_iff sec_const_bits)

lemma and_const_bit:
  "x AND SEC_STD_DELETE \<noteq> 0 \<longleftrightarrow> bit x 16" "x AND SEC_FLAG_SYSTEM_SECURITY \<noteq> 0 \<longleftrightarrow> bit x 24"
  "x AND SEC_FLAG_MAXIMUM_ALLOWED \<noteq> 0 \<longleftrightarrow> bit x 25" "x AND owner_bits \<noteq> 0 \<longleftrightarrow> (\<exists>b\<in>{16, 17, 18}. bit x b)"
  unfolding and_nonzero_bit owner_bits_bit sec_const_bits by auto

definition implied_right :: "security_descriptor \<Rightarrow> security_token \<Rightarrow> nat \<Rightarrow> bool" where
  "implied_right sd t b \<longleftrightarrow> b \<in> {16, 17, 18} \<and> holds t (owner_sid sd) \<or>
     b = 16 \<and> security_token_has_privilege t SEC_PRIV_RESTORE"

lemma access_check_dacl_ok:
  assumes "token_ok t" "acl_ok acl" "ptr_ok (owner_sid sd)"
  shows "access_check_dacl sd t acl bits =
     Some (if \<forall>b. bit bits b \<longrightarrow> implied_right sd t b \<or> first_decision t (entries acl) b = Some True
           then NT_STATUS_OK else NT_STATUS_ACCESS_DENIED)"
proof -
  let ?own = "holds t (owner_sid sd)" and ?res = "security_token_has_privilege t SEC_PRIV_RESTORE"
  define b1 where "b1 = (if bits AND owner_bits \<noteq> 0 then if ?own then bits AND NOT owner_bits else bits else bits)"
  define b2 where "b2 = (if b1 AND SEC_STD_DELETE \<noteq> 0 \<and> ?res then b1 AND NOT SEC_STD_DELETE else b1)"
  have "bit b1 b \<longleftrightarrow> bit bits b \<and> \<not> (?own \<and> b \<in> {16, 17, 18})" for b
    unfolding b1_def and_const_bit by (auto simp: bit_and_not owner_bits_bit)
  moreover have "bit b2 b \<longleftrightarrow> bit b1 b \<and> \<not> (?res \<and> b = 16)" for b
    unfolding b2_def and_const_bit by (auto simp: bit_and_not sec_const_bits)
  ultimately have b2: "bit b2 b \<longleftrightarrow> bit bits b \<and> \<not> implied_right sd t b" for b
    by (auto simp: implied_right_def)
  obtain r where "check_loop t (acl_aces acl) 0 (unat (acl_num_aces acl)) b2 = Some r"
    "r = Some 0 \<longleftrightarrow> (\<forall>b. bit b2 b \<longrightarrow> first_decision t (entries acl) b = Some True)"
    using check_loop_ok [OF assms(1), of 0 "unat (acl_num_aces acl)" "acl_aces acl" b2] assms(2)
    by (auto simp: acl_ok_def)
  then show ?thesis
    using has_sid_ok [OF assms(1,3)] unfolding b2
    by (auto simp: access_check_dacl_def b2_def b1_def Let_def)
qed


definition sd_ok :: "security_descriptor \<Rightarrow> bool" where
  "sd_ok sd \<longleftrightarrow> ptr_ok (owner_sid sd) \<and> (case dacl sd of None \<Rightarrow> True | Some acl \<Rightarrow> acl_ok acl)"

text \<open>The specification: what a request without \<open>SEC_FLAG_MAXIMUM_ALLOWED\<close> needs.\<close>

definition access_spec :: "security_descriptor \<Rightarrow> security_token \<Rightarrow> u32 \<Rightarrow> bool" where
  "access_spec sd t desired \<longleftrightarrow>
     (bit desired 24 \<longrightarrow> security_token_has_privilege t SEC_PRIV_SECURITY) \<and>
     (sd_type sd AND SEC_DESC_DACL_PRESENT = 0 \<or>
      (\<exists>acl. dacl sd = Some acl \<and> acl_num_aces acl \<noteq> 0 \<and>
         (\<forall>b. bit desired b \<and> b \<noteq> 24 \<longrightarrow>
              implied_right sd t b \<or> first_decision t (entries acl) b = Some True)))"

lemma statuses_differ: "NT_STATUS_OK \<noteq> NT_STATUS_ACCESS_DENIED" "NT_STATUS_OK \<noteq> NT_STATUS_PRIVILEGE_NOT_HELD"
  by (simp_all add: nt_status_defs NT_STATUS_PRIVILEGE_NOT_HELD_def)

lemma sec_access_check_ok:
  assumes "token_ok t" "sd_ok sd" "desired AND SEC_FLAG_MAXIMUM_ALLOWED = 0"
  shows "\<exists>st. sec_access_check sd t desired = Some (st, desired) \<and> (st = NT_STATUS_OK \<longleftrightarrow> access_spec sd t desired)"
proof -
  let ?ss = "bit desired 24" and ?priv = "security_token_has_privilege t SEC_PRIV_SECURITY"
  define bits where "bits = (if desired AND SEC_FLAG_SYSTEM_SECURITY \<noteq> 0 then desired AND NOT SEC_FLAG_SYSTEM_SECURITY else desired)"
  have b: "bit bits b \<longleftrightarrow> bit desired b \<and> b \<noteq> 24" for b
    unfolding bits_def and_const_bit by (auto simp: bit_and_not sec_const_bits)
  have nm: "\<not> bit desired 25" using assms(3) and_const_bit(3) by blast
  show ?thesis
  proof (cases "?ss \<and> \<not> ?priv")
    case True
    then show ?thesis
      using nm statuses_differ
      by (auto simp: sec_access_check_def and_const_bit access_spec_def)
  next
    case False
    have run: "sec_access_check sd t desired =
        (if sd_type sd AND SEC_DESC_DACL_PRESENT = 0 then Some (NT_STATUS_OK, desired)
         else case dacl sd of None \<Rightarrow> Some (NT_STATUS_ACCESS_DENIED, desired)
         | Some acl \<Rightarrow> if acl_num_aces acl = 0 then Some (NT_STATUS_ACCESS_DENIED, desired)
             else map_option (\<lambda>st. (st, desired)) (access_check_dacl sd t acl bits))"
      using False nm unfolding sec_access_check_def bits_def and_const_bit by (auto simp: Let_def)
    show ?thesis
    proof (cases "dacl sd")
      case None
      then show ?thesis using False statuses_differ unfolding run access_spec_def by auto
    next
      case (Some acl)
      then have "acl_ok acl" "ptr_ok (owner_sid sd)" using assms(2) by (simp_all add: sd_ok_def)
      then show ?thesis
        using False Some statuses_differ access_check_dacl_ok [OF assms(1), of acl sd bits]
        unfolding run access_spec_def b by auto
    qed
  qed
qed


section \<open>The maximum allowed\<close>

lemma max_allowed_loop_ok:
  assumes "token_ok t" "i + k \<le> length aces" "list_all (\<lambda>a. sid_ok (ace_trustee a)) (take k (drop i aces))"
  shows "\<exists>g' d'. max_allowed_loop t aces i k g d = Some (g', d') \<and>
     (\<forall>b. bit g' b \<longleftrightarrow> bit g b \<or> (\<exists>a\<in>set (take k (drop i aces)). in_force t a \<and> is_allow a \<and> bit (ace_access_mask a) b)) \<and>
     (\<forall>b. bit d' b \<longleftrightarrow> bit d b \<or> (\<exists>a\<in>set (take k (drop i aces)). in_force t a \<and> is_deny a \<and> bit (ace_access_mask a) b))"
  using assms(2,3)
proof (induction k arbitrary: i g d)
  case (Suc k)
  let ?a = "aces ! i" and ?m = "ace_access_mask (aces ! i)"
  have d: "drop i aces = ?a # drop (Suc i) aces" using Suc.prems by (simp add: Cons_nth_drop_Suc)
  have ap: "ace_applies t ?a = Some (in_force t ?a)"
    using Suc.prems d by (intro ace_applies_ok [OF assms(1)]) simp
  have fe: "fetch aces i = Some ?a" using Suc.prems by simp
  let ?g = "if in_force t ?a \<and> is_allow ?a then g OR ?m else g"
  let ?d = "if in_force t ?a \<and> is_deny ?a then d OR ?m else d"
  have "max_allowed_loop t aces i (Suc k) g d = max_allowed_loop t aces (Suc i) k ?g ?d"
    using fe ap allow_not_deny [of ?a] by auto
  moreover obtain g' d' where "max_allowed_loop t aces (Suc i) k ?g ?d = Some (g', d')"
    "\<forall>b. bit g' b \<longleftrightarrow> bit ?g b \<or> (\<exists>a\<in>set (take k (drop (Suc i) aces)). in_force t a \<and> is_allow a \<and> bit (ace_access_mask a) b)"
    "\<forall>b. bit d' b \<longleftrightarrow> bit ?d b \<or> (\<exists>a\<in>set (take k (drop (Suc i) aces)). in_force t a \<and> is_deny a \<and> bit (ace_access_mask a) b)"
    using Suc.IH [of "Suc i" ?g ?d] Suc.prems d by auto
  ultimately show ?case by (auto simp: d bit_or_iff)
qed simp

lemma first_decision_allow:
  assumes "a \<in> set as" "in_force t a" "is_allow a" "bit (ace_access_mask a) b"
    and "\<And>a. a \<in> set as \<Longrightarrow> in_force t a \<Longrightarrow> is_deny a \<Longrightarrow> \<not> bit (ace_access_mask a) b"
  shows "first_decision t as b = Some True"
  using assms(1,5)
proof (induction as)
  case (Cons x as)
  then show ?case using assms(2-4) by (cases "in_force t x \<and> bit (ace_access_mask x) b \<and> (is_allow x \<or> is_deny x)") auto
qed simp

text \<open>The rights the owner or a privilege has before the list is read.\<close>

lemma max_allowed_bits:
  assumes "token_ok t" "sd_ok sd" "dacl sd = Some acl"
  shows "\<exists>m. access_check_max_allowed sd t = Some m \<and>
     (\<forall>b. bit m b \<longleftrightarrow>
        (implied_right sd t b \<or> (\<exists>a\<in>set (entries acl). in_force t a \<and> is_allow a \<and> bit (ace_access_mask a) b)) \<and>
        \<not> (\<exists>a\<in>set (entries acl). in_force t a \<and> is_deny a \<and> bit (ace_access_mask a) b))"
proof -
  let ?g0 = "if holds t (owner_sid sd) then SEC_STD_WRITE_DAC OR SEC_STD_READ_CONTROL OR SEC_STD_DELETE
     else if security_token_has_privilege t SEC_PRIV_RESTORE then SEC_STD_DELETE else 0"
  have g0: "bit ?g0 b \<longleftrightarrow> implied_right sd t b" for b
    by (auto simp: implied_right_def bit_or_iff sec_const_bits)
  have "ptr_ok (owner_sid sd)" "acl_ok acl" using assms(2,3) by (simp_all add: sd_ok_def)
  then obtain g' d' where "max_allowed_loop t (acl_aces acl) 0 (unat (acl_num_aces acl)) ?g0 0 = Some (g', d')"
    "\<forall>b. bit g' b \<longleftrightarrow> bit ?g0 b \<or> (\<exists>a\<in>set (entries acl). in_force t a \<and> is_allow a \<and> bit (ace_access_mask a) b)"
    "\<forall>b. bit d' b \<longleftrightarrow> (\<exists>a\<in>set (entries acl). in_force t a \<and> is_deny a \<and> bit (ace_access_mask a) b)"
    using max_allowed_loop_ok [OF assms(1), of 0 "unat (acl_num_aces acl)" "acl_aces acl" ?g0 0]
    by (auto simp: acl_ok_def)
  moreover have "security_token_has_sid t (owner_sid sd) = Some (holds t (owner_sid sd))"
    using has_sid_ok [OF assms(1)] \<open>ptr_ok (owner_sid sd)\<close> by blast
  ultimately show ?thesis
    unfolding g0 by (auto simp: access_check_max_allowed_def assms(3) Let_def bit_and_not)
qed


section \<open>Editing a list\<close>

lemma dup_subs_ok:
  assumes "sid_ok s" shows "\<exists>s'. dup_subs s = Some s' \<and> sid_ok s' \<and> sid_val s' = sid_val s"
  using assms by (auto simp: dup_subs_def sid_ok_def sid_val_def)

definition names :: "dom_sid option \<Rightarrow> security_ace \<Rightarrow> bool" where
  "names t a \<longleftrightarrow> map_option sid_val t = Some (sid_val (ace_trustee a))"

lemma find_trustee_ok:
  assumes "ptr_ok t" "i + k \<le> length aces" "list_all (\<lambda>a. sid_ok (ace_trustee a)) (take k (drop i aces))"
  shows "find_trustee t aces i k =
     Some (if \<exists>a\<in>set (take k (drop i aces)). names t a
           then Some (i + length (takeWhile (\<lambda>a. \<not> names t a) (take k (drop i aces)))) else None)"
  using assms(2,3)
proof (induction k arbitrary: i)
  case (Suc k)
  let ?a = "aces ! i"
  have d: "drop i aces = ?a # drop (Suc i) aces" using Suc.prems by (simp add: Cons_nth_drop_Suc)
  then have "dom_sid_equal t (Some (ace_trustee ?a)) = Some (names t ?a)"
    using Suc.prems unfolding names_def by (subst dom_sid_equal_ptr [OF assms(1)]) (simp_all add: ptr_ok_def)
  then show ?case using Suc d by simp
qed simp

lemma dacl_add_ok:
  assumes "dacl sd = Some acl" "acl_ok acl" "unat (acl_num_aces acl) + 1 < MAX_TALLOC_SIZE div sizeof_ace"
    and "sid_ok (ace_trustee ace)"
  shows "\<exists>sd' acl' a. security_descriptor_dacl_add sd ace = Some (NT_STATUS_OK, sd') \<and> dacl sd' = Some acl' \<and>
     acl_ok acl' \<and> entries acl' = entries acl @ [a] \<and> sid_val (ace_trustee a) = sid_val (ace_trustee ace) \<and>
     ace_access_mask a = ace_access_mask ace \<and> ace_type a = ace_type ace \<and> ace_flags a = ace_flags ace \<and>
     sd_type sd' AND SEC_DESC_DACL_PRESENT \<noteq> 0 \<and> owner_sid sd' = owner_sid sd"
proof -
  have n: "unat (acl_num_aces acl + 1) = unat (acl_num_aces acl) + 1"
    using assms(3) by (simp add: unat_add_no_wrap MAX_TALLOC_SIZE_def sizeof_ace_def)
  obtain s where s: "dup_subs (ace_trustee ace) = Some s" "sid_ok s" "sid_val s = sid_val (ace_trustee ace)"
    using dup_subs_ok [OF assms(4)] by blast
  have len: "unat (acl_num_aces acl) \<le> length (acl_aces acl)" using assms(2) by (simp add: acl_ok_def)
  have p2: "SEC_DESC_DACL_PRESENT = push_bit 2 1" by (simp add: SEC_DESC_DACL_PRESENT_def)
  have "bit SEC_DESC_DACL_PRESENT 2" unfolding p2 bit_push_bit_iff by (simp add: possible_bit_word)
  then have pres: "(x OR SEC_DESC_DACL_PRESENT) AND SEC_DESC_DACL_PRESENT \<noteq> 0" for x :: u16
    unfolding zero_bits bit_and_iff bit_or_iff by blast
  let ?acl = "acl\<lparr>acl_aces := entries acl @ [ace\<lparr>ace_trustee := s\<rparr>], acl_num_aces := acl_num_aces acl + 1\<rparr>"
  let ?sd = "sd\<lparr>dacl := Some ?acl, sd_type := sd_type sd OR SEC_DESC_DACL_PRESENT\<rparr>"
  have "\<not> (unat (acl_num_aces acl + 1) = 0 \<or> MAX_TALLOC_SIZE div sizeof_ace \<le> unat (acl_num_aces acl + 1))"
    "\<not> length (acl_aces acl) < unat (acl_num_aces acl)" "\<not> sint (num_auths (ace_trustee ace)) < 0"
    using n assms(3,4) len by (simp_all add: sid_ok_def)
  then have "security_descriptor_dacl_add sd ace = Some (NT_STATUS_OK, ?sd)"
    unfolding security_descriptor_dacl_add_def assms(1) Let_def by (simp add: s(1))
  moreover have "acl_ok ?acl" using assms(2) s(2) n len by (auto simp: acl_ok_def)
  moreover have "entries ?acl = entries acl @ [ace\<lparr>ace_trustee := s\<rparr>]" using n len by simp
  ultimately show ?thesis using s(3) pres by auto
qed

lemma remove_first:
  assumes "\<exists>a\<in>set es. P a"
  shows "take (length (takeWhile (\<lambda>a. \<not> P a) es)) es @ drop (Suc (length (takeWhile (\<lambda>a. \<not> P a) es))) es =
     takeWhile (\<lambda>a. \<not> P a) es @ tl (dropWhile (\<lambda>a. \<not> P a) es)"
  by (metis drop_Suc dropWhile_eq_drop takeWhile_eq_take tl_drop)

lemma takeWhile_shorter: "\<exists>a\<in>set xs. P a \<Longrightarrow> length (takeWhile (\<lambda>a. \<not> P a) xs) < length xs"
  by (induction xs) auto

lemma dacl_del_ok:
  assumes "dacl sd = Some acl" "acl_ok acl" "ptr_ok t"
  shows "if \<exists>a\<in>set (entries acl). names t a
     then \<exists>acl'. security_descriptor_dacl_del sd t = Some (NT_STATUS_OK, sd\<lparr>dacl := Some acl'\<rparr>) \<and>
            entries acl' = takeWhile (\<lambda>a. \<not> names t a) (entries acl) @ tl (dropWhile (\<lambda>a. \<not> names t a) (entries acl))
     else security_descriptor_dacl_del sd t = Some (NT_STATUS_OBJECT_NAME_NOT_FOUND, sd)"
proof -
  let ?n = "unat (acl_num_aces acl)" and ?es = "entries acl"
  let ?i = "length (takeWhile (\<lambda>a. \<not> names t a) ?es)"
  have len: "?n \<le> length (acl_aces acl)" "list_all (\<lambda>a. sid_ok (ace_trustee a)) ?es"
    using assms(2) by (simp_all add: acl_ok_def)
  have f: "find_trustee t (acl_aces acl) 0 ?n = Some (if \<exists>a\<in>set ?es. names t a then Some ?i else None)"
    using find_trustee_ok [OF assms(3), of 0 ?n "acl_aces acl"] len by simp
  show ?thesis
  proof (cases "\<exists>a\<in>set ?es. names t a")
    case True
    then have i: "?i < length ?es" by (rule takeWhile_shorter)
    then have n: "?i < ?n" using len(1) by simp
    then have u: "unat (acl_num_aces acl - 1) = ?n - 1"
      by (subst unat_sub_le) (auto simp: word_le_nat_alt)
    define new where "new = take ?i (acl_aces acl) @ drop (Suc ?i) ?es"
    let ?acl = "acl\<lparr>acl_aces := new, acl_num_aces := acl_num_aces acl - 1\<rparr>"
    have "length new = ?n - 1" using n len(1) by (simp add: new_def)
    then have "entries ?acl = new" using u by simp
    moreover have "new = takeWhile (\<lambda>a. \<not> names t a) ?es @ tl (dropWhile (\<lambda>a. \<not> names t a) ?es)"
      using remove_first [OF True] n unfolding new_def by simp
    moreover have "security_descriptor_dacl_del sd t = Some (NT_STATUS_OK, sd\<lparr>dacl := Some ?acl\<rparr>)"
      using True f len(1) by (simp add: security_descriptor_dacl_del_def assms(1) Let_def new_def)
    ultimately show ?thesis using True by metis
  next
    case False
    then show ?thesis using f by (simp add: security_descriptor_dacl_del_def assms(1) Let_def)
  qed
qed


section \<open>Properties\<close>


definition admin_token :: security_token where
  "admin_token = \<lparr>user_sid = Some sid_admins, token_group_sid = None, num_sids = 1, sids = [Some sid_admins], privilege_mask = 0\<rparr>"

definition admin_ace :: "u8 \<Rightarrow> u32 \<Rightarrow> security_ace" where
  "admin_ace ty m = \<lparr>ace_type = ty, ace_flags = 0, ace_size = 24, ace_access_mask = m, ace_object = [], ace_trustee = sid_admins\<rparr>"

definition admin_sd :: security_descriptor where
  "admin_sd = \<lparr>sd_revision = 1, sd_type = 0x8004, owner_sid = None, group_sid = None, sacl = None,
     dacl = Some \<lparr>acl_revision = 2, acl_size = 56, acl_num_aces = 2, acl_aces = [admin_ace 0 3, admin_ace 1 6]\<rparr>\<rparr>"

lemma admin_ok: "token_ok admin_token" "sd_ok admin_sd"
  by (simp_all add: token_ok_def admin_token_def sd_ok_def admin_sd_def acl_ok_def admin_ace_def ptr_ok_def
      sid_ok_def sid_admins_def)





text \<open>C37: a copy made by \<open>security_descriptor_copy\<close> loses the revision and the type bits, so it has no list in the sense of
  the access check, and every right is granted on it.\<close>

theorem descriptor_copy_opens_access:
  assumes "security_descriptor_copy osd = Some (Some nsd)"
    and "desired AND SEC_FLAG_MAXIMUM_ALLOWED = 0" "desired AND SEC_FLAG_SYSTEM_SECURITY = 0"
  shows "sd_type nsd = 0 \<and> sd_revision nsd = 0 \<and> sec_access_check nsd t desired = Some (NT_STATUS_OK, desired)"
proof -
  have "sd_type nsd = 0" "sd_revision nsd = 0"
    using assms(1) by (auto simp: security_descriptor_copy_def Let_def bind_eq_Some_conv split: option.splits)
  then show ?thesis using assms(2,3) by (simp add: sec_access_check_def)
qed

theorem descriptor_copy_opens_access_witness:
  "\<exists>nsd. security_descriptor_copy admin_sd = Some (Some nsd) \<and>
     sec_access_check admin_sd admin_token 4 = Some (NT_STATUS_ACCESS_DENIED, 4) \<and>
     sec_access_check nsd admin_token 4 = Some (NT_STATUS_OK, 4)"
proof -
  have "dup_aces [admin_ace 0 3, admin_ace 1 6] 2 = Some [admin_ace 0 3, admin_ace 1 6]"
    by (simp add: numeral_2_eq_2 dup_subs_def admin_ace_def sid_admins_def)
  then obtain nsd where nsd: "security_descriptor_copy admin_sd = Some (Some nsd)"
    by (simp add: security_descriptor_copy_def Let_def copy_ptr_def admin_sd_def security_acl_dup_def
        sizeof_ace_def MAX_TALLOC_SIZE_def)
  moreover have "sec_access_check admin_sd admin_token 4 = Some (NT_STATUS_ACCESS_DENIED, 4)" by code_simp
  ultimately show ?thesis
    using descriptor_copy_opens_access [OF nsd, of 4 admin_token] by (simp add: sec_consts)
qed

text \<open>A request for the maximum allowed on a descriptor without a list reads through the null pointer before the
  test that would have granted the access.\<close>

theorem max_allowed_null_dacl:
  assumes "dacl sd = None" "desired AND SEC_FLAG_MAXIMUM_ALLOWED \<noteq> 0"
  shows "sec_access_check sd t desired = None"
  using assms by (simp add: sec_access_check_def access_check_max_allowed_def Let_def)

theorem max_allowed_null_dacl_witness:
  "sec_access_check security_descriptor_initialise admin_token SEC_FLAG_MAXIMUM_ALLOWED = None"
  by (rule max_allowed_null_dacl) (simp_all add: security_descriptor_initialise_def SEC_FLAG_MAXIMUM_ALLOWED_def)

text \<open>Adding an entry appends it to a well-formed list and marks the list present; deleting by trustee removes the
  first entry for the trustee and keeps the order of the others, or reports that there is none.\<close>

theorem dacl_edit:
  assumes "dacl sd = Some acl" "acl_ok acl" "unat (acl_num_aces acl) + 1 < MAX_TALLOC_SIZE div sizeof_ace"
    and "sid_ok (ace_trustee ace)" "ptr_ok trustee"
  shows "(\<exists>sd' acl' a. security_descriptor_dacl_add sd ace = Some (NT_STATUS_OK, sd') \<and> dacl sd' = Some acl' \<and>
            acl_ok acl' \<and> entries acl' = entries acl @ [a] \<and> sid_val (ace_trustee a) = sid_val (ace_trustee ace) \<and>
            sd_type sd' AND SEC_DESC_DACL_PRESENT \<noteq> 0) \<and>
     (if \<exists>a\<in>set (entries acl). names trustee a
      then \<exists>acl'. security_descriptor_dacl_del sd trustee = Some (NT_STATUS_OK, sd\<lparr>dacl := Some acl'\<rparr>) \<and>
             entries acl' = takeWhile (\<lambda>a. \<not> names trustee a) (entries acl) @ tl (dropWhile (\<lambda>a. \<not> names trustee a) (entries acl))
      else security_descriptor_dacl_del sd trustee = Some (NT_STATUS_OBJECT_NAME_NOT_FOUND, sd))"
  using dacl_add_ok [OF assms(1-4)] dacl_del_ok [OF assms(1,2,5)] by blast

theorem dacl_edit_witness:
  "\<exists>acl'. security_descriptor_dacl_del admin_sd (Some sid_admins) = Some (NT_STATUS_OK, admin_sd\<lparr>dacl := Some acl'\<rparr>) \<and>
     entries acl' = [admin_ace 1 6]"
proof -
  have 1: "dacl admin_sd = Some \<lparr>acl_revision = 2, acl_size = 56, acl_num_aces = 2, acl_aces = [admin_ace 0 3, admin_ace 1 6]\<rparr>"
    by (simp add: admin_sd_def)
  have 2: "acl_ok \<lparr>acl_revision = 2, acl_size = 56, acl_num_aces = 2, acl_aces = [admin_ace 0 3, admin_ace 1 6]\<rparr>"
    using admin_ok(2) by (simp add: sd_ok_def 1)
  have 3: "sid_ok sid_admins" by (simp add: sid_ok_def sid_admins_def)
  have t: "ace_trustee (admin_ace a b) = sid_admins" for a b by (simp add: admin_ace_def)
  show ?thesis
    using dacl_edit [OF 1 2, of "admin_ace 0 3" "Some sid_admins"] 3
    by (simp add: t names_def ptr_ok_def MAX_TALLOC_SIZE_def sizeof_ace_def)
qed

text \<open>Setting a privilege adds exactly that privilege to a token.\<close>

theorem set_privilege_exact:
  assumes "1 \<le> p" "p \<le> 64"
  shows "security_token_has_privilege (security_token_set_privilege t p) q \<longleftrightarrow>
     q = p \<or> security_token_has_privilege t q"
proof -
  have b: "bit (sec_privilege_mask r) k \<longleftrightarrow> k = unat (r - 1)" if "1 \<le> r" "r \<le> 64" for r k
  proof -
    have "unat (r - 1) < 64" using that by (simp add: unat_sub_le word_le_nat_alt)
    then show ?thesis
      using that by (auto simp: sec_privilege_mask_def bit_exp_iff possible_bit_word not_less)
  qed
  have range: "q < 1 \<or> q > 64 \<longleftrightarrow> \<not> (1 \<le> q \<and> q \<le> 64)" "\<not> (p < 1 \<or> p > 64)"
    using assms by (auto simp: word_le_nat_alt word_less_nat_alt)
  have inj: "unat (q - 1) = unat (p - 1) \<longleftrightarrow> q = p" by (simp add: word_unat_eq_iff [symmetric])
  show ?thesis
    using b [OF assms] b [of q] assms inj unfolding security_token_has_privilege_def security_token_set_privilege_def range
    by (auto simp: and_nonzero_bit bit_or_iff)
qed

theorem set_privilege_exact_witness:
  "security_token_has_privilege (security_token_set_privilege security_token_initialise 64) 64"
  using set_privilege_exact [of 64 security_token_initialise 64] by simp


text \<open>The table of privileges is consistent: names are unique up to case, and the id of the name of a privilege is
  the privilege.\<close>

theorem privilege_table_roundtrip:
  "distinct (map (\<lambda>(_, n, _). map lower n) privilege_names) \<and>
   list_all (\<lambda>(p, n, _). sec_privilege_name p = Some n \<and> sec_privilege_id n = p \<and> 1 \<le> p \<and> p \<le> 64) privilege_names"
  by code_simp

end
