(* ===== verification/NdrSec.thy ===== *)
theory NdrSec
  imports NdrCore Security
begin

text \<open>
  The hand-written marshalling of identifiers in \<open>librpc/ndr/ndr_sec_helper.c\<close>.  The functions
  \<open>ndr_push_dom_sid\<close> and \<open>ndr_pull_dom_sid\<close> are generated from \<open>librpc/idl/security.idl\<close> and are
  arguments; what is relied on is that they are a codec (\<open>ndr_codec\<close>) whose encoding of an
  identifier with at most five sub-authorities fits in 28 bytes.
\<close>

type_synonym push_sid_fn = "nat \<Rightarrow> dom_sid \<Rightarrow> (ndr_push, unit) comp"
type_synonym pull_sid_fn = "nat \<Rightarrow> (ndr_pull, dom_sid) comp"

text \<open>In the comparison and in the call, \<open>int8_t num_auths\<close> is converted to \<open>uint32_t\<close> with its sign.\<close>

definition ndr_pull_dom_sid2 :: "pull_sid_fn \<Rightarrow> nat \<Rightarrow> dom_sid \<Rightarrow> (ndr_pull, dom_sid) comp" where
  "ndr_pull_dom_sid2 ndr_pull_dom_sid ndr_flags sid =
     (if ndr_flags AND NDR_SCALARS = 0 then nreturn sid
      else nbind ndr_pull_uint32 (\<lambda>num.
           nbind (ndr_pull_dom_sid ndr_flags) (\<lambda>sid.
             if scast (num_auths sid) \<noteq> num then ndr_pull_error NDR_ERR_ARRAY_SIZE else nreturn sid)))"

definition ndr_push_dom_sid2 :: "push_sid_fn \<Rightarrow> nat \<Rightarrow> dom_sid \<Rightarrow> (ndr_push, unit) comp" where
  "ndr_push_dom_sid2 ndr_push_dom_sid ndr_flags sid =
     (if ndr_flags AND NDR_SCALARS = 0 then nreturn ()
      else nthen (ndr_push_uint32 (scast (num_auths sid))) (ndr_push_dom_sid ndr_flags sid))"

definition zero_sid :: dom_sid where
  "zero_sid = \<lparr>sid_rev_num = 0, num_auths = 0, id_auth = replicate 6 0, sub_auths = []\<rparr>"

text \<open>A failure of the inner parser is forgiven: the identifier is zeroed.\<close>

definition ndr_pull_dom_sid28 :: "pull_sid_fn \<Rightarrow> nat \<Rightarrow> dom_sid \<Rightarrow> (ndr_pull, dom_sid) comp" where
  "ndr_pull_dom_sid28 ndr_pull_dom_sid ndr_flags sid =
     (if ndr_flags AND NDR_SCALARS = 0 then nreturn sid
      else nbind (nget (sub_ctx 28)) (\<lambda>subndr.
           nthen (ndr_pull_advance 28) (\<lambda>ndr.
             case ndr_pull_dom_sid ndr_flags subndr of
               Inl Fault \<Rightarrow> Inl Fault
             | Inl (Status _) \<Rightarrow> Inr (zero_sid, ndr)
             | Inr (sid, _) \<Rightarrow> Inr (sid, ndr))))"

definition ndr_push_dom_sid28 :: "push_sid_fn \<Rightarrow> nat \<Rightarrow> dom_sid \<Rightarrow> (ndr_push, unit) comp" where
  "ndr_push_dom_sid28 ndr_push_dom_sid ndr_flags sid =
     (if ndr_flags AND NDR_SCALARS = 0 then nreturn ()
      else if sint (num_auths sid) > 5 then ndr_push_error NDR_ERR_RANGE
      else nbind (nget ps_offset) (\<lambda>old_offset.
           nthen (ndr_push_dom_sid ndr_flags sid)
          (nbind (nget ps_offset) (\<lambda>ofs.
             let padding = 28 - (ofs - old_offset)
             in if padding > 0 then ndr_push_zero padding else nreturn ()))))"

definition ndr_size_dom_sid28 :: "dom_sid option \<Rightarrow> int" where
  "ndr_size_dom_sid28 sid =
     (case sid of None \<Rightarrow> 0 | Some s \<Rightarrow> if s = zero_sid then 0 else 8 + 4 * sint (num_auths s))"

section \<open>The fixed buffer\<close>

lemma dom_sid28_safe:
  assumes "pull_safe (pull_sid fl)" shows "pull_safe (ndr_pull_dom_sid28 pull_sid fl sid)"
proof (cases "fl AND NDR_SCALARS = 0")
  case True
  then show ?thesis by (simp add: ndr_pull_dom_sid28_def keeps_return)
next
  case False
  let ?k = "\<lambda>subndr ndr. case pull_sid fl subndr of Inl Fault \<Rightarrow> Inl Fault
      | Inl (Status _) \<Rightarrow> Inr (zero_sid, ndr) | Inr (s, _) \<Rightarrow> Inr (s, ndr)"
  have run: "ndr_pull_dom_sid28 pull_sid fl sid q = nthen (ndr_pull_advance 28) (?k (sub_ctx 28 q)) q" for q
    using False by (simp add: ndr_pull_dom_sid28_def nbind_def nget_def)
  show ?thesis
  proof (rule keepsI)
    fix q assume q: "pull_ok q"
    have sub: "pull_ok (sub_ctx 28 q) \<and> unat (28 :: u32) \<le> length (unread q)" if "ndr_pull_advance 28 q = Inr ((), q1)" for q1
    proof -
      have "pl_offset q + 28 \<le> pl_data_size q"
        using that by (auto simp: ndr_pull_advance_def comp_defs split: if_splits)
      moreover have "unat (pl_offset q + 28) = unat (pl_offset q) + 28"
        using pull_okD [OF q] by (simp add: unat_add_no_wrap)
      ultimately have "unat (28 :: u32) \<le> length (unread q)"
        using length_unread [OF q] by (simp add: word_le_nat_alt)
      then show ?thesis using sub_ctx_ok(1) [OF q] by simp
    qed
    show "ndr_pull_dom_sid28 pull_sid fl sid q \<noteq> Inl Fault"
      unfolding run nthen_def nbind_def
      using sub keeps_no_fault [OF assms, of "sub_ctx 28 q"] keeps_no_fault [OF advance_safe q, of 28]
      by (auto split: sum.splits failure.splits)
    fix v q' assume "ndr_pull_dom_sid28 pull_sid fl sid q = Inr (v, q')"
    then obtain s where s: "ndr_pull_advance 28 q = Inr ((), s)" "?k (sub_ctx 28 q) s = Inr (v, q')"
      unfolding run nthen_eq_Inr by auto
    then have "s = q'"
      by (cases "pull_sid fl (sub_ctx 28 q)") (auto split: failure.splits prod.splits)
    with s(1) have "ndr_pull_advance 28 q = Inr ((), q')" by simp
    then show "pull_ok q' \<and> pull_frame q q'" by (rule keeps_post [OF advance_safe q])
  qed
qed

text \<open>Below the size limit, reading the buffer succeeds exactly when 28 bytes are there.\<close>

lemma pull_dom_sid28_run:
  assumes safe: "pull_safe (pull_sid fl)" and fl: "fl AND NDR_SCALARS \<noteq> 0"
    and q: "pull_ok q" and n: "28 \<le> length (unread q)"
  shows "\<exists>s. ndr_pull_dom_sid28 pull_sid fl sid q = Inr (s, adv 28 q) \<and>
     (case pull_sid fl (sub_ctx 28 q) of Inr (v, _) \<Rightarrow> s = v | Inl _ \<Rightarrow> s = zero_sid)"
proof -
  have "ndr_pull_advance 28 q = Inr ((), adv 28 q)" using advance_run [OF q n] by simp
  moreover have "pull_sid fl (sub_ctx 28 q) \<noteq> Inl Fault"
    using keeps_no_fault [OF safe sub_ctx_ok(1) [OF q]] n by simp
  ultimately show ?thesis
    using fl by (auto simp: ndr_pull_dom_sid28_def nget_def nbind_def nthen_def split: sum.splits failure.splits)
qed

lemma pull_dom_sid28_short:
  assumes fl: "fl AND NDR_SCALARS \<noteq> 0" and q: "pull_ok q" and n: "length (unread q) < 28"
  shows "ndr_pull_dom_sid28 pull_sid fl sid q = Inl (Status NT_STATUS_BUFFER_TOO_SMALL)"
proof -
  have "unat (pl_offset q + 28) = unat (pl_offset q) + 28"
    using pull_okD [OF q] by (simp add: unat_add_no_wrap)
  then have "pl_data_size q < pl_offset q + 28"
    using n length_unread [OF q] by (simp add: word_less_nat_alt)
  then show ?thesis
    using fl by (simp add: ndr_pull_dom_sid28_def ndr_pull_advance_def nget_def nbind_def nthen_def nmodify_def
        ncheck_def)
qed

definition sid28_bytes :: "u8 list \<Rightarrow> u8 list" where
  "sid28_bytes bs = bs @ replicate (28 - length bs) 0"

lemma push_dom_sid28_at:
  assumes e: "push_at bs (push_sid fl s) p" and fl: "fl AND NDR_SCALARS \<noteq> 0"
    and s: "sint (num_auths s) \<le> 5" and p: "push_ok p" and l: "length bs \<le> 28"
  shows "push_at (sid28_bytes bs) (ndr_push_dom_sid28 push_sid fl s) p"
proof -
  let ?pad = "\<lambda>p1. let padding = 28 - (ps_offset p1 - ps_offset p)
              in if padding > 0 then ndr_push_zero padding p1 else Inr ((), p1)"
  have "push_at (bs @ replicate (28 - length bs) 0) (nthen (push_sid fl s) ?pad) p"
  proof (rule push_at_then [OF p e])
    fix p1 assume p1: "pushes bs p p1"
    have "ps_offset p1 - ps_offset p = of_nat (length bs)"
      using pushes_offset [OF p p1] l unat_of_nat_small [of "length bs", where 'a = 32]
      by (simp add: word_unat_eq_iff unat_sub_if')
    moreover have "28 - of_nat (length bs) = (of_nat (28 - length bs) :: u32)" using l by (simp add: of_nat_diff)
    ultimately have d: "28 - (ps_offset p1 - ps_offset p) = of_nat (28 - length bs)" by simp
    have u: "unat (of_nat (28 - length bs) :: u32) = 28 - length bs" by (rule unat_of_nat_small) simp
    show "push_at (replicate (28 - length bs) 0) ?pad p1"
    proof (cases "length bs = 28")
      case True
      then show ?thesis using d pushes_refl [OF pushes_ok [OF p1]] by (simp add: push_at_def)
    next
      case False
      then have "(0 :: u32) < of_nat (28 - length bs)" using l u by (simp add: word_less_nat_alt)
      then show ?thesis
        using push_specD [OF push_zero_spec pushes_ok [OF p1], of "of_nat (28 - length bs)"] u
        by (simp add: d push_at_def Let_def)
    qed
  qed
  moreover have "ndr_push_dom_sid28 push_sid fl s p = nthen (push_sid fl s) ?pad p"
    using fl s by (auto simp: ndr_push_dom_sid28_def nbind_def nthen_def nget_def Let_def nreturn_def split: sum.splits)
  ultimately show ?thesis by (simp add: push_at_def sid28_bytes_def)
qed


section \<open>Round trips\<close>

text \<open>What is relied on of the generated functions for identifiers that go into the fixed buffer.\<close>

definition sid_codec28 ::
  "(dom_sid \<Rightarrow> bool) \<Rightarrow> push_sid_fn \<Rightarrow> pull_sid_fn \<Rightarrow> (dom_sid \<Rightarrow> encoding) \<Rightarrow> nat \<Rightarrow> bool" where
  "sid_codec28 valid push_sid pull_sid enc fl \<longleftrightarrow>
     ndr_codec valid (push_sid fl) (pull_sid fl) enc \<and>
     (\<forall>s f ofs. valid s \<longrightarrow> 4 dvd ofs \<longrightarrow> enc s f ofs = enc s f 0) \<and>
     (\<forall>s f. valid s \<longrightarrow> sint (num_auths s) \<le> 5 \<longrightarrow> length (enc s f 0) \<le> 28)"

lemma push_dom_sid28_codec:
  assumes c: "sid_codec28 valid push_sid pull_sid enc fl" and fl: "fl AND NDR_SCALARS \<noteq> 0"
    and v: "valid s" "sint (num_auths s) \<le> 5" and p: "push_ok p" "4 dvd unat (ps_offset p)"
  shows "push_at (sid28_bytes (enc s (ps_flags p) 0)) (ndr_push_dom_sid28 push_sid fl s) p"
    "length (enc s (ps_flags p) 0) \<le> 28"
proof -
  let ?e = "enc s (ps_flags p) 0"
  have codec: "ndr_codec valid (push_sid fl) (pull_sid fl) enc"
    and al: "enc s (ps_flags p) (unat (ps_offset p)) = ?e" and l: "length ?e \<le> 28"
    using c v p(2) unfolding sid_codec28_def by blast+
  have "push_at ?e (push_sid fl s) p"
    using push_specD [OF ndr_codec.push_enc [OF codec v(1)] p(1)] al by simp
  then show "push_at (sid28_bytes ?e) (ndr_push_dom_sid28 push_sid fl s) p"
    using fl v(2) p(1) l by (rule push_dom_sid28_at)
  from l show "length ?e \<le> 28" .
qed

lemma pushes_28:
  assumes "push_ok p" "pushes (sid28_bytes bs) p p'" "length bs \<le> 28"
  shows "ps_offset p' = ps_offset p + 28"
  using pushes_offset [OF assms(1,2)] assms(3) push_okD [OF pushes_ok [OF assms(2)]]
  by (simp add: word_unat_eq_iff unat_add_no_wrap sid28_bytes_def)

lemma pull_dom_sid28_codec:
  assumes c: "sid_codec28 valid push_sid pull_sid enc fl" and fl: "fl AND NDR_SCALARS \<noteq> 0"
    and v: "valid s" and l: "length (enc s (ps_flags p) 0) \<le> 28"
    and push: "pushes (sid28_bytes (enc s (ps_flags p) 0)) p p'" and p: "push_ok p"
    and q: "pull_ok q" "pl_flags q = ps_flags p" "pl_offset q = ps_offset p"
      "prefix (written p') (take (unat (pl_data_size q)) (pl_data q))"
  shows "ndr_pull_dom_sid28 pull_sid fl sid q = Inr (s, adv 28 q)"
proof -
  let ?e = "enc s (ps_flags p) 0"
  have codec: "ndr_codec valid (push_sid fl) (pull_sid fl) enc" using c by (simp add: sid_codec28_def)
  have len: "length (sid28_bytes ?e) = 28" using l by (simp add: sid28_bytes_def)
  have pre: "prefix (sid28_bytes ?e) (unread q)"
    using q(4) push length_written [OF p] by (auto simp: prefix_def unread_def q(3) pushes_def)
  then have n: "28 \<le> length (unread q)" using prefix_length_le [OF pre] len by simp
  have "prefix ?e (unread (sub_ctx 28 q))"
    using pre l sub_ctx_ok(2) [OF q(1), of 28] n by (auto simp: prefix_def sid28_bytes_def)
  moreover have "pull_ok (sub_ctx 28 q)" using sub_ctx_ok(1) [OF q(1), of 28] n by simp
  ultimately have "\<exists>r. pull_sid fl (sub_ctx 28 q) = Inr (s, r)"
    using pull_specD [OF ndr_codec.pull_enc [OF codec v], of "sub_ctx 28 q"]
    by (simp add: sub_ctx_def q(2))
  then show "ndr_pull_dom_sid28 pull_sid fl sid q = Inr (s, adv 28 q)"
    using pull_dom_sid28_run [where pull_sid = pull_sid and fl = fl, OF ndr_codec.pull_total [OF codec] fl q(1) n]
    by auto
qed

text \<open>The identifier with its count in front is a codec whenever the identifier alone is one.\<close>

lemma ndr_codec_dom_sid2:
  assumes c: "ndr_codec valid (push_sid fl) (pull_sid fl) enc" and fl: "fl AND NDR_SCALARS \<noteq> 0"
  shows "ndr_codec valid (ndr_push_dom_sid2 push_sid fl) (ndr_pull_dom_sid2 pull_sid fl sid)
           (\<lambda>s. enc_seq (enc32 (scast (num_auths s))) (enc s))"
proof
  fix s assume v: "valid s"
  show "push_spec (enc_seq (enc32 (scast (num_auths s))) (enc s)) (ndr_push_dom_sid2 push_sid fl s)"
    using fl by (simp add: ndr_push_dom_sid2_def push_spec_then push_uint32_spec ndr_codec.push_enc [OF c v])
  have "pull_spec s (enc s) (nbind (pull_sid fl) (\<lambda>t. if scast (num_auths t) \<noteq> (scast (num_auths s) :: u32)
      then ndr_pull_error NDR_ERR_ARRAY_SIZE else nreturn t))"
    by (rule pull_bind_return [OF ndr_codec.pull_enc [OF c v]]) simp
  then show "pull_spec s (enc_seq (enc32 (scast (num_auths s))) (enc s)) (ndr_pull_dom_sid2 pull_sid fl sid)"
    using fl pull_spec_bind [OF pull_uint32_spec] by (simp add: ndr_pull_dom_sid2_def)
next
  show "pull_safe (ndr_pull_dom_sid2 pull_sid fl sid)"
    using fl unfolding ndr_pull_dom_sid2_def
    by (auto intro!: keeps_bind keeps_return pull_uint32_safe ndr_codec.pull_total [OF c] comp_intros)
qed


section \<open>A concrete identifier codec\<close>

text \<open>
  Functions with the layout that \<open>security.idl\<close> declares for \<open>dom_sid\<close>: two bytes, six bytes and
  \<open>num_auths\<close> (0 to 15) words.  They show that the assumptions on the generated functions can hold.
\<close>

definition layout_push_sid :: push_sid_fn where
  "layout_push_sid fl s =
     (if fl AND NDR_SCALARS = 0 then nreturn ()
      else nthen (NDR_PUSH_ALIGN 4) (nthen (ndr_push_uint8 (sid_rev_num s)) (nthen (ndr_push_int8 (num_auths s))
           (nthen (push_list ndr_push_uint8 (id_auth s)) (push_list ndr_push_uint32 (sub_auths s))))))"

definition layout_pull_sid :: pull_sid_fn where
  "layout_pull_sid fl =
     (if fl AND NDR_SCALARS = 0 then nreturn zero_sid
      else nthen (NDR_PULL_ALIGN 4) (nbind ndr_pull_uint8 (\<lambda>r. nbind ndr_pull_int8 (\<lambda>n.
           if sint n < 0 \<or> sint n > 15 then ndr_pull_error NDR_ERR_RANGE
           else nbind (pull_list ndr_pull_uint8 6) (\<lambda>ia. nbind (pull_list ndr_pull_uint32 (nat (sint n))) (\<lambda>sa.
                nreturn \<lparr>sid_rev_num = r, num_auths = n, id_auth = ia, sub_auths = sa\<rparr>))))))"

definition layout_valid :: "dom_sid \<Rightarrow> bool" where
  "layout_valid s \<longleftrightarrow> length (id_auth s) = 6 \<and> 0 \<le> sint (num_auths s) \<and> sint (num_auths s) \<le> 15 \<and>
     length (sub_auths s) = nat (sint (num_auths s))"

definition layout_enc :: "dom_sid \<Rightarrow> encoding" where
  "layout_enc s = enc_seq (enc_pad 4) (enc_seq (\<lambda>_ _. [sid_rev_num s]) (enc_seq (\<lambda>_ _. [num_auths s])
     (enc_seq (enc_list (\<lambda>v _ _. [v]) (id_auth s)) (enc_list enc32 (sub_auths s)))))"

lemma layout_codec: "ndr_codec layout_valid (layout_push_sid NDR_SCALARS) (layout_pull_sid NDR_SCALARS) layout_enc"
proof
  fix s assume v: "layout_valid s"
  have nz: "NDR_SCALARS \<noteq> 0" by (simp add: NDR_SCALARS_def)
  show "push_spec (layout_enc s) (layout_push_sid NDR_SCALARS s)"
    unfolding layout_push_sid_def layout_enc_def using nz
    by (auto intro!: push_spec_then push_align_spec push_uint8_spec push_int8_spec
        c_uint8.list_push_enc c_uint32.list_push_enc simp: list_all_iff)
  let ?n = "num_auths s"
  have words: "pull_spec (sub_auths s) (enc_list enc32 (sub_auths s)) (pull_list ndr_pull_uint32 (nat (sint ?n)))"
    using c_uint32.list_pull_enc [of "sub_auths s"] v by (simp add: layout_valid_def list_all_iff)
  have bytes: "pull_spec (id_auth s) (enc_list (\<lambda>v _ _. [v]) (id_auth s)) (pull_list ndr_pull_uint8 6)"
    using c_uint8.list_pull_enc [of "id_auth s"] v by (simp add: layout_valid_def list_all_iff)
  have "pull_spec s (layout_enc s)
     (nthen (NDR_PULL_ALIGN 4) (nbind ndr_pull_uint8 (\<lambda>r. nbind ndr_pull_int8 (\<lambda>n.
           if sint n < 0 \<or> sint n > 15 then ndr_pull_error NDR_ERR_RANGE
           else nbind (pull_list ndr_pull_uint8 6) (\<lambda>ia. nbind (pull_list ndr_pull_uint32 (nat (sint n))) (\<lambda>sa.
                nreturn \<lparr>sid_rev_num = r, num_auths = n, id_auth = ia, sub_auths = sa\<rparr>))))))"
    unfolding layout_enc_def pull_twins
    apply (rule pull_aligned, simp)
    apply (rule pull_spec_bind [OF pull_uint8_spec])
    apply (rule pull_spec_bind [OF pull_uint8_spec])
    using v apply (simp add: layout_valid_def)
    apply (rule pull_spec_bind [OF bytes])
    apply (rule pull_bind_return [OF words])
    apply (cases s, simp)
    done
  then show "pull_spec s (layout_enc s) (layout_pull_sid NDR_SCALARS)"
    using nz by (simp add: layout_pull_sid_def)
next
  show "pull_safe (layout_pull_sid NDR_SCALARS)"
    unfolding layout_pull_sid_def
    by (auto simp: pull_twins intro!: keeps_then keeps_bind keeps_return pull_align_safe pull_uint8_safe
        c_uint8.list_pull_total c_uint32.list_pull_total comp_intros)
qed

lemma enc_pad_aligned: "4 dvd ofs \<Longrightarrow> enc_pad 4 f ofs = []"
  by (auto simp: enc_pad_def pad_def)

lemma enc_bytes: "enc_list (\<lambda>v _ _. [v]) bs f ofs = bs"
  by (induction bs arbitrary: ofs) (auto simp: enc_seq_def)

lemma enc_words: "4 dvd ofs \<Longrightarrow> enc_list enc32 ws f ofs = concat (map (\<lambda>w. order f (le32 w)) ws)"
proof (induction ws arbitrary: ofs)
  case (Cons w ws)
  have "length (order f (le32 w)) = 4" by (simp add: le32_def)
  with Cons show ?case by (simp add: enc_seq_def enc32_def enc_pad_aligned)
qed simp

lemma layout_enc_aligned:
  assumes "4 dvd ofs" "length (id_auth s) = 6"
  shows "layout_enc s f ofs =
    sid_rev_num s # num_auths s # id_auth s @ concat (map (\<lambda>w. order f (le32 w)) (sub_auths s))"
proof -
  have "4 dvd Suc (Suc (ofs + 6))" using assms(1) by presburger
  then show ?thesis
    using assms by (simp add: layout_enc_def enc_seq_def enc_pad_aligned enc_bytes enc_words add.assoc)
qed

lemma layout_codec28: "sid_codec28 layout_valid layout_push_sid layout_pull_sid layout_enc NDR_SCALARS"
proof -
  have "length (concat (map (\<lambda>w. order f (le32 w)) ws)) = 4 * length ws" for f ws
    by (induction ws) (auto simp: le32_def)
  then show ?thesis
    unfolding sid_codec28_def using layout_codec
    by (auto simp: layout_enc_aligned layout_valid_def)
qed

section \<open>Properties\<close>

text \<open>C31: identifiers in a fixed buffer.  At a 4-aligned offset an identifier with at most five
  sub-authorities takes exactly 28 bytes whatever its length, and the reader gives it back and stops
  behind the 28 bytes; identifiers with more sub-authorities are refused with a range error.  The
  generated functions for the identifier itself are arguments, assumed to be a codec that does not
  depend on the (aligned) position and needs at most 28 bytes for five sub-authorities.
\<close>

theorem dom_sid28_roundtrip:
  assumes "sid_codec28 valid push_sid pull_sid enc fl" "fl AND NDR_SCALARS \<noteq> 0" "valid s" "push_ok p"
    and "4 dvd unat (ps_offset p)" "pull_ok q" "pl_flags q = ps_flags p" "pl_offset q = ps_offset p"
  shows "(case ndr_push_dom_sid28 push_sid fl s p of
            Inr (_, p') \<Rightarrow> sint (num_auths s) \<le> 5 \<and> ps_offset p' = ps_offset p + 28 \<and>
              (prefix (written p') (take (unat (pl_data_size q)) (pl_data q)) \<longrightarrow>
               ndr_pull_dom_sid28 pull_sid fl sid q = Inr (s, q\<lparr>pl_offset := ps_offset p'\<rparr>))
          | Inl e \<Rightarrow> sint (num_auths s) \<le> 5 \<and> e = Status NT_STATUS_NO_MEMORY \<or>
                    sint (num_auths s) > 5 \<and> e = Status (ndr_map_error NDR_ERR_RANGE))"
proof (cases "sint (num_auths s) \<le> 5")
  case False
  then show ?thesis
    using assms(2) by (simp add: ndr_push_dom_sid28_def ndr_push_error_def nfail_def)
next
  case True
  note push = push_dom_sid28_codec [OF assms(1-3) True assms(4,5)]
  show ?thesis
    using push(1) True pushes_28 [OF assms(4) _ push(2)] assms(8)
      pull_dom_sid28_codec [OF assms(1-3) push(2) _ assms(4,6-8)]
    by (auto simp: push_at_def split: sum.splits)
qed

definition admins28 :: ndr_push where
  "admins28 = after_push (ndr_push_dom_sid28 layout_push_sid NDR_SCALARS sid_admins) small_push"

theorem dom_sid28_roundtrip_witness:
  "ndr_pull_dom_sid28 layout_pull_sid NDR_SCALARS zero_sid (reader_of admins28) =
     Inr (sid_admins, (reader_of admins28)\<lparr>pl_offset := ps_offset admins28\<rparr>) \<and> ps_offset admins28 = 28"
proof -
  have q: "pull_ok (reader_of admins28)" by (rule pull_ok_small) code_simp
  have run: "ndr_push_dom_sid28 layout_push_sid NDR_SCALARS sid_admins small_push = Inr ((), admins28)" by code_simp
  have fl: "NDR_SCALARS AND NDR_SCALARS \<noteq> 0" by (simp add: NDR_SCALARS_def)
  have v: "layout_valid sid_admins" "unat (ps_offset small_push) = 0" by code_simp+
  have f: "pl_flags (reader_of admins28) = ps_flags small_push" "pl_offset (reader_of admins28) = ps_offset small_push"
    "ps_offset small_push = 0" by code_simp+
  have "prefix (written admins28) (take (unat (pl_data_size (reader_of admins28))) (pl_data (reader_of admins28)))"
    by code_simp
  with dom_sid28_roundtrip [OF layout_codec28 fl v(1) small_push_ok _ q f(1,2), of zero_sid] run v f
  show ?thesis by simp
qed

text \<open>A damaged identifier in a fixed buffer does not fail the message: when 28 bytes are left the
  reader always succeeds behind them, with the identifier the generated reader finds in the 28 bytes
  or, if that reader reports an error, with the zero identifier; it fails only when fewer than 28
  bytes are left.
\<close>

theorem dom_sid28_forgives:
  assumes "pull_safe (pull_sid fl)" "fl AND NDR_SCALARS \<noteq> 0" "pull_ok q"
  shows "ndr_pull_dom_sid28 pull_sid fl sid q =
    (if length (unread q) < 28 then Inl (Status NT_STATUS_BUFFER_TOO_SMALL)
     else Inr (case pull_sid fl (sub_ctx 28 q) of Inr (s, _) \<Rightarrow> s | Inl _ \<Rightarrow> zero_sid, adv 28 q))"
proof (cases "length (unread q) < 28")
  case True
  then show ?thesis using pull_dom_sid28_short assms(2,3) by simp
next
  case False
  then have "28 \<le> length (unread q)" by simp
  from pull_dom_sid28_run [where pull_sid = pull_sid and fl = fl, OF assms this] False
  show ?thesis by (auto split: sum.splits)
qed

definition damaged28 :: ndr_pull where
  "damaged28 = (reader_of admins28)\<lparr>pl_data := replicate 28 0xFF\<rparr>"

theorem dom_sid28_forgives_witness:
  "ndr_pull_dom_sid28 layout_pull_sid NDR_SCALARS sid_admins damaged28 = Inr (zero_sid, damaged28\<lparr>pl_offset := 28\<rparr>)"
proof -
  have q: "pull_ok damaged28" by (rule pull_ok_small) code_simp
  have fl: "NDR_SCALARS AND NDR_SCALARS \<noteq> 0" by (simp add: NDR_SCALARS_def)
  have safe: "pull_safe (layout_pull_sid NDR_SCALARS)" by (rule ndr_codec.pull_total [OF layout_codec])
  have "length (unread damaged28) = 28" "pl_offset damaged28 = 0"
    "(case layout_pull_sid NDR_SCALARS (sub_ctx 28 damaged28) of Inr (s, _) \<Rightarrow> s | Inl _ \<Rightarrow> zero_sid) = zero_sid"
    by code_simp+
  with dom_sid28_forgives [of layout_pull_sid, OF safe fl q, of sid_admins] show ?thesis by simp
qed

end
