(* ===== verification/ErrorMap.thy ===== *)
theory ErrorMap
  imports Prelude
begin

text \<open>
  The translation between NT status codes, Win32 errors and DOS error classes in
  \<open>libcli/util/errormap.c\<close>.  The two tables are transcribed row by row with the values that
  \<open>nterr.h\<close> and \<open>doserr.h\<close> give to the names, in pieces of at most 150 source lines; a piece holds
  the rows of its source lines in their order.  A search that runs past the last row of a table reads
  outside the array: its result is \<open>None\<close>.
\<close>

type_synonym werror = u32
type_synonym dos_row = "u8 \<times> u32 \<times> ntstatus"
type_synonym werror_row = "ntstatus \<times> werror"
type_synonym dos_num = "int \<times> int \<times> int"
type_synonym werror_num = "int \<times> int"

section \<open>The tables\<close>

definition ntstatus_to_dos_map1 :: "dos_num list" where
  "ntstatus_to_dos_map1 = [
    (0x01, 18, 0x80000006), (0x01, 18, 0x8000001A), (0x01, 31, 0xC0000001), (0x01, 1, 0xC0000002),
    (0x01, 87, 0xC0000003), (0x01, 24, 0xC0000004), (0x03, 31, 0xC0000005), (0x03, 31, 0xC0000006),
    (0x03, 31, 0xC0000007), (0x01, 6, 0xC0000008), (0x03, 31, 0xC0000009), (0x01, 193, 0xC000000A),
    (0x01, 87, 0xC000000B), (0x03, 31, 0xC000000C), (0x01, 87, 0xC000000D), (0x01, 2, 0xC000000E),
    (0x01, 2, 0xC000000F), (0x01, 1, 0xC0000010), (0x01, 38, 0xC0000011), (0x01, 34, 0xC0000012),
    (0x01, 21, 0xC0000013), (0x03, 31, 0xC0000014), (0x01, 27, 0xC0000015), (0x01, 8, 0xC0000017),
    (0x01, 487, 0xC0000018), (0x01, 487, 0xC0000019), (0x01, 87, 0xC000001A), (0x01, 87, 0xC000001B),
    (0x01, 2142, 0xC000001C), (0x03, 31, 0xC000001D), (0x01, 5, 0xC000001E), (0x01, 5, 0xC000001F),
    (0x01, 193, 0xC0000020), (0x01, 5, 0xC0000021), (0x01, 5, 0xC0000022), (0x01, 111, 0xC0000023),
    (0x01, 6, 0xC0000024), (0x03, 31, 0xC0000025), (0x03, 31, 0xC0000026), (0x03, 31, 0xC0000027),
    (0x03, 31, 0xC0000028), (0x03, 31, 0xC0000029), (0x01, 158, 0xC000002A), (0x03, 31, 0xC000002B),
    (0x01, 487, 0xC000002C), (0x01, 487, 0xC000002D), (0x03, 31, 0xC000002E), (0x03, 31, 0xC000002F),
    (0x01, 87, 0xC0000030), (0x03, 31, 0xC0000031), (0x03, 31, 0xC0000032), (0x01, 123, 0xC0000033),
    (0x01, 2, 0xC0000034), (0x01, 80, 0xC0000035), (0x03, 31, 0xC0000036), (0x01, 6, 0xC0000037),
    (0x03, 31, 0xC0000038), (0x01, 161, 0xC0000039), (0x01, 3, 0xC000003A), (0x01, 161, 0xC000003B),
    (0x03, 31, 0xC000003C), (0x03, 31, 0xC000003D), (0x01, 23, 0xC000003E), (0x01, 23, 0xC000003F),
    (0x01, 8, 0xC0000040), (0x01, 5, 0xC0000041), (0x01, 6, 0xC0000042), (0x01, 32, 0xC0000043),
    (0x03, 31, 0xC0000044), (0x01, 87, 0xC0000045), (0x01, 288, 0xC0000046), (0x01, 298, 0xC0000047),
    (0x01, 87, 0xC0000048), (0x01, 87, 0xC0000049), (0x01, 156, 0xC000004A), (0x01, 5, 0xC000004B),
    (0x01, 87, 0xC000004C), (0x01, 87, 0xC000004D), (0x01, 87, 0xC000004E), (0x01, 282, 0xC000004F),
    (0x01, 255, 0xC0000050), (0x03, 31, 0xC0000051), (0x03, 31, 0xC0000052), (0x03, 31, 0xC0000053),
    (0x01, 33, 0xC0000054), (0x01, 33, 0xC0000055), (0x01, 5, 0xC0000056), (0x01, 50, 0xC0000057),
    (0x03, 31, 0xC0000058), (0x03, 31, 0xC0000059), (0x03, 31, 0xC000005A), (0x03, 31, 0xC000005B),
    (0x03, 31, 0xC000005C), (0x03, 31, 0xC000005D), (0x01, 2215, 0xC000005E), (0x03, 31, 0xC000005F),
    (0x03, 31, 0xC0000060), (0x01, 5, 0xC0000061), (0x03, 31, 0xC0000062), (0x03, 31, 0xC0000063),
    (0x01, 5, 0xC0000064), (0x03, 31, 0xC0000065), (0x03, 31, 0xC0000066), (0x03, 31, 0xC0000067),
    (0x03, 31, 0xC0000068), (0x03, 31, 0xC0000069), (0x02, 2, 0xC000006A), (0x03, 31, 0xC000006B),
    (0x03, 31, 0xC000006C), (0x01, 5, 0xC000006D), (0x03, 31, 0xC000006E), (0x02, 2241, 0xC000006F),
    (0x02, 2240, 0xC0000070), (0x02, 2242, 0xC0000071), (0x02, 2239, 0xC0000072), (0x03, 31, 0xC0000073),
    (0x03, 31, 0xC0000074), (0x03, 31, 0xC0000075), (0x03, 31, 0xC0000076), (0x03, 31, 0xC0000077),
    (0x03, 31, 0xC0000078), (0x03, 31, 0xC0000079), (0x01, 127, 0xC000007A), (0x01, 193, 0xC000007B),
    (0x03, 31, 0xC000007C), (0x03, 31, 0xC000007D), (0x01, 158, 0xC000007E), (0x01, 112, 0xC000007F)]"

definition ntstatus_to_dos_map2 :: "dos_num list" where
  "ntstatus_to_dos_map2 = [
    (0x03, 31, 0xC0000080), (0x03, 31, 0xC0000081), (0x01, 68, 0xC0000082), (0x01, 259, 0xC0000083),
    (0x03, 31, 0xC0000084), (0x01, 259, 0xC0000085), (0x01, 154, 0xC0000086), (0x01, 14, 0xC0000087),
    (0x01, 487, 0xC0000088), (0x03, 31, 0xC0000089), (0x03, 31, 0xC000008A), (0x03, 31, 0xC000008B),
    (0x03, 31, 0xC000008C), (0x03, 31, 0xC000008D), (0x03, 31, 0xC000008E), (0x03, 31, 0xC000008F),
    (0x03, 31, 0xC0000090), (0x03, 31, 0xC0000091), (0x03, 31, 0xC0000092), (0x03, 31, 0xC0000093),
    (0x03, 31, 0xC0000094), (0x01, 534, 0xC0000095), (0x03, 31, 0xC0000096), (0x01, 8, 0xC0000097),
    (0x03, 31, 0xC0000098), (0x03, 31, 0xC0000099), (0x01, 8, 0xC000009A), (0x01, 3, 0xC000009B),
    (0x01, 23, 0xC000009C), (0x03, 31, 0xC000009D), (0x01, 21, 0xC000009E), (0x01, 487, 0xC000009F),
    (0x01, 487, 0xC00000A0), (0x03, 31, 0xC00000A1), (0x01, 19, 0xC00000A2), (0x01, 21, 0xC00000A3),
    (0x03, 31, 0xC00000A4), (0x03, 31, 0xC00000A5), (0x03, 31, 0xC00000A6), (0x03, 31, 0xC00000A7),
    (0x03, 31, 0xC00000A8), (0x01, 87, 0xC00000A9), (0x03, 31, 0xC00000AA), (0x01, 231, 0xC00000AB),
    (0x01, 231, 0xC00000AC), (0x01, 230, 0xC00000AD), (0x01, 231, 0xC00000AE), (0x01, 1, 0xC00000AF),
    (0x01, 233, 0xC00000B0), (0x01, 232, 0xC00000B1), (0x03, 31, 0xC00000B2), (0x03, 31, 0xC00000B3),
    (0x01, 230, 0xC00000B4), (0x01, 121, 0xC00000B5), (0x01, 38, 0xC00000B6), (0x03, 31, 0xC00000B7),
    (0x03, 31, 0xC00000B8), (0x03, 31, 0xC00000B9), (0x01, 5, 0xC00000BA), (0x01, 50, 0xC00000BB),
    (0x01, 51, 0xC00000BC), (0x01, 52, 0xC00000BD), (0x01, 53, 0xC00000BE), (0x01, 54, 0xC00000BF),
    (0x01, 55, 0xC00000C0), (0x01, 56, 0xC00000C1), (0x01, 57, 0xC00000C2), (0x01, 58, 0xC00000C3),
    (0x01, 59, 0xC00000C4), (0x01, 60, 0xC00000C5), (0x01, 61, 0xC00000C6), (0x01, 62, 0xC00000C7),
    (0x01, 63, 0xC00000C8), (0x01, 64, 0xC00000C9), (0x01, 65, 0xC00000CA), (0x01, 66, 0xC00000CB),
    (0x01, 67, 0xC00000CC), (0x01, 68, 0xC00000CD), (0x01, 69, 0xC00000CE), (0x01, 70, 0xC00000CF),
    (0x01, 71, 0xC00000D0), (0x01, 72, 0xC00000D1), (0x01, 88, 0xC00000D2), (0x03, 31, 0xC00000D3),
    (0x01, 17, 0xC00000D4), (0x01, 5, 0xC00000D5), (0x01, 240, 0xC00000D6), (0x03, 31, 0xC00000D7),
    (0x03, 31, 0xC00000D8), (0x01, 232, 0xC00000D9), (0x03, 31, 0xC00000DA), (0x03, 31, 0xC00000DB),
    (0x03, 31, 0xC00000DC), (0x03, 31, 0xC00000DD), (0x03, 31, 0xC00000DE), (0x03, 31, 0xC00000DF),
    (0x03, 31, 0xC00000E0), (0x03, 31, 0xC00000E1), (0x01, 300, 0xC00000E2), (0x01, 301, 0xC00000E3),
    (0x03, 31, 0xC00000E4), (0x03, 31, 0xC00000E5), (0x03, 31, 0xC00000E6), (0x03, 31, 0xC00000E7),
    (0x03, 31, 0xC00000E8), (0x03, 31, 0xC00000E9), (0x03, 31, 0xC00000EA), (0x03, 31, 0xC00000EB),
    (0x03, 31, 0xC00000EC), (0x03, 31, 0xC00000ED), (0x03, 31, 0xC00000EE), (0x01, 87, 0xC00000EF),
    (0x01, 87, 0xC00000F0), (0x01, 87, 0xC00000F1), (0x01, 87, 0xC00000F2), (0x01, 87, 0xC00000F3),
    (0x01, 87, 0xC00000F4), (0x01, 87, 0xC00000F5), (0x01, 87, 0xC00000F6), (0x01, 87, 0xC00000F7),
    (0x01, 87, 0xC00000F8), (0x01, 87, 0xC00000F9), (0x01, 87, 0xC00000FA), (0x01, 3, 0xC00000FB),
    (0x03, 31, 0xC00000FC), (0x03, 31, 0xC00000FD), (0x03, 31, 0xC00000FE), (0x03, 31, 0xC00000FF),
    (0x01, 203, 0xC0000100), (0x01, 145, 0xC0000101), (0x03, 31, 0xC0000102), (0x01, 267, 0xC0000103),
    (0x03, 31, 0xC0000104), (0x03, 31, 0xC0000105), (0x01, 206, 0xC0000106), (0x01, 2401, 0xC0000107),
    (0x01, 2404, 0xC0000108), (0x03, 31, 0xC0000109), (0x01, 5, 0xC000010A), (0x03, 31, 0xC000010B),
    (0x03, 31, 0xC000010C), (0x03, 31, 0xC000010D), (0x03, 31, 0xC000010E), (0x03, 31, 0xC000010F),
    (0x03, 31, 0xC0000110), (0x03, 31, 0xC0000111)]"

definition ntstatus_to_dos_map3 :: "dos_num list" where
  "ntstatus_to_dos_map3 = [
    (0x03, 31, 0xC0000112), (0x03, 31, 0xC0000113), (0x03, 31, 0xC0000114), (0x03, 31, 0xC0000115),
    (0x03, 31, 0xC0000116), (0x03, 31, 0xC0000117), (0x03, 31, 0xC0000118), (0x03, 31, 0xC0000119),
    (0x03, 31, 0xC000011A), (0x01, 193, 0xC000011B), (0x03, 31, 0xC000011C), (0x03, 31, 0xC000011D),
    (0x03, 31, 0xC000011E), (0x01, 4, 0xC000011F), (0x03, 31, 0xC0000120), (0x01, 5, 0xC0000121),
    (0x03, 31, 0xC0000122), (0x01, 5, 0xC0000123), (0x03, 31, 0xC0000124), (0x03, 31, 0xC0000125),
    (0x03, 31, 0xC0000126), (0x03, 31, 0xC0000127), (0x01, 6, 0xC0000128), (0x03, 31, 0xC0000129),
    (0x03, 31, 0xC000012A), (0x03, 31, 0xC000012B), (0x03, 31, 0xC000012C), (0x03, 31, 0xC000012D),
    (0x01, 193, 0xC000012E), (0x01, 193, 0xC000012F), (0x01, 193, 0xC0000130), (0x01, 193, 0xC0000131),
    (0x03, 31, 0xC0000132), (0x03, 31, 0xC0000133), (0x03, 31, 0xC0000134), (0x01, 126, 0xC0000135),
    (0x03, 31, 0xC0000136), (0x03, 31, 0xC0000137), (0x01, 182, 0xC0000138), (0x01, 127, 0xC0000139),
    (0x03, 31, 0xC000013A), (0x01, 64, 0xC000013B), (0x01, 64, 0xC000013C), (0x01, 51, 0xC000013D),
    (0x01, 59, 0xC000013E), (0x01, 59, 0xC000013F), (0x01, 59, 0xC0000140), (0x01, 59, 0xC0000141),
    (0x03, 31, 0xC0000142), (0x03, 31, 0xC0000143), (0x03, 31, 0xC0000144), (0x03, 31, 0xC0000145),
    (0x03, 31, 0xC0000146), (0x03, 31, 0xC0000147), (0x01, 124, 0xC0000148), (0x01, 86, 0xC0000149),
    (0x03, 31, 0xC000014A), (0x01, 109, 0xC000014B), (0x03, 31, 0xC000014C), (0x03, 31, 0xC000014D),
    (0x03, 31, 0xC000014E), (0x03, 31, 0xC000014F), (0x03, 31, 0xC0000150), (0x03, 31, 0xC0000151),
    (0x03, 31, 0xC0000152), (0x03, 31, 0xC0000153), (0x03, 31, 0xC0000154), (0x03, 31, 0xC0000155),
    (0x03, 31, 0xC0000156), (0x03, 31, 0xC0000157), (0x03, 31, 0xC0000158), (0x03, 31, 0xC0000159),
    (0x03, 31, 0xC000015A), (0x01, 5, 0xC000015B), (0x03, 31, 0xC000015C), (0x03, 31, 0xC000015D),
    (0x03, 31, 0xC000015E), (0x03, 31, 0xC000015F), (0x03, 31, 0xC0000160), (0x03, 31, 0xC0000161),
    (0x03, 31, 0xC0000162), (0x03, 31, 0xC0000163), (0x03, 31, 0xC0000164), (0x03, 31, 0xC0000165),
    (0x03, 31, 0xC0000166), (0x03, 31, 0xC0000167), (0x03, 31, 0xC0000168), (0x03, 31, 0xC0000169),
    (0x03, 31, 0xC000016A), (0x03, 31, 0xC000016B), (0x03, 31, 0xC000016C), (0x03, 31, 0xC000016D),
    (0x03, 31, 0xC000016E), (0x03, 31, 0xC000016F), (0x03, 31, 0xC0000170), (0x03, 31, 0xC0000171),
    (0x03, 31, 0xC0000172), (0x03, 31, 0xC0000173), (0x03, 31, 0xC0000174), (0x03, 31, 0xC0000175),
    (0x03, 31, 0xC0000176), (0x03, 31, 0xC0000177), (0x03, 31, 0xC0000178), (0x03, 31, 0xC0000179),
    (0x03, 31, 0xC000017A), (0x03, 31, 0xC000017B), (0x03, 31, 0xC000017C), (0x03, 31, 0xC000017D),
    (0x03, 31, 0xC000017E), (0x03, 31, 0xC000017F), (0x03, 31, 0xC0000180), (0x03, 31, 0xC0000181),
    (0x01, 87, 0xC0000182), (0x03, 31, 0xC0000183), (0x01, 22, 0xC0000184), (0x03, 31, 0xC0000185),
    (0x03, 31, 0xC0000186), (0x03, 31, 0xC0000187), (0x03, 31, 0xC0000188), (0x01, 19, 0xC0000189),
    (0x01, 5, 0xC000018A), (0x01, 5, 0xC000018B), (0x01, 5, 0xC000018C), (0x01, 5, 0xC000018D),
    (0x03, 31, 0xC000018E), (0x03, 31, 0xC000018F), (0x01, 5, 0xC0000190), (0x03, 31, 0xC0000191),
    (0x01, 2455, 0xC0000192), (0x02, 2239, 0xC0000193), (0x03, 31, 0xC0000194), (0x03, 31, 0xC0000195),
    (0x03, 31, 0xC0000196), (0x03, 31, 0xC0000197), (0x01, 5, 0xC0000198), (0x01, 5, 0xC0000199),
    (0x01, 5, 0xC000019A), (0x01, 5, 0xC000019B), (0x03, 31, 0xC000019C), (0x03, 31, 0xC0000202),
    (0x01, 59, 0xC0000203), (0x03, 31, 0xC0000204)]"

definition ntstatus_to_dos_map4 :: "dos_num list" where
  "ntstatus_to_dos_map4 = [
    (0x01, 8, 0xC0000205), (0x03, 31, 0xC0000206), (0x03, 31, 0xC0000207), (0x03, 31, 0xC0000208),
    (0x01, 68, 0xC0000209), (0x01, 52, 0xC000020A), (0x01, 64, 0xC000020B), (0x01, 64, 0xC000020C),
    (0x01, 64, 0xC000020D), (0x01, 68, 0xC000020E), (0x01, 59, 0xC000020F), (0x01, 59, 0xC0000210),
    (0x01, 59, 0xC0000211), (0x01, 59, 0xC0000212), (0x01, 59, 0xC0000213), (0x01, 59, 0xC0000214),
    (0x01, 59, 0xC0000215), (0x01, 50, 0xC0000216), (0x01, 50, 0xC0000217), (0x03, 31, 0xC0000218),
    (0x03, 31, 0xC0000219), (0x03, 31, 0xC000021A), (0x03, 31, 0xC000021B), (0x03, 31, 0xC000021C),
    (0x03, 31, 0xC000021D), (0x03, 31, 0xC000021E), (0x03, 31, 0xC000021F), (0x03, 31, 0xC0000220),
    (0x01, 193, 0xC0000221), (0x03, 31, 0xC0000222), (0x03, 31, 0xC0000223), (0x02, 2242, 0xC0000224),
    (0x03, 31, 0xC0000225), (0x03, 31, 0xC0000226), (0x03, 31, 0xC0000227), (0x03, 31, 0xC0000228),
    (0x03, 31, 0xC0000229), (0x03, 31, 0xC000022A), (0x03, 31, 0xC000022B), (0x03, 31, 0xC000022C),
    (0x03, 31, 0xC000022D), (0x03, 31, 0xC000022E), (0x03, 31, 0xC000022F), (0x03, 31, 0xC0000230),
    (0x03, 31, 0xC0000231), (0x03, 31, 0xC0000232), (0x03, 31, 0xC0000233), (0x01, 5, 0xC0000234),
    (0x01, 6, 0xC0000235), (0x03, 31, 0xC0000236), (0x03, 31, 0xC0000237), (0x03, 31, 0xC0000238),
    (0x03, 31, 0xC0000239), (0x03, 31, 0xC000023A), (0x03, 31, 0xC000023B), (0x03, 31, 0xC000023C),
    (0x03, 31, 0xC000023D), (0x03, 31, 0xC000023E), (0x03, 31, 0xC000023F), (0x03, 31, 0xC0000240),
    (0x03, 31, 0xC0000241), (0x03, 31, 0xC0000242), (0x03, 31, 0xC0000243), (0x03, 31, 0xC0000244),
    (0x03, 31, 0xC0000245), (0x03, 31, 0xC0000246), (0x03, 31, 0xC0000247), (0x03, 31, 0xC0000248),
    (0x01, 193, 0xC0000249), (0x03, 31, 0xC000024A), (0x03, 31, 0xC000024B), (0x03, 31, 0xC000024C),
    (0x03, 31, 0xC000024D), (0x03, 31, 0xC000024E), (0x03, 31, 0xC000024F), (0x03, 31, 0xC0000250),
    (0x03, 31, 0xC0000251), (0x03, 31, 0xC0000252), (0x03, 31, 0xC0000253), (0x03, 31, 0xC0000254),
    (0x03, 31, 0xC0000255), (0x03, 31, 0xC0000256), (0x02, 3, 0xC0000257), (0x03, 31, 0xC0000258),
    (0x03, 31, 0xC0000259), (0x03, 31, 0xC000025A), (0x03, 31, 0xC000025B), (0x03, 31, 0xC000025C),
    (0x03, 31, 0xC000025D), (0x03, 31, 0xC000025E), (0x03, 31, 0xC000025F), (0x03, 31, 0xC0000260),
    (0x03, 31, 0xC0000261), (0x01, 182, 0xC0000262), (0x01, 127, 0xC0000263), (0x01, 288, 0xC0000264),
    (0x03, 31, 0xC0000265), (0x03, 31, 0xC0000266), (0x03, 31, 0xC0000267), (0x01, 21, 0xC000026E),
    (0x01, 161, 0xC0000281), (0x01, 5, 0xC000028A), (0x01, 5, 0xC000028B), (0x03, 31, 0xC000028C),
    (0x01, 5, 0xC000028D), (0x01, 5, 0xC000028E), (0x01, 5, 0xC000028F), (0x01, 5, 0xC0000290), (0x01, 1, 0xC000029C)]"


definition dos_nums :: "dos_num list" where
  "dos_nums = ntstatus_to_dos_map1 @ ntstatus_to_dos_map2 @ ntstatus_to_dos_map3 @ ntstatus_to_dos_map4"

definition ntstatus_to_dos_map :: "dos_row list" where
  "ntstatus_to_dos_map = map (\<lambda>(c, e, st). (word_of_int c, word_of_int e, word_of_int st)) dos_nums"

definition ntstatus_to_werror_map1 :: "werror_num list" where
  "ntstatus_to_werror_map1 = [
    (0x103, 0x3E5), (0x105, 0xEA), (0x106, 0x514), (0x107, 0x515), (0x10C, 0x3FE), (0x10D, 0x516), (0x121, 0x2009),
    (0xC0000001, 0x1F), (0xC0000002, 0x1), (0xC0000003, 0x57), (0xC0000004, 0x18), (0xC0000005, 0x3E6),
    (0xC0000006, 0x3E7), (0xC0000007, 0x5AE), (0xC0000008, 0x6), (0xC0000009, 0x3E9), (0xC000000A, 0xC1),
    (0xC000000B, 0x57), (0xC000000D, 0x57), (0xC000000E, 0x2), (0xC000000F, 0x2), (0xC0000010, 0x1),
    (0xC0000011, 0x26), (0xC0000012, 0x22), (0xC0000013, 0x15), (0xC0000014, 0x6F9), (0xC0000015, 0x1B),
    (0xC0000016, 0xEA), (0xC0000017, 0x8), (0xC0000018, 0x1E7), (0xC0000019, 0x1E7), (0xC000001A, 0x57),
    (0xC000001B, 0x57), (0xC000001C, 0x1), (0xC000001D, 0xC000001D), (0xC000001E, 0x5), (0xC000001F, 0x5),
    (0xC0000020, 0xC1), (0xC0000021, 0x5), (0xC0000022, 0x5), (0xC0000023, 0x7A), (0xC0000024, 0x6),
    (0xC0000025, 0xC0000025), (0xC0000026, 0xC0000026), (0xC000002A, 0x9E), (0xC000002B, 0xC000002B),
    (0xC000002C, 0x1E7), (0xC000002D, 0x1E7), (0xC0000030, 0x57), (0xC0000032, 0x571), (0xC0000033, 0x7B),
    (0xC0000034, 0x2), (0xC0000035, 0xB7), (0xC0000037, 0x6), (0xC0000039, 0xA1), (0xC000003A, 0x3),
    (0xC000003B, 0xA1), (0xC000003C, 0x45D), (0xC000003D, 0x45D), (0xC000003E, 0x17), (0xC000003F, 0x17),
    (0xC0000040, 0x8), (0xC0000041, 0x5), (0xC0000042, 0x6), (0xC0000043, 0x20), (0xC0000044, 0x718),
    (0xC0000045, 0x57), (0xC0000046, 0x120), (0xC0000047, 0x12A), (0xC0000048, 0x57), (0xC0000049, 0x57),
    (0xC000004A, 0x9C), (0xC000004B, 0x5), (0xC000004C, 0x57), (0xC000004D, 0x57), (0xC000004E, 0x57),
    (0xC000004F, 0x11A), (0xC0000050, 0xFF), (0xC0000051, 0x570), (0xC0000052, 0x570), (0xC0000053, 0x570),
    (0xC0000054, 0x21), (0xC0000055, 0x21), (0xC0000056, 0x5), (0xC0000057, 0x32), (0xC0000058, 0x519),
    (0xC0000059, 0x51A), (0xC000005A, 0x51B), (0xC000005B, 0x51C), (0xC000005C, 0x51D), (0xC000005D, 0x51E),
    (0xC000005E, 0x51F), (0xC000005F, 0x520), (0xC0000060, 0x521), (0xC0000061, 0x522), (0xC0000062, 0x523),
    (0xC0000063, 0x524), (0xC0000064, 0x525), (0xC0000065, 0x526), (0xC0000066, 0x527), (0xC0000067, 0x528),
    (0xC0000068, 0x529), (0xC0000069, 0x52A), (0xC000006A, 0x56), (0xC000006B, 0x52C), (0xC000006C, 0x52D),
    (0xC000006D, 0x52E), (0xC000006E, 0x52F), (0xC000006F, 0x530), (0xC0000070, 0x531), (0xC0000071, 0x532),
    (0xC0000072, 0x533), (0xC0000073, 0x534), (0xC0000074, 0x535), (0xC0000075, 0x536), (0xC0000076, 0x537),
    (0xC0000077, 0x538), (0xC0000078, 0x539), (0xC0000079, 0x53A), (0xC000007A, 0x7F), (0xC000007B, 0xC1),
    (0xC000007C, 0x3F0), (0xC000007D, 0x53C), (0xC000007E, 0x9E), (0xC000007F, 0x70), (0xC0000080, 0x53D),
    (0xC0000081, 0x53E), (0xC0000082, 0x44), (0xC0000083, 0x103), (0xC0000084, 0x53F), (0xC0000085, 0x103),
    (0xC0000086, 0x9A), (0xC0000087, 0xE), (0xC0000088, 0x1E7), (0xC0000089, 0x714), (0xC000008A, 0x715),
    (0xC000008B, 0x716), (0xC000008C, 0xC000008C), (0xC000008D, 0xC000008D), (0xC000008E, 0xC000008E),
    (0xC000008F, 0xC000008F), (0xC0000090, 0xC0000090), (0xC0000091, 0xC0000091), (0xC0000092, 0xC0000092),
    (0xC0000093, 0xC0000093), (0xC0000094, 0xC0000094), (0xC0000095, 0x216), (0xC0000096, 0xC0000096),
    (0xC0000097, 0x8), (0xC0000098, 0x3EE)]"

definition ntstatus_to_werror_map2 :: "werror_num list" where
  "ntstatus_to_werror_map2 = [
    (0xC0000099, 0x540), (0xC000009A, 0x5AA), (0xC000009B, 0x3), (0xC000009C, 0x17), (0xC000009D, 0x48F),
    (0xC000009E, 0x15), (0xC000009F, 0x1E7), (0xC00000A0, 0x1E7), (0xC00000A1, 0x5AD), (0xC00000A2, 0x13),
    (0xC00000A3, 0x15), (0xC00000A4, 0x541), (0xC00000A5, 0x542), (0xC00000A6, 0x543), (0xC00000A7, 0x544),
    (0xC00000A8, 0x545), (0xC00000A9, 0x57), (0xC00000AB, 0xE7), (0xC00000AC, 0xE7), (0xC00000AD, 0xE6),
    (0xC00000AE, 0xE7), (0xC00000AF, 0x1), (0xC00000B0, 0xE9), (0xC00000B1, 0xE8), (0xC00000B2, 0x217),
    (0xC00000B3, 0x218), (0xC00000B4, 0xE6), (0xC00000B5, 0x79), (0xC00000B6, 0x26), (0xC00000BA, 0x5),
    (0xC00000BB, 0x32), (0xC00000BC, 0x33), (0xC00000BD, 0x34), (0xC00000BE, 0x35), (0xC00000BF, 0x36),
    (0xC00000C0, 0x37), (0xC00000C1, 0x38), (0xC00000C2, 0x39), (0xC00000C3, 0x3A), (0xC00000C4, 0x3B),
    (0xC00000C5, 0x3C), (0xC00000C6, 0x3D), (0xC00000C7, 0x3E), (0xC00000C8, 0x3F), (0xC00000C9, 0x40),
    (0xC00000CA, 0x41), (0xC00000CB, 0x42), (0xC00000CC, 0x43), (0xC00000CD, 0x44), (0xC00000CE, 0x45),
    (0xC00000CF, 0x46), (0xC00000D0, 0x47), (0xC00000D1, 0x48), (0xC00000D2, 0x58), (0xC00000D4, 0x11),
    (0xC00000D5, 0x5), (0xC00000D6, 0xF0), (0xC00000D7, 0x546), (0xC00000D9, 0xE8), (0xC00000DA, 0x547),
    (0xC00000DC, 0x548), (0xC00000DD, 0x549), (0xC00000DE, 0x54A), (0xC00000DF, 0x54B), (0xC00000E0, 0x54C),
    (0xC00000E1, 0x54D), (0xC00000E2, 0x12C), (0xC00000E3, 0x12D), (0xC00000E4, 0x54E), (0xC00000E5, 0x54F),
    (0xC00000E6, 0x550), (0xC00000E7, 0x551), (0xC00000E8, 0x6F8), (0xC00000ED, 0x552), (0xC00000EE, 0x553),
    (0xC00000EF, 0x57), (0xC00000F0, 0x57), (0xC00000F1, 0x57), (0xC00000F2, 0x57), (0xC00000F3, 0x57),
    (0xC00000F4, 0x57), (0xC00000F5, 0x57), (0xC00000F6, 0x57), (0xC00000F7, 0x57), (0xC00000F8, 0x57),
    (0xC00000F9, 0x57), (0xC00000FA, 0x57), (0xC00000FB, 0x3), (0xC00000FD, 0x3E9), (0xC00000FE, 0x554),
    (0xC0000100, 0xCB), (0xC0000101, 0x91), (0xC0000102, 0x570), (0xC0000103, 0x10B), (0xC0000104, 0x555),
    (0xC0000105, 0x556), (0xC0000106, 0xCE), (0xC0000107, 0x961), (0xC0000108, 0x964), (0xC000010A, 0x5),
    (0xC000010B, 0x557), (0xC000010D, 0x558), (0xC000010E, 0x420), (0xC0000117, 0x5A4), (0xC000011B, 0xC1),
    (0xC000011C, 0x559), (0xC000011D, 0x55A), (0xC000011E, 0x3EE), (0xC000011F, 0x4), (0xC0000120, 0x3E3),
    (0xC0000121, 0x5), (0xC0000122, 0x4BA), (0xC0000123, 0x5), (0xC0000124, 0x55B), (0xC0000125, 0x55C),
    (0xC0000126, 0x55D), (0xC0000127, 0x55E), (0xC0000128, 0x6), (0xC000012B, 0x55F), (0xC000012D, 0x5AF),
    (0xC000012E, 0xC1), (0xC000012F, 0xC1), (0xC0000130, 0xC1), (0xC0000131, 0xC1), (0xC0000133, 0x576),
    (0xC0000135, 0x7E), (0xC0000138, 0xB6), (0xC0000139, 0x7F), (0xC000013B, 0x40), (0xC000013C, 0x40),
    (0xC000013D, 0x33), (0xC000013E, 0x3B), (0xC000013F, 0x3B), (0xC0000140, 0x3B), (0xC0000141, 0x3B),
    (0xC0000142, 0x45A), (0xC0000148, 0x7C), (0xC0000149, 0x56), (0xC000014B, 0x6D), (0xC000014C, 0x3F1),
    (0xC000014D, 0x3F8), (0xC000014F, 0x3ED), (0xC0000150, 0x45E), (0xC0000151, 0x560), (0xC0000152, 0x561),
    (0xC0000153, 0x562), (0xC0000154, 0x563), (0xC0000155, 0x564), (0xC0000156, 0x565), (0xC0000157, 0x566)]"

definition ntstatus_to_werror_map3 :: "werror_num list" where
  "ntstatus_to_werror_map3 = [
    (0xC0000158, 0x567), (0xC0000159, 0x3EF), (0xC000015A, 0x568), (0xC000015B, 0x569), (0xC000015C, 0x3F9),
    (0xC000015D, 0x56A), (0xC000015F, 0x45D), (0xC0000162, 0x459), (0xC0000165, 0x462), (0xC0000166, 0x463),
    (0xC0000167, 0x464), (0xC0000168, 0x465), (0xC0000169, 0x466), (0xC000016A, 0x467), (0xC000016B, 0x468),
    (0xC000016C, 0x45F), (0xC000016D, 0x45D), (0xC0000172, 0x451), (0xC0000173, 0x452), (0xC0000174, 0x453),
    (0xC0000175, 0x454), (0xC0000176, 0x455), (0xC0000177, 0x469), (0xC0000178, 0x458), (0xC000017A, 0x56B),
    (0xC000017B, 0x56C), (0xC000017C, 0x3FA), (0xC000017D, 0x3FB), (0xC000017E, 0x56D), (0xC000017F, 0x56E),
    (0xC0000180, 0x3FC), (0xC0000181, 0x3FD), (0xC0000182, 0x57), (0xC0000183, 0x45D), (0xC0000184, 0x16),
    (0xC0000185, 0x45D), (0xC0000186, 0x45D), (0xC0000188, 0x5DE), (0xC0000189, 0x13), (0xC000018A, 0x6FA),
    (0xC000018B, 0x6FB), (0xC000018C, 0x6FC), (0xC000018D, 0x6FD), (0xC000018E, 0x5DC), (0xC000018F, 0x5DD),
    (0xC0000190, 0x6FE), (0xC0000192, 0x700), (0xC0000193, 0x701), (0xC0000194, 0x46B), (0xC0000195, 0x4C3),
    (0xC0000196, 0x4C4), (0xC0000197, 0x5DF), (0xC0000198, 0x70F), (0xC0000199, 0x710), (0xC000019A, 0x711),
    (0xC000019B, 0x712), (0xC0000202, 0x572), (0xC0000203, 0x3B), (0xC0000204, 0x717), (0xC0000205, 0x46A),
    (0xC0000206, 0x6F8), (0xC0000207, 0x4BE), (0xC0000208, 0x4BE), (0xC0000209, 0x44), (0xC000020A, 0x34),
    (0xC000020B, 0x40), (0xC000020C, 0x40), (0xC000020D, 0x40), (0xC000020E, 0x44), (0xC000020F, 0x3B),
    (0xC0000210, 0x3B), (0xC0000211, 0x3B), (0xC0000212, 0x3B), (0xC0000213, 0x3B), (0xC0000214, 0x3B),
    (0xC0000215, 0x3B), (0xC0000216, 0x32), (0xC0000217, 0x32), (0xC000021C, 0x17E6), (0xC0000220, 0x46C),
    (0xC0000221, 0xC1), (0xC0000224, 0x773), (0xC0000225, 0x490), (0xC000022A, 0xC000022A), (0xC000022B, 0xC000022B),
    (0xC000022D, 0x4D5), (0xC0000230, 0x492), (0xC0000233, 0x774), (0xC0000234, 0x775), (0xC0000235, 0x6),
    (0xC0000236, 0x4C9), (0xC0000237, 0x4CA), (0xC0000238, 0x4CB), (0xC0000239, 0x4CC), (0xC000023A, 0x4CD),
    (0xC000023B, 0x4CE), (0xC000023C, 0x4CF), (0xC000023D, 0x4D0), (0xC000023E, 0x4D1), (0xC000023F, 0x4D2),
    (0xC0000240, 0x4D3), (0xC0000241, 0x4D4), (0xC0000243, 0x4C8), (0xC0000246, 0x4D6), (0xC0000247, 0x4D7),
    (0xC0000248, 0x4D8), (0xC0000249, 0xC1), (0xC0000253, 0x54F), (0xC0000257, 0x4D0), (0xC0000259, 0x573),
    (0xC000025E, 0x422), (0xC0000262, 0xB6), (0xC0000263, 0x7F), (0xC0000264, 0x120), (0xC0000265, 0x476),
    (0xC0000267, 0x10FE), (0xC000026C, 0x7D1), (0xC000026D, 0x4B1), (0xC000026E, 0x15), (0xC0000272, 0x491),
    (0xC0000275, 0x1126), (0xC0000276, 0x1129), (0xC0000277, 0x112A), (0xC0000278, 0x1128), (0xC0000279, 0x780),
    (0xC0000280, 0x781), (0xC0000281, 0xA1), (0xC0000283, 0x488), (0xC0000284, 0x489), (0xC0000285, 0x48A),
    (0xC0000286, 0x48B), (0xC0000287, 0x48C), (0xC000028A, 0x5), (0xC000028B, 0x5), (0xC000028D, 0x5),
    (0xC000028E, 0x5), (0xC000028F, 0x5), (0xC0000290, 0x5), (0xC0000291, 0x1777), (0xC0000292, 0x1778),
    (0xC0000293, 0x1772), (0xC0000295, 0x1068), (0xC0000296, 0x1069), (0xC0000297, 0x106A), (0xC0000298, 0x106B),
    (0xC0000299, 0x201A), (0xC000029A, 0x201B), (0xC000029B, 0x201C), (0xC000029C, 0x1), (0xC000029D, 0x10FF)]"

definition ntstatus_to_werror_map4 :: "werror_num list" where
  "ntstatus_to_werror_map4 = [
    (0xC000029E, 0x1100), (0xC000029F, 0x494), (0xC00002A1, 0x200A), (0xC00002A2, 0x200B), (0xC00002A3, 0x200C),
    (0xC00002A4, 0x200D), (0xC00002A5, 0x200E), (0xC00002A6, 0x200F), (0xC00002A7, 0x2010), (0xC00002A8, 0x2011),
    (0xC00002A9, 0x2012), (0xC00002AA, 0x2013), (0xC00002AB, 0x2014), (0xC00002AC, 0x2015), (0xC00002AD, 0x2016),
    (0xC00002AE, 0x2017), (0xC00002AF, 0x2018), (0xC00002B0, 0x2019), (0xC00002B1, 0x211E), (0xC00002B2, 0x1127),
    (0xC00002B6, 0x651), (0xC00002B7, 0x49A), (0xC00002B8, 0x49B), (0xC00002C1, 0x2024), (0xC00002C3, 0x575),
    (0xC00002C5, 0x3E6), (0xC00002C6, 0x1075), (0xC00002C7, 0x1076), (0xC00002CA, 0x10E8), (0xC00002CB, 0x2138),
    (0xC00002CC, 0x4E3), (0xC00002CD, 0x2139), (0xC00002CF, 0x49D), (0xC00002D0, 0x213A), (0xC00002D4, 0x2141),
    (0xC00002D5, 0x2142), (0xC00002D6, 0x2143), (0xC00002D7, 0x2144), (0xC00002D8, 0x2145), (0xC00002D9, 0x2146),
    (0xC00002DA, 0x2147), (0xC00002DB, 0x2148), (0xC00002DC, 0x2149), (0xC00002DD, 0x32), (0xC00002DF, 0x2151),
    (0xC00002E0, 0x2152), (0xC00002E1, 0x2153), (0xC00002E2, 0x2154), (0xC00002E3, 0x215D), (0xC00002E4, 0x2163),
    (0xC00002E5, 0x2164), (0xC00002E6, 0x2165), (0xC00002E7, 0x216D), (0xC00002FE, 0x45B), (0xC00002FF, 0x4E7),
    (0xC0000300, 0x4E6)]"

definition ntstatus_to_werror_map5 :: "werror_num list" where
  "ntstatus_to_werror_map5 = [
    (0x80000001, 0x80000001), (0x80000002, 0x3E6), (0x80000003, 0x80000003), (0x80000004, 0x80000004),
    (0x80000005, 0xEA), (0x80000006, 0x12), (0x8000000B, 0x56F), (0x8000000D, 0x12B), (0x8000000E, 0x1C),
    (0x8000000F, 0x15), (0x80000010, 0x15), (0x80000011, 0xAA), (0x80000012, 0x103), (0x80000013, 0xFE),
    (0x80000014, 0xFF), (0x80000015, 0xFF), (0x80000016, 0x456), (0x8000001A, 0x103), (0x8000001B, 0x44D),
    (0x8000001C, 0x456), (0x8000001D, 0x457), (0x8000001E, 0x44C), (0x8000001F, 0x44E), (0x80000021, 0x44F),
    (0x80000022, 0x450), (0x80000025, 0x962), (0x80000288, 0x48D), (0x80000289, 0x48E), (0xC002001B, 0x6BE)]"

definition werror_nums :: "werror_num list" where
  "werror_nums = (0xC0000022, 0x5) # ntstatus_to_werror_map1 @ ntstatus_to_werror_map2 @ ntstatus_to_werror_map3 @
     ntstatus_to_werror_map4 @ ntstatus_to_werror_map5"

definition ntstatus_to_werror_map :: "werror_row list" where
  "ntstatus_to_werror_map = map (map_prod word_of_int word_of_int) (werror_nums @ [(0, 0)])"

section \<open>The translations\<close>

definition ERRHRD :: u8 where "ERRHRD = 0x03"
definition ERRgeneral :: u32 where "ERRgeneral = 31"

definition NT_STATUS_IS_DOS :: "ntstatus \<Rightarrow> bool" where
  "NT_STATUS_IS_DOS status \<longleftrightarrow> status AND 0xFF000000 = 0xF1000000"

definition NT_STATUS_DOS_CLASS :: "ntstatus \<Rightarrow> u8" where
  "NT_STATUS_DOS_CLASS status = ucast (drop_bit 16 status AND 0xFF)"

definition NT_STATUS_DOS_CODE :: "ntstatus \<Rightarrow> u32" where
  "NT_STATUS_DOS_CODE status = status AND 0xFFFF"

text \<open>The search stops at a row whose status is 0.\<close>

fun dos_lookup :: "ntstatus \<Rightarrow> dos_row list \<Rightarrow> (u8 \<times> u32) option" where
  "dos_lookup ntstatus [] = None"
| "dos_lookup ntstatus ((dos_class, dos_code, st) # rows) =
     (if st = 0 then Some (ERRHRD, ERRgeneral)
      else if ntstatus = st then Some (dos_class, dos_code)
      else dos_lookup ntstatus rows)"

definition ntstatus_to_dos :: "ntstatus \<Rightarrow> (u8 \<times> u32) option" where
  "ntstatus_to_dos ntstatus =
     (if ntstatus = 0 then Some (0, 0)
      else if NT_STATUS_IS_DOS ntstatus then Some (NT_STATUS_DOS_CLASS ntstatus, NT_STATUS_DOS_CODE ntstatus)
      else dos_lookup ntstatus ntstatus_to_dos_map)"

text \<open>\<open>lp_nt_status_support()\<close>, a configuration setting, is the first argument.\<close>

definition ntstatus_dos_equal :: "bool \<Rightarrow> ntstatus \<Rightarrow> ntstatus \<Rightarrow> bool option" where
  "ntstatus_dos_equal nt_status_support status1 status2 =
     (if nt_status_support then Some (status1 = status2)
      else if \<not> NT_STATUS_IS_DOS status1 \<and> NT_STATUS_IS_DOS status2
      then map_option (\<lambda>(eclass, ecode). eclass = NT_STATUS_DOS_CLASS status2 \<and> ecode = NT_STATUS_DOS_CODE status2)
             (ntstatus_to_dos status1)
      else if NT_STATUS_IS_DOS status1 \<and> \<not> NT_STATUS_IS_DOS status2
      then map_option (\<lambda>(eclass, ecode). eclass = NT_STATUS_DOS_CLASS status1 \<and> ecode = NT_STATUS_DOS_CODE status1)
             (ntstatus_to_dos status2)
      else Some (status1 = status2))"

fun find_status :: "werror \<Rightarrow> werror_row list \<Rightarrow> ntstatus option" where
  "find_status err [] = None"
| "find_status err ((st, w) # rows) =
     (if st = 0 then Some err else if err = w then Some st else find_status err rows)"

definition werror_to_ntstatus :: "werror \<Rightarrow> ntstatus option" where
  "werror_to_ntstatus err = (if err = 0 then Some 0 else find_status err ntstatus_to_werror_map)"

fun find_werror :: "ntstatus \<Rightarrow> werror_row list \<Rightarrow> werror option" where
  "find_werror err [] = None"
| "find_werror err ((st, w) # rows) =
     (if st = 0 then Some err else if err = st then Some w else find_werror err rows)"

definition ntstatus_to_werror :: "ntstatus \<Rightarrow> werror option" where
  "ntstatus_to_werror err = (if err = 0 then Some 0 else find_werror err ntstatus_to_werror_map)"

section \<open>The tables are consistent\<close>

fun ascending :: "int list \<Rightarrow> bool" where
  "ascending (x # y # zs) \<longleftrightarrow> x < y \<and> ascending (y # zs)"
| "ascending _ \<longleftrightarrow> True"

lemma ascending_less: "ascending (x # xs) \<Longrightarrow> y \<in> set xs \<Longrightarrow> x < y"
proof (induction xs arbitrary: x)
  case (Cons z zs)
  then show ?case by (cases "y = z") (auto intro: less_trans)
qed simp

lemma ascending_distinct: "ascending xs \<Longrightarrow> distinct xs"
proof (induction xs)
  case (Cons x xs)
  then have "ascending xs" by (cases xs) auto
  with Cons ascending_less [OF Cons.prems] show ?case by auto
qed simp

lemma distinct_by_parts:
  "distinct (filter P xs) \<Longrightarrow> distinct (filter (\<lambda>x. \<not> P x) xs) \<Longrightarrow> distinct xs"
  by (induction xs) (auto split: if_splits)

definition is_u32 :: "int \<Rightarrow> bool" where
  "is_u32 k \<longleftrightarrow> 0 < k \<and> k < 0x100000000"

lemma uint_is_u32: "is_u32 k \<Longrightarrow> uint (word_of_int k :: u32) = k"
  unfolding uint_word_of_int_eq by (simp add: is_u32_def take_bit_int_eq_self_iff)

lemma word_of_int_inj_u32: "is_u32 j \<Longrightarrow> is_u32 k \<Longrightarrow> (word_of_int j :: u32) = word_of_int k \<Longrightarrow> j = k"
  by (metis uint_is_u32)

lemma word_of_int_nonzero: "is_u32 k \<Longrightarrow> (word_of_int k :: u32) \<noteq> 0"
  using uint_is_u32 [of k] by (auto simp: is_u32_def)

text \<open>
  The rows of the Win32 table after its first row, which repeats a later one, are ascending up to the
  warnings (\<open>0x8...\<close>), which are ascending with one code that was appended.
\<close>

definition late_code :: "int \<Rightarrow> bool" where
  "late_code st \<longleftrightarrow> 0x80000000 \<le> st \<and> st < 0x90000000 \<or> st = 0xC002001B"

lemmas werror_unfold = ntstatus_to_werror_map1_def ntstatus_to_werror_map2_def ntstatus_to_werror_map3_def
  ntstatus_to_werror_map4_def ntstatus_to_werror_map5_def

lemmas dos_unfold = dos_nums_def ntstatus_to_dos_map1_def ntstatus_to_dos_map2_def
  ntstatus_to_dos_map3_def ntstatus_to_dos_map4_def

abbreviation early_rows :: "werror_num list" where
  "early_rows \<equiv> ntstatus_to_werror_map1 @ ntstatus_to_werror_map2 @ ntstatus_to_werror_map3 @ ntstatus_to_werror_map4"

lemma werror_nums_range: "list_all (\<lambda>(st, w). is_u32 st \<and> is_u32 w) werror_nums"
  by (simp add: werror_nums_def werror_unfold is_u32_def)

lemma early_ascending: "ascending (map fst early_rows)"
  by (simp add: werror_unfold)

lemma early_codes: "list_all (\<lambda>st. \<not> late_code st) (map fst early_rows)"
  by (simp add: werror_unfold late_code_def)

lemma late_ascending: "ascending (map fst ntstatus_to_werror_map5)"
  by (simp add: werror_unfold)

lemma late_codes: "list_all late_code (map fst ntstatus_to_werror_map5)"
  by (simp add: werror_unfold late_code_def)

lemma access_denied_repeated: "(0xC0000022, 5) \<in> set early_rows"
  by (simp add: werror_unfold)

lemma dos_nums_range: "list_all (\<lambda>(_, _, st). is_u32 st) dos_nums"
  by (simp add: dos_unfold is_u32_def)

lemma dos_nums_ascending: "ascending (map (\<lambda>(_, _, st). st) dos_nums)"
  by (simp add: dos_unfold)

lemma dos_nums_small: "list_all (\<lambda>(_, _, st). st < 0xD0000000) dos_nums"
  by (simp add: dos_unfold)

lemma dos_nums_gap: "list_all (\<lambda>(_, _, st). st \<noteq> 0xC0000300) dos_nums"
  by (simp add: dos_unfold)

section \<open>The searches as finite maps\<close>

definition werror_rows :: "werror_row list" where
  "werror_rows = map (map_prod word_of_int word_of_int) werror_nums"

lemma werror_map_shape: "ntstatus_to_werror_map = werror_rows @ [(0, 0)]"
  by (simp add: ntstatus_to_werror_map_def werror_rows_def)

lemma werror_rows_nonzero: "(st, w) \<in> set werror_rows \<Longrightarrow> st \<noteq> 0 \<and> w \<noteq> 0"
  using werror_nums_range word_of_int_nonzero by (fastforce simp: werror_rows_def list_all_iff)

lemma werror_nums_functional:
  assumes row: "(st, w) \<in> set werror_nums" shows "map_of werror_nums st = Some w"
proof -
  let ?t = "early_rows @ ntstatus_to_werror_map5"
  have "st \<notin> set (map fst ntstatus_to_werror_map5)" if "st \<in> set (map fst early_rows)" for st
    using that early_codes late_codes unfolding list_all_iff by blast
  then have d: "distinct (map fst ?t)"
    using ascending_distinct [OF early_ascending] ascending_distinct [OF late_ascending]
    unfolding map_append [of fst early_rows] distinct_append by blast
  have t: "werror_nums = (0xC0000022, 5) # ?t" by (simp add: werror_nums_def)
  have m: "map_of ?t a = Some b" if "(a, b) \<in> set ?t" for a b by (rule map_of_is_SomeI [OF d that])
  have x: "(0xC0000022, 5) \<in> set ?t" using access_denied_repeated by auto
  have "(st, w) \<in> set ?t" using row x unfolding t by auto
  then show ?thesis using m [OF x] m [of st w] unfolding t by auto
qed

lemma map_of_word_of_int:
  assumes "list_all (\<lambda>(a, b). is_u32 a \<and> is_u32 b) xs" "is_u32 k"
  shows "map_of (map (map_prod (word_of_int :: int \<Rightarrow> u32) (word_of_int :: int \<Rightarrow> u32)) xs) (word_of_int k) =
    map_option word_of_int (map_of xs k)"
  using assms(1) word_of_int_inj_u32 [OF _ assms(2)] by (induction xs) auto

lemma werror_rows_functional:
  assumes "(st, w) \<in> set werror_rows" shows "map_of werror_rows st = Some w"
proof -
  from assms obtain a b where ab: "(a, b) \<in> set werror_nums" "st = word_of_int a" "w = word_of_int b"
    by (auto simp: werror_rows_def)
  moreover have "is_u32 a" using ab(1) werror_nums_range by (auto simp: list_all_iff)
  ultimately show ?thesis
    using map_of_word_of_int [OF werror_nums_range] werror_nums_functional by (simp add: werror_rows_def)
qed

lemma find_status_map:
  assumes "\<And>st w. (st, w) \<in> set rows \<Longrightarrow> st \<noteq> 0"
  shows "find_status err (rows @ [(0, 0)]) = Some (case map_of (map prod.swap rows) err of Some st \<Rightarrow> st | None \<Rightarrow> err)"
  using assms
proof (induction rows)
  case (Cons r rows)
  obtain a b where r: "r = (a, b)" by (cases r)
  have "a \<noteq> 0" "\<And>st w. (st, w) \<in> set rows \<Longrightarrow> st \<noteq> 0" using Cons.prems r by auto
  with Cons.IH r show ?case by simp
qed simp

lemma find_werror_map:
  assumes "\<And>st w. (st, w) \<in> set rows \<Longrightarrow> st \<noteq> 0"
  shows "find_werror err (rows @ [(0, 0)]) = Some (case map_of rows err of Some w \<Rightarrow> w | None \<Rightarrow> err)"
  using assms
proof (induction rows)
  case (Cons r rows)
  obtain a b where r: "r = (a, b)" by (cases r)
  have "a \<noteq> 0" "\<And>st w. (st, w) \<in> set rows \<Longrightarrow> st \<noteq> 0" using Cons.prems r by auto
  with Cons.IH r show ?case by simp
qed simp

lemma werror_to_ntstatus_eq:
  "werror_to_ntstatus err =
     Some (if err = 0 then 0 else case map_of (map prod.swap werror_rows) err of Some st \<Rightarrow> st | None \<Rightarrow> err)"
  unfolding werror_to_ntstatus_def werror_map_shape
  by (subst find_status_map) (use werror_rows_nonzero in blast, simp)

lemma ntstatus_to_werror_eq:
  "ntstatus_to_werror err =
     Some (if err = 0 then 0 else case map_of werror_rows err of Some w \<Rightarrow> w | None \<Rightarrow> err)"
  unfolding ntstatus_to_werror_def werror_map_shape
  by (subst find_werror_map) (use werror_rows_nonzero in blast, simp)

definition dos_statuses :: "ntstatus set" where
  "dos_statuses = (\<lambda>(_, _, st). st) ` set ntstatus_to_dos_map"

lemma dos_map_nonzero: "(c, e, st) \<in> set ntstatus_to_dos_map \<Longrightarrow> st \<noteq> 0"
  using dos_nums_range word_of_int_nonzero by (fastforce simp: ntstatus_to_dos_map_def list_all_iff)

lemma dos_map_not_dos:
  assumes "(c, e, st) \<in> set ntstatus_to_dos_map" shows "\<not> NT_STATUS_IS_DOS st"
proof
  assume "NT_STATUS_IS_DOS st"
  then have "0xF1000000 \<le> st" using word_and_le2 [of st "0xFF000000"] by (simp add: NT_STATUS_IS_DOS_def)
  moreover obtain k where "st = word_of_int k" "is_u32 k" "k < 0xD0000000"
    using assms dos_nums_range dos_nums_small by (fastforce simp: ntstatus_to_dos_map_def list_all_iff)
  ultimately show False using uint_is_u32 [of k] by (simp add: word_le_def)
qed

lemma dos_lookup_None:
  assumes "\<And>c e st. (c, e, st) \<in> set rows \<Longrightarrow> st \<noteq> 0"
  shows "dos_lookup s rows = None \<longleftrightarrow> s \<notin> (\<lambda>(_, _, st). st) ` set rows"
  using assms
proof (induction rows)
  case (Cons r rows)
  obtain a b d where r: "r = (a, b, d)" by (cases r)
  have "d \<noteq> 0" "\<And>c e st. (c, e, st) \<in> set rows \<Longrightarrow> st \<noteq> 0" using Cons.prems r by auto
  with Cons.IH r show ?case by simp
qed simp

lemma dos_lookup_row:
  assumes "\<And>c e st. (c, e, st) \<in> set rows \<Longrightarrow> st \<noteq> 0" "distinct (map (\<lambda>(_, _, st). st) rows)"
    and "(c, e, s) \<in> set rows"
  shows "dos_lookup s rows = Some (c, e)"
  using assms
proof (induction rows)
  case (Cons r rows)
  obtain a b d where r: "r = (a, b, d)" by (cases r)
  have nz: "d \<noteq> 0" "\<And>c e st. (c, e, st) \<in> set rows \<Longrightarrow> st \<noteq> 0" using Cons.prems(1) r by auto
  show ?case
  proof (cases "(c, e, s) = r")
    case True
    with nz r show ?thesis by simp
  next
    case False
    then have m: "(c, e, s) \<in> set rows" using Cons.prems(3) by auto
    then have "s \<noteq> d" using Cons.prems(2) r by (force simp: image_iff)
    with Cons.IH [OF nz(2) _ m] Cons.prems(2) nz r show ?thesis by simp
  qed
qed simp

lemma dos_map_distinct: "distinct (map (\<lambda>(_, _, st). st) ntstatus_to_dos_map)"
proof -
  have "map (\<lambda>(_, _, st). st) ntstatus_to_dos_map = map (word_of_int :: int \<Rightarrow> u32) (map (\<lambda>(_, _, st). st) dos_nums)"
    by (simp add: ntstatus_to_dos_map_def split_beta)
  moreover have "inj_on (word_of_int :: int \<Rightarrow> u32) (set (map (\<lambda>(_, _, st). st) dos_nums))"
  proof (rule inj_onI)
    have r: "is_u32 k" if "k \<in> set (map (\<lambda>(_, _, st). st) dos_nums)" for k
      using that dos_nums_range by (auto simp: list_all_iff)
    fix j k assume "j \<in> set (map (\<lambda>(_, _, st). st) dos_nums)" "k \<in> set (map (\<lambda>(_, _, st). st) dos_nums)"
      and e: "(word_of_int j :: u32) = word_of_int k"
    then show "j = k" using word_of_int_inj_u32 [OF r r] by blast
  qed
  moreover have "distinct (map (\<lambda>(_, _, st). st) dos_nums)" by (rule ascending_distinct [OF dos_nums_ascending])
  ultimately show ?thesis by (metis distinct_map)
qed

section \<open>Properties\<close>

text \<open>C34: the translations between NT status codes and Win32 errors are total (no search runs past the table), translate
  success and only success to success, and every Win32 error of the table survives the way to an NT status and back.\<close>

theorem werror_translation:
  "(\<exists>w. ntstatus_to_werror s = Some w \<and> (w = 0 \<longleftrightarrow> s = 0)) \<and>
   (\<exists>st. werror_to_ntstatus v = Some st \<and> (st = 0 \<longleftrightarrow> v = 0)) \<and>
   (v \<in> snd ` set ntstatus_to_werror_map \<longrightarrow> Option.bind (werror_to_ntstatus v) ntstatus_to_werror = Some v)"
proof (intro conjI impI)
  show "\<exists>w. ntstatus_to_werror s = Some w \<and> (w = 0 \<longleftrightarrow> s = 0)"
    by (auto simp: ntstatus_to_werror_eq split: option.splits dest!: map_of_SomeD dest: werror_rows_nonzero)
  show "\<exists>st. werror_to_ntstatus v = Some st \<and> (st = 0 \<longleftrightarrow> v = 0)"
    by (auto simp: werror_to_ntstatus_eq split: option.splits dest!: map_of_SomeD dest: werror_rows_nonzero)
  assume v: "v \<in> snd ` set ntstatus_to_werror_map"
  show "Option.bind (werror_to_ntstatus v) ntstatus_to_werror = Some v"
  proof (cases "v = 0")
    case True
    then show ?thesis by (simp add: werror_to_ntstatus_def ntstatus_to_werror_def)
  next
    case False
    with v have "v \<in> fst ` set (map prod.swap werror_rows)"
      by (auto simp: werror_map_shape image_iff)
    then obtain st where st: "map_of (map prod.swap werror_rows) v = Some st"
      by (metis map_of_eq_None_iff not_None_eq)
    then have row: "(st, v) \<in> set werror_rows" by (auto dest!: map_of_SomeD)
    then have "st \<noteq> 0" using werror_rows_nonzero by blast
    with False st row show ?thesis
      by (simp add: werror_to_ntstatus_eq ntstatus_to_werror_eq werror_rows_functional)
  qed
qed

theorem werror_translation_witness:
  "(5 :: werror) \<in> snd ` set ntstatus_to_werror_map \<and> Option.bind (werror_to_ntstatus 5) ntstatus_to_werror = Some 5"
proof
  have "(0xC0000022, 5) \<in> set werror_nums" by (simp add: werror_nums_def)
  then have "(0xC0000022, 5) \<in> set werror_rows" by (force simp: werror_rows_def)
  then show "(5 :: werror) \<in> snd ` set ntstatus_to_werror_map" by (force simp: werror_map_shape)
  then show "Option.bind (werror_to_ntstatus 5) ntstatus_to_werror = Some 5"
    using werror_translation [of 0 5] by blast
qed

text \<open>C38: the table of DOS errors has no terminating row, so translating a status that is not success, not already a DOS
  code and not in the table reads past the end of the array; a status of the table is translated to its row.\<close>

theorem ntstatus_to_dos_overreads:
  "(ntstatus_to_dos s = None \<longleftrightarrow> s \<noteq> 0 \<and> \<not> NT_STATUS_IS_DOS s \<and> s \<notin> dos_statuses) \<and>
   ntstatus_to_dos 0xC0000300 = None \<and>
   list_all (\<lambda>(c, e, st). ntstatus_to_dos st = Some (c, e)) ntstatus_to_dos_map"
proof (intro conjI)
  have none: "ntstatus_to_dos s = None \<longleftrightarrow> s \<noteq> 0 \<and> \<not> NT_STATUS_IS_DOS s \<and> s \<notin> dos_statuses" for s
    using dos_lookup_None [of ntstatus_to_dos_map s] dos_map_nonzero
    by (auto simp: ntstatus_to_dos_def dos_statuses_def)
  then show "ntstatus_to_dos s = None \<longleftrightarrow> s \<noteq> 0 \<and> \<not> NT_STATUS_IS_DOS s \<and> s \<notin> dos_statuses" .
  have "(word_of_int st :: u32) \<noteq> 0xC0000300" if "(c, e, st) \<in> set dos_nums" for c e st
  proof -
    have "is_u32 st" "st \<noteq> 0xC0000300" using that dos_nums_range dos_nums_gap by (fastforce simp: list_all_iff)+
    then show ?thesis using uint_is_u32 [of st] by auto
  qed
  then have "0xC0000300 \<notin> dos_statuses"
    by (auto simp: dos_statuses_def ntstatus_to_dos_map_def)
  then show "ntstatus_to_dos 0xC0000300 = None" using none by (simp add: NT_STATUS_IS_DOS_def)
  show "list_all (\<lambda>(c, e, st). ntstatus_to_dos st = Some (c, e)) ntstatus_to_dos_map"
  proof -
    have "st \<noteq> 0 \<and> \<not> NT_STATUS_IS_DOS st \<and> dos_lookup st ntstatus_to_dos_map = Some (c, e)" if "(c, e, st) \<in> set ntstatus_to_dos_map" for c e st
      using dos_lookup_row [OF _ dos_map_distinct that] dos_map_nonzero dos_map_not_dos that by blast
    then show ?thesis by (auto simp: list_all_iff ntstatus_to_dos_def)
  qed
qed

end
