(* ===== verification/Guid.thy ===== *)
theory Guid
  imports DomSid
begin

text \<open>
  Globally unique identifiers: \<open>librpc/ndr/uuid.c\<close>.  The library functions it uses are the conversions
  \<open>%0Nx\<close> of \<open>printf\<close> (zero-padded lower-case digits) and of \<open>sscanf\<close> (at most \<open>N\<close> characters: after
  white space an optional sign, an optional \<open>0x\<close> and at least one digit).
\<close>

record GUID =
  time_low :: u32
  time_mid :: u16
  time_hi_and_version :: u16
  clock_seq :: "u8 list"
  node :: "u8 list"

text \<open>The two arrays of the structure have 2 and 6 elements.\<close>

definition guid_ok :: "GUID \<Rightarrow> bool" where
  "guid_ok g \<longleftrightarrow> length (clock_seq g) = 2 \<and> length (node g) = 6"

section \<open>Hexadecimal conversions\<close>

definition xdigits :: string where "xdigits = ''0123456789abcdef''"

definition xval :: "char \<Rightarrow> int option" where
  "xval c = map_of (zip (xdigits @ ''ABCDEF'') ([0..15] @ [10..15])) c"

fun print_hex :: "nat \<Rightarrow> int \<Rightarrow> string" where
  "print_hex 0 v = []"
| "print_hex (Suc w) v = print_hex w (v div 16) @ [xdigits ! nat (v mod 16)]"

fun read_hex :: "nat \<Rightarrow> int \<Rightarrow> string \<Rightarrow> int \<times> string" where
  "read_hex (Suc w) acc (c # s) = (case xval c of Some d \<Rightarrow> read_hex w (16 * acc + d) s | None \<Rightarrow> (acc, c # s))"
| "read_hex w acc s = (acc, s)"

definition scan_sign :: "nat \<Rightarrow> string \<Rightarrow> bool \<times> nat \<times> string" where
  "scan_sign w s = (case s of c # r \<Rightarrow> if c = CHR ''-'' then (True, w - 1, r)
     else if c = CHR ''+'' then (False, w - 1, r) else (False, w, s) | [] \<Rightarrow> (False, w, s))"

definition scan_prefix :: "nat \<Rightarrow> string \<Rightarrow> nat \<times> string" where
  "scan_prefix w s = (case s of a # b # r \<Rightarrow>
       if w \<ge> 2 \<and> a = CHR ''0'' \<and> (b = CHR ''x'' \<or> b = CHR ''X'') then (w - 2, r) else (w, s)
     | _ \<Rightarrow> (w, s))"

definition scan_hex :: "nat \<Rightarrow> string \<Rightarrow> (u32 \<times> string) option" where
  "scan_hex w s =
     (let (neg, w, s) = scan_sign w (skip_space s); (w, s) = scan_prefix w s; (v, r) = read_hex w 0 s
      in if r = s then None else Some (word_of_int (if neg then - v else v), r))"

definition scan_lit :: "char \<Rightarrow> string \<Rightarrow> string option" where
  "scan_lit c s = (case s of [] \<Rightarrow> None | d # r \<Rightarrow> if d = c then Some r else None)"

fun scan_bytes :: "nat \<Rightarrow> string \<Rightarrow> (u8 list \<times> string) option" where
  "scan_bytes 0 s = Some ([], s)"
| "scan_bytes (Suc n) s = do { (b, s) \<leftarrow> scan_hex 2 s; (bs, s) \<leftarrow> scan_bytes n s; Some (ucast b # bs, s) }"

section \<open>The operations\<close>

text \<open>
  Eleven conversions in the order of the format; what follows the last one is not looked at, so that
  the closing brace of the second format is not required.  The values are truncated to the fields.
\<close>

definition scan_guid :: "string \<Rightarrow> GUID option" where
  "scan_guid s =
     do { (low, s) \<leftarrow> scan_hex 8 s; s \<leftarrow> scan_lit CHR ''-'' s;
          (mid, s) \<leftarrow> scan_hex 4 s; s \<leftarrow> scan_lit CHR ''-'' s;
          (hi, s) \<leftarrow> scan_hex 4 s; s \<leftarrow> scan_lit CHR ''-'' s;
          (cs, s) \<leftarrow> scan_bytes 2 s; s \<leftarrow> scan_lit CHR ''-'' s;
          (nd, s) \<leftarrow> scan_bytes 6 s;
          Some \<lparr>time_low = low, time_mid = ucast mid, time_hi_and_version = ucast hi, clock_seq = cs, node = nd\<rparr> }"

definition GUID_from_string :: "string option \<Rightarrow> failure + GUID" where
  "GUID_from_string s =
     (case s of
        None \<Rightarrow> Inl (Status NT_STATUS_INVALID_PARAMETER)
      | Some s \<Rightarrow>
          (case scan_guid s of
             Some g \<Rightarrow> Inr g
           | None \<Rightarrow>
               (case Option.bind (scan_lit CHR ''{'' s) scan_guid of
                  Some g \<Rightarrow> Inr g
                | None \<Rightarrow> Inl (Status NT_STATUS_INVALID_PARAMETER))))"

text \<open>\<open>generate_random_buffer\<close> supplies the first argument.\<close>

definition GUID_random :: "GUID \<Rightarrow> GUID" where
  "GUID_random buffer =
     buffer\<lparr>clock_seq := (clock_seq buffer)[0 := (clock_seq buffer ! 0 AND 0x3F) OR 0x80],
            time_hi_and_version := (time_hi_and_version buffer AND 0x0FFF) OR 0x4000\<rparr>"

definition GUID_zero :: GUID where
  "GUID_zero = \<lparr>time_low = 0, time_mid = 0, time_hi_and_version = 0, clock_seq = [0, 0], node = [0, 0, 0, 0, 0, 0]\<rparr>"

definition GUID_all_zero :: "GUID \<Rightarrow> bool" where
  "GUID_all_zero u \<longleftrightarrow> \<not> (time_low u \<noteq> 0 \<or> time_mid u \<noteq> 0 \<or> time_hi_and_version u \<noteq> 0 \<or>
     clock_seq u ! 0 \<noteq> 0 \<or> clock_seq u ! 1 \<noteq> 0 \<or> \<not> list_all (\<lambda>b. b = 0) (take 6 (node u)))"

definition GUID_equal :: "GUID \<Rightarrow> GUID \<Rightarrow> bool" where
  "GUID_equal u1 u2 \<longleftrightarrow> \<not> (time_low u1 \<noteq> time_low u2 \<or> time_mid u1 \<noteq> time_mid u2 \<or>
     time_hi_and_version u1 \<noteq> time_hi_and_version u2 \<or>
     clock_seq u1 ! 0 \<noteq> clock_seq u2 ! 0 \<or> clock_seq u1 ! 1 \<noteq> clock_seq u2 ! 1 \<or>
     take 6 (node u1) \<noteq> take 6 (node u2))"

definition print_bytes :: "u8 list \<Rightarrow> string" where
  "print_bytes bs = concat (map (\<lambda>b. print_hex 2 (uint b)) bs)"

definition GUID_string :: "GUID \<Rightarrow> string" where
  "GUID_string guid =
     print_hex 8 (uint (time_low guid)) @ ''-'' @ print_hex 4 (uint (time_mid guid)) @ ''-'' @
     print_hex 4 (uint (time_hi_and_version guid)) @ ''-'' @
     print_bytes (take 2 (clock_seq guid)) @ ''-'' @ print_bytes (take 6 (node guid))"

definition GUID_string2 :: "GUID \<Rightarrow> string" where
  "GUID_string2 guid = ''{'' @ GUID_string guid @ ''}''"

definition policy_handle_empty :: "u32 \<Rightarrow> GUID \<Rightarrow> bool" where
  "policy_handle_empty handle_type uuid \<longleftrightarrow> handle_type = 0 \<and> GUID_all_zero uuid"

section \<open>Scanning what was printed\<close>

lemma xdigit_facts:
  assumes "d < 16"
  shows "xval (xdigits ! d) = Some (int d)" "xdigits ! d \<notin> {CHR ''-'', CHR ''+'', CHR ''x'', CHR ''X'', CHR ''{''}"
    "skip_space (xdigits ! d # s) = xdigits ! d # s"
proof -
  have "list_all (\<lambda>d. xval (xdigits ! d) = Some (int d) \<and>
      xdigits ! d \<notin> {CHR ''-'', CHR ''+'', CHR ''x'', CHR ''X'', CHR ''{''} \<and> skip_space [xdigits ! d] = [xdigits ! d]) [0..<16]"
    by code_simp
  then have "xval (xdigits ! d) = Some (int d) \<and> xdigits ! d \<notin> {CHR ''-'', CHR ''+'', CHR ''x'', CHR ''X'', CHR ''{''} \<and>
      skip_space [xdigits ! d] = [xdigits ! d]"
    using assms by (simp only: list_all_iff set_upt atLeastLessThan_iff) simp
  then show "xval (xdigits ! d) = Some (int d)" "xdigits ! d \<notin> {CHR ''-'', CHR ''+'', CHR ''x'', CHR ''X'', CHR ''{''}"
    "skip_space (xdigits ! d # s) = xdigits ! d # s"
    by (auto split: if_splits)
qed

lemma length_print_hex [simp]: "length (print_hex w v) = w"
  by (induction w arbitrary: v) auto

lemma print_hex_Cons: "\<exists>d s. d < (16 :: nat) \<and> print_hex (Suc w) v = xdigits ! d # s"
proof (induction w arbitrary: v)
  case (Suc w)
  obtain d s where "d < 16" "print_hex (Suc w) (v div 16) = xdigits ! d # s" using Suc by blast
  then show ?case by (subst print_hex.simps) auto
next
  case 0
  have "nat (v mod 16) < 16" "print_hex (Suc 0) v = [xdigits ! nat (v mod 16)]" by simp_all
  then show ?case by blast
qed

lemma read_print_hex:
  "0 \<le> v \<Longrightarrow> v < 16 ^ w \<Longrightarrow> read_hex (w + k) acc (print_hex w v @ s) = read_hex k (16 ^ w * acc + v) s"
proof (induction w arbitrary: v k s)
  case (Suc w)
  have "v div 16 < 16 ^ w" "0 \<le> v div 16" using Suc.prems by (auto simp: div_less_iff_less_mult mult.commute)
  moreover have "nat (v mod 16) < 16" "0 \<le> v mod 16" by simp_all
  ultimately show ?case
    using Suc.IH [of "v div 16" "Suc k" "xdigits ! nat (v mod 16) # s"] xdigit_facts(1) [of "nat (v mod 16)"]
    by (simp add: algebra_simps)
next
  case 0
  then have "v = 0" by simp
  then show ?case by simp
qed

lemma read_hex_stop: "xval c = None \<Longrightarrow> read_hex w acc (c # s) = (acc, c # s)"
  by (cases w) simp_all

text \<open>A field of at least two digits is scanned back, whatever follows it.\<close>

lemma scan_print_hex_Suc:
  assumes "0 \<le> v" "v < 16 ^ Suc (Suc w)"
  shows "scan_hex (Suc (Suc w)) (print_hex (Suc (Suc w)) v @ s) = Some (word_of_int v, s)"
proof -
  let ?p = "print_hex (Suc (Suc w)) v"
  obtain d t where d: "d < 16" "?p = xdigits ! d # t" using print_hex_Cons by blast
  then have "length t = Suc w" using length_print_hex [of "Suc (Suc w)" v] by simp
  then obtain c r where t: "t = c # r" by (cases t) auto
  have "c \<in> set ?p" using d t by simp
  moreover have "set (print_hex k u) \<subseteq> {xdigits ! e |e. e < (16 :: nat)}" for k u
  proof (induction k arbitrary: u)
    case (Suc k)
    have "nat (u mod 16) < 16" by simp
    with Suc show ?case by auto
  qed simp
  ultimately obtain e where e: "e < 16" "c = xdigits ! e" by blast
  have pre: "scan_prefix (Suc (Suc w)) (?p @ s) = (Suc (Suc w), ?p @ s)"
    using d t e xdigit_facts(2) [OF e(1)] by (simp add: scan_prefix_def)
  have sg: "scan_sign (Suc (Suc w)) (skip_space (?p @ s)) = (False, Suc (Suc w), ?p @ s)"
    using d xdigit_facts(2,3) [OF d(1)] by (simp add: scan_sign_def)
  have "read_hex (Suc (Suc w)) 0 (?p @ s) = (v, s)"
    using read_print_hex [OF assms, of 0 0 s] by (cases s) auto
  moreover have "s \<noteq> ?p @ s" using d by auto
  ultimately show ?thesis by (simp only: scan_hex_def Let_def sg pre prod.case if_False)
qed

lemma scan_print_hex:
  assumes "2 \<le> w" "0 \<le> v" "v < 16 ^ w" shows "scan_hex w (print_hex w v @ s) = Some (word_of_int v, s)"
proof -
  obtain k where "w = Suc (Suc k)" using assms(1) by (metis numeral_2_eq_2 le_Suc_ex plus_nat.simps)
  with scan_print_hex_Suc [of v k s] assms(2,3) show ?thesis by simp
qed

lemma scan_print_bytes:
  "scan_bytes (length bs) (print_bytes bs @ s) = Some (bs, s)"
proof (induction bs)
  case (Cons b bs)
  have "0 \<le> uint b" "uint b < 16 ^ 2" using unsigned_less [of b, where 'a = int] by simp_all
  from scan_print_hex [OF order_refl this, of "print_bytes bs @ s"]
  have "scan_hex 2 (print_bytes (b # bs) @ s) = Some (ucast b, print_bytes bs @ s)"
    by (simp add: print_bytes_def)
  moreover have "ucast (ucast b :: u32) = b" by (rule bit_word_eqI) (auto simp: bit_simps)
  ultimately show ?case using Cons by simp
qed (simp add: print_bytes_def)

lemma scan_guid_string:
  assumes "guid_ok g" shows "scan_guid (GUID_string g @ s) = Some g"
proof -
  have low: "scan_hex 8 (print_hex 8 (uint (time_low g)) @ s) = Some (time_low g, s)" for s
    using scan_print_hex [of 8 "uint (time_low g)" s] unsigned_less [of "time_low g", where 'a = int] by simp
  have mid: "scan_hex 4 (print_hex 4 (uint (v :: u16)) @ s) = Some (ucast v, s)" for v s
    using scan_print_hex [of 4 "uint v" s] unsigned_less [of v, where 'a = int] by simp
  have [simp]: "ucast (ucast v :: u32) = v" for v :: u16 by (rule bit_word_eqI) (auto simp: bit_simps)
  have bytes: "scan_bytes n (print_bytes bs @ s) = Some (bs, s)" if "length bs = n" for n bs s
    using scan_print_bytes [of bs s] that by simp
  show ?thesis
    using assms unfolding scan_guid_def GUID_string_def append_assoc
    by (simp add: low mid bytes scan_lit_def guid_ok_def)
qed

lemma scan_guid_brace: "scan_guid (CHR ''{'' # s) = None"
proof -
  have "xval CHR ''{'' = None" by code_simp
  then have "scan_hex 8 (CHR ''{'' # s) = None"
    by (simp add: scan_hex_def scan_sign_def scan_prefix_def read_hex_stop split: list.splits)
  then show ?thesis by (simp add: scan_guid_def)
qed

section \<open>Properties\<close>

text \<open>C33: the text of an identifier, plain or in braces, is read back as the identifier, whatever follows it; and the
  comparison of identifiers is equality.\<close>

theorem GUID_string_roundtrip:
  assumes "guid_ok g" "guid_ok h"
  shows "GUID_from_string (Some (GUID_string g @ s)) = Inr g \<and> GUID_from_string (Some (GUID_string2 g @ s)) = Inr g \<and>
     (GUID_equal g h \<longleftrightarrow> g = h) \<and> (GUID_all_zero g \<longleftrightarrow> g = GUID_zero)"
proof (intro conjI)
  show "GUID_from_string (Some (GUID_string g @ s)) = Inr g"
    by (simp add: GUID_from_string_def scan_guid_string [OF assms(1)])
  show "GUID_from_string (Some (GUID_string2 g @ s)) = Inr g"
    using scan_guid_string [OF assms(1), of "CHR ''}'' # s"]
    by (simp add: GUID_from_string_def GUID_string2_def scan_guid_brace scan_lit_def)
  have two: "xs = ys \<longleftrightarrow> xs ! 0 = ys ! 0 \<and> xs ! 1 = ys ! 1" if "length xs = 2" "length ys = 2" for xs ys :: "u8 list"
    using that by (auto simp: list_eq_iff_nth_eq less_2_cases_iff)
  show "GUID_equal g h \<longleftrightarrow> g = h"
    using assms two [of "clock_seq g" "clock_seq h"]
    by (cases g; cases h) (auto simp: GUID_equal_def guid_ok_def)
  have six: "list_all (\<lambda>b. b = 0) xs \<longleftrightarrow> xs = [0, 0, 0, 0, 0, 0]" if "length xs = 6" for xs :: "u8 list"
    using that by (auto simp: length_Suc_conv eval_nat_numeral)
  show "GUID_all_zero g \<longleftrightarrow> g = GUID_zero"
    using assms(1) two [of "clock_seq g" "[0, 0]"] six [of "node g"]
    by (cases g) (auto simp: GUID_all_zero_def guid_ok_def GUID_zero_def)
qed

text \<open>The class of the WMI object marshaller, \<open>4590f812-1d3a-11d0-891f-00aa004b2e24\<close>.\<close>

definition clsid_wbem :: GUID where
  "clsid_wbem = \<lparr>time_low = 0x4590f812, time_mid = 0x1d3a, time_hi_and_version = 0x11d0, clock_seq = [0x89, 0x1f],
     node = [0x00, 0xaa, 0x00, 0x4b, 0x2e, 0x24]\<rparr>"

theorem GUID_string_roundtrip_witness:
  "GUID_from_string (Some (GUID_string clsid_wbem @ [])) = Inr clsid_wbem \<and>
   GUID_string clsid_wbem = ''4590f812-1d3a-11d0-891f-00aa004b2e24''"
proof
  have "guid_ok clsid_wbem" by (simp add: guid_ok_def clsid_wbem_def)
  then show "GUID_from_string (Some (GUID_string clsid_wbem @ [])) = Inr clsid_wbem"
    using GUID_string_roundtrip by blast
  show "GUID_string clsid_wbem = ''4590f812-1d3a-11d0-891f-00aa004b2e24''" by code_simp
qed

end
