(* ===== verification/Wbem.thy ===== *)
theory Wbem
  imports NdrCore Guid ErrorMap
begin

text \<open>
  WMI objects on the wire: the structures of \<open>librpc/idl/dcom_wmi.inc\<close>, their framing in
  \<open>librpc/ndr/ndr_dcom.c\<close> and the parser of the result blocks in \<open>wmi/wbemdata.c\<close>.

  \<^item> A pointer to a structure or to a string is an option.  A \<open>CIMVAR\<close> union is a value of the member
    that its type selects; the integer members share one 64-bit cell, of which each reads its low bytes.
  \<^item> The object structure is recursive (values and method parameters are objects), so the
    structures are datatypes with named fields over the type of objects.
  \<^item> The readers that the IDL compiler generates, and those of the parts of an object that call them (counted
    strings, classes, methods and instances), are arguments.
\<close>

section \<open>CIM types and values\<close>

definition CIM_SINT8 :: u32 where "CIM_SINT8 = 16"
definition CIM_UINT8 :: u32 where "CIM_UINT8 = 17"
definition CIM_SINT16 :: u32 where "CIM_SINT16 = 2"
definition CIM_UINT16 :: u32 where "CIM_UINT16 = 18"
definition CIM_SINT32 :: u32 where "CIM_SINT32 = 3"
definition CIM_UINT32 :: u32 where "CIM_UINT32 = 19"
definition CIM_SINT64 :: u32 where "CIM_SINT64 = 20"
definition CIM_UINT64 :: u32 where "CIM_UINT64 = 21"
definition CIM_REAL32 :: u32 where "CIM_REAL32 = 4"
definition CIM_REAL64 :: u32 where "CIM_REAL64 = 5"
definition CIM_BOOLEAN :: u32 where "CIM_BOOLEAN = 11"
definition CIM_STRING :: u32 where "CIM_STRING = 8"
definition CIM_DATETIME :: u32 where "CIM_DATETIME = 101"
definition CIM_REFERENCE :: u32 where "CIM_REFERENCE = 102"
definition CIM_CHAR16 :: u32 where "CIM_CHAR16 = 103"
definition CIM_OBJECT :: u32 where "CIM_OBJECT = 13"
definition CIM_FLAG_ARRAY :: u32 where "CIM_FLAG_ARRAY = 0x2000"
definition CIM_TYPEMASK :: u32 where "CIM_TYPEMASK = 0x2FFF"

lemmas cim_types = CIM_SINT8_def CIM_UINT8_def CIM_SINT16_def CIM_UINT16_def CIM_SINT32_def CIM_UINT32_def
  CIM_SINT64_def CIM_UINT64_def CIM_REAL32_def CIM_REAL64_def CIM_BOOLEAN_def CIM_STRING_def CIM_DATETIME_def
  CIM_REFERENCE_def CIM_CHAR16_def CIM_OBJECT_def CIM_FLAG_ARRAY_def CIM_TYPEMASK_def

definition WCF_DECORATIONS :: u8 where "WCF_DECORATIONS = 1"
definition WCF_INSTANCE :: u8 where "WCF_INSTANCE = 2"
definition WCF_CLASS :: u8 where "WCF_CLASS = 4"

datatype 'o CIMVAR =
    CIM_bits u64
  | CIM_text "string option"
  | CIM_object "'o option"
  | CIM_nums "u64 list option"
  | CIM_texts "string option list option"
  | CIM_objects "'o option list option"

datatype 'o WbemQualifier = WbemQualifier
  (qual_name: "string option") (qual_flavors: u8) (qual_cimtype: u32) (qual_value: "'o CIMVAR")

datatype 'o WbemPropertyDesc = WbemPropertyDesc
  (desc_cimtype: u32) (desc_nr: u16) (desc_offset: u32) (desc_depth: u32) (desc_qualifiers: "'o WbemQualifier list")

datatype 'o WbemProperty = WbemProperty
  (prop_name: "string option") (prop_desc: "'o WbemPropertyDesc option")

datatype 'o WbemClass = WbemClass
  (class_u_0: u8) (class_name: "string option") (class_data_size: u32) (class_derivation: "string list")
  (class_qualifiers: "'o WbemQualifier list") (class_property_count: u32) (class_properties: "'o WbemProperty list")
  (class_default_flags: "u8 list") (class_default_values: "'o CIMVAR list")

datatype 'o WbemMethod = WbemMethod
  (method_name: "string option") (method_u0: u32) (method_u1: u32) (method_qualifiers: "'o WbemQualifier list option")
  (method_in: "'o option") (method_out: "'o option")

datatype 'o WbemMethods = WbemMethods
  (methods_count: u16) (methods_u0: u16) (methods_method: "'o WbemMethod list")

datatype 'o WbemInstance = WbemInstance
  (inst_u1_0: u8) (inst_class: "string option") (inst_default_flags: "u8 list") (inst_data: "'o CIMVAR list")
  (inst_u2_4: u32) (inst_u3_1: u8)

datatype WbemClassObject = WbemClassObject
  (wco_flags: u8) (wco_SERVER: "string option") (wco_NAMESPACE: "string option")
  (wco_sup_class: "WbemClassObject WbemClass option") (wco_sup_methods: "WbemClassObject WbemMethods option")
  (wco_obj_class: "WbemClassObject WbemClass option") (wco_obj_methods: "WbemClassObject WbemMethods option")
  (wco_instance: "WbemClassObject WbemInstance option")

type_synonym wclass = "WbemClassObject WbemClass"
type_synonym cimvar = "WbemClassObject CIMVAR"

text \<open>\<open>talloc_zero\<close> of an object.\<close>

definition zero_wco :: WbemClassObject where
  "zero_wco = WbemClassObject 0 None None None None None None None"

definition get_CIMTYPE_size :: "u32 \<Rightarrow> nat" where
  "get_CIMTYPE_size t =
     (if t AND CIM_FLAG_ARRAY \<noteq> 0 then 4
      else let t = t AND 0x1FF
      in if t \<in> {CIM_SINT8, CIM_UINT8} then 1
         else if t \<in> {CIM_SINT16, CIM_UINT16, CIM_BOOLEAN} then 2
         else if t \<in> {CIM_SINT32, CIM_UINT32, CIM_REAL32, CIM_STRING, CIM_DATETIME, CIM_REFERENCE, CIM_OBJECT} then 4
         else if t \<in> {CIM_SINT64, CIM_UINT64, CIM_REAL64} then 8
         else 4)"

definition IS_CIMTYPE_PTR :: "u32 \<Rightarrow> bool" where
  "IS_CIMTYPE_PTR t \<longleftrightarrow> t AND CIM_FLAG_ARRAY \<noteq> 0 \<or> t = CIM_STRING \<or> t = CIM_DATETIME \<or> t = CIM_REFERENCE"

section \<open>Bit fields\<close>

text \<open>\<open>src\<close> and \<open>dst\<close> are the memory from the pointers on; \<open>None\<close> is an access outside them.\<close>

definition copy_bits :: "u8 list \<Rightarrow> u32 \<Rightarrow> u8 list \<Rightarrow> u32 \<Rightarrow> u32 \<Rightarrow> u8 list option" where
  "copy_bits src bsrc dst bdst count =
     (let si = unat (drop_bit 3 bsrc); bsrc = bsrc AND 7; di = unat (drop_bit 3 bdst); bdst = bdst AND 7;
          mask = ucast (push_bit (unat count) 1 - 1 :: u32) :: u8
      in do { d \<leftarrow> fetch dst di;
              let d = d AND NOT (push_bit (unat bdst) mask)
              in do { s \<leftarrow> fetch src si;
                      Some (dst[di := d OR push_bit (unat bdst) (drop_bit (unat bsrc) s AND mask)]) } })"

section \<open>Blocks with a stack\<close>

text \<open>
  \<open>fn\<close> is called twice, for the scalars and for the buffers of the structure.  The two sizes are
  patched when the block is complete.
\<close>

definition ndr_push_DataWithStack :: "(nat \<Rightarrow> (ndr_push, unit) comp) \<Rightarrow> (ndr_push, unit) comp" where
  "ndr_push_DataWithStack fn =
     nbind (nget ps_offset) (\<lambda>ofs_size.
     nthen (ndr_push_uint32 0)
    (nthen (fn NDR_SCALARS)
    (nbind (nget ps_offset) (\<lambda>ofs_ssize.
     nthen (ndr_push_uint32 0)
    (nthen (nmodify (\<lambda>ndr. ndr\<lparr>ps_relative_base_offset := ps_offset ndr\<rparr>))
    (nthen (fn NDR_BUFFERS)
    (nbind (nget ps_offset) (\<lambda>ofs.
     nthen (nmodify (\<lambda>ndr. ndr\<lparr>ps_offset := ofs_size\<rparr>))
    (nthen (ndr_push_uint32 (ofs - ofs_size))
    (nthen (nmodify (\<lambda>ndr. ndr\<lparr>ps_offset := ofs_ssize\<rparr>))
    (nthen (ndr_push_uint32 ((ofs - ofs_ssize - 4) OR 0x80000000))
           (nmodify (\<lambda>ndr. ndr\<lparr>ps_offset := ofs\<rparr>)))))))))))))"

definition ndr_pull_DataWithStack :: "(nat \<Rightarrow> 'a \<Rightarrow> (ndr_pull, 'a) comp) \<Rightarrow> 'a \<Rightarrow> (ndr_pull, 'a) comp" where
  "ndr_pull_DataWithStack fn r =
     nbind (nget pl_offset) (\<lambda>start.
     nbind ndr_pull_uint32 (\<lambda>size.
     nthen (NDR_PULL_NEED_BYTES (size - 4))
    (nbind (nget pl_data_size) (\<lambda>ndrend.
     nthen (nmodify (\<lambda>ndr. ndr\<lparr>pl_data_size := start + size\<rparr>))
    (nbind (fn NDR_SCALARS r) (\<lambda>r.
     nbind ndr_pull_uint32 (\<lambda>ssize.
     if ssize AND 0x80000000 = 0 then ndr_pull_error NDR_ERR_VALIDATE
     else let ssize = ssize AND 0x7FFFFFFF in
     nthen (NDR_PULL_NEED_BYTES ssize)
    (nthen (nmodify (\<lambda>ndr. ndr\<lparr>pl_data_size := pl_offset ndr + ssize\<rparr>))
    (nthen (nmodify (\<lambda>ndr. ndr\<lparr>pl_relative_base_offset := pl_offset ndr\<rparr>))
    (nbind (fn NDR_BUFFERS r) (\<lambda>r.
     nthen (nmodify (\<lambda>ndr. ndr\<lparr>pl_data_size := ndrend, pl_offset := start + size\<rparr>))
           (nreturn r))))))))))))"

definition ndr_push_uint32_flags :: "nat \<Rightarrow> u32 \<Rightarrow> (ndr_push, unit) comp" where
  "ndr_push_uint32_flags ndr_flags v = (if ndr_flags AND NDR_SCALARS \<noteq> 0 then ndr_push_uint32 v else nreturn ())"

definition ndr_pull_uint32_flags :: "nat \<Rightarrow> u32 \<Rightarrow> (ndr_pull, u32) comp" where
  "ndr_pull_uint32_flags ndr_flags v = (if ndr_flags AND NDR_SCALARS \<noteq> 0 then ndr_pull_uint32 else nreturn v)"

section \<open>Objects\<close>

text \<open>
  The readers and writers of the parts: counted strings, and the three structures that are framed by
  \<open>ndr_push_DataWithStack\<close>.
\<close>

record wbem_push =
  push_CIMSTRING :: "string option \<Rightarrow> (ndr_push, unit) comp"
  push_WbemClass :: "nat \<Rightarrow> wclass option \<Rightarrow> (ndr_push, unit) comp"
  push_WbemMethods :: "nat \<Rightarrow> WbemClassObject WbemMethods option \<Rightarrow> (ndr_push, unit) comp"
  push_WbemInstance_priv :: "nat \<Rightarrow> WbemClassObject \<Rightarrow> (ndr_push, unit) comp"

record wbem_pull =
  pull_CIMSTRING :: "(ndr_pull, string option) comp"
  pull_WbemClass :: "nat \<Rightarrow> wclass option \<Rightarrow> (ndr_pull, wclass option) comp"
  pull_WbemMethods :: "nat \<Rightarrow> WbemClassObject WbemMethods option \<Rightarrow> (ndr_pull, WbemClassObject WbemMethods option) comp"
  pull_WbemInstance_priv :: "nat \<Rightarrow> WbemClassObject \<Rightarrow> (ndr_pull, WbemClassObject) comp"

definition only_if :: "bool \<Rightarrow> ('s, unit) comp \<Rightarrow> ('s, unit) comp" where
  "only_if c m = (if c then m else nreturn ())"

definition ndr_push_WbemClassObject :: "wbem_push \<Rightarrow> WbemClassObject \<Rightarrow> (ndr_push, unit) comp" where
  "ndr_push_WbemClassObject W r =
     nthen (nmodify (\<lambda>ndr. ndr\<lparr>ps_flags := ndr_set_flags (ps_flags ndr) LIBNDR_FLAG_NOALIGN\<rparr>))
    (nthen (ndr_push_uint8 (wco_flags r))
    (nthen (only_if (wco_flags r AND WCF_CLASS \<noteq> 0)
             (nthen (push_CIMSTRING W (wco_SERVER r)) (push_CIMSTRING W (wco_NAMESPACE r))))
    (nthen (only_if (wco_flags r AND WCF_DECORATIONS \<noteq> 0)
             (nthen (ndr_push_DataWithStack (\<lambda>fl. push_WbemClass W fl (wco_sup_class r)))
                    (ndr_push_DataWithStack (\<lambda>fl. push_WbemMethods W fl (wco_sup_methods r)))))
    (nthen (only_if (wco_flags r AND (WCF_CLASS OR WCF_INSTANCE) \<noteq> 0)
             (ndr_push_DataWithStack (\<lambda>fl. push_WbemClass W fl (wco_obj_class r))))
    (nthen (only_if (wco_flags r AND WCF_DECORATIONS \<noteq> 0)
             (ndr_push_DataWithStack (\<lambda>fl. push_WbemMethods W fl (wco_obj_methods r))))
           (only_if (wco_flags r AND WCF_INSTANCE \<noteq> 0)
             (ndr_push_DataWithStack (\<lambda>fl. push_WbemInstance_priv W fl r))))))))"

text \<open>\<open>talloc_zero\<close> of the structures that the reader fills.\<close>

definition zero_class :: wclass where "zero_class = WbemClass 0 None 0 [] [] 0 [] [] []"
definition zero_methods :: "WbemClassObject WbemMethods" where "zero_methods = WbemMethods 0 0 []"
definition zero_instance :: "WbemClassObject WbemInstance" where "zero_instance = WbemInstance 0 None [] [] 0 0"

fun set_head :: "u8 \<Rightarrow> WbemClassObject \<Rightarrow> WbemClassObject" where
  "set_head fl (WbemClassObject _ sv ns sc sm oc om i) = WbemClassObject fl sv ns sc sm oc om i"

fun set_path :: "string option \<Rightarrow> string option \<Rightarrow> WbemClassObject \<Rightarrow> WbemClassObject" where
  "set_path sv ns (WbemClassObject fl _ _ sc sm oc om i) = WbemClassObject fl sv ns sc sm oc om i"

fun set_sup :: "wclass option \<Rightarrow> WbemClassObject WbemMethods option \<Rightarrow> WbemClassObject \<Rightarrow> WbemClassObject" where
  "set_sup sc sm (WbemClassObject fl sv ns _ _ oc om i) = WbemClassObject fl sv ns sc sm oc om i"

fun set_obj_class :: "wclass option \<Rightarrow> WbemClassObject \<Rightarrow> WbemClassObject" where
  "set_obj_class oc (WbemClassObject fl sv ns sc sm _ om i) = WbemClassObject fl sv ns sc sm oc om i"

fun set_obj_methods :: "WbemClassObject WbemMethods option \<Rightarrow> WbemClassObject \<Rightarrow> WbemClassObject" where
  "set_obj_methods om (WbemClassObject fl sv ns sc sm oc _ i) = WbemClassObject fl sv ns sc sm oc om i"

fun set_instance :: "WbemClassObject WbemInstance option \<Rightarrow> WbemClassObject \<Rightarrow> WbemClassObject" where
  "set_instance i (WbemClassObject fl sv ns sc sm oc om _) = WbemClassObject fl sv ns sc sm oc om i"

text \<open>The head that both readers of objects share: the flags and, for classes, the path.\<close>

definition pull_wco_head :: "wbem_pull \<Rightarrow> WbemClassObject \<Rightarrow> (ndr_pull, WbemClassObject) comp" where
  "pull_wco_head W r =
     nthen (nmodify (\<lambda>ndr. ndr\<lparr>pl_flags := ndr_set_flags (pl_flags ndr) LIBNDR_FLAG_NOALIGN\<rparr>))
    (nbind ndr_pull_uint8 (\<lambda>fl.
     if fl AND WCF_CLASS \<noteq> 0
     then nbind (pull_CIMSTRING W) (\<lambda>sv. nbind (pull_CIMSTRING W) (\<lambda>ns. nreturn (set_path sv ns (set_head fl r))))
     else nreturn (set_head fl r)))"

text \<open>The instance at the end of an object, read in place.\<close>

definition pull_wco_instance :: "wbem_pull \<Rightarrow> WbemClassObject \<Rightarrow> (ndr_pull, WbemClassObject) comp" where
  "pull_wco_instance W r =
     (if wco_flags r AND WCF_INSTANCE \<noteq> 0
      then ndr_pull_DataWithStack (pull_WbemInstance_priv W) (set_instance (Some zero_instance) r)
      else nreturn (set_instance None r))"

definition ndr_pull_WbemClassObject :: "wbem_pull \<Rightarrow> WbemClassObject \<Rightarrow> (ndr_pull, WbemClassObject) comp" where
  "ndr_pull_WbemClassObject W r =
     nbind (pull_wco_head W r) (\<lambda>r.
     nbind (if wco_flags r AND WCF_DECORATIONS \<noteq> 0
            then nbind (ndr_pull_DataWithStack (pull_WbemClass W) (Some zero_class)) (\<lambda>sc.
                 nbind (ndr_pull_DataWithStack (pull_WbemMethods W) (Some zero_methods)) (\<lambda>sm.
                 nreturn (set_sup sc sm r)))
            else nreturn (set_sup None (wco_sup_methods r) r)) (\<lambda>r.
     nbind (if wco_flags r AND (WCF_CLASS OR WCF_INSTANCE) \<noteq> 0
            then nbind (ndr_pull_DataWithStack (pull_WbemClass W) (Some zero_class)) (\<lambda>oc. nreturn (set_obj_class oc r))
            else nreturn r) (\<lambda>r.
     nbind (if wco_flags r AND WCF_DECORATIONS \<noteq> 0
            then nbind (ndr_pull_DataWithStack (pull_WbemMethods W) (Some zero_methods)) (\<lambda>om. nreturn (set_obj_methods om r))
            else nreturn r)
     (pull_wco_instance W))))"

definition ndr_pull_WbemClassObject_Object :: "wbem_pull \<Rightarrow> WbemClassObject \<Rightarrow> (ndr_pull, WbemClassObject) comp" where
  "ndr_pull_WbemClassObject_Object W r = nbind (pull_wco_head W r) (pull_wco_instance W)"

section \<open>The result block\<close>

text \<open>
  The classes that an enumeration has received so far, by their identifiers: a doubly linked list to
  which elements are added in front.
\<close>

type_synonym class_cache = "(GUID \<times> wclass option) list"

fun get_ptr_by_guid :: "class_cache \<Rightarrow> GUID \<Rightarrow> wclass option" where
  "get_ptr_by_guid [] uuid = None"
| "get_ptr_by_guid ((g, p) # rest) uuid = (if GUID_equal g uuid then p else get_ptr_by_guid rest uuid)"

definition add_pair_guid_ptr :: "class_cache \<Rightarrow> GUID \<Rightarrow> wclass option \<Rightarrow> class_cache" where
  "add_pair_guid_ptr list uuid p = (uuid, p) # list"

definition DATATYPE_CLASSOBJECT :: u8 where "DATATYPE_CLASSOBJECT = 2"
definition DATATYPE_OBJECT :: u8 where "DATATYPE_OBJECT = 3"

text \<open>\<open>NDR_CHECK_EXPR\<close>, and a 32-bit field that must have a given value.\<close>

definition check_expr :: "bool \<Rightarrow> (ndr_pull, unit) comp" where
  "check_expr c = ncheck NT_STATUS_UNSUCCESSFUL (\<lambda>_. c)"

definition pull_const32 :: "u32 \<Rightarrow> (ndr_pull, unit) comp" where
  "pull_const32 c = nbind ndr_pull_uint32 (\<lambda>u. check_expr (u = c))"

text \<open>A size field: the bytes it announces, and \<open>extra\<close> more, must be there.\<close>

definition pull_size :: "u32 \<Rightarrow> (ndr_pull, u32) comp" where
  "pull_size extra = nbind ndr_pull_uint32 (\<lambda>u. nthen (NDR_PULL_NEED_BYTES (u + extra)) (nreturn u))"

text \<open>The words \<open>"WBEM"\<close> and \<open>"DATA"\<close>, read from the string constants on a little-endian host.\<close>

definition wbem_word :: u32 where "wbem_word = 0x4D454257"
definition data_word :: u32 where "data_word = 0x41544144"

definition wbemdata_header :: "u32 \<Rightarrow> (ndr_pull, unit) comp" where
  "wbemdata_header uCount =
     nthen (pull_const32 0) (nthen (pull_const32 wbem_word) (nthen (pull_const32 data_word)
    (nthen (pull_const32 0x1A) (nbind (pull_size 6) (\<lambda>_. nthen (pull_const32 0)
    (nbind ndr_pull_uint8 (\<lambda>major. nthen (check_expr (major = 1))
    (nbind ndr_pull_uint8 (\<lambda>minor. nthen (check_expr (minor \<le> 1))
    (nthen (pull_const32 8) (nbind (pull_size 0) (\<lambda>_.
     nthen (pull_const32 0xC) (nbind (pull_size 4) (\<lambda>_. pull_const32 uCount))))))))))))))"

text \<open>The header of one object: its data type, where the next object starts, and the identifier of its class.\<close>

definition wbemdata_object_header :: "(ndr_pull, GUID) comp \<Rightarrow> (ndr_pull, u8 \<times> u32 \<times> GUID) comp" where
  "wbemdata_object_header ndr_pull_GUID =
     nthen (pull_const32 9) (nbind (pull_size 1) (\<lambda>u.
     nbind ndr_pull_uint8 (\<lambda>datatype.
     nbind (nget pl_offset) (\<lambda>ofs.
     nthen (pull_const32 0x18) (nbind (pull_size 16) (\<lambda>_.
     nbind ndr_pull_GUID (\<lambda>guid. nreturn (datatype, ofs + u, guid))))))))"

text \<open>
  The state of the loop: the context, the caller's array and the cache.  A failure keeps what was
  stored before it; the object whose reading failed is left in its slot as it was allocated (the code leaves what had
  been read of it, which no caller looks at).  \<open>parse_one\<close> stores into slot \<open>i\<close> of the array.
\<close>

record parse_env =
  pe_objects :: "WbemClassObject option list"
  pe_cache :: class_cache

type_synonym parse_result = "(failure + ndr_pull) \<times> parse_env"

definition store_object :: "nat \<Rightarrow> WbemClassObject \<Rightarrow> parse_env \<Rightarrow> parse_env" where
  "store_object i r env = env\<lparr>pe_objects := (pe_objects env)[i := Some r]\<rparr>"

definition parse_one ::
  "(ndr_pull, GUID) comp \<Rightarrow> wbem_pull \<Rightarrow> nat \<Rightarrow> ndr_pull \<Rightarrow> parse_env \<Rightarrow> parse_result" where
  "parse_one ndr_pull_GUID W i ndr env =
     (case wbemdata_object_header ndr_pull_GUID ndr of
        Inl f \<Rightarrow> (Inl f, env)
      | Inr ((datatype, ofs_next, guid), ndr) \<Rightarrow>
          if datatype = DATATYPE_CLASSOBJECT \<or> datatype = DATATYPE_OBJECT
          then if i \<ge> length (pe_objects env) then (Inl Fault, env)
               else if datatype = DATATYPE_CLASSOBJECT
               then (case ndr_pull_WbemClassObject W zero_wco ndr of
                       Inl f \<Rightarrow> (Inl f, store_object i zero_wco env)
                     | Inr (r, ndr) \<Rightarrow> (Inr (ndr\<lparr>pl_offset := ofs_next\<rparr>),
                         (store_object i r env)\<lparr>pe_cache := add_pair_guid_ptr (pe_cache env) guid (wco_obj_class r)\<rparr>))
               else let r0 = set_obj_class (get_ptr_by_guid (pe_cache env) guid) zero_wco in
                    (case ndr_pull_WbemClassObject_Object W r0 ndr of
                       Inl f \<Rightarrow> (Inl f, store_object i r0 env)
                     | Inr (r, ndr) \<Rightarrow> (Inr (ndr\<lparr>pl_offset := ofs_next\<rparr>), store_object i r env))
          else (Inl (Status NT_STATUS_NOT_SUPPORTED), env))"

fun parse_loop ::
  "(ndr_pull, GUID) comp \<Rightarrow> wbem_pull \<Rightarrow> nat \<Rightarrow> nat \<Rightarrow> ndr_pull \<Rightarrow> parse_env \<Rightarrow> parse_result" where
  "parse_loop pg W i 0 ndr env = (Inr ndr, env)"
| "parse_loop pg W i (Suc k) ndr env =
     (case parse_one pg W i ndr env of
        (Inl f, env) \<Rightarrow> (Inl f, env)
      | (Inr ndr, env) \<Rightarrow> parse_loop pg W (Suc i) k ndr env)"

definition parse_context :: "u8 list \<Rightarrow> u32 \<Rightarrow> ndr_pull" where
  "parse_context data sz =
     \<lparr>pl_flags = ndr_set_flags 0 LIBNDR_FLAG_NOALIGN, pl_data = data, pl_data_size = sz, pl_offset = 0,
      pl_relative_base_offset = 0, pl_relative_base_list = [], pl_relative_list = [], pl_array_size_list = [],
      pl_array_length_list = [], pl_switch_list = [], pl_ptr_count = 0\<rparr>"

definition WBEMDATA_Parse ::
  "(ndr_pull, GUID) comp \<Rightarrow> wbem_pull \<Rightarrow> u8 list \<Rightarrow> u32 \<Rightarrow> u32 \<Rightarrow> parse_env \<Rightarrow> parse_result" where
  "WBEMDATA_Parse ndr_pull_GUID W data sz uCount env =
     (if uCount = 0 then (Inl (Status NT_STATUS_NOT_IMPLEMENTED), env)
      else case wbemdata_header uCount (parse_context data sz) of
             Inl f \<Rightarrow> (Inl f, env)
           | Inr (_, ndr) \<Rightarrow> parse_loop ndr_pull_GUID W 0 (unat uCount) ndr env)"

section \<open>Readers stay inside the buffer\<close>

text \<open>
  The readers of objects work without alignment and may change the flags otherwise; they keep the
  buffer and its limit.
\<close>

definition noalign_ok :: "ndr_pull \<Rightarrow> bool" where
  "noalign_ok q \<longleftrightarrow> pull_ok q \<and> has_flag (pl_flags q) LIBNDR_FLAG_NOALIGN"

definition same_buffer :: "ndr_pull \<Rightarrow> ndr_pull \<Rightarrow> bool" where
  "same_buffer q q' \<longleftrightarrow> pl_data q' = pl_data q \<and> pl_data_size q' = pl_data_size q"

abbreviation buf_safe :: "(ndr_pull, 'a) comp \<Rightarrow> bool" where
  "buf_safe m \<equiv> keeps noalign_ok same_buffer m"

lemma same_buffer_refl [intro, simp]: "reflp same_buffer" and same_buffer_trans [intro, simp]: "transp same_buffer"
  by (auto simp: reflp_def transp_def same_buffer_def)

lemma pull_safe_buf_safe: "pull_safe m \<Longrightarrow> buf_safe m"
  unfolding keeps_def
  by (erule comp_spec_conseq) (auto simp: noalign_ok_def same_buffer_def pull_frame_def)

definition same_data :: "ndr_pull \<Rightarrow> ndr_pull \<Rightarrow> bool" where
  "same_data q q' \<longleftrightarrow> pl_data q' = pl_data q"

lemma same_data_refl [intro, simp]: "reflp same_data" and same_data_trans [intro, simp]: "transp same_data"
  by (auto simp: reflp_def transp_def same_data_def)

lemma buf_safe_data: "buf_safe m \<Longrightarrow> keeps noalign_ok same_data m"
  unfolding keeps_def by (erule comp_spec_conseq) (auto simp: same_buffer_def same_data_def)

lemma noalign_uint32:
  assumes "noalign_ok q"
  shows "if 4 \<le> length (unread q) then \<exists>v. ndr_pull_uint32 q = Inr (v, adv 4 q)
         else ndr_pull_uint32 q = Inl (Status NT_STATUS_BUFFER_TOO_SMALL)"
proof -
  have q: "pull_ok q" and al: "NDR_PULL_ALIGN 4 q = Inr ((), q)"
    using assms pull_align_run [of q 4] by (simp_all add: noalign_ok_def enc_pad_def Let_def)
  show ?thesis
  proof (cases "4 \<le> length (unread q)")
    case True
    then have "unat (pl_offset q) + 4 \<le> length (pl_data q)" using length_unread [OF q] pull_okD [OF q] by simp
    then obtain v where "NDR_IVAL q (pl_offset q) = Some v" using NDR_IVAL_total by blast
    then show ?thesis
      using True need_bytes_cases [OF q, of 4] al
      by (simp add: ndr_pull_uint32_def naccess_def nmodify_def nbind_def nthen_def nreturn_def)
  next
    case False
    then show ?thesis using need_bytes_cases [OF q, of 4] al by (simp add: ndr_pull_uint32_def nthen_def)
  qed
qed

text \<open>A smaller limit keeps the context well formed.\<close>

lemma noalign_limit:
  assumes "noalign_ok q" "unat n \<le> unat (pl_data_size q)" "unat (pl_offset q) \<le> unat n"
  shows "noalign_ok (q\<lparr>pl_data_size := n\<rparr>)"
  using assms by (auto simp: noalign_ok_def pull_ok_def word_le_nat_alt)

text \<open>The part of the reader between the size and the end of the block.\<close>

definition stack_body :: "(nat \<Rightarrow> 'a \<Rightarrow> (ndr_pull, 'a) comp) \<Rightarrow> 'a \<Rightarrow> (ndr_pull, 'a) comp" where
  "stack_body fn r =
     nbind (fn NDR_SCALARS r) (\<lambda>r. nbind ndr_pull_uint32 (\<lambda>ssize.
       if ssize AND 0x80000000 = 0 then ndr_pull_error NDR_ERR_VALIDATE
       else let ssize = ssize AND 0x7FFFFFFF in
         nthen (nthen (NDR_PULL_NEED_BYTES ssize) (nmodify (\<lambda>ndr. ndr\<lparr>pl_data_size := pl_offset ndr + ssize\<rparr>)))
        (nthen (nmodify (\<lambda>ndr. ndr\<lparr>pl_relative_base_offset := pl_offset ndr\<rparr>)) (fn NDR_BUFFERS r))))"

lemma nbind_if: "nbind (if c then m else k) f = (if c then nbind m f else nbind k f)"
  by simp

lemma nbind_error: "nbind (ndr_pull_error e) f = ndr_pull_error e"
  by (rule ext) (simp add: ndr_pull_error_def nfail_def)

lemma DataWithStack_shape:
  "ndr_pull_DataWithStack fn r =
     nbind (nget pl_offset) (\<lambda>start. nbind ndr_pull_uint32 (\<lambda>size. nthen (NDR_PULL_NEED_BYTES (size - 4))
    (nbind (nget pl_data_size) (\<lambda>ndrend. nthen (nmodify (\<lambda>ndr. ndr\<lparr>pl_data_size := start + size\<rparr>))
    (nbind (stack_body fn r) (\<lambda>r.
       nthen (nmodify (\<lambda>ndr. ndr\<lparr>pl_data_size := ndrend, pl_offset := start + size\<rparr>)) (nreturn r)))))))"
  unfolding ndr_pull_DataWithStack_def stack_body_def nthen_def nbind_assoc nbind_if nbind_error Let_def ..

lemma stack_limit_safe:
  "keeps noalign_ok same_data
     (nthen (NDR_PULL_NEED_BYTES n) (nmodify (\<lambda>ndr. ndr\<lparr>pl_data_size := pl_offset ndr + n\<rparr>)))"
proof (rule keepsI)
  fix q assume q: "noalign_ok q"
  then have ok: "pull_ok q" by (simp add: noalign_ok_def)
  show "nthen (NDR_PULL_NEED_BYTES n) (nmodify (\<lambda>ndr. ndr\<lparr>pl_data_size := pl_offset ndr + n\<rparr>)) q \<noteq> Inl Fault"
    using need_bytes_cases [OF ok, of n] by (auto simp: nmodify_def nthen_def nbind_def split: if_splits)
  fix v q' assume "nthen (NDR_PULL_NEED_BYTES n) (nmodify (\<lambda>ndr. ndr\<lparr>pl_data_size := pl_offset ndr + n\<rparr>)) q = Inr (v, q')"
  then have q': "q' = q\<lparr>pl_data_size := pl_offset q + n\<rparr>" and n: "unat n \<le> length (unread q)"
    using need_bytes_cases [OF ok, of n] by (auto simp: nmodify_def nthen_def nbind_def split: if_splits)
  have "unat (pl_offset q + n) = unat (pl_offset q) + unat n" "unat (pl_offset q) + unat n \<le> unat (pl_data_size q)"
    using n length_unread [OF ok] pull_okD [OF ok] by (auto simp: unat_add_no_wrap)
  then show "noalign_ok q' \<and> same_data q q'" using noalign_limit [OF q] q' by (simp add: same_data_def)
qed

lemma stack_body_safe:
  assumes "\<And>fl r. buf_safe (fn fl r)" shows "keeps noalign_ok same_data (stack_body fn r)"
proof -
  have base: "keeps noalign_ok same_data (nmodify (\<lambda>ndr. ndr\<lparr>pl_relative_base_offset := pl_offset ndr\<rparr>))"
    by (rule keeps_modify) (auto simp: noalign_ok_def pull_ok_def same_data_def)
  have err: "keeps noalign_ok same_data (ndr_pull_error e :: (ndr_pull, 'a) comp)" for e
    unfolding ndr_pull_error_def by (rule keeps_fail) simp
  show ?thesis
    unfolding stack_body_def Let_def
    by (intro keeps_bind keeps_then keeps_if stack_limit_safe base err buf_safe_data assms
        pull_safe_buf_safe pull_uint32_safe same_data_trans)
qed

lemma DataWithStack_spec:
  assumes "\<And>fl r. buf_safe (fn fl r)"
  shows "comp_spec noalign_ok (ndr_pull_DataWithStack fn r) (\<lambda>q _ q'. noalign_ok q' \<and> same_buffer q q' \<and>
     (\<exists>size. ndr_pull_uint32 q = Inr (size, adv 4 q) \<and> pl_offset q' = pl_offset q + size))"
proof (rule comp_specI)
  fix q assume q: "noalign_ok q"
  then have ok: "pull_ok q" by (simp add: noalign_ok_def)
  let ?fin = "\<lambda>size r. nthen (nmodify (\<lambda>ndr. ndr\<lparr>pl_data_size := pl_data_size q, pl_offset := pl_offset q + size\<rparr>)) (nreturn r)"
  consider (short) "ndr_pull_DataWithStack fn r q = Inl (Status NT_STATUS_BUFFER_TOO_SMALL)"
    | (block) size where "ndr_pull_uint32 q = Inr (size, adv 4 q)" "noalign_ok ((adv 4 q)\<lparr>pl_data_size := pl_offset q + size\<rparr>)"
        "unat (pl_offset q + size) \<le> unat (pl_data_size q)"
        "ndr_pull_DataWithStack fn r q =
           nbind (stack_body fn r) (?fin size) ((adv 4 q)\<lparr>pl_data_size := pl_offset q + size\<rparr>)"
  proof (cases "4 \<le> length (unread q)")
    case False
    then show ?thesis
      using noalign_uint32 [OF q] that(1) by (simp add: DataWithStack_shape nget_def nbind_def)
  next
    case True
    then obtain size where sz: "ndr_pull_uint32 q = Inr (size, adv 4 q)" using noalign_uint32 [OF q] by auto
    note a = adv_ok [OF ok True]
    show ?thesis
    proof (cases "unat (size - 4) \<le> length (unread (adv 4 q))")
      case False
      then show ?thesis
        using need_bytes_cases [OF a(1), of "size - 4"] that(1) sz
        by (simp add: DataWithStack_shape nget_def nbind_def nthen_def)
    next
      case fits: True
      have "pl_offset q + size = pl_offset (adv 4 q) + (size - 4)" by simp
      moreover have "unat (pl_offset (adv 4 q) + (size - 4)) = unat (pl_offset (adv 4 q)) + unat (size - 4)"
        using fits length_unread [OF a(1)] pull_okD [OF a(1)] by (intro unat_add_no_wrap) simp
      ultimately have u: "unat (pl_offset q + size) = unat (pl_offset (adv 4 q)) + unat (size - 4)" by simp
      then have le: "unat (pl_offset q + size) \<le> unat (pl_data_size q)"
        using fits length_unread [OF a(1)] pull_okD [OF a(1)] by simp
      have "noalign_ok (adv 4 q)" using a(1) q by (simp add: noalign_ok_def)
      then have "noalign_ok ((adv 4 q)\<lparr>pl_data_size := pl_offset q + size\<rparr>)"
        using noalign_limit [of "adv 4 q"] u le by simp
      then show ?thesis
        using that(2) [OF sz] le fits need_bytes_cases [OF a(1), of "size - 4"] sz
        by (simp add: DataWithStack_shape nget_def nbind_def nthen_def nmodify_def)
    qed
  qed
  note cases = this
  show "ndr_pull_DataWithStack fn r q \<noteq> Inl Fault"
    using cases
  proof cases
    case block
    then show ?thesis
      using keeps_no_fault [OF stack_body_safe [of fn r, OF assms] block(2)]
      by (auto simp: nbind_def nthen_def nmodify_def nreturn_def split: sum.splits)
  qed simp
  fix v q' assume run: "ndr_pull_DataWithStack fn r q = Inr (v, q')"
  show "noalign_ok q' \<and> same_buffer q q' \<and>
     (\<exists>size. ndr_pull_uint32 q = Inr (size, adv 4 q) \<and> pl_offset q' = pl_offset q + size)"
    using cases
  proof cases
    case block
    from run block(4) obtain q3 where b: "stack_body fn r ((adv 4 q)\<lparr>pl_data_size := pl_offset q + size\<rparr>) = Inr (v, q3)"
      and q': "q' = q3\<lparr>pl_data_size := pl_data_size q, pl_offset := pl_offset q + size\<rparr>"
      by (auto simp: nbind_eq_Inr nthen_eq_Inr nmodify_def nreturn_def)
    have "noalign_ok q3" "pl_data q3 = pl_data q"
      using keeps_post [OF stack_body_safe [OF assms] block(2) b] by (simp_all add: same_data_def)
    then have "noalign_ok q'"
      using q' block(3) pull_okD [OF ok] by (auto simp: noalign_ok_def pull_ok_def word_le_nat_alt)
    then show ?thesis using block(1) q' \<open>pl_data q3 = pl_data q\<close> by (simp add: same_buffer_def)
  qed (use run in simp)
qed

lemma DataWithStack_safe:
  assumes "\<And>fl r. buf_safe (fn fl r)" shows "buf_safe (ndr_pull_DataWithStack fn r)"
  unfolding keeps_def by (rule comp_spec_conseq [OF DataWithStack_spec [OF assms]]) auto

section \<open>The parser of result blocks stays inside the block\<close>

definition parts_safe :: "wbem_pull \<Rightarrow> bool" where
  "parts_safe W \<longleftrightarrow> buf_safe (pull_CIMSTRING W) \<and> (\<forall>fl c. buf_safe (pull_WbemClass W fl c)) \<and>
     (\<forall>fl m. buf_safe (pull_WbemMethods W fl m)) \<and> (\<forall>fl r. buf_safe (pull_WbemInstance_priv W fl r))"

lemma set_noalign_bits: "bit (ndr_set_flags fl LIBNDR_FLAG_NOALIGN) k \<longleftrightarrow> bit fl k \<or> k = 1"
proof -
  have "\<not> has_flag LIBNDR_FLAG_NOALIGN LIBNDR_FLAG_LITTLE_ENDIAN" "\<not> has_flag LIBNDR_FLAG_NOALIGN LIBNDR_FLAG_BIGENDIAN"
    "\<not> has_flag LIBNDR_FLAG_NOALIGN LIBNDR_FLAG_REMAINING" "\<not> has_flag LIBNDR_FLAG_NOALIGN LIBNDR_ALIGN_FLAGS"
    by code_simp+
  then have "ndr_set_flags fl LIBNDR_FLAG_NOALIGN = fl OR LIBNDR_FLAG_NOALIGN"
    by (simp add: ndr_set_flags_def)
  then show ?thesis
    unfolding LIBNDR_FLAG_NOALIGN_def by (auto simp only: bit_or_iff bit_push_bit_iff bit_1_iff) (auto simp: possible_bit_word)
qed

lemma set_noalign_flag:
  "has_flag (ndr_set_flags fl LIBNDR_FLAG_NOALIGN) LIBNDR_FLAG_NOALIGN"
  "has_flag (ndr_set_flags fl LIBNDR_FLAG_NOALIGN) LIBNDR_FLAG_PAD_CHECK = has_flag fl LIBNDR_FLAG_PAD_CHECK"
  "NDR_BE (ndr_set_flags fl LIBNDR_FLAG_NOALIGN) = NDR_BE fl"
proof -
  note b = set_noalign_bits [of fl]
  show "has_flag (ndr_set_flags fl LIBNDR_FLAG_NOALIGN) LIBNDR_FLAG_NOALIGN"
    using b [of 1] has_flag_bit [of _ 1] by (simp only: LIBNDR_FLAG_NOALIGN_def) simp
  show "has_flag (ndr_set_flags fl LIBNDR_FLAG_NOALIGN) LIBNDR_FLAG_PAD_CHECK = has_flag fl LIBNDR_FLAG_PAD_CHECK"
    unfolding LIBNDR_FLAG_PAD_CHECK_def has_flag_bit b by simp
  show "NDR_BE (ndr_set_flags fl LIBNDR_FLAG_NOALIGN) = NDR_BE fl"
    unfolding NDR_BE_bits b by simp
qed

lemma wco_head_safe:
  assumes "parts_safe W" shows "buf_safe (pull_wco_head W r)"
proof -
  have "buf_safe (nmodify (\<lambda>ndr. ndr\<lparr>pl_flags := ndr_set_flags (pl_flags ndr) LIBNDR_FLAG_NOALIGN\<rparr>))"
    by (rule keeps_modify) (auto simp: noalign_ok_def pull_ok_def same_buffer_def set_noalign_flag)
  then show ?thesis
    using assms unfolding pull_wco_head_def parts_safe_def
    by (intro keeps_bind keeps_then keeps_if keeps_return same_buffer_trans same_buffer_refl)
       (auto intro: pull_safe_buf_safe pull_uint8_safe)
qed

lemma wco_instance_safe: "parts_safe W \<Longrightarrow> buf_safe (pull_wco_instance W r)"
  unfolding pull_wco_instance_def parts_safe_def
  by (intro keeps_if keeps_return same_buffer_refl DataWithStack_safe) auto

lemma WbemClassObject_safe:
  assumes "parts_safe W"
  shows "buf_safe (ndr_pull_WbemClassObject W r)" "buf_safe (ndr_pull_WbemClassObject_Object W r)"
proof -
  have c: "buf_safe (ndr_pull_DataWithStack (pull_WbemClass W) c)"
    and m: "buf_safe (ndr_pull_DataWithStack (pull_WbemMethods W) m)" for c m
    using assms by (auto simp: parts_safe_def intro!: DataWithStack_safe)
  show "buf_safe (ndr_pull_WbemClassObject W r)"
    unfolding ndr_pull_WbemClassObject_def
    by (intro keeps_bind keeps_if keeps_return same_buffer_trans same_buffer_refl wco_head_safe wco_instance_safe c m assms)
  show "buf_safe (ndr_pull_WbemClassObject_Object W r)"
    unfolding ndr_pull_WbemClassObject_Object_def
    by (intro keeps_bind same_buffer_trans wco_head_safe wco_instance_safe assms)
qed

lemma pull_const32_safe: "buf_safe (pull_const32 c)"
  unfolding pull_const32_def check_expr_def
  by (intro keeps_bind keeps_check same_buffer_trans same_buffer_refl pull_safe_buf_safe pull_uint32_safe)

lemma pull_size_safe: "buf_safe (pull_size n)"
  unfolding pull_size_def
  by (intro keeps_bind keeps_then keeps_return same_buffer_trans same_buffer_refl)
     (intro pull_safe_buf_safe pull_uint32_safe need_bytes_safe)+

lemma check_expr_safe: "buf_safe (check_expr c)"
  unfolding check_expr_def by (rule keeps_check) simp

lemma wbemdata_header_safe: "buf_safe (wbemdata_header n)"
  unfolding wbemdata_header_def
  by (intro keeps_bind keeps_then same_buffer_trans pull_const32_safe pull_size_safe check_expr_safe
      pull_safe_buf_safe pull_uint8_safe)

lemma object_header_safe:
  assumes "buf_safe pg" shows "buf_safe (wbemdata_object_header pg)"
  unfolding wbemdata_object_header_def
  by (intro keeps_bind keeps_then keeps_get keeps_return same_buffer_trans same_buffer_refl pull_const32_safe
      pull_size_safe assms pull_safe_buf_safe pull_uint8_safe)

lemma pull_size_run:
  assumes "noalign_ok q" "pull_size n q = Inr (u, q')"
  shows "q' = adv 4 q" "noalign_ok q'" "unat (u + n) \<le> length (unread q')"
proof -
  from assms(2) obtain q1 where q1: "ndr_pull_uint32 q = Inr (u, q1)" "NDR_PULL_NEED_BYTES (u + n) q1 = Inr ((), q')"
    by (auto simp: pull_size_def nbind_eq_Inr nthen_eq_Inr nreturn_def)
  have *: "4 \<le> length (unread q)" "q1 = adv 4 q" using noalign_uint32 [OF assms(1)] q1(1) by (auto split: if_splits)
  then have ok: "pull_ok q1" using adv_ok(1) [of q 4] assms(1) by (simp add: noalign_ok_def)
  with q1(2) have "q' = q1 \<and> unat (u + n) \<le> length (unread q1)"
    using need_bytes_cases [of q1 "u + n"] by (auto split: if_splits)
  with * ok assms(1) show "q' = adv 4 q" "noalign_ok q'" "unat (u + n) \<le> length (unread q')"
    by (auto simp: noalign_ok_def)
qed

lemma pull_uint8_run:
  assumes "pull_ok q" "ndr_pull_uint8 q = Inr (v, q')" shows "q' = adv 1 q"
  using assms(2) by (auto simp: ndr_pull_uint8_def nbind_eq_Inr nthen_eq_Inr nmodify_def nreturn_def naccess_def
      NDR_PULL_NEED_BYTES_def ncheck_def split: if_splits option.splits)

text \<open>The start of the next object is inside the block, even for a size of all ones.\<close>

lemma object_header_next:
  assumes "buf_safe pg" "noalign_ok q" "wbemdata_object_header pg q = Inr ((d, nxt, g), q')"
  shows "noalign_ok q'" "same_buffer q q'" "unat nxt \<le> unat (pl_data_size q)"
proof -
  show "noalign_ok q'" "same_buffer q q'"
    using keeps_post [OF object_header_safe [OF assms(1)] assms(2,3)] by simp_all
  from assms(3) obtain q1 u q2 q3 where r: "pull_const32 9 q = Inr ((), q1)" "pull_size 1 q1 = Inr (u, q2)"
      "ndr_pull_uint8 q2 = Inr (d, q3)" and n: "nxt = pl_offset q3 + u"
    by (auto simp: wbemdata_object_header_def nbind_eq_Inr nthen_eq_Inr nget_def nreturn_def)
  have q1: "noalign_ok q1" "same_buffer q q1" using keeps_post [OF pull_const32_safe assms(2) r(1)] by simp_all
  note q2 = pull_size_run [OF q1(1) r(2)]
  have ok: "pull_ok q2" using q2(2) by (simp add: noalign_ok_def)
  have "nxt = pl_offset q2 + (u + 1)" using n pull_uint8_run [OF ok r(3)] by simp
  then have "unat nxt = unat (pl_offset q2) + unat (u + 1)"
    using q2(3) length_unread [OF ok] pull_okD [OF ok] by (simp add: unat_add_no_wrap)
  then show "unat nxt \<le> unat (pl_data_size q)"
    using q2(1,3) length_unread [OF ok] pull_okD [OF ok] q1(2) by (simp add: same_buffer_def)
qed

lemma noalign_jump: "noalign_ok q \<Longrightarrow> unat n \<le> unat (pl_data_size q) \<Longrightarrow> noalign_ok (q\<lparr>pl_offset := n\<rparr>)"
  by (auto simp: noalign_ok_def pull_ok_def word_le_nat_alt)

text \<open>Storing an object read by \<open>m\<close> and jumping to the next one.\<close>

definition read_into :: "(ndr_pull, WbemClassObject) comp \<Rightarrow> u32 \<Rightarrow> ndr_pull \<Rightarrow> (WbemClassObject \<Rightarrow> parse_env) \<Rightarrow> parse_env \<Rightarrow> parse_result" where
  "read_into m nxt q ok bad =
     (case m q of Inl f \<Rightarrow> (Inl f, bad) | Inr (r, q1) \<Rightarrow> (Inr (q1\<lparr>pl_offset := nxt\<rparr>), ok r))"

lemma parse_one_cases:
  "parse_one pg W i q env =
     (case wbemdata_object_header pg q of
        Inl f \<Rightarrow> (Inl f, env)
      | Inr ((d, nxt, g), q1) \<Rightarrow>
          if d \<noteq> DATATYPE_CLASSOBJECT \<and> d \<noteq> DATATYPE_OBJECT then (Inl (Status NT_STATUS_NOT_SUPPORTED), env)
          else if i \<ge> length (pe_objects env) then (Inl Fault, env)
          else if d = DATATYPE_CLASSOBJECT
          then read_into (ndr_pull_WbemClassObject W zero_wco) nxt q1
                 (\<lambda>r. (store_object i r env)\<lparr>pe_cache := add_pair_guid_ptr (pe_cache env) g (wco_obj_class r)\<rparr>)
                 (store_object i zero_wco env)
          else let r0 = set_obj_class (get_ptr_by_guid (pe_cache env) g) zero_wco in
               read_into (ndr_pull_WbemClassObject_Object W r0) nxt q1 (\<lambda>r. store_object i r env) (store_object i r0 env))"
  by (auto simp: parse_one_def read_into_def Let_def split: sum.splits)

lemma read_into_safe:
  assumes m: "buf_safe m" and q: "noalign_ok q" "unat nxt \<le> unat (pl_data_size q)"
    and run: "read_into m nxt q ok bad = (res, env')"
  shows "res \<noteq> Inl Fault" "res = Inr q' \<Longrightarrow> noalign_ok q'"
  using run keeps_no_fault [OF m q(1)] keeps_post [OF m q(1)] noalign_jump [of _ nxt] q(2)
  by (auto simp: read_into_def same_buffer_def split: sum.splits)

lemma parse_one_safe:
  assumes pg: "buf_safe pg" and W: "parts_safe W" and q: "noalign_ok q" and i: "i < length (pe_objects env)"
    and run: "parse_one pg W i q env = (res, env')"
  shows "res \<noteq> Inl Fault \<and> length (pe_objects env') = length (pe_objects env) \<and> (\<forall>q'. res = Inr q' \<longrightarrow> noalign_ok q')"
proof (cases "wbemdata_object_header pg q")
  case (Inl f)
  then show ?thesis
    using run keeps_no_fault [OF object_header_safe [OF pg] q] by (auto simp: parse_one_cases)
next
  case (Inr r)
  then obtain d nxt g q1 where h: "wbemdata_object_header pg q = Inr ((d, nxt, g), q1)" by (cases r) auto
  have q1: "noalign_ok q1" "unat nxt \<le> unat (pl_data_size q1)"
    using object_header_next [OF pg q h] by (simp_all add: same_buffer_def)
  have len: "length (pe_objects env') = length (pe_objects env)"
    using run h by (auto simp: parse_one_cases read_into_def store_object_def Let_def split: sum.splits if_splits)
  consider (bad) "res = Inl (Status NT_STATUS_NOT_SUPPORTED)"
    | (cls) ok bad where "read_into (ndr_pull_WbemClassObject W zero_wco) nxt q1 ok bad = (res, env')"
    | (obj) r0 ok bad where "read_into (ndr_pull_WbemClassObject_Object W r0) nxt q1 ok bad = (res, env')"
    using run h i by (auto simp: parse_one_cases Let_def split: if_splits)
  then show ?thesis
  proof cases
    case bad
    then show ?thesis using len by simp
  next
    case cls
    then show ?thesis using read_into_safe [OF WbemClassObject_safe(1) [OF W] q1 cls] len by blast
  next
    case obj
    then show ?thesis using read_into_safe [OF WbemClassObject_safe(2) [OF W] q1 obj] len by blast
  qed
qed

lemma parse_loop_safe:
  assumes pg: "buf_safe pg" and W: "parts_safe W"
  shows "noalign_ok q \<Longrightarrow> i + k \<le> length (pe_objects env) \<Longrightarrow> parse_loop pg W i k q env = (res, env') \<Longrightarrow>
     res \<noteq> Inl Fault \<and> length (pe_objects env') = length (pe_objects env)"
proof (induction k arbitrary: i q env)
  case 0
  then show ?case by auto
next
  case (Suc k)
  obtain r e where one: "parse_one pg W i q env = (r, e)" by fastforce
  have i: "i < length (pe_objects env)" using Suc.prems(2) by simp
  note safe = parse_one_safe [OF pg W Suc.prems(1) i one]
  show ?case
  proof (cases r)
    case (Inl f)
    then show ?thesis using Suc.prems(3) one safe by auto
  next
    case (Inr q1)
    with safe have "noalign_ok q1" "length (pe_objects e) = length (pe_objects env)" by simp_all
    with Inr show ?thesis using Suc.IH [of q1 "Suc i" e] Suc.prems(2,3) one by simp
  qed
qed

lemma parse_context_ok:
  assumes "unat sz \<le> length data" "unat sz < 2 ^ 31" shows "noalign_ok (parse_context data sz)"
proof -
  have "\<not> has_flag 0 LIBNDR_FLAG_PAD_CHECK" by simp
  then show ?thesis
    using assms set_noalign_flag [of 0] by (simp add: noalign_ok_def pull_ok_def parse_context_def)
qed

lemma WBEMDATA_Parse_ok:
  assumes "buf_safe pg" "parts_safe W" "unat sz \<le> length data" "unat sz < 2 ^ 31"
    and "unat uCount \<le> length (pe_objects env)" "WBEMDATA_Parse pg W data sz uCount env = (res, env')"
  shows "res \<noteq> Inl Fault \<and> length (pe_objects env') = length (pe_objects env)"
proof (cases "uCount = 0 \<or> (\<exists>f. wbemdata_header uCount (parse_context data sz) = Inl f)")
  case True
  then show ?thesis
    using assms(6) keeps_no_fault [OF wbemdata_header_safe parse_context_ok [OF assms(3,4)]]
    by (auto simp: WBEMDATA_Parse_def split: if_splits)
next
  case False
  then obtain q where h: "wbemdata_header uCount (parse_context data sz) = Inr ((), q)"
    by (cases "wbemdata_header uCount (parse_context data sz)") auto
  have "noalign_ok q" using keeps_post [OF wbemdata_header_safe parse_context_ok [OF assms(3,4)] h] by simp
  moreover have "parse_loop pg W 0 (unat uCount) q env = (res, env')"
    using False assms(6) h by (simp add: WBEMDATA_Parse_def)
  ultimately show ?thesis using parse_loop_safe [OF assms(1,2), of q 0 "unat uCount" env] assms(5) by simp
qed


text \<open>
  Readers for the witnesses: an identifier as the IDL lays it out, strings of one of two letters, and parts of one
  byte each.
\<close>

definition pull_guid :: "(ndr_pull, GUID) comp" where
  "pull_guid = nbind ndr_pull_uint32 (\<lambda>a. nbind ndr_pull_uint16 (\<lambda>b. nbind ndr_pull_uint16 (\<lambda>c.
     nbind (ndr_pull_bytes 2) (\<lambda>d. nbind (ndr_pull_bytes 6) (\<lambda>e.
     nreturn \<lparr>time_low = a, time_mid = b, time_hi_and_version = c, clock_seq = d, node = e\<rparr>)))))"

definition pull_letter :: "(ndr_pull, string option) comp" where
  "pull_letter = nbind ndr_pull_uint8 (\<lambda>b. nreturn (Some (if b = 115 then ''s'' else ''n'')))"

definition sample_pull :: wbem_pull where
  "sample_pull = \<lparr>pull_CIMSTRING = pull_letter,
     pull_WbemClass = (\<lambda>fl c. if fl = NDR_SCALARS
        then nbind ndr_pull_uint8 (\<lambda>u. nreturn (Some (WbemClass u None 0 [] [] 0 [] [] [])))
        else nbind pull_letter (\<lambda>s. nreturn (map_option (\<lambda>c. WbemClass (class_u_0 c) s 0 [] [] 0 [] [] []) c))),
     pull_WbemMethods = (\<lambda>fl m. nreturn m),
     pull_WbemInstance_priv = (\<lambda>fl r. if fl = NDR_SCALARS
        then nbind ndr_pull_uint8 (\<lambda>u. nreturn (set_instance (Some (WbemInstance u None [] [] 0 0)) r))
        else nreturn r)\<rparr>"

lemma pull_guid_safe: "buf_safe pull_guid"
  unfolding pull_guid_def
  by (intro keeps_bind keeps_return same_buffer_trans same_buffer_refl pull_safe_buf_safe comp_intros)

lemma pull_letter_safe: "buf_safe pull_letter"
  unfolding pull_letter_def
  by (intro keeps_bind keeps_return same_buffer_trans same_buffer_refl pull_safe_buf_safe pull_uint8_safe)

lemma sample_pull_safe: "parts_safe sample_pull"
  unfolding parts_safe_def sample_pull_def
  by (auto intro!: keeps_bind keeps_return same_buffer_trans same_buffer_refl pull_safe_buf_safe [OF pull_uint8_safe] pull_letter_safe)


end
