(* ===== verification/WbemPage.thy ===== *)
theory WbemPage
  imports Wbem
begin

text \<open>
  What the parser of \<open>wmi/wbemdata.c\<close> makes of well-formed result blocks, and what the framing of
  \<open>librpc/ndr/ndr_dcom.c\<close> writes and reads back.
\<close>

section \<open>Well-formed result blocks\<close>

text \<open>
  Readers on a little-endian context without alignment.  \<open>pulls m v bs rest\<close>: in front of the bytes
  \<open>bs\<close> followed by at least \<open>rest\<close>, the reader gives \<open>v\<close> and stops behind \<open>bs\<close>.
\<close>

definition page_ok :: "ndr_pull \<Rightarrow> bool" where
  "page_ok q \<longleftrightarrow> noalign_ok q \<and> \<not> NDR_BE (pl_flags q)"

definition pulls :: "(ndr_pull, 'a) comp \<Rightarrow> 'a \<Rightarrow> u8 list \<Rightarrow> u8 list \<Rightarrow> bool" where
  "pulls m v bs rest \<longleftrightarrow> (\<forall>q. page_ok q \<longrightarrow> prefix (bs @ rest) (unread q) \<longrightarrow> m q = Inr (v, adv (length bs) q))"

lemma pullsD: "pulls m v bs rest \<Longrightarrow> page_ok q \<Longrightarrow> prefix (bs @ rest) (unread q) \<Longrightarrow> m q = Inr (v, adv (length bs) q)"
  by (simp add: pulls_def)

lemma page_adv:
  assumes "page_ok q" "prefix (a @ b) (unread q)"
  shows "page_ok (adv (length a) q)" "prefix b (unread (adv (length a) q))" "unread (adv (length a) q) = drop (length a) (unread q)"
proof -
  have ok: "pull_ok q" and l: "length a \<le> length (unread q)"
    using assms prefix_length_le [OF assms(2)] by (simp_all add: page_ok_def noalign_ok_def)
  from adv_ok(1,3) [OF ok l] show "page_ok (adv (length a) q)" "unread (adv (length a) q) = drop (length a) (unread q)"
    using assms(1) by (simp_all add: page_ok_def noalign_ok_def)
  then show "prefix b (unread (adv (length a) q))" using assms(2) by (auto simp: prefix_def)
qed

lemma reads_bind:
  assumes "pulls m v a (b @ rest)" "pulls (f v) w b rest" shows "pulls (nbind m f) w (a @ b) rest"
  unfolding pulls_def
proof (intro allI impI)
  fix q assume q: "page_ok q" "prefix ((a @ b) @ rest) (unread q)"
  then have q': "prefix (a @ (b @ rest)) (unread q)" by simp
  show "nbind m f q = Inr (w, adv (length (a @ b)) q)"
    using pullsD [OF assms(1) q(1) q'] pullsD [OF assms(2) page_adv(1,2) [OF q(1) q']]
    by (simp add: add.assoc)
qed

lemma reads_then: "pulls m v a (b @ rest) \<Longrightarrow> pulls k w b rest \<Longrightarrow> pulls (nthen m k) w (a @ b) rest"
  unfolding nthen_def by (rule reads_bind)

lemma reads_bind_end: "pulls m v a rest \<Longrightarrow> pulls (f v) w [] rest \<Longrightarrow> pulls (nbind m f) w a rest"
  using reads_bind [of m v a "[]" rest f w] by simp

lemma reads_return: "pulls (nreturn v) v [] rest"
  by (simp add: pulls_def nreturn_def)

lemma reads_spec:
  assumes "pull_spec v e m" "\<And>fl ofs. has_flag fl LIBNDR_FLAG_NOALIGN \<Longrightarrow> \<not> NDR_BE fl \<Longrightarrow> e fl ofs = bs"
  shows "pulls m v bs rest"
  unfolding pulls_def
proof (intro allI impI)
  fix q assume q: "page_ok q" "prefix (bs @ rest) (unread q)"
  have "e (pl_flags q) (unat (pl_offset q)) = bs" using q(1) assms(2) by (simp add: page_ok_def noalign_ok_def)
  then show "m q = Inr (v, adv (length bs) q)"
    using pull_specD [OF assms(1), of q] q(1) append_prefixD [OF q(2)] by (simp add: page_ok_def noalign_ok_def)
qed

lemma reads_uint32: "pulls ndr_pull_uint32 v (le32 v) rest"
  by (rule reads_spec [OF pull_uint32_spec]) (simp add: enc32_def enc_seq_def enc_pad_def order_def)

lemma reads_uint16: "pulls ndr_pull_uint16 v (le16 v) rest"
  by (rule reads_spec [OF pull_uint16_spec]) (simp add: enc16_def enc_seq_def enc_pad_def order_def)

lemma reads_uint8: "pulls ndr_pull_uint8 v [v] rest"
  by (rule reads_spec [OF pull_uint8_spec]) simp

lemma reads_bytes: "length bs = unat n \<Longrightarrow> pulls (ndr_pull_bytes n) bs bs rest"
  by (erule reads_spec [OF pull_bytes_spec]) simp

lemma reads_check: "c \<Longrightarrow> pulls (check_expr c) () [] rest"
  by (simp add: pulls_def check_expr_def ncheck_def)

lemma reads_const32: "pulls (pull_const32 c) () (le32 c) rest"
  unfolding pull_const32_def
  by (rule reads_bind_end [OF reads_uint32]) (simp add: reads_check)

lemma reads_size:
  assumes "unat (u + n) \<le> length rest" shows "pulls (pull_size n) u (le32 u) rest"
proof -
  have "pulls (NDR_PULL_NEED_BYTES (u + n)) () [] rest"
    unfolding pulls_def
  proof (intro allI impI)
    fix q assume q: "page_ok q" "prefix ([] @ rest) (unread q)"
    then have "unat (u + n) \<le> length (unread q)" using assms prefix_length_le [OF q(2)] by simp
    then show "NDR_PULL_NEED_BYTES (u + n) q = Inr ((), adv (length []) q)"
      using need_bytes_cases [of q "u + n"] q(1) by (simp add: page_ok_def noalign_ok_def)
  qed
  then have "pulls (nthen (NDR_PULL_NEED_BYTES (u + n)) (nreturn u)) u [] rest"
    unfolding nthen_def by (rule reads_bind_end [OF _ reads_return])
  then show ?thesis unfolding pull_size_def by (intro reads_bind_end [OF reads_uint32])
qed

text \<open>The bytes in front of the objects of a block, and an object with its header.\<close>

definition page_header :: "u8 \<Rightarrow> u32 \<Rightarrow> nat \<Rightarrow> u8 list" where
  "page_header minor count n =
     le32 0 @ le32 wbem_word @ le32 data_word @ le32 0x1A @ le32 (of_nat (n + 20)) @ le32 0 @ [1] @ [minor] @
     le32 8 @ le32 (of_nat (n + 12)) @ le32 0xC @ le32 (of_nat n) @ le32 count"

lemma reads_header:
  assumes "minor \<le> 1" "length objs + 26 < 2 ^ 32"
  shows "pulls (wbemdata_header count) () (page_header minor count (length objs)) objs"
proof -
  have u: "unat (of_nat k :: u32) = k" if "k < 2 ^ 32" for k using that by (simp add: unat_of_nat_small)
  have s: "of_nat (length objs + 20) + 6 = (of_nat (length objs + 26) :: u32)"
    "of_nat (length objs) + 4 = (of_nat (length objs + 4) :: u32)" by simp_all
  have e: "[1] @ [minor] @ x = [1] @ ([] @ ([minor] @ ([] @ x)))" for x :: "u8 list" by simp
  show ?thesis
    unfolding page_header_def wbemdata_header_def e
    apply (intro reads_then [OF reads_const32] reads_bind [OF reads_size] reads_bind [OF reads_uint8]
        reads_then [OF reads_check])
    using assms s u [of "length objs + 26"] u [of "length objs + 12"] u [of "length objs + 4"]
    apply (simp_all add: reads_const32 add.commute)
    done
qed

type_synonym entry = "u8 \<times> GUID \<times> u8 list \<times> u8 list"

fun entry_bytes :: "entry \<Rightarrow> u8 list" where
  "entry_bytes (dt, g, gb, body) =
     le32 9 @ le32 (of_nat (24 + length body)) @ [dt] @ le32 0x18 @ le32 (of_nat (length body)) @ gb @ body"

text \<open>
  A reader of objects may jump inside the body it is given (relative pointers): only its result
  matters, and that it keeps the buffer.
\<close>

definition reads_object :: "(ndr_pull, WbemClassObject) comp \<Rightarrow> u8 list \<Rightarrow> WbemClassObject \<Rightarrow> bool" where
  "reads_object m body r \<longleftrightarrow> (\<forall>q. page_ok q \<longrightarrow> prefix body (unread q) \<longrightarrow>
     (\<exists>q'. m q = Inr (r, q') \<and> page_ok q' \<and> same_buffer q q'))"

definition reads_guid :: "(ndr_pull, GUID) comp \<Rightarrow> u8 list \<Rightarrow> GUID \<Rightarrow> bool" where
  "reads_guid pg gb g \<longleftrightarrow> length gb = 16 \<and> (\<forall>rest. pulls pg g gb rest)"

text \<open>
  What the objects of a block are: an object that comes with its class makes the class known under
  its identifier; an object without class gets the class that was made known last under its identifier.
\<close>

inductive block_objects :: "(ndr_pull, GUID) comp \<Rightarrow> wbem_pull \<Rightarrow> class_cache \<Rightarrow> entry list \<Rightarrow>
    WbemClassObject list \<Rightarrow> class_cache \<Rightarrow> bool" for pg W where
  block_Nil: "block_objects pg W c [] [] c"
| block_class: "reads_guid pg gb g \<Longrightarrow> reads_object (ndr_pull_WbemClassObject W zero_wco) body r \<Longrightarrow>
     block_objects pg W ((g, wco_obj_class r) # c) es rs c' \<Longrightarrow>
     block_objects pg W c ((DATATYPE_CLASSOBJECT, g, gb, body) # es) (r # rs) c'"
| block_object: "reads_guid pg gb g \<Longrightarrow>
     reads_object (ndr_pull_WbemClassObject_Object W (set_obj_class (get_ptr_by_guid c g) zero_wco)) body r \<Longrightarrow>
     block_objects pg W c es rs c' \<Longrightarrow>
     block_objects pg W c ((DATATYPE_OBJECT, g, gb, body) # es) (r # rs) c'"

lemma block_length: "block_objects pg W c es rs c' \<Longrightarrow> length rs = length es"
  by (induction rule: block_objects.induct) auto

lemma prefix_behind: "prefix (a @ b) xs \<Longrightarrow> prefix b (drop (length a) xs)"
  by (auto simp: prefix_def)

lemma object_header_run:
  assumes q: "page_ok q" "prefix (entry_bytes (dt, g, gb, body) @ rest) (unread q)" and g: "reads_guid pg gb g"
  defines "n \<equiv> length (entry_bytes (dt, g, gb, body))"
  shows "wbemdata_object_header pg q = Inr ((dt, pl_offset q + of_nat n, g), adv 33 q)"
    "page_ok (adv 33 q)" "prefix body (unread (adv 33 q))" "n \<le> length (unread q)" "prefix rest (drop n (unread q))"
proof -
  let ?h = "le32 9 @ le32 (of_nat (24 + length body)) @ [dt] @ le32 0x18 @ le32 (of_nat (length body)) @ gb"
  let ?u = "of_nat (24 + length body) :: u32"
  have h: "entry_bytes (dt, g, gb, body) = ?h @ body" by simp
  have lh: "length ?h = 33" using g by (simp add: reads_guid_def)
  then have n: "n = 33 + length body" unfolding n_def h length_append [of ?h] by simp
  have pre: "prefix (?h @ (body @ rest)) (unread q)" using q(2) by (simp add: h)
  from page_adv(1,2) [OF q(1) pre] lh
  show "page_ok (adv 33 q)" "prefix body (unread (adv 33 q))" by (auto simp: prefix_def)
  have len: "n + length rest \<le> length (unread q)" using prefix_length_le [OF q(2)] by (simp add: n_def)
  then show "n \<le> length (unread q)" by simp
  show "prefix rest (drop n (unread q))" unfolding n_def by (rule prefix_behind [OF q(2)])
  have ok: "pull_ok q" using q(1) by (simp add: page_ok_def noalign_ok_def)
  have small: "n < 2 ^ 31" using len length_unread [OF ok] pull_okD [OF ok] by simp
  let ?a = "le32 9 @ le32 ?u @ [dt]"
  let ?b = "le32 0x18 @ le32 (of_nat (length body)) @ gb"
  let ?t = "\<lambda>ofs. nthen (pull_const32 0x18) (nbind (pull_size 16) (\<lambda>_. nbind pg (\<lambda>guid. nreturn (dt, ofs + ?u, guid))))"
  have u1: "unat (?u + 1) = 25 + length body" "unat (of_nat (length body) + 16 :: u32) = 16 + length body"
  proof -
    have e: "?u + 1 = of_nat (25 + length body)" "of_nat (length body) + 16 = (of_nat (16 + length body) :: u32)"
      by simp_all
    have "25 + length body < 2 ^ LENGTH(32)" "16 + length body < 2 ^ LENGTH(32)" using small n by simp_all
    from this [THEN unat_of_nat_small] show "unat (?u + 1) = 25 + length body"
      "unat (of_nat (length body) + 16 :: u32) = 16 + length body" unfolding e by simp_all
  qed
  have tail: "pulls (?t ofs) (dt, ofs + ?u, g) ?b (body @ rest)" for ofs
    using g u1(2) unfolding reads_guid_def
    by (intro reads_then [OF reads_const32] reads_bind [OF reads_size] reads_bind_end [OF _ reads_return]) auto
  have pre1: "prefix (le32 9 @ (le32 ?u @ [dt] @ ?b @ body @ rest)) (unread q)" using pre by simp
  note q1 = page_adv [OF q(1) pre1]
  note r1 = pullsD [OF reads_const32 q(1) pre1]
  note q2 = page_adv [OF q1(1,2)]
  have l2: "unat (?u + 1) \<le> length ([dt] @ ?b @ body @ rest)" using u1(1) g by (simp add: reads_guid_def)
  note r2 = pullsD [OF reads_size [OF l2] q1(1,2)]
  note q3 = page_adv [OF q2(1,2)]
  note r3 = pullsD [OF reads_uint8 q2(1,2)]
  have pb: "prefix (?b @ (body @ rest)) (unread (adv (length [dt]) (adv (length (le32 ?u)) (adv (length (le32 9)) q))))"
    using q3(2) by simp
  note r4 = pullsD [OF tail [of "pl_offset q + 9"] q3(1) pb]
  have off: "pl_offset q + 9 + ?u = pl_offset q + of_nat n" using n by simp
  have lb: "length ?b = 24" using g by (simp add: reads_guid_def)
  show "wbemdata_object_header pg q = Inr ((dt, pl_offset q + of_nat n, g), adv 33 q)"
    using r1 r2 r3 r4 [unfolded off lb] off unfolding wbemdata_object_header_def
    by (simp add: nthen_def nbind_def nget_def add.assoc)
qed

lemma read_into_run:
  assumes m: "reads_object m body r" and q: "page_ok q1" "prefix body (unread q1)"
    and o: "same_buffer q q1" "page_ok q" "n \<le> length (unread q)"
  shows "\<exists>q'. read_into m (pl_offset q + of_nat n) q1 ok bad = (Inr q', ok r) \<and> page_ok q' \<and> unread q' = drop n (unread q)"
proof -
  from m q obtain q2 where q2: "m q1 = Inr (r, q2)" "page_ok q2" "same_buffer q1 q2"
    unfolding reads_object_def by blast
  have ok: "pull_ok q" using o(2) by (simp add: page_ok_def noalign_ok_def)
  note a = adv_ok [OF ok o(3)]
  let ?q = "q2\<lparr>pl_offset := pl_offset q + of_nat n\<rparr>"
  have "pl_data q2 = pl_data q" "pl_data_size q2 = pl_data_size q"
    using q2(3) o(1) by (simp_all add: same_buffer_def)
  then have "page_ok ?q" "unread ?q = unread (adv n q)"
    using q2(2) a(1) by (simp_all add: page_ok_def noalign_ok_def pull_ok_def unread_def)
  then show ?thesis using q2(1) a(3) by (auto simp: read_into_def)
qed

lemma stored_slots:
  assumes "i < length xs"
  shows "take (Suc i) (xs[i := v]) @ ys @ drop (Suc i + k) (xs[i := v]) = take i xs @ v # ys @ drop (Suc (i + k)) xs"
  using assms by (simp add: take_Suc_conv_app_nth)

lemma parse_loop_run:
  assumes "block_objects pg W c es rs c'"
  shows "page_ok q \<Longrightarrow> prefix (concat (map entry_bytes es)) (unread q) \<Longrightarrow> pe_cache env = c \<Longrightarrow>
     i + length es \<le> length (pe_objects env) \<Longrightarrow>
     \<exists>q'. parse_loop pg W i (length es) q env =
       (Inr q', \<lparr>pe_objects = take i (pe_objects env) @ map Some rs @ drop (i + length rs) (pe_objects env), pe_cache = c'\<rparr>) \<and>
       page_ok q' \<and> unread q' = drop (length (concat (map entry_bytes es))) (unread q)"
  using assms
proof (induction c es rs c' arbitrary: q env i rule: block_objects.induct)
  case (block_Nil c)
  then show ?case by auto
next
  case (block_class gb g body r c es rs c')
  let ?e = "(DATATYPE_CLASSOBJECT, g, gb, body)"
  let ?env = "(store_object i r env)\<lparr>pe_cache := (g, wco_obj_class r) # c\<rparr>"
  have pre: "prefix (entry_bytes ?e @ concat (map entry_bytes es)) (unread q)" using block_class.prems(2) by simp
  note h = object_header_run [OF block_class.prems(1) pre block_class.hyps(1)]
  obtain q' where q': "read_into (ndr_pull_WbemClassObject W zero_wco) (pl_offset q + of_nat (length (entry_bytes ?e))) (adv 33 q)
        (\<lambda>r. (store_object i r env)\<lparr>pe_cache := add_pair_guid_ptr (pe_cache env) g (wco_obj_class r)\<rparr>)
        (store_object i zero_wco env) = (Inr q', ?env)"
      "page_ok q'" "unread q' = drop (length (entry_bytes ?e)) (unread q)"
    using read_into_run [OF block_class.hyps(2) h(2,3) _ block_class.prems(1) h(4), of
        "\<lambda>r. (store_object i r env)\<lparr>pe_cache := add_pair_guid_ptr (pe_cache env) g (wco_obj_class r)\<rparr>" "store_object i zero_wco env"]
      block_class.prems(3) by (auto simp: same_buffer_def add_pair_guid_ptr_def)
  have one: "parse_one pg W i q env = (Inr q', ?env)"
    using h(1) q'(1) block_class.prems(4) by (simp add: parse_one_cases)
  have "prefix (concat (map entry_bytes es)) (unread q')" using h(5) q'(3) by simp
  from block_class.IH [OF q'(2) this, of ?env "Suc i"] block_class.prems(4)
    stored_slots [of i "pe_objects env" "Some r" "map Some rs" "length rs"] one q'(3)
  show ?case by (auto simp: store_object_def add.commute simp del: entry_bytes.simps)
next
  case (block_object gb g c body r es rs c')
  let ?e = "(DATATYPE_OBJECT, g, gb, body)" and ?r0 = "set_obj_class (get_ptr_by_guid c g) zero_wco"
  let ?env = "store_object i r env"
  have pre: "prefix (entry_bytes ?e @ concat (map entry_bytes es)) (unread q)" using block_object.prems(2) by simp
  note h = object_header_run [OF block_object.prems(1) pre block_object.hyps(1)]
  obtain q' where q': "read_into (ndr_pull_WbemClassObject_Object W ?r0) (pl_offset q + of_nat (length (entry_bytes ?e))) (adv 33 q)
        (\<lambda>r. store_object i r env) (store_object i ?r0 env) = (Inr q', ?env)"
      "page_ok q'" "unread q' = drop (length (entry_bytes ?e)) (unread q)"
    using read_into_run [OF block_object.hyps(2) h(2,3) _ block_object.prems(1) h(4), of "\<lambda>r. store_object i r env" "store_object i ?r0 env"]
    by (auto simp: same_buffer_def)
  have one: "parse_one pg W i q env = (Inr q', ?env)"
    using h(1) q'(1) block_object.prems(3,4) by (simp add: parse_one_cases DATATYPE_OBJECT_def DATATYPE_CLASSOBJECT_def Let_def)
  have "prefix (concat (map entry_bytes es)) (unread q')" using h(5) q'(3) by simp
  from block_object.IH [OF q'(2) this, of ?env "Suc i"] block_object.prems(3,4)
    stored_slots [of i "pe_objects env" "Some r" "map Some rs" "length rs"] one q'(3)
  show ?case by (auto simp: store_object_def add.commute simp del: entry_bytes.simps)
qed

section \<open>Blocks with a stack are read back\<close>

definition reads_block :: "(ndr_pull, 'a) comp \<Rightarrow> 'a \<Rightarrow> u8 list \<Rightarrow> bool" where
  "reads_block m v bs \<longleftrightarrow> (\<forall>q. page_ok q \<longrightarrow> prefix bs (unread q) \<longrightarrow>
     (\<exists>q'. m q = Inr (v, q') \<and> page_ok q' \<and> same_buffer q q' \<and> pl_offset q' = pl_offset q + of_nat (length bs)))"

lemma reads_blockD:
  assumes "reads_block m v bs" "page_ok q" "prefix bs (unread q)"
  obtains q' where "m q = Inr (v, q')" "page_ok q'" "same_buffer q q'" "pl_offset q' = pl_offset q + of_nat (length bs)"
    "unread q' = drop (length bs) (unread q)"
proof -
  from assms obtain q' where q': "m q = Inr (v, q')" "page_ok q'" "same_buffer q q'"
    "pl_offset q' = pl_offset q + of_nat (length bs)" unfolding reads_block_def by blast
  have ok: "pull_ok q" using assms(2) by (simp add: page_ok_def noalign_ok_def)
  have "unread q' = unread (adv (length bs) q)" using q'(3,4) by (simp add: unread_def same_buffer_def)
  also have "\<dots> = drop (length bs) (unread q)" by (rule adv_ok(3) [OF ok prefix_length_le [OF assms(3)]])
  finally show ?thesis using that [OF q'] by blast
qed

lemma reads_reads_block:
  assumes "pulls m v bs []" shows "reads_block m v bs"
  unfolding reads_block_def
proof (intro allI impI)
  fix q assume q: "page_ok q" "prefix bs (unread q)"
  then have q': "prefix (bs @ []) (unread q)" by simp
  show "\<exists>q'. m q = Inr (v, q') \<and> page_ok q' \<and> same_buffer q q' \<and> pl_offset q' = pl_offset q + of_nat (length bs)"
    using pullsD [OF assms q(1) q'] page_adv(1) [OF q(1) q'] by (auto simp: same_buffer_def)
qed

lemma reads_block_bind:
  assumes "reads_block m v a" "reads_block (f v) w b" shows "reads_block (nbind m f) w (a @ b)"
  unfolding reads_block_def
proof (intro allI impI)
  fix q assume q: "page_ok q" "prefix (a @ b) (unread q)"
  obtain q1 where 1: "m q = Inr (v, q1)" "page_ok q1" "same_buffer q q1" "pl_offset q1 = pl_offset q + of_nat (length a)"
    "unread q1 = drop (length a) (unread q)" by (rule reads_blockD [OF assms(1) q(1) append_prefixD [OF q(2)]])
  have "prefix b (unread q1)" using prefix_behind [OF q(2)] 1(5) by simp
  from reads_blockD [OF assms(2) 1(2) this] obtain q2 where "f v q1 = Inr (w, q2)" "page_ok q2" "same_buffer q1 q2"
    "pl_offset q2 = pl_offset q1 + of_nat (length b)" by blast
  then show "\<exists>q'. nbind m f q = Inr (w, q') \<and> page_ok q' \<and> same_buffer q q' \<and> pl_offset q' = pl_offset q + of_nat (length (a @ b))"
    using 1 by (auto simp: same_buffer_def)
qed

lemma reads_block_then: "reads_block m v a \<Longrightarrow> reads_block k w b \<Longrightarrow> reads_block (nthen m k) w (a @ b)"
  unfolding nthen_def by (rule reads_block_bind)

lemma reads_block_return: "reads_block (nreturn v) v []"
  by (rule reads_reads_block [OF reads_return])

lemma reads_block_object: "reads_block m r body \<Longrightarrow> reads_object m body r"
  unfolding reads_block_def reads_object_def by blast

lemma page_limit:
  assumes "page_ok q" "unat n \<le> length (unread q)"
  shows "page_ok (q\<lparr>pl_data_size := pl_offset q + n\<rparr>)" "unread (q\<lparr>pl_data_size := pl_offset q + n\<rparr>) = take (unat n) (unread q)"
proof -
  have n: "noalign_ok q" and ok: "pull_ok q" using assms(1) by (simp_all add: page_ok_def noalign_ok_def)
  have u: "unat (pl_offset q + n) = unat (pl_offset q) + unat n" "unat (pl_offset q) + unat n \<le> unat (pl_data_size q)"
    using assms(2) length_unread [OF ok] pull_okD [OF ok] by (auto simp: unat_add_no_wrap)
  then show "page_ok (q\<lparr>pl_data_size := pl_offset q + n\<rparr>)"
    using noalign_limit [OF n, of "pl_offset q + n"] assms(1) by (simp add: page_ok_def)
  show "unread (q\<lparr>pl_data_size := pl_offset q + n\<rparr>) = take (unat n) (unread q)"
    using u by (simp add: unread_def take_drop add.commute min_absorb1)
qed

definition stack_bytes :: "u8 list \<Rightarrow> u8 list \<Rightarrow> u8 list" where
  "stack_bytes a b = le32 (of_nat (8 + length a + length b)) @ a @ le32 (of_nat (length b) OR 0x80000000) @ b"

lemma stack_size_bits:
  assumes "n < 2 ^ 31"
  shows "(of_nat n OR 0x80000000 :: u32) AND 0x80000000 \<noteq> 0" "(of_nat n OR 0x80000000 :: u32) AND 0x7FFFFFFF = of_nat n"
proof -
  have top: "(0x80000000 :: u32) = push_bit 31 1" and low: "(0x7FFFFFFF :: u32) = mask 31" by (simp_all add: mask_eq_exp_minus_1)
  have b: "bit (0x80000000 :: u32) k \<longleftrightarrow> k = 31" for k
    unfolding top bit_push_bit_iff bit_1_iff by (auto simp: possible_bit_word)
  have "bit ((of_nat n OR 0x80000000 :: u32) AND 0x80000000) 31" unfolding bit_and_iff bit_or_iff b by simp
  then show "(of_nat n OR 0x80000000 :: u32) AND 0x80000000 \<noteq> 0" by auto
  have "take_bit 31 (of_nat n :: u32) = of_nat n"
    using assms by (simp add: of_nat_take_bit [symmetric] take_bit_nat_eq_self del: of_nat_take_bit)
  then have nb: "\<not> bit (of_nat n :: u32) k" if "31 \<le> k" for k
    using that by (metis bit_take_bit_iff not_less)
  show "(of_nat n OR 0x80000000 :: u32) AND 0x7FFFFFFF = of_nat n"
    unfolding low
  proof (rule bit_word_eqI)
    fix k assume "k < LENGTH(32)"
    then show "bit ((of_nat n OR 0x80000000 :: u32) AND mask 31) k = bit (of_nat n :: u32) k"
      unfolding bit_and_iff bit_or_iff b bit_mask_iff using nb [of k] by (cases "k < 31") (auto simp: possible_bit_word)
  qed
qed

lemma stack_body_run:
  assumes a: "reads_block (fn NDR_SCALARS r) r1 a" and b: "reads_block (fn NDR_BUFFERS r1) v b"
    and q: "page_ok q" "unread q = a @ le32 (of_nat (length b) OR 0x80000000) @ b"
  shows "\<exists>q'. stack_body fn r q = Inr (v, q') \<and> page_ok q' \<and> pl_data q' = pl_data q"
proof -
  let ?t = "of_nat (length b) OR 0x80000000 :: u32"
  have ok: "pull_ok q" using q(1) by (simp add: page_ok_def noalign_ok_def)
  have lb: "length b < 2 ^ 31"
  proof -
    have "length b \<le> length (unread q)" using q(2) by simp
    also have "\<dots> < 2 ^ 31" using length_unread [OF ok] pull_okD [OF ok] by simp
    finally show ?thesis .
  qed
  note t = stack_size_bits [OF lb]
  have "prefix a (unread q)" using q(2) by simp
  from reads_blockD [OF a q(1) this] obtain q1 where 1: "fn NDR_SCALARS r q = Inr (r1, q1)" "page_ok q1" "same_buffer q q1"
    "unread q1 = le32 ?t @ b" using q(2) by auto
  have p: "prefix (le32 ?t @ b) (unread q1)" using 1(4) by simp
  note r2 = pullsD [OF reads_uint32 1(2) p]
  note q2 = page_adv [OF 1(2) p]
  have "unat (of_nat (length b) :: u32) = length b" using lb by (simp add: unat_of_nat_small)
  then have n: "unat (?t AND 0x7FFFFFFF) \<le> length (unread (adv 4 q1))" "unat (?t AND 0x7FFFFFFF) = length b"
    using t(2) q2(3) 1(4) by simp_all
  have q2': "page_ok (adv 4 q1)" "unread (adv 4 q1) = b" using q2 1(4) by simp_all
  let ?l = "(adv 4 q1)\<lparr>pl_data_size := pl_offset (adv 4 q1) + (?t AND 0x7FFFFFFF)\<rparr>"
  note l = page_limit [OF q2'(1) n(1)]
  let ?q3 = "?l\<lparr>pl_relative_base_offset := pl_offset ?l\<rparr>"
  have q3: "page_ok ?q3" "unread ?q3 = b"
    using l n(2) q2'(2) by (simp_all add: page_ok_def noalign_ok_def pull_ok_def unread_def)
  then have "prefix b (unread ?q3)" by simp
  from reads_blockD [OF b q3(1) this] obtain q4 where 4: "fn NDR_BUFFERS r1 ?q3 = Inr (v, q4)" "page_ok q4" "same_buffer ?q3 q4"
    by blast
  have need: "NDR_PULL_NEED_BYTES (?t AND 0x7FFFFFFF) (adv 4 q1) = Inr ((), adv 4 q1)"
    using need_bytes_cases [of "adv 4 q1" "?t AND 0x7FFFFFFF"] n(1) q2'(1) by (simp add: page_ok_def noalign_ok_def)
  have "stack_body fn r q = Inr (v, q4)"
    using 1(1) r2 t(1) need 4(1) by (simp add: stack_body_def Let_def nthen_def nmodify_def)
  moreover have "pl_data q4 = pl_data q" using 4(3) 1(3) by (simp add: same_buffer_def)
  ultimately show ?thesis using 4(2) by blast
qed

lemma DataWithStack_reads:
  assumes a: "reads_block (fn NDR_SCALARS r) r1 a" and b: "reads_block (fn NDR_BUFFERS r1) v b"
  shows "reads_block (ndr_pull_DataWithStack fn r) v (stack_bytes a b)"
  unfolding reads_block_def
proof (intro allI impI)
  fix q assume q: "page_ok q" "prefix (stack_bytes a b) (unread q)"
  let ?n = "8 + length a + length b" and ?c = "a @ le32 (of_nat (length b) OR 0x80000000) @ b"
  let ?s = "of_nat ?n :: u32"
  have ok: "pull_ok q" using q(1) by (simp add: page_ok_def noalign_ok_def)
  have l: "length (stack_bytes a b) = ?n" by (simp add: stack_bytes_def)
  have small: "?n < 2 ^ 31" "?n \<le> length (unread q)"
    using prefix_length_le [OF q(2)] length_unread [OF ok] pull_okD [OF ok] l by simp_all
  have p: "prefix (le32 ?s @ ?c) (unread q)" using q(2) by (simp add: stack_bytes_def)
  note q1 = page_adv [OF q(1) p]
  note r1 = pullsD [OF reads_uint32 q(1) p]
  have s4: "?s - 4 = of_nat (length ?c)" by simp
  have u: "unat (?s - 4) = length ?c" unfolding s4 by (rule unat_of_nat_small) (use small(1) in simp)
  let ?q1 = "adv (length (le32 ?s)) q"
  have n: "unat (?s - 4) \<le> length (unread ?q1)" using u prefix_length_le [OF q1(2)] by simp
  have need: "NDR_PULL_NEED_BYTES (?s - 4) ?q1 = Inr ((), ?q1)"
    using need_bytes_cases [of ?q1 "?s - 4"] n q1(1) by (simp add: page_ok_def noalign_ok_def)
  have e: "pl_offset ?q1 + (?s - 4) = pl_offset q + ?s" by simp
  have "take (length ?c) (unread ?q1) = ?c" using q1(2) by (auto simp: prefix_def)
  then have lim: "page_ok (?q1\<lparr>pl_data_size := pl_offset q + ?s\<rparr>)"
    "unread (?q1\<lparr>pl_data_size := pl_offset q + ?s\<rparr>) = ?c"
    using page_limit [OF q1(1) n] u unfolding e by simp_all
  from stack_body_run [OF a b lim] obtain q2 where q2: "stack_body fn r (?q1\<lparr>pl_data_size := pl_offset q + ?s\<rparr>) = Inr (v, q2)"
    "page_ok q2" "pl_data q2 = pl_data q" by auto
  let ?q = "q2\<lparr>pl_data_size := pl_data_size q, pl_offset := pl_offset q + ?s\<rparr>"
  have "pull_ok (adv ?n q)" by (rule adv_ok(1) [OF ok small(2)])
  then have "page_ok ?q" using q2(2,3) by (simp add: page_ok_def noalign_ok_def pull_ok_def)
  moreover have "ndr_pull_DataWithStack fn r q = Inr (v, ?q)"
    using r1 need q2(1) unfolding DataWithStack_shape
    by (simp add: nget_def nbind_def nthen_def nmodify_def nreturn_def)
  moreover have "same_buffer q ?q" using q2(3) by (simp add: same_buffer_def)
  ultimately show "\<exists>q'. ndr_pull_DataWithStack fn r q = Inr (v, q') \<and> page_ok q' \<and> same_buffer q q' \<and>
      pl_offset q' = pl_offset q + of_nat (length (stack_bytes a b))" unfolding l by auto
qed

section \<open>Blocks with a stack are written\<close>

definition page_push :: "ndr_push \<Rightarrow> bool" where
  "page_push p \<longleftrightarrow> push_ok p \<and> has_flag (ps_flags p) LIBNDR_FLAG_NOALIGN \<and> \<not> NDR_BE (ps_flags p)"

text \<open>The writer appends \<open>bs\<close>, or runs out of memory because the message would be too long.\<close>

definition writes_block :: "(ndr_push, unit) comp \<Rightarrow> u8 list \<Rightarrow> bool" where
  "writes_block m bs \<longleftrightarrow> (\<forall>p. page_push p \<longrightarrow>
     (case m p of
        Inl f \<Rightarrow> f = Status NT_STATUS_NO_MEMORY \<and> MAX_TALLOC_SIZE \<le> unat (ps_offset p) + length bs + 1024
      | Inr (_, p') \<Rightarrow> page_push p' \<and> written p' = written p @ bs))"

lemma writes_blockI:
  assumes "\<And>p. page_push p \<Longrightarrow>
     m p = Inl (Status NT_STATUS_NO_MEMORY) \<and> MAX_TALLOC_SIZE \<le> unat (ps_offset p) + length bs + 1024 \<or>
     (\<exists>p'. m p = Inr ((), p') \<and> page_push p' \<and> written p' = written p @ bs)"
  shows "writes_block m bs"
  unfolding writes_block_def using assms by (auto split: sum.splits) fastforce+

lemma writes_blockE:
  assumes "writes_block m bs" "page_push p"
  obtains (short) "m p = Inl (Status NT_STATUS_NO_MEMORY)" "MAX_TALLOC_SIZE \<le> unat (ps_offset p) + length bs + 1024"
    | (wrote) p' where "m p = Inr ((), p')" "page_push p'" "written p' = written p @ bs"
        "unat (ps_offset p') = unat (ps_offset p) + length bs"
proof (cases "m p")
  case (Inl f)
  then show ?thesis using assms(1) [unfolded writes_block_def, rule_format, OF assms(2)] short by simp
next
  case (Inr r)
  then obtain p' where r: "m p = Inr ((), p')" by (cases r) auto
  then have w: "page_push p'" "written p' = written p @ bs" using assms unfolding writes_block_def by auto
  have "length (written p') = length (written p) + length bs" using w(2) by simp
  then have "unat (ps_offset p') = unat (ps_offset p) + length bs"
    using w(1) assms(2) by (simp add: length_written page_push_def)
  then show ?thesis using wrote r w by blast
qed

lemma writes_then:
  assumes "writes_block m a" "writes_block k b" shows "writes_block (nthen m k) (a @ b)"
proof (rule writes_blockI)
  fix p assume p: "page_push p"
  from assms(1) p show "nthen m k p = Inl (Status NT_STATUS_NO_MEMORY) \<and> MAX_TALLOC_SIZE \<le> unat (ps_offset p) + length (a @ b) + 1024 \<or>
     (\<exists>p'. nthen m k p = Inr ((), p') \<and> page_push p' \<and> written p' = written p @ a @ b)"
  proof (cases rule: writes_blockE)
    case (wrote p1)
    from assms(2) wrote(2) show ?thesis by (cases rule: writes_blockE) (use wrote in \<open>auto simp: nthen_def\<close>)
  qed (simp add: nthen_def)
qed

lemma writes_return: "writes_block (nreturn ()) []"
  by (rule writes_blockI) (simp add: nreturn_def)

lemma writes_only_if: "writes_block m bs \<Longrightarrow> writes_block (only_if c m) (if c then bs else [])"
  by (simp add: only_if_def writes_return)

lemma writes_spec:
  assumes "push_spec e m" "\<And>fl ofs. has_flag fl LIBNDR_FLAG_NOALIGN \<Longrightarrow> \<not> NDR_BE fl \<Longrightarrow> e fl ofs = bs"
  shows "writes_block m bs"
proof (rule writes_blockI)
  fix p assume p: "page_push p"
  then have "push_at bs m p" using push_specD [OF assms(1), of p] assms(2) [of "ps_flags p"] by (simp add: page_push_def)
  then show "m p = Inl (Status NT_STATUS_NO_MEMORY) \<and> MAX_TALLOC_SIZE \<le> unat (ps_offset p) + length bs + 1024 \<or>
     (\<exists>p'. m p = Inr ((), p') \<and> page_push p' \<and> written p' = written p @ bs)"
    using p by (auto simp: push_at_def pushes_def page_push_def push_frame_fields(1) split: sum.splits)
qed

lemma writes_uint32: "writes_block (ndr_push_uint32 v) (le32 v)"
  by (rule writes_spec [OF push_uint32_spec]) (simp add: enc32_def enc_seq_def enc_pad_def order_def)

lemma writes_uint8: "writes_block (ndr_push_uint8 v) [v]"
  by (rule writes_spec [OF push_uint8_spec]) simp

text \<open>A size that was left open is filled in.\<close>

lemma patch_uint32:
  assumes p: "page_push p" and w: "written p = x @ z @ y" "length z = 4" "unat o' = length x"
  obtains p' where "ndr_push_uint32 v (p\<lparr>ps_offset := o'\<rparr>) = Inr ((), p'\<lparr>ps_offset := o' + 4\<rparr>)"
    "page_push p'" "written p' = x @ le32 v @ y" "ps_offset p' = ps_offset p"
proof -
  have ok: "push_ok p" using p by (simp add: page_push_def)
  have "length (written p) = length x + 4 + length y" using w by simp
  then have room: "unat o' + 4 \<le> unat (ps_offset p)" using length_written [OF ok] w(3) by simp
  let ?p = "p\<lparr>ps_data := store (ps_data p) (unat o') (map Some (le32 v))\<rparr>"
  have "ndr_push_uint32 v (p\<lparr>ps_offset := o'\<rparr>) = Inr ((), ?p\<lparr>ps_offset := o' + 4\<rparr>)"
    using push_uint32_in_place [OF ok room] p by (simp add: page_push_def order_def)
  moreover have "push_ok ?p" "written ?p = store (written p) (unat o') (le32 v)"
    using written_patch [OF ok, of "unat o'" "le32 v"] room by simp_all
  ultimately show ?thesis using that [of ?p] p w by (simp add: page_push_def store_def)
qed

lemma stack_patch:
  assumes p: "page_push p" and w: "written p = x @ z1 @ a @ z2 @ b" "length z1 = 4" "length z2 = 4"
    and o: "unat o1 = length x" "unat o2 = length x + 4 + length a"
  shows "\<exists>p'. nthen (nmodify (\<lambda>ndr. ndr\<lparr>ps_offset := o1\<rparr>)) (nthen (ndr_push_uint32 (ps_offset p - o1))
      (nthen (nmodify (\<lambda>ndr. ndr\<lparr>ps_offset := o2\<rparr>)) (nthen (ndr_push_uint32 ((ps_offset p - o2 - 4) OR 0x80000000))
      (nmodify (\<lambda>ndr. ndr\<lparr>ps_offset := ps_offset p\<rparr>))))) p = Inr ((), p') \<and>
    page_push p' \<and> written p' = x @ stack_bytes a b"
proof -
  have "length (written p) = unat (ps_offset p)" using p by (simp add: length_written page_push_def)
  then have u: "unat (ps_offset p) = length x + 8 + length a + length b" using w by simp
  have n: "ps_offset p = of_nat (length x + 8 + length a + length b)" unfolding u [symmetric] by simp
  have "o1 = of_nat (unat o1)" "o2 = of_nat (unat o2)" by simp_all
  note m = this [unfolded o]
  have v: "ps_offset p - o1 = of_nat (8 + length a + length b)" "ps_offset p - o2 - 4 = of_nat (length b)"
    by (subst n, subst m, simp)+
  obtain p1 where 1: "ndr_push_uint32 (ps_offset p - o1) (p\<lparr>ps_offset := o1\<rparr>) = Inr ((), p1\<lparr>ps_offset := o1 + 4\<rparr>)"
    "page_push p1" "written p1 = x @ le32 (ps_offset p - o1) @ a @ z2 @ b" "ps_offset p1 = ps_offset p"
    by (rule patch_uint32 [OF p w(1,2) o(1)])
  have w1: "written p1 = (x @ le32 (ps_offset p - o1) @ a) @ z2 @ b" using 1(3) by simp
  have o1: "unat o2 = length (x @ le32 (ps_offset p - o1) @ a)" using o(2) by simp
  obtain p2 where 2: "ndr_push_uint32 ((ps_offset p - o2 - 4) OR 0x80000000) (p1\<lparr>ps_offset := o2\<rparr>) =
      Inr ((), p2\<lparr>ps_offset := o2 + 4\<rparr>)" "page_push p2" "ps_offset p2 = ps_offset p1"
    "written p2 = (x @ le32 (ps_offset p - o1) @ a) @ le32 ((ps_offset p - o2 - 4) OR 0x80000000) @ b"
    by (rule patch_uint32 [OF 1(2) w1 w(3) o1])
  have "p2\<lparr>ps_offset := ps_offset p\<rparr> = p2" using 1(4) 2(3) by simp
  then show ?thesis
    using 1(1) 2(1,2,4) unfolding v by (auto simp: nthen_def nbind_def nmodify_def stack_bytes_def)
qed

lemma DataWithStack_writes:
  assumes a: "writes_block (fn NDR_SCALARS) a" and b: "writes_block (fn NDR_BUFFERS) b"
  shows "writes_block (ndr_push_DataWithStack fn) (stack_bytes a b)"
proof (rule writes_blockI)
  fix p assume p: "page_push p"
  have len: "length (stack_bytes a b) = 8 + length a + length b" by (simp add: stack_bytes_def)
  let ?goal = "ndr_push_DataWithStack fn p = Inl (Status NT_STATUS_NO_MEMORY) \<and>
      MAX_TALLOC_SIZE \<le> unat (ps_offset p) + length (stack_bytes a b) + 1024 \<or>
     (\<exists>p'. ndr_push_DataWithStack fn p = Inr ((), p') \<and> page_push p' \<and> written p' = written p @ stack_bytes a b)"
  note run = ndr_push_DataWithStack_def nthen_def nbind_def nget_def nmodify_def
  show ?goal
  proof (cases rule: writes_blockE [OF writes_uint32 [of 0] p])
    case 1
    then show ?thesis using len by (simp add: run)
  next
    case 1: (2 p1)
    show ?thesis
    proof (cases rule: writes_blockE [OF a 1(2)])
      case 1
      then show ?thesis using len \<open>ndr_push_uint32 0 p = _\<close> \<open>unat (ps_offset p1) = _\<close> by (simp add: run)
    next
      case 2: (2 p2)
      show ?thesis
      proof (cases rule: writes_blockE [OF writes_uint32 [of 0] 2(2)])
        case 1
        then show ?thesis using len \<open>ndr_push_uint32 0 p = _\<close> \<open>unat (ps_offset p1) = _\<close> 2 by (simp add: run)
      next
        case 3: (2 p3)
        let ?p3 = "p3\<lparr>ps_relative_base_offset := ps_offset p3\<rparr>"
        have p3: "page_push ?p3" "written ?p3 = written p3"
          using 3(2) by (simp_all add: page_push_def push_ok_def written_def)
        show ?thesis
        proof (cases rule: writes_blockE [OF b p3(1)])
          case 1
          then show ?thesis using len \<open>ndr_push_uint32 0 p = _\<close> \<open>unat (ps_offset p1) = _\<close> 2 3 by (simp add: run)
        next
          case 4: (2 p4)
          have w: "written p4 = written p @ le32 0 @ a @ le32 0 @ b" using 1(3) 2(3) 3(3) 4(3) p3(2) by simp
          have "length (written p) = unat (ps_offset p)" using p by (simp add: length_written page_push_def)
          then have "unat (ps_offset p) = length (written p)" "unat (ps_offset p2) = length (written p) + 4 + length a"
            using 1(4) 2(4) by simp_all
          from stack_patch [OF 4(2) w _ _ this] obtain p' where
            "nthen (nmodify (\<lambda>ndr. ndr\<lparr>ps_offset := ps_offset p\<rparr>)) (nthen (ndr_push_uint32 (ps_offset p4 - ps_offset p))
             (nthen (nmodify (\<lambda>ndr. ndr\<lparr>ps_offset := ps_offset p2\<rparr>)) (nthen (ndr_push_uint32 ((ps_offset p4 - ps_offset p2 - 4) OR 0x80000000))
             (nmodify (\<lambda>ndr. ndr\<lparr>ps_offset := ps_offset p4\<rparr>))))) p4 = Inr ((), p')"
            "page_push p'" "written p' = written p @ stack_bytes a b" by auto
          then show ?thesis using 1(1) 2(1) 3(1) 4(1) by (simp add: run)
        qed
      qed
    qed
  qed
qed

section \<open>Objects are read back\<close>

definition block_codec :: "(ndr_push, unit) comp \<Rightarrow> (ndr_pull, 'a) comp \<Rightarrow> 'a \<Rightarrow> bool" where
  "block_codec w rd v \<longleftrightarrow> (\<exists>bs. writes_block w bs \<and> reads_block rd v bs)"

text \<open>A part with scalars and buffers: the reader starts from \<open>r0\<close>.\<close>

definition part_codec :: "(nat \<Rightarrow> (ndr_push, unit) comp) \<Rightarrow> (nat \<Rightarrow> 'a \<Rightarrow> (ndr_pull, 'a) comp) \<Rightarrow> 'a \<Rightarrow> 'a \<Rightarrow> bool" where
  "part_codec w rd r0 v \<longleftrightarrow> (\<exists>a b r1. writes_block (w NDR_SCALARS) a \<and> writes_block (w NDR_BUFFERS) b \<and>
     reads_block (rd NDR_SCALARS r0) r1 a \<and> reads_block (rd NDR_BUFFERS r1) v b)"

lemma stack_codec:
  "part_codec w rd r0 v \<Longrightarrow> block_codec (ndr_push_DataWithStack w) (ndr_pull_DataWithStack rd r0) v"
  unfolding part_codec_def block_codec_def
  by (elim exE conjE) (intro exI conjI, erule (1) DataWithStack_writes, erule (1) DataWithStack_reads)

lemma codec_bind: "block_codec w rd v \<Longrightarrow> block_codec w' (f v) u \<Longrightarrow> block_codec (nthen w w') (nbind rd f) u"
  unfolding block_codec_def by (elim exE conjE) (intro exI conjI, erule (1) writes_then, erule (1) reads_block_bind)

lemma codec_return: "block_codec (nreturn ()) (nreturn v) v"
  unfolding block_codec_def by (intro exI conjI, rule writes_return, rule reads_block_return)

lemma reads_block_map: "reads_block m v bs \<Longrightarrow> reads_block (nbind m (\<lambda>x. nreturn (f x))) (f v) bs"
  using reads_block_bind [of m v bs "\<lambda>x. nreturn (f x)" "f v" "[]"]
    reads_block_return [of "f v"] by simp

lemma codec_map: "block_codec w rd v \<Longrightarrow> block_codec w (nbind rd (\<lambda>x. nreturn (f x))) (f v)"
  unfolding block_codec_def by (elim exE conjE) (intro exI conjI, assumption, erule reads_block_map)

lemma codec_only_if:
  assumes "c \<Longrightarrow> block_codec w rd v" "\<not> c \<Longrightarrow> rd' = nreturn v"
  shows "block_codec (only_if c w) (if c then rd else rd') v"
  using assms codec_return by (auto simp: only_if_def)

text \<open>The fields of an object that its flags announce are there, and no others.\<close>

definition wco_fits :: "WbemClassObject \<Rightarrow> bool" where
  "wco_fits r \<longleftrightarrow> (wco_flags r AND WCF_CLASS = 0 \<longrightarrow> wco_SERVER r = None \<and> wco_NAMESPACE r = None) \<and>
     (wco_flags r AND WCF_DECORATIONS = 0 \<longrightarrow> wco_sup_class r = None \<and> wco_sup_methods r = None \<and> wco_obj_methods r = None) \<and>
     (wco_flags r AND (WCF_CLASS OR WCF_INSTANCE) = 0 \<longrightarrow> wco_obj_class r = None) \<and>
     (wco_flags r AND WCF_INSTANCE = 0 \<longrightarrow> wco_instance r = None)"

text \<open>The writers and readers of the parts of \<open>r\<close> agree.\<close>

definition parts_agree :: "wbem_push \<Rightarrow> wbem_pull \<Rightarrow> WbemClassObject \<Rightarrow> bool" where
  "parts_agree P W r \<longleftrightarrow>
     (wco_flags r AND WCF_CLASS \<noteq> 0 \<longrightarrow> block_codec (push_CIMSTRING P (wco_SERVER r)) (pull_CIMSTRING W) (wco_SERVER r) \<and>
        block_codec (push_CIMSTRING P (wco_NAMESPACE r)) (pull_CIMSTRING W) (wco_NAMESPACE r)) \<and>
     (wco_flags r AND WCF_DECORATIONS \<noteq> 0 \<longrightarrow>
        part_codec (\<lambda>fl. push_WbemClass P fl (wco_sup_class r)) (pull_WbemClass W) (Some zero_class) (wco_sup_class r) \<and>
        part_codec (\<lambda>fl. push_WbemMethods P fl (wco_sup_methods r)) (pull_WbemMethods W) (Some zero_methods) (wco_sup_methods r) \<and>
        part_codec (\<lambda>fl. push_WbemMethods P fl (wco_obj_methods r)) (pull_WbemMethods W) (Some zero_methods) (wco_obj_methods r)) \<and>
     (wco_flags r AND (WCF_CLASS OR WCF_INSTANCE) \<noteq> 0 \<longrightarrow>
        part_codec (\<lambda>fl. push_WbemClass P fl (wco_obj_class r)) (pull_WbemClass W) (Some zero_class) (wco_obj_class r)) \<and>
     (wco_flags r AND WCF_INSTANCE \<noteq> 0 \<longrightarrow>
        part_codec (\<lambda>fl. push_WbemInstance_priv P fl r) (pull_WbemInstance_priv W) (set_instance (Some zero_instance) r) r)"

text \<open>The body of the two functions, behind the setting of the flag.\<close>

definition wco_push_body :: "wbem_push \<Rightarrow> WbemClassObject \<Rightarrow> (ndr_push, unit) comp" where
  "wco_push_body P r =
     nthen (ndr_push_uint8 (wco_flags r))
    (nthen (only_if (wco_flags r AND WCF_CLASS \<noteq> 0)
             (nthen (push_CIMSTRING P (wco_SERVER r)) (push_CIMSTRING P (wco_NAMESPACE r))))
    (nthen (only_if (wco_flags r AND WCF_DECORATIONS \<noteq> 0)
             (nthen (ndr_push_DataWithStack (\<lambda>fl. push_WbemClass P fl (wco_sup_class r)))
                    (ndr_push_DataWithStack (\<lambda>fl. push_WbemMethods P fl (wco_sup_methods r)))))
    (nthen (only_if (wco_flags r AND (WCF_CLASS OR WCF_INSTANCE) \<noteq> 0)
             (ndr_push_DataWithStack (\<lambda>fl. push_WbemClass P fl (wco_obj_class r))))
    (nthen (only_if (wco_flags r AND WCF_DECORATIONS \<noteq> 0)
             (ndr_push_DataWithStack (\<lambda>fl. push_WbemMethods P fl (wco_obj_methods r))))
           (only_if (wco_flags r AND WCF_INSTANCE \<noteq> 0)
             (ndr_push_DataWithStack (\<lambda>fl. push_WbemInstance_priv P fl r)))))))"

definition wco_pull_body :: "wbem_pull \<Rightarrow> WbemClassObject \<Rightarrow> (ndr_pull, WbemClassObject) comp" where
  "wco_pull_body W r =
     nbind ndr_pull_uint8 (\<lambda>fl.
     nbind (if fl AND WCF_CLASS \<noteq> 0
            then nbind (pull_CIMSTRING W) (\<lambda>sv. nbind (pull_CIMSTRING W) (\<lambda>ns. nreturn (set_path sv ns (set_head fl r))))
            else nreturn (set_head fl r)) (\<lambda>r.
     nbind (if wco_flags r AND WCF_DECORATIONS \<noteq> 0
            then nbind (ndr_pull_DataWithStack (pull_WbemClass W) (Some zero_class)) (\<lambda>sc.
                 nbind (ndr_pull_DataWithStack (pull_WbemMethods W) (Some zero_methods)) (\<lambda>sm.
                 nreturn (set_sup sc sm r)))
            else nreturn (set_sup None (wco_sup_methods r) r)) (\<lambda>r.
     nbind (if wco_flags r AND (WCF_CLASS OR WCF_INSTANCE) \<noteq> 0
            then nbind (ndr_pull_DataWithStack (pull_WbemClass W) (Some zero_class)) (\<lambda>oc. nreturn (set_obj_class oc r))
            else nreturn r) (\<lambda>r.
     nbind (if wco_flags r AND WCF_DECORATIONS \<noteq> 0
            then nbind (ndr_pull_DataWithStack (pull_WbemMethods W) (Some zero_methods)) (\<lambda>om. nreturn (set_obj_methods om r))
            else nreturn r)
     (pull_wco_instance W)))))"

lemma wco_shapes:
  "ndr_push_WbemClassObject P r =
     nthen (nmodify (\<lambda>ndr. ndr\<lparr>ps_flags := ndr_set_flags (ps_flags ndr) LIBNDR_FLAG_NOALIGN\<rparr>)) (wco_push_body P r)"
  "ndr_pull_WbemClassObject W r0 =
     nthen (nmodify (\<lambda>ndr. ndr\<lparr>pl_flags := ndr_set_flags (pl_flags ndr) LIBNDR_FLAG_NOALIGN\<rparr>)) (wco_pull_body W r0)"
  unfolding ndr_push_WbemClassObject_def wco_push_body_def ndr_pull_WbemClassObject_def pull_wco_head_def wco_pull_body_def
    nthen_def nbind_assoc by (rule refl)+

lemma codec_pair:
  assumes "block_codec w1 rd1 v1" "block_codec w2 rd2 v2"
  shows "block_codec (nthen w1 w2) (nbind rd1 (\<lambda>x. nbind rd2 (\<lambda>y. nreturn (f x y)))) (f v1 v2)"
  by (rule codec_bind [where f = "\<lambda>x. nbind rd2 (\<lambda>y. nreturn (f x y))", OF assms(1)])
     (rule codec_map [where f = "f v1", OF assms(2)])

lemma wco_body_codec:
  assumes fits: "wco_fits r" and parts: "parts_agree P W r"
  shows "block_codec (wco_push_body P r) (wco_pull_body W zero_wco) r"
proof -
  obtain fl sv ns sc sm oc om i where r: "r = WbemClassObject fl sv ns sc sm oc om i" by (cases r)
  note f = fits [unfolded wco_fits_def r WbemClassObject.sel] and p = parts [unfolded parts_agree_def r WbemClassObject.sel]
  let ?r1 = "WbemClassObject fl sv ns None None None None None"
  let ?r2 = "WbemClassObject fl sv ns sc sm None None None"
  let ?r3 = "WbemClassObject fl sv ns sc sm oc None None"
  let ?r4 = "WbemClassObject fl sv ns sc sm oc om None"
  have head: "block_codec (ndr_push_uint8 fl) ndr_pull_uint8 fl"
    unfolding block_codec_def by (intro exI conjI, rule writes_uint8, rule reads_reads_block [OF reads_uint8])
  have strings: "block_codec (only_if (fl AND WCF_CLASS \<noteq> 0) (nthen (push_CIMSTRING P sv) (push_CIMSTRING P ns)))
      (if fl AND WCF_CLASS \<noteq> 0
       then nbind (pull_CIMSTRING W) (\<lambda>sv. nbind (pull_CIMSTRING W) (\<lambda>ns. nreturn (set_path sv ns (set_head fl zero_wco))))
       else nreturn (set_head fl zero_wco)) ?r1"
    using f p codec_pair [where f = "\<lambda>sv ns. set_path sv ns (set_head fl zero_wco)"]
    by (intro codec_only_if) (fastforce simp: zero_wco_def)+
  have sup: "block_codec (only_if (fl AND WCF_DECORATIONS \<noteq> 0)
        (nthen (ndr_push_DataWithStack (\<lambda>fl. push_WbemClass P fl sc)) (ndr_push_DataWithStack (\<lambda>fl. push_WbemMethods P fl sm))))
      (if wco_flags ?r1 AND WCF_DECORATIONS \<noteq> 0
       then nbind (ndr_pull_DataWithStack (pull_WbemClass W) (Some zero_class)) (\<lambda>sc.
            nbind (ndr_pull_DataWithStack (pull_WbemMethods W) (Some zero_methods)) (\<lambda>sm. nreturn (set_sup sc sm ?r1)))
       else nreturn (set_sup None (wco_sup_methods ?r1) ?r1)) ?r2"
    using f p codec_pair [where f = "\<lambda>sc sm. set_sup sc sm ?r1", OF stack_codec stack_codec]
    unfolding WbemClassObject.sel by (intro codec_only_if) fastforce+
  have cls: "block_codec (only_if (fl AND (WCF_CLASS OR WCF_INSTANCE) \<noteq> 0) (ndr_push_DataWithStack (\<lambda>fl. push_WbemClass P fl oc)))
      (if wco_flags ?r2 AND (WCF_CLASS OR WCF_INSTANCE) \<noteq> 0
       then nbind (ndr_pull_DataWithStack (pull_WbemClass W) (Some zero_class)) (\<lambda>oc. nreturn (set_obj_class oc ?r2))
       else nreturn ?r2) ?r3"
    using f p codec_map [where f = "\<lambda>oc. set_obj_class oc ?r2", OF stack_codec]
    unfolding WbemClassObject.sel by (intro codec_only_if) fastforce+
  have methods: "block_codec (only_if (fl AND WCF_DECORATIONS \<noteq> 0) (ndr_push_DataWithStack (\<lambda>fl. push_WbemMethods P fl om)))
      (if wco_flags ?r3 AND WCF_DECORATIONS \<noteq> 0
       then nbind (ndr_pull_DataWithStack (pull_WbemMethods W) (Some zero_methods)) (\<lambda>om. nreturn (set_obj_methods om ?r3))
       else nreturn ?r3) ?r4"
    using f p codec_map [where f = "\<lambda>om. set_obj_methods om ?r3", OF stack_codec]
    unfolding WbemClassObject.sel by (intro codec_only_if) fastforce+
  have inst: "block_codec (only_if (fl AND WCF_INSTANCE \<noteq> 0) (ndr_push_DataWithStack (\<lambda>fl. push_WbemInstance_priv P fl r)))
      (pull_wco_instance W ?r4) r"
    using f p stack_codec unfolding pull_wco_instance_def r WbemClassObject.sel by (intro codec_only_if) fastforce+
  show ?thesis
    unfolding wco_push_body_def wco_pull_body_def r WbemClassObject.sel
    by (rule codec_bind [OF head], rule codec_bind [OF strings], rule codec_bind [OF sup],
      rule codec_bind [OF cls], rule codec_bind [OF methods], rule inst [unfolded r])
qed

section \<open>Properties\<close>


text \<open>The writers that belong to the readers \<open>sample_pull\<close>, and an object of a class with an instance.\<close>

definition push_letter :: "string option \<Rightarrow> (ndr_push, unit) comp" where
  "push_letter s = ndr_push_uint8 (if s = Some ''s'' then 115 else 110)"

definition sample_push :: wbem_push where
  "sample_push = \<lparr>push_CIMSTRING = push_letter,
     push_WbemClass = (\<lambda>fl c. if fl = NDR_SCALARS then ndr_push_uint8 (class_u_0 (the c)) else push_letter (class_name (the c))),
     push_WbemMethods = (\<lambda>fl m. nreturn ()),
     push_WbemInstance_priv = (\<lambda>fl r. if fl = NDR_SCALARS then ndr_push_uint8 (inst_u1_0 (the (wco_instance r))) else nreturn ())\<rparr>"

definition sample_class :: wclass where "sample_class = WbemClass 7 (Some ''s'') 0 [] [] 0 [] [] []"
definition sample_object :: WbemClassObject where
  "sample_object = WbemClassObject 6 (Some ''s'') (Some ''n'') None None (Some sample_class) None (Some (WbemInstance 9 None [] [] 0 0))"

lemma reads_u8_map: "reads_block (nbind ndr_pull_uint8 (\<lambda>b. nreturn (f b))) (f v) [v]"
  by (rule reads_block_map [OF reads_reads_block [OF reads_uint8]])

lemma reads_letter: "reads_block pull_letter (Some ''s'') [115]" "reads_block pull_letter (Some ''n'') [110]"
  using reads_u8_map [where f = "\<lambda>b. Some (if b = 115 then ''s'' else ''n'')" and v = 115]
    reads_u8_map [where f = "\<lambda>b. Some (if b = 115 then ''s'' else ''n'')" and v = 110]
  by (simp_all add: pull_letter_def)

lemma letter_codec: "block_codec (push_letter (Some ''s'')) pull_letter (Some ''s'')"
  "block_codec (push_letter (Some ''n'')) pull_letter (Some ''n'')"
  using reads_letter writes_uint8 unfolding block_codec_def push_letter_def by auto

lemma sample_class_codec:
  "part_codec (\<lambda>fl. push_WbemClass sample_push fl (Some sample_class)) (pull_WbemClass sample_pull) (Some zero_class) (Some sample_class)"
  unfolding part_codec_def
proof (intro exI conjI)
  show "writes_block (push_WbemClass sample_push NDR_SCALARS (Some sample_class)) [7]"
    "writes_block (push_WbemClass sample_push NDR_BUFFERS (Some sample_class)) [115]"
    using writes_uint8 by (simp_all add: sample_push_def sample_class_def push_letter_def NDR_SCALARS_def NDR_BUFFERS_def)
  show "reads_block (pull_WbemClass sample_pull NDR_SCALARS (Some zero_class)) (Some (WbemClass 7 None 0 [] [] 0 [] [] [])) [7]"
    using reads_u8_map [where f = "\<lambda>u. Some (WbemClass u None 0 [] [] 0 [] [] [])" and v = 7] by (simp add: sample_pull_def)
  show "reads_block (pull_WbemClass sample_pull NDR_BUFFERS (Some (WbemClass 7 None 0 [] [] 0 [] [] []))) (Some sample_class) [115]"
    using reads_block_map [OF reads_letter(1), where f = "\<lambda>s. Some (WbemClass 7 s 0 [] [] 0 [] [] [])"]
    by (simp add: sample_pull_def sample_class_def NDR_SCALARS_def NDR_BUFFERS_def)
qed

lemma sample_instance_codec:
  "part_codec (\<lambda>fl. push_WbemInstance_priv sample_push fl sample_object) (pull_WbemInstance_priv sample_pull)
     (set_instance (Some zero_instance) sample_object) sample_object"
  unfolding part_codec_def
proof (intro exI conjI)
  show "writes_block (push_WbemInstance_priv sample_push NDR_SCALARS sample_object) [9]"
    "writes_block (push_WbemInstance_priv sample_push NDR_BUFFERS sample_object) []"
    using writes_uint8 writes_return by (simp_all add: sample_push_def sample_object_def NDR_SCALARS_def NDR_BUFFERS_def)
  show "reads_block (pull_WbemInstance_priv sample_pull NDR_SCALARS (set_instance (Some zero_instance) sample_object)) sample_object [9]"
    using reads_u8_map [where f = "\<lambda>u. set_instance (Some (WbemInstance u None [] [] 0 0)) sample_object" and v = 9]
    by (simp add: sample_pull_def sample_object_def)
  show "reads_block (pull_WbemInstance_priv sample_pull NDR_BUFFERS sample_object) sample_object []"
    using reads_block_return by (simp add: sample_pull_def NDR_SCALARS_def NDR_BUFFERS_def)
qed

lemma sample_flags: "wco_flags sample_object AND WCF_CLASS \<noteq> 0" "wco_flags sample_object AND WCF_INSTANCE \<noteq> 0"
  "wco_flags sample_object AND WCF_DECORATIONS = 0" "wco_flags sample_object AND (WCF_CLASS OR WCF_INSTANCE) \<noteq> 0"
  by code_simp+

lemma sample_object_ok: "wco_fits sample_object" "parts_agree sample_push sample_pull sample_object"
proof -
  show "wco_fits sample_object" using sample_flags by (simp add: wco_fits_def) (simp add: sample_object_def)
  show "parts_agree sample_push sample_pull sample_object"
    using sample_flags letter_codec sample_class_codec sample_instance_codec unfolding parts_agree_def
    by (simp add: sample_object_def) (simp add: sample_push_def sample_pull_def)
qed

definition sample_written :: ndr_push where
  "sample_written = after_push (ndr_push_WbemClassObject sample_push sample_object) small_push"


lemma parse_context_page:
  assumes "length data < 2 ^ 31"
  shows "page_ok (parse_context data (of_nat (length data)))" "unread (parse_context data (of_nat (length data))) = data"
proof -
  have u: "unat (of_nat (length data) :: u32) = length data" using assms by (simp add: unat_of_nat_small)
  have "\<not> NDR_BE 0" by (simp add: NDR_BE_bits)
  then show "page_ok (parse_context data (of_nat (length data)))"
    using parse_context_ok [of "of_nat (length data)" data] assms u set_noalign_flag(3) [of 0]
    by (simp add: page_ok_def parse_context_def)
  show "unread (parse_context data (of_nat (length data))) = data" using u by (simp add: unread_def parse_context_def)
qed

text \<open>The objects of a block behind the header.\<close>

definition page :: "u8 \<Rightarrow> entry list \<Rightarrow> u8 list" where
  "page minor es = page_header minor (of_nat (length es)) (length (concat (map entry_bytes es))) @ concat (map entry_bytes es)"

lemma length_page_header: "length (page_header minor c n) = 46"
  by (simp add: page_header_def)

lemma entry_long: "33 \<le> length (entry_bytes e) + 16"
  by (cases e) simp

lemma page_count: "length (page minor es) < 2 ^ 31 \<Longrightarrow> unat (of_nat (length es) :: u32) = length es"
proof -
  have "length es \<le> length (concat (map entry_bytes es))"
  proof (induction es)
    case (Cons e es)
    then show ?case using entry_long [of e] by (simp del: entry_bytes.simps)
  qed simp
  moreover assume "length (page minor es) < 2 ^ 31"
  ultimately show ?thesis by (simp add: page_def unat_of_nat_small)
qed

lemma header_run:
  assumes "minor \<le> 1" "length (page minor es) < 2 ^ 31"
  obtains q where "wbemdata_header (of_nat (length es)) (parse_context (page minor es) (of_nat (length (page minor es)))) = Inr ((), q)"
    "page_ok q" "unread q = concat (map entry_bytes es)"
proof -
  let ?o = "concat (map entry_bytes es)"
  let ?q = "parse_context (page minor es) (of_nat (length (page minor es)))"
  note c = parse_context_page [OF assms(2)]
  have l: "length ?o + 26 < 2 ^ 32" using assms(2) by (simp add: page_def length_page_header)
  have p: "prefix (page_header minor (of_nat (length es)) (length ?o) @ ?o) (unread ?q)"
    unfolding c(2) by (simp add: page_def)
  show ?thesis
    using that pullsD [OF reads_header [OF assms(1) l] c(1) p] page_adv [OF c(1) p] c(2) by (simp add: page_def)
qed

lemma parse_page_run:
  assumes "block_objects ndr_pull_GUID W (pe_cache env) es rs c'" "es \<noteq> []" "minor \<le> 1"
    and "length es \<le> length (pe_objects env)" "length (page minor es) < 2 ^ 31"
  shows "\<exists>q. WBEMDATA_Parse ndr_pull_GUID W (page minor es) (of_nat (length (page minor es))) (of_nat (length es)) env =
     (Inr q, \<lparr>pe_objects = map Some rs @ drop (length rs) (pe_objects env), pe_cache = c'\<rparr>)"
proof -
  note n = page_count [OF assms(5)]
  then have nz: "(of_nat (length es) :: u32) \<noteq> 0" using assms(2) by (metis length_0_conv unat_0)
  obtain q where q: "wbemdata_header (of_nat (length es)) (parse_context (page minor es) (of_nat (length (page minor es)))) = Inr ((), q)"
    "page_ok q" "unread q = concat (map entry_bytes es)" by (rule header_run [OF assms(3,5)])
  have "prefix (concat (map entry_bytes es)) (unread q)" using q(3) by simp
  from parse_loop_run [OF assms(1) q(2) this refl, of 0] assms(4) q(1) nz n show ?thesis
    by (auto simp: WBEMDATA_Parse_def)
qed

text \<open>C9: a result block of well-formed objects is parsed completely: the caller's array gets the objects of the block in
  their order and nothing else changes in it, each object that came without its class has the class that was received
  last under its identifier, and the classes of the block are remembered for the next blocks.\<close>

theorem WBEMDATA_Parse_page:
  assumes "block_objects ndr_pull_GUID W (pe_cache env) es rs c'" "es \<noteq> []" "minor \<le> 1"
    and "length es \<le> length (pe_objects env)" "length (page minor es) < 2 ^ 31"
  shows "\<exists>q. WBEMDATA_Parse ndr_pull_GUID W (page minor es) (of_nat (length (page minor es))) (of_nat (length es)) env =
     (Inr q, \<lparr>pe_objects = map Some rs @ drop (length rs) (pe_objects env), pe_cache = c'\<rparr>)"
  by (rule parse_page_run [OF assms])

text \<open>A block with a class object and an object of that class, both with the identifier \<open>clsid_wbem\<close>.\<close>

definition guid_bytes :: "u8 list" where
  "guid_bytes = le32 0x4590f812 @ le16 0x1d3a @ le16 0x11d0 @ [0x89, 0x1f] @ [0x00, 0xaa, 0x00, 0x4b, 0x2e, 0x24]"

lemma reads_clsid: "reads_guid pull_guid guid_bytes clsid_wbem"
proof -
  have "pulls (ndr_pull_bytes 6) [0x00, 0xaa, 0x00, 0x4b, 0x2e, 0x24] [0x00, 0xaa, 0x00, 0x4b, 0x2e, 0x24] rest"
    "pulls (ndr_pull_bytes 2) [0x89, 0x1f] [0x89, 0x1f] rest" for rest by (rule reads_bytes; simp)+
  then have "pulls pull_guid clsid_wbem guid_bytes rest" for rest
    unfolding pull_guid_def guid_bytes_def clsid_wbem_def
    by (intro reads_bind [OF reads_uint32] reads_bind [OF reads_uint16]) (rule reads_bind, blast, rule reads_bind_end, blast, rule reads_return)
  moreover have "length guid_bytes = 16" by (simp add: guid_bytes_def le16_def)
  ultimately show ?thesis by (simp add: reads_guid_def)
qed

definition sample_entries :: "entry list" where
  "sample_entries = [(DATATYPE_CLASSOBJECT, clsid_wbem, guid_bytes, written sample_written),
     (DATATYPE_OBJECT, clsid_wbem, guid_bytes, [0])]"

lemma reads_object_flag:
  assumes "reads_block k r bs"
  shows "reads_object (nthen (nmodify (\<lambda>ndr. ndr\<lparr>pl_flags := ndr_set_flags (pl_flags ndr) LIBNDR_FLAG_NOALIGN\<rparr>)) k) bs r"
  unfolding reads_object_def
proof (intro allI impI)
  fix q assume q: "page_ok q" "prefix bs (unread q)"
  let ?q = "q\<lparr>pl_flags := ndr_set_flags (pl_flags q) LIBNDR_FLAG_NOALIGN\<rparr>"
  have qq: "page_ok ?q" "prefix bs (unread ?q)"
    using q set_noalign_flag [of "pl_flags q"] by (simp_all add: page_ok_def noalign_ok_def pull_ok_def unread_def)
  obtain q' where "k ?q = Inr (r, q')" "page_ok q'" "same_buffer ?q q'" by (rule reads_blockD [OF assms qq])
  then show "\<exists>q'. nthen (nmodify (\<lambda>ndr. ndr\<lparr>pl_flags := ndr_set_flags (pl_flags ndr) LIBNDR_FLAG_NOALIGN\<rparr>)) k q = Inr (r, q') \<and>
      page_ok q' \<and> same_buffer q q'"
    by (simp add: nthen_def nbind_def nmodify_def same_buffer_def)
qed

lemma sample_class_object: "reads_object (ndr_pull_WbemClassObject sample_pull zero_wco) (written sample_written) sample_object"
proof -
  obtain bs where w: "writes_block (wco_push_body sample_push sample_object) bs"
    and rd: "reads_block (wco_pull_body sample_pull zero_wco) sample_object bs"
    using wco_body_codec [OF sample_object_ok] unfolding block_codec_def by blast
  let ?p = "small_push\<lparr>ps_flags := ndr_set_flags (ps_flags small_push) LIBNDR_FLAG_NOALIGN\<rparr>"
  have "\<not> NDR_BE (ps_flags small_push)" by code_simp
  then have pp: "page_push ?p" using small_push_ok set_noalign_flag [of "ps_flags small_push"]
    by (simp add: page_push_def push_ok_def)
  have "wco_push_body sample_push sample_object ?p = Inr ((), sample_written)" "written ?p = []" by code_simp+
  then have "written sample_written = bs" by (cases rule: writes_blockE [OF w pp]) simp_all
  then show ?thesis using reads_object_flag [OF rd] by (simp add: wco_shapes)
qed

lemma sample_plain_object:
  assumes "r0 = set_obj_class c zero_wco" shows "reads_object (ndr_pull_WbemClassObject_Object sample_pull r0) [0] r0"
proof -
  let ?f = "\<lambda>fl. nbind (if fl AND WCF_CLASS \<noteq> 0
     then nbind (pull_CIMSTRING sample_pull) (\<lambda>sv. nbind (pull_CIMSTRING sample_pull) (\<lambda>ns. nreturn (set_path sv ns (set_head fl r0))))
     else nreturn (set_head fl r0)) (pull_wco_instance sample_pull)"
  have "?f 0 = nreturn r0"
    using assms by (auto simp: pull_wco_instance_def zero_wco_def nreturn_def)
  then have "reads_block (?f 0) r0 []" using reads_block_return by simp
  from reads_object_flag [OF reads_block_bind [of _ _ _ ?f, OF reads_reads_block [OF reads_uint8] this]] show ?thesis
    by (simp add: ndr_pull_WbemClassObject_Object_def pull_wco_head_def nthen_def nbind_assoc)
qed

lemma sample_block:
  "block_objects pull_guid sample_pull [] sample_entries [sample_object, set_obj_class (Some sample_class) zero_wco] [(clsid_wbem, Some sample_class)]"
proof -
  have g: "get_ptr_by_guid [(clsid_wbem, Some sample_class)] clsid_wbem = Some sample_class" and c: "wco_obj_class sample_object = Some sample_class"
    by code_simp+
  have "reads_object (ndr_pull_WbemClassObject_Object sample_pull
      (set_obj_class (get_ptr_by_guid [(clsid_wbem, Some sample_class)] clsid_wbem) zero_wco)) [0] (set_obj_class (Some sample_class) zero_wco)"
    unfolding g by (rule sample_plain_object) (rule refl)
  then have "block_objects pull_guid sample_pull [(clsid_wbem, wco_obj_class sample_object)] [(DATATYPE_OBJECT, clsid_wbem, guid_bytes, [0])]
      [set_obj_class (Some sample_class) zero_wco] [(clsid_wbem, Some sample_class)]"
    unfolding c by (rule block_object [OF reads_clsid _ block_Nil])
  then show ?thesis
    unfolding sample_entries_def by (rule block_class [OF reads_clsid sample_class_object])
qed

theorem WBEMDATA_Parse_page_witness:
  "\<exists>q. WBEMDATA_Parse pull_guid sample_pull (page 1 sample_entries) (of_nat (length (page 1 sample_entries))) (of_nat (length sample_entries))
      \<lparr>pe_objects = [None, None, None], pe_cache = []\<rparr> =
     (Inr q, \<lparr>pe_objects = [Some sample_object, Some (set_obj_class (Some sample_class) zero_wco), None],
       pe_cache = [(clsid_wbem, Some sample_class)]\<rparr>)"
proof -
  have "length (page 1 sample_entries) < 2 ^ 31"
  proof -
    have "length (page 1 sample_entries) < 200" by code_simp
    then show ?thesis by simp
  qed
  moreover have "length sample_entries = 2" "sample_entries \<noteq> []" by (simp_all add: sample_entries_def)
  ultimately show ?thesis
    using WBEMDATA_Parse_page [of pull_guid sample_pull "\<lparr>pe_objects = [None, None, None], pe_cache = []\<rparr>" sample_entries
        "[sample_object, set_obj_class (Some sample_class) zero_wco]" "[(clsid_wbem, Some sample_class)]" 1] sample_block
    by (simp del: set_obj_class.simps)
qed

inductive_cases block_consE: "block_objects pg W c (e # es) rs c'"

lemma block_append:
  assumes "block_objects pg W c es rs c'"
  shows "es = es1 @ es2 \<Longrightarrow> \<exists>rs1 rs2 c1. block_objects pg W c es1 rs1 c1 \<and> block_objects pg W c1 es2 rs2 c'"
  using assms
proof (induction arbitrary: es1 rule: block_objects.induct)
  case (block_Nil c)
  then show ?case by (auto intro: block_objects.block_Nil)
next
  case (block_class gb g body r c es rs c')
  show ?case
  proof (cases es1)
    case Nil
    then show ?thesis using block_class block_objects.block_class [OF block_class.hyps] block_objects.block_Nil by fastforce
  next
    case (Cons e es1')
    then obtain rs1 rs2 c1 where b: "block_objects pg W ((g, wco_obj_class r) # c) es1' rs1 c1" "block_objects pg W c1 es2 rs2 c'"
      using block_class.IH [of es1'] block_class.prems by auto
    then show ?thesis
      using Cons block_class.prems block_objects.block_class [OF block_class.hyps(1,2) b(1)] by auto
  qed
next
  case (block_object gb g c body r es rs c')
  show ?case
  proof (cases es1)
    case Nil
    then show ?thesis using block_object block_objects.block_object [OF block_object.hyps] block_objects.block_Nil by fastforce
  next
    case (Cons e es1')
    then obtain rs1 rs2 c1 where b: "block_objects pg W c es1' rs1 c1" "block_objects pg W c1 es2 rs2 c'"
      using block_object.IH [of es1'] block_object.prems by auto
    then show ?thesis
      using Cons block_object.prems block_objects.block_object [OF block_object.hyps(1,2) b(1)] by auto
  qed
qed

lemma parse_loop_add:
  "parse_loop pg W i (k + m) q env =
     (case parse_loop pg W i k q env of (Inl f, env) \<Rightarrow> (Inl f, env) | (Inr q, env) \<Rightarrow> parse_loop pg W (i + k) m q env)"
  by (induction k arbitrary: i q env) (simp_all split: prod.splits sum.splits)

lemma parse_loop_overrun:
  assumes b: "block_objects pg W (pe_cache env) es rs c'" and q: "page_ok q" "prefix (concat (map entry_bytes es)) (unread q)"
    and n: "length (pe_objects env) < length es"
  shows "fst (parse_loop pg W 0 (length es) q env) = Inl Fault"
proof -
  let ?n = "length (pe_objects env)"
  let ?es1 = "take ?n es"
  obtain e es2 where es: "es = ?es1 @ e # es2" by (rule that) (rule id_take_nth_drop [OF n])
  have l1: "length ?es1 = ?n" using n by simp
  have l2: "length es = ?n + Suc (length es2)"
    using arg_cong [OF es, of length] unfolding length_append l1 by simp
  from block_append [OF b es] obtain rs1 rs2 c1 where
    1: "block_objects pg W (pe_cache env) ?es1 rs1 c1" and 2: "block_objects pg W c1 (e # es2) rs2 c'"
    by blast
  have p: "prefix (concat (map entry_bytes ?es1) @ concat (map entry_bytes (e # es2))) (unread q)"
    using q(2) by (subst (asm) es) simp
  from parse_loop_run [OF 1 q(1) append_prefixD [OF p] refl, of 0] l1 n block_length [OF 1] obtain q' env' where
    r: "parse_loop pg W 0 ?n q env = (Inr q', env')" and q': "page_ok q'" "length (pe_objects env') = ?n"
      "unread q' = drop (length (concat (map entry_bytes ?es1))) (unread q)" by auto
  have p': "prefix (entry_bytes e @ concat (map entry_bytes es2)) (unread q')"
    unfolding q'(3) using prefix_behind [OF p] by simp
  obtain dt g gb body where e: "e = (dt, g, gb, body)" by (cases e)
  have dt: "dt = DATATYPE_CLASSOBJECT \<or> dt = DATATYPE_OBJECT" "reads_guid pg gb g"
    using 2 unfolding e by (auto elim: block_consE)
  note h = object_header_run [OF q'(1) p' [unfolded e] dt(2)]
  have "parse_one pg W ?n q' env' = (Inl Fault, env')"
    using h(1) dt(1) q'(2) by (auto simp: parse_one_cases)
  then show ?thesis unfolding l2 parse_loop_add r by simp
qed

text \<open>C39: the parser does not look at the room in the caller's array: on a well-formed block with more objects than
  the array has slots, it fills the array and then writes behind it.\<close>

theorem WBEMDATA_Parse_overruns:
  assumes "block_objects ndr_pull_GUID W (pe_cache env) es rs c'" "minor \<le> 1" "length (page minor es) < 2 ^ 31"
    and "length (pe_objects env) < length es"
  shows "fst (WBEMDATA_Parse ndr_pull_GUID W (page minor es) (of_nat (length (page minor es))) (of_nat (length es)) env) = Inl Fault"
proof -
  note n = page_count [OF assms(3)]
  then have nz: "(of_nat (length es) :: u32) \<noteq> 0" using assms(4) by (metis less_nat_zero_code unat_0)
  obtain q where q: "wbemdata_header (of_nat (length es)) (parse_context (page minor es) (of_nat (length (page minor es)))) = Inr ((), q)"
    "page_ok q" "unread q = concat (map entry_bytes es)" by (rule header_run [OF assms(2,3)])
  have "prefix (concat (map entry_bytes es)) (unread q)" using q(3) by simp
  from parse_loop_overrun [OF assms(1) q(2) this assms(4)] q(1) nz n show ?thesis
    by (simp add: WBEMDATA_Parse_def)
qed

theorem WBEMDATA_Parse_overruns_witness:
  "fst (WBEMDATA_Parse pull_guid sample_pull (page 1 sample_entries) (of_nat (length (page 1 sample_entries))) (of_nat (length sample_entries))
      \<lparr>pe_objects = [None], pe_cache = []\<rparr>) = Inl Fault"
proof (rule WBEMDATA_Parse_overruns)
  show "block_objects pull_guid sample_pull (pe_cache \<lparr>pe_objects = [None], pe_cache = []\<rparr>) sample_entries
    [sample_object, set_obj_class (Some sample_class) zero_wco] [(clsid_wbem, Some sample_class)]" using sample_block by simp
  have "length (page 1 sample_entries) < 200" by code_simp
  then show "length (page 1 sample_entries) < 2 ^ 31" by simp
qed (simp_all add: sample_entries_def)

end
