(* ===== verification/Composite.thy ===== *)
theory Composite
  imports DataBlob
begin

text \<open>
  Composite contexts, \<open>libcli/composite/composite.c\<close>: a call that is made of several asynchronous
  calls, with a continuation that runs when it is finished.

  \<^item> A world holds one context (\<open>None\<close> once it is freed), the immediate timer events that were
    scheduled for it, and the continuations that have run so far.  Timer events hang below the
    context and disappear when it is freed.
  \<^item> The continuation is code of the caller.  What matters of it here is whether it frees the context,
    as the \<open>_recv\<close> functions do; \<open>frees\<close> says so.
\<close>

section \<open>Contexts\<close>

datatype composite_state =
  COMPOSITE_STATE_INIT | COMPOSITE_STATE_IN_PROGRESS | COMPOSITE_STATE_DONE | COMPOSITE_STATE_ERROR

fun state_number :: "composite_state \<Rightarrow> nat" where
  "state_number COMPOSITE_STATE_INIT = 0"
| "state_number COMPOSITE_STATE_IN_PROGRESS = 1"
| "state_number COMPOSITE_STATE_DONE = 2"
| "state_number COMPOSITE_STATE_ERROR = 3"

lemma state_number_inj: "state_number a = state_number b \<longleftrightarrow> a = b"
  by (cases a; cases b) simp_all

text \<open>The enumeration is compared by its numbers.\<close>

instantiation composite_state :: linorder
begin

definition less_eq_composite_state :: "composite_state \<Rightarrow> composite_state \<Rightarrow> bool" where
  "less_eq_composite_state a b \<longleftrightarrow> state_number a \<le> state_number b"

definition less_composite_state :: "composite_state \<Rightarrow> composite_state \<Rightarrow> bool" where
  "less_composite_state a b \<longleftrightarrow> state_number a < state_number b"

instance
  by standard (auto simp: less_eq_composite_state_def less_composite_state_def state_number_inj)

end

lemmas state_order = less_eq_composite_state_def less_composite_state_def

record 'k composite_context =
  c_state :: composite_state
  c_status :: ntstatus
  c_fn :: "'k option"
  c_used_wait :: bool

definition composite_create :: "'k composite_context" where
  "composite_create = \<lparr>c_state = COMPOSITE_STATE_IN_PROGRESS, c_status = 0, c_fn = None, c_used_wait = False\<rparr>"

record 'k world =
  w_ctx :: "'k composite_context option"
  w_timers :: nat
  w_calls :: "'k list"

definition on_ctx :: "('k composite_context \<Rightarrow> 'k composite_context) \<Rightarrow> 'k world \<Rightarrow> 'k world" where
  "on_ctx f w = w\<lparr>w_ctx := map_option f (w_ctx w)\<rparr>"

text \<open>\<open>ctx->async.fn(ctx)\<close>, when there is one.\<close>

definition run_fn :: "('k \<Rightarrow> bool) \<Rightarrow> 'k world \<Rightarrow> 'k world" where
  "run_fn frees w =
     (case Option.bind (w_ctx w) c_fn of
        None \<Rightarrow> w
      | Some k \<Rightarrow> let w = w\<lparr>w_calls := w_calls w @ [k]\<rparr>
                  in if frees k then w\<lparr>w_ctx := None, w_timers := 0\<rparr> else w)"

definition composite_is_ok :: "('k \<Rightarrow> bool) \<Rightarrow> 'k world \<Rightarrow> bool \<times> 'k world" where
  "composite_is_ok frees w =
     (case w_ctx w of
        None \<Rightarrow> (False, w)
      | Some c \<Rightarrow> if c_status c = 0 then (True, w)
                  else (False, run_fn frees (on_ctx (\<lambda>c. c\<lparr>c_state := COMPOSITE_STATE_ERROR\<rparr>) w)))"

definition composite_trigger :: "('k \<Rightarrow> bool) \<Rightarrow> 'k world \<Rightarrow> 'k world" where
  "composite_trigger = run_fn"

text \<open>Both ways to finish first make sure that the continuation is not forgotten.\<close>

definition schedule_trigger :: "'k world \<Rightarrow> 'k world" where
  "schedule_trigger w =
     (case w_ctx w of
        None \<Rightarrow> w
      | Some c \<Rightarrow> if \<not> c_used_wait c \<and> c_fn c = None then w\<lparr>w_timers := Suc (w_timers w)\<rparr> else w)"

definition composite_error :: "('k \<Rightarrow> bool) \<Rightarrow> ntstatus \<Rightarrow> 'k world \<Rightarrow> 'k world" where
  "composite_error frees st w = snd (composite_is_ok frees (on_ctx (\<lambda>c. c\<lparr>c_status := st\<rparr>) (schedule_trigger w)))"

definition composite_nomem :: "('k \<Rightarrow> bool) \<Rightarrow> bool \<Rightarrow> 'k world \<Rightarrow> bool \<times> 'k world" where
  "composite_nomem frees allocated w =
     (if allocated then (False, w) else (True, composite_error frees NT_STATUS_NO_MEMORY w))"

definition composite_done :: "('k \<Rightarrow> bool) \<Rightarrow> 'k world \<Rightarrow> 'k world" where
  "composite_done frees w =
     run_fn frees (on_ctx (\<lambda>c. c\<lparr>c_state := COMPOSITE_STATE_DONE\<rparr>) (schedule_trigger w))"

text \<open>\<open>composite_continue\<close> on the context that is waited for: the continuation is set, and when the
  context has already finished, an immediate event will run it.\<close>

definition composite_continue :: "'k \<Rightarrow> 'k world \<Rightarrow> 'k world" where
  "composite_continue k w =
     (case w_ctx w of
        None \<Rightarrow> w
      | Some c \<Rightarrow> let w = on_ctx (\<lambda>c. c\<lparr>c_fn := Some k\<rparr>) w
                  in if COMPOSITE_STATE_DONE \<le> c_state c then w\<lparr>w_timers := Suc (w_timers w)\<rparr> else w)"

section \<open>Waiting\<close>

text \<open>
  \<open>composite_wait\<close> turns the event loop until the context is finished.  \<open>once\<close> is
  \<open>event_loop_once\<close> (the first component is its result), \<open>st\<close> and \<open>status\<close> read the context, and \<open>used_wait\<close>
  sets its flag.
\<close>

partial_function (option) wait_loop ::
  "('w \<Rightarrow> composite_state) \<Rightarrow> ('w \<Rightarrow> int \<times> 'w) \<Rightarrow> 'w \<Rightarrow> (bool \<times> 'w) option" where
  "wait_loop st once w =
     (if st w < COMPOSITE_STATE_DONE
      then (case once w of (r, w') \<Rightarrow> if r \<noteq> 0 then Some (False, w') else wait_loop st once w')
      else Some (True, w))"

definition composite_wait ::
  "('w \<Rightarrow> composite_state) \<Rightarrow> ('w \<Rightarrow> ntstatus) \<Rightarrow> ('w \<Rightarrow> 'w) \<Rightarrow> ('w \<Rightarrow> int \<times> 'w) \<Rightarrow> 'w \<Rightarrow> (ntstatus \<times> 'w) option" where
  "composite_wait st status used_wait once w =
     map_option (\<lambda>(fin, w). (if fin then status w else NT_STATUS_UNSUCCESSFUL, w)) (wait_loop st once (used_wait w))"

text \<open>The interface between the waiting loop and the calls it drives: every turn of the event loop makes progress.\<close>

locale event_progress =
  fixes st :: "'w \<Rightarrow> composite_state" and once :: "'w \<Rightarrow> int \<times> 'w" and rank :: "'w \<Rightarrow> nat"
  assumes progress: "st w < COMPOSITE_STATE_DONE \<Longrightarrow> once w = (0, w') \<Longrightarrow> rank w' < rank w"
begin

lemma wait_returns: "\<exists>r. wait_loop st once w = Some r"
proof (induction "rank w" arbitrary: w rule: less_induct)
  case less
  show ?case
  proof (cases "st w < COMPOSITE_STATE_DONE \<and> fst (once w) = 0")
    case True
    then obtain w' where w': "once w = (0, w')" by (cases "once w") auto
    then show ?thesis using less [of w'] progress [of w w'] True by (subst wait_loop.simps) simp
  next
    case False
    then show ?thesis by (subst wait_loop.simps) (auto split: prod.splits)
  qed
qed

lemma wait_end: "wait_loop st once w = Some (fin, w') \<Longrightarrow> fin \<Longrightarrow> COMPOSITE_STATE_DONE \<le> st w'"
proof (induction "rank w" arbitrary: w rule: less_induct)
  case less
  show ?case
  proof (cases "st w < COMPOSITE_STATE_DONE")
    case True
    then show ?thesis
      using less.hyps progress [OF True] less.prems
      by (subst (asm) wait_loop.simps) (auto split: prod.splits if_splits)
  next
    case False
    then show ?thesis using less.prems by (subst (asm) wait_loop.simps) auto
  qed
qed

end

section \<open>Every order of finishing and registering\<close>

text \<open>
  The function that was called finishes the context (in the call or from an event), the caller
  registers its continuation, and the event loop fires timers, in any order.
\<close>

inductive cstep :: "('k \<Rightarrow> bool) \<Rightarrow> 'k world \<Rightarrow> 'k world \<Rightarrow> bool" for frees where
  finish: "w_ctx w = Some c \<Longrightarrow> c_state c = COMPOSITE_STATE_IN_PROGRESS \<Longrightarrow> cstep frees w (composite_done frees w)"
| failed: "w_ctx w = Some c \<Longrightarrow> c_state c = COMPOSITE_STATE_IN_PROGRESS \<Longrightarrow> st \<noteq> 0 \<Longrightarrow> cstep frees w (composite_error frees st w)"
| register: "w_ctx w = Some c \<Longrightarrow> c_fn c = None \<Longrightarrow> cstep frees w (composite_continue k w)"
| fire: "w_timers w = Suc n \<Longrightarrow> cstep frees w (composite_trigger frees (w\<lparr>w_timers := n\<rparr>))"

inductive_cases cstepE: "cstep frees w w'"

definition start :: "'k world" where
  "start = \<lparr>w_ctx = Some composite_create, w_timers = 0, w_calls = []\<rparr>"

definition finished :: "'k composite_context \<Rightarrow> bool" where
  "finished c \<longleftrightarrow> COMPOSITE_STATE_DONE \<le> c_state c"

text \<open>The invariant: a freed context has run one continuation; a live one has run none, and when it is finished and
  has a continuation, an event is pending for it.\<close>

definition callback_inv :: "'k world \<Rightarrow> bool" where
  "callback_inv w \<longleftrightarrow>
     (case w_ctx w of
        None \<Rightarrow> length (w_calls w) = 1 \<and> w_timers w = 0
      | Some c \<Rightarrow> w_calls w = [] \<and> \<not> c_used_wait c \<and> (finished c \<and> c_fn c \<noteq> None \<longrightarrow> 0 < w_timers w) \<and>
          (\<not> finished c \<longrightarrow> w_timers w = 0 \<and> c_status c = 0))"

lemmas composite_defs = composite_done_def composite_error_def composite_is_ok_def composite_continue_def
  composite_trigger_def schedule_trigger_def run_fn_def on_ctx_def Let_def

lemma callback_inv_start: "callback_inv start"
  by (simp add: callback_inv_def start_def composite_create_def finished_def state_order)

lemma callback_inv_step:
  assumes "cstep frees w w'" "callback_inv w" "\<And>k. frees k"
  shows "callback_inv w'"
  using assms(1)
proof cases
  case (finish c)
  then show ?thesis using assms(2,3)
    by (cases "c_fn c") (auto simp: composite_defs callback_inv_def finished_def state_order)
next
  case (failed c st)
  then show ?thesis using assms(2,3)
    by (cases "c_fn c") (auto simp: composite_defs callback_inv_def finished_def state_order)
next
  case (register c k)
  then show ?thesis using assms(2)
    by (auto simp: composite_defs callback_inv_def finished_def state_order not_le)
next
  case (fire n)
  then show ?thesis using assms(2,3)
    by (auto simp: composite_defs callback_inv_def bind_eq_None_conv split: option.splits)
qed

lemma callback_inv_reachable:
  assumes "(cstep frees)\<^sup>*\<^sup>* start w" "\<And>k. frees k" shows "callback_inv w"
  using assms(1) by (induction rule: rtranclp_induct) (auto intro: callback_inv_start callback_inv_step [OF _ _ assms(2)])

lemma three_steps: "cstep f a b \<Longrightarrow> cstep f b c \<Longrightarrow> cstep f c d \<Longrightarrow> (cstep f)\<^sup>*\<^sup>* a d"
  by (rule rtranclp.rtrancl_into_rtrancl [OF rtranclp.rtrancl_into_rtrancl [OF r_into_rtranclp]])

section \<open>Properties\<close>

text \<open>C12: whatever the order in which a call finishes, its continuation is registered and the timers fire, a continuation
  that frees the context (as the receiving functions do) runs at most once; and when the call is finished, the
  continuation registered and no event is left, it has run.\<close>

theorem continuation_exactly_once:
  assumes "(cstep frees)\<^sup>*\<^sup>* start w" "\<And>k. frees k"
  shows "length (w_calls w) \<le> 1 \<and>
     (w_timers w = 0 \<and> (case w_ctx w of None \<Rightarrow> True | Some c \<Rightarrow> finished c \<and> c_fn c \<noteq> None) \<longrightarrow> length (w_calls w) = 1)"
  using callback_inv_reachable [OF assms] by (auto simp: callback_inv_def split: option.splits)

theorem continuation_exactly_once_witness:
  "length (w_calls (composite_trigger (\<lambda>_. True) ((composite_continue (7 :: nat) (composite_done (\<lambda>_. True) start))\<lparr>w_timers := 1\<rparr>))) = 1"
proof -
  let ?w1 = "composite_done (\<lambda>_. True) (start :: nat world)" and ?w2 = "composite_continue 7 (composite_done (\<lambda>_. True) start) :: nat world"
  let ?w3 = "composite_trigger (\<lambda>_. True) (?w2\<lparr>w_timers := 1\<rparr>)"
  have s1: "cstep (\<lambda>_. True) start ?w1"
    by (rule finish [of _ composite_create]) (simp_all add: start_def composite_create_def)
  have "w_ctx ?w1 = Some \<lparr>c_state = COMPOSITE_STATE_DONE, c_status = 0, c_fn = None, c_used_wait = False\<rparr>" by code_simp
  then have s2: "cstep (\<lambda>_. True) ?w1 ?w2" by (rule register) simp
  have "w_timers ?w2 = Suc 1" by code_simp
  then have s3: "cstep (\<lambda>_. True) ?w2 ?w3" by (rule fire)
  have reach: "(cstep (\<lambda>_. True))\<^sup>*\<^sup>* start ?w3"
    by (rule three_steps [OF s1 s2 s3])
  have "w_timers ?w3 = 0" "w_ctx ?w3 = None" by code_simp+
  then show ?thesis using continuation_exactly_once [OF reach] by simp
qed

text \<open>C40: a continuation that does not free the context runs twice when the call finished before it was registered:
  finishing and registering each schedule an event.\<close>

theorem early_completion_runs_twice:
  assumes "\<not> frees k"
  shows "\<exists>w. (cstep frees)\<^sup>*\<^sup>* start w \<and> w_calls w = [k, k]"
proof -
  let ?w1 = "composite_done frees start" and ?w2 = "composite_continue k (composite_done frees start)"
  let ?w3 = "composite_trigger frees (?w2\<lparr>w_timers := 1\<rparr>)"
  let ?w4 = "composite_trigger frees (?w3\<lparr>w_timers := 0\<rparr>)"
  note run = composite_defs start_def composite_create_def state_order
  have s1: "cstep frees start ?w1"
    by (rule finish [of _ composite_create]) (simp_all add: start_def composite_create_def)
  have "w_ctx ?w1 = Some (composite_create\<lparr>c_state := COMPOSITE_STATE_DONE\<rparr>)" by (simp add: run)
  then have s2: "cstep frees ?w1 ?w2" by (rule register) (simp add: composite_create_def)
  have "w_timers ?w2 = Suc 1" "w_timers ?w3 = Suc 0" using assms by (simp_all add: run)
  then have s3: "cstep frees ?w2 ?w3" and s4: "cstep frees ?w3 ?w4" by (blast intro: fire)+
  have "w_calls ?w4 = [k, k]" using assms by (simp add: run)
  then show ?thesis using rtranclp.rtrancl_into_rtrancl [OF three_steps [OF s1 s2 s3] s4] by blast
qed

theorem early_completion_runs_twice_witness: "\<exists>w. (cstep (\<lambda>k. k = (8 :: nat)))\<^sup>*\<^sup>* start w \<and> w_calls w = [7, 7]"
  by (rule early_completion_runs_twice) simp

end
