(* ===== verification/SmartEnum.thy ===== *)
theory SmartEnum
  imports WbemPage Composite
begin

text \<open>
  The enumeration of query results, \<open>IEnumWbemClassObject_SmartNext\<close> of \<open>wmi/wbemdata.c\<close>: a chain of
  remote calls, each with a continuation, driven by the event loop.

  \<^item> The remote calls themselves (generated proxies, the network, the server) are the argument \<open>remote\<close>;
    its functions give what the receiving functions of the calls deliver.
  \<^item> \<open>sm_sent\<close> records the requests that were sent.  The waiting caller has registered no continuation
    on the context, so its world is one of \<open>unit\<close>.
\<close>

section \<open>The state of an enumeration\<close>

record enum_data =
  ed_guid :: GUID
  ed_pFSE :: "ptr option"
  ed_pSE :: "ptr option"
  ed_cache :: class_cache
  ed_lTimeout :: u32
  ed_uCount :: u32
  ed_uReturned :: u32
  ed_size :: u32
  ed_pData :: "u8 list option"

definition zero_data :: enum_data where
  "zero_data = \<lparr>ed_guid = GUID_zero, ed_pFSE = None, ed_pSE = None, ed_cache = [], ed_lTimeout = 0, ed_uCount = 0,
     ed_uReturned = 0, ed_size = 0, ed_pData = None\<rparr>"

datatype request = Query_Interface | Fetch "ptr option" | Next "ptr option" GUID u32 u32

record 's remote =
  query_interface :: "'s \<Rightarrow> (ntstatus \<times> ptr option) \<times> 's"
  fetch_enum :: "ptr option \<Rightarrow> 's \<Rightarrow> (werror \<times> ptr option) \<times> 's"
  next_page :: "ptr option \<Rightarrow> GUID \<Rightarrow> u32 \<Rightarrow> u32 \<Rightarrow> 's \<Rightarrow> (werror \<times> u32 \<times> u32 \<times> u8 list option) \<times> 's"
  random_guid :: "'s \<Rightarrow> GUID \<times> 's"

record 's smart =
  sm_world :: "unit world"
  sm_data :: "enum_data option"
  sm_pending :: "request option"
  sm_sent :: "request list"
  sm_server :: 's

definition on_data :: "(enum_data \<Rightarrow> enum_data) \<Rightarrow> 's smart \<Rightarrow> 's smart" where
  "on_data f m = m\<lparr>sm_data := map_option f (sm_data m)\<rparr>"

definition send :: "request \<Rightarrow> 's smart \<Rightarrow> 's smart" where
  "send r m = m\<lparr>sm_pending := Some r, sm_sent := sm_sent m @ [r]\<rparr>"

text \<open>\<open>composite_error\<close> and \<open>composite_done\<close> on the context of the call; there is no continuation to run.\<close>

definition call_error :: "ntstatus \<Rightarrow> 's smart \<Rightarrow> 's smart" where
  "call_error st m = m\<lparr>sm_world := composite_error (\<lambda>_. False) st (sm_world m)\<rparr>"

definition call_done :: "'s smart \<Rightarrow> 's smart" where
  "call_done m = m\<lparr>sm_world := composite_done (\<lambda>_. False) (sm_world m)\<rparr>"

definition set_status :: "ntstatus \<Rightarrow> 's smart \<Rightarrow> 's smart" where
  "set_status st m = m\<lparr>sm_world := on_ctx (\<lambda>c. c\<lparr>c_status := st\<rparr>) (sm_world m)\<rparr>"

text \<open>The translation of errors; its search never runs past the table.\<close>

definition status_of_werror :: "werror \<Rightarrow> ntstatus" where
  "status_of_werror w = (case werror_to_ntstatus w of Some st \<Rightarrow> st | None \<Rightarrow> NT_STATUS_UNSUCCESSFUL)"

definition werror_of_status :: "ntstatus \<Rightarrow> werror" where
  "werror_of_status st = (case ntstatus_to_werror st of Some w \<Rightarrow> w | None \<Rightarrow> 1)"

lemma translations_total: "werror_to_ntstatus w \<noteq> None" "ntstatus_to_werror st \<noteq> None"
  by (simp_all add: werror_to_ntstatus_eq ntstatus_to_werror_eq split: option.splits)

definition WBEM_NO_ERROR :: u32 where "WBEM_NO_ERROR = 0"
definition WBEM_S_FALSE :: u32 where "WBEM_S_FALSE = 1"
definition WBEM_S_TIMEDOUT :: u32 where "WBEM_S_TIMEDOUT = 0x40004"

section \<open>The continuations\<close>

definition smart_next_enum_continue :: "werror \<times> u32 \<times> u32 \<times> u8 list option \<Rightarrow> 's smart \<Rightarrow> 's smart" where
  "smart_next_enum_continue reply m =
     (case reply of (result, uReturned, sz, pData) \<Rightarrow>
        if result = WBEM_NO_ERROR \<or> result = WBEM_S_FALSE \<or> result = WBEM_S_TIMEDOUT
        then call_done (set_status 0 (on_data (\<lambda>s. s\<lparr>ed_uReturned := uReturned, ed_size := sz, ed_pData := pData\<rparr>) m))
        else call_error (status_of_werror result) m)"

definition smart_next_fetch_enum_continue :: "'s remote \<Rightarrow> werror \<times> ptr option \<Rightarrow> 's smart \<Rightarrow> 's smart" where
  "smart_next_fetch_enum_continue R reply m =
     (case reply of (result, pSmartEnum) \<Rightarrow>
        if result \<noteq> 0 then call_error (status_of_werror result) m
        else case random_guid R (sm_server m) of (g, srv) \<Rightarrow>
          let m = on_data (\<lambda>s. s\<lparr>ed_pSE := pSmartEnum, ed_guid := GUID_random g\<rparr>) (m\<lparr>sm_server := srv\<rparr>)
          in (case sm_data m of
                None \<Rightarrow> m
              | Some s \<Rightarrow> send (Next (ed_pSE s) (ed_guid s) (ed_lTimeout s) (ed_uCount s)) m))"

definition smart_next_query_interface_continue :: "ntstatus \<times> ptr option \<Rightarrow> 's smart \<Rightarrow> 's smart" where
  "smart_next_query_interface_continue reply m =
     (case reply of (status, iface) \<Rightarrow>
        (case composite_is_ok (\<lambda>_. False) (sm_world (set_status status m)) of (ok, w) \<Rightarrow>
           let m = m\<lparr>sm_world := w\<rparr>
           in if ok then send (Fetch iface) (on_data (\<lambda>s. s\<lparr>ed_pFSE := iface\<rparr>) m) else m))"

section \<open>Sending, waiting, receiving\<close>

definition IEnumWbemClassObject_SmartNext_send :: "u32 \<Rightarrow> u32 \<Rightarrow> 's smart \<Rightarrow> 's smart" where
  "IEnumWbemClassObject_SmartNext_send lTimeout uCount m =
     (let m = m\<lparr>sm_world := start, sm_pending := None\<rparr>
      in (case sm_data m of
            None \<Rightarrow> send Query_Interface (m\<lparr>sm_data := Some (zero_data\<lparr>ed_lTimeout := lTimeout, ed_uCount := uCount\<rparr>)\<rparr>)
          | Some s \<Rightarrow> send (Next (ed_pSE s) (ed_guid s) (ed_lTimeout s) (ed_uCount s)) m))"

text \<open>One turn of the event loop: the reply to the pending request arrives and its continuation runs.  Without a
  pending request there is nothing to wait for, and \<open>event_loop_once\<close> reports an error.\<close>

definition smart_event :: "'s remote \<Rightarrow> 's smart \<Rightarrow> int \<times> 's smart" where
  "smart_event R m =
     (case sm_pending m of
        None \<Rightarrow> (-1, m)
      | Some req \<Rightarrow> let m = m\<lparr>sm_pending := None\<rparr> in
          (0, case req of
                Query_Interface \<Rightarrow> (case query_interface R (sm_server m) of (reply, srv) \<Rightarrow>
                  smart_next_query_interface_continue reply (m\<lparr>sm_server := srv\<rparr>))
              | Fetch p \<Rightarrow> (case fetch_enum R p (sm_server m) of (reply, srv) \<Rightarrow>
                  smart_next_fetch_enum_continue R reply (m\<lparr>sm_server := srv\<rparr>))
              | Next p g t n \<Rightarrow> (case next_page R p g t n (sm_server m) of (reply, srv) \<Rightarrow>
                  smart_next_enum_continue reply (m\<lparr>sm_server := srv\<rparr>))))"

definition smart_state :: "'s smart \<Rightarrow> composite_state" where
  "smart_state m = (case w_ctx (sm_world m) of None \<Rightarrow> COMPOSITE_STATE_ERROR | Some c \<Rightarrow> c_state c)"

definition smart_status :: "'s smart \<Rightarrow> ntstatus" where
  "smart_status m = (case w_ctx (sm_world m) of None \<Rightarrow> NT_STATUS_UNSUCCESSFUL | Some c \<Rightarrow> c_status c)"

definition set_used_wait :: "'s smart \<Rightarrow> 's smart" where
  "set_used_wait m = m\<lparr>sm_world := on_ctx (\<lambda>c. c\<lparr>c_used_wait := True\<rparr>) (sm_world m)\<rparr>"

text \<open>The result, the number of objects, the caller's array and the enumeration.\<close>

type_synonym 's smart_result = "(failure + werror \<times> u32) \<times> WbemClassObject option list \<times> 's smart"

definition IEnumWbemClassObject_SmartNext_recv ::
  "(ndr_pull, GUID) comp \<Rightarrow> wbem_pull \<Rightarrow> ntstatus \<Rightarrow> WbemClassObject option list \<Rightarrow> 's smart \<Rightarrow> 's smart_result" where
  "IEnumWbemClassObject_SmartNext_recv pg W status apObjects m =
     (if status \<noteq> 0 then (Inr (werror_of_status status, 0), apObjects, m)
      else case sm_data m of
        None \<Rightarrow> (Inl Fault, apObjects, m)
      | Some s \<Rightarrow>
         (case ed_pData s of
            None \<Rightarrow> (Inr (0, 0), apObjects, m)
          | Some data \<Rightarrow>
             (case WBEMDATA_Parse pg W data (ed_size s) (ed_uReturned s) \<lparr>pe_objects = apObjects, pe_cache = ed_cache s\<rparr> of
                (res, env) \<Rightarrow>
                  (case res of Inl Fault \<Rightarrow> Inl Fault
                             | Inl (Status st) \<Rightarrow> Inr (werror_of_status st, 0)
                             | Inr _ \<Rightarrow> Inr (0, ed_uReturned s),
                   pe_objects env, on_data (\<lambda>s. s\<lparr>ed_cache := pe_cache env\<rparr>) m))))"

definition IEnumWbemClassObject_SmartNext ::
  "'s remote \<Rightarrow> (ndr_pull, GUID) comp \<Rightarrow> wbem_pull \<Rightarrow> u32 \<Rightarrow> u32 \<Rightarrow> WbemClassObject option list \<Rightarrow> 's smart \<Rightarrow> 's smart_result option" where
  "IEnumWbemClassObject_SmartNext R pg W lTimeout uCount apObjects m =
     map_option (\<lambda>(status, m). IEnumWbemClassObject_SmartNext_recv pg W status apObjects m)
       (composite_wait smart_state smart_status set_used_wait (smart_event R) (IEnumWbemClassObject_SmartNext_send lTimeout uCount m))"

section \<open>Waiting ends\<close>

text \<open>The state in which the waiting loop starts.\<close>

definition waiting :: "u32 \<Rightarrow> u32 \<Rightarrow> 's smart \<Rightarrow> 's smart" where
  "waiting lTimeout uCount m = set_used_wait (IEnumWbemClassObject_SmartNext_send lTimeout uCount m)"

text \<open>A call is at most three requests long.\<close>

definition smart_rank :: "'s smart \<Rightarrow> nat" where
  "smart_rank m = (case sm_pending m of None \<Rightarrow> 0 | Some (Next _ _ _ _) \<Rightarrow> 1 | Some (Fetch _) \<Rightarrow> 2 | Some Query_Interface \<Rightarrow> 3)"

lemmas smart_defs = smart_next_enum_continue_def smart_next_fetch_enum_continue_def
  smart_next_query_interface_continue_def call_done_def call_error_def set_status_def on_data_def send_def

lemma smart_event_rank: "smart_event R m = (0, m') \<Longrightarrow> smart_rank m' < smart_rank m"
  by (auto simp: smart_event_def smart_rank_def smart_defs Let_def
      split: option.splits request.splits prod.splits if_splits)

interpretation sw: event_progress smart_state "smart_event R" smart_rank
  by unfold_locales (rule smart_event_rank)

lemma status_of_werror_nonzero: "w \<noteq> 0 \<Longrightarrow> status_of_werror w \<noteq> 0"
  by (auto simp: status_of_werror_def werror_to_ntstatus_eq NT_STATUS_UNSUCCESSFUL_def split: option.splits
      dest!: map_of_SomeD dest: werror_rows_nonzero)

text \<open>While a call is in progress, a request is pending.\<close>

definition call_live :: "'s smart \<Rightarrow> bool" where
  "call_live m \<longleftrightarrow> sm_data m \<noteq> None \<and>
     (\<exists>c. w_ctx (sm_world m) = Some c \<and> c_fn c = None \<and> (c_state c < COMPOSITE_STATE_DONE \<longrightarrow> sm_pending m \<noteq> None))"

definition budget :: "'s smart \<Rightarrow> nat" where
  "budget m = length (sm_sent m) + (smart_rank m - 1)"

lemma call_error_live:
  assumes "call_live (m\<lparr>sm_pending := p\<rparr>)" "st \<noteq> 0" shows "call_live (call_error st m)" "smart_rank (call_error st m) = smart_rank m"
  using assms by (auto simp: call_live_def call_error_def composite_defs state_order smart_rank_def)

lemma call_done_live:
  assumes "call_live (m\<lparr>sm_pending := p\<rparr>)" shows "call_live (call_done m)"
  using assms by (auto simp: call_live_def call_done_def composite_defs state_order)

lemma enum_continue_live:
  assumes "call_live (m\<lparr>sm_pending := p\<rparr>)" shows "call_live (smart_next_enum_continue reply m)"
proof -
  obtain result n sz d where r: "reply = (result, n, sz, d)" by (cases reply)
  have "call_live ((set_status 0 (on_data (\<lambda>s. s\<lparr>ed_uReturned := n, ed_size := sz, ed_pData := d\<rparr>) m))\<lparr>sm_pending := p\<rparr>)"
    using assms by (auto simp: call_live_def set_status_def on_data_def on_ctx_def)
  moreover have "result \<noteq> WBEM_NO_ERROR \<Longrightarrow> status_of_werror result \<noteq> 0"
    by (rule status_of_werror_nonzero) (simp add: WBEM_NO_ERROR_def)
  ultimately show ?thesis
    using assms r by (auto simp: smart_next_enum_continue_def intro: call_done_live call_error_live(1))
qed

lemma fetch_continue_live:
  assumes "call_live (m\<lparr>sm_pending := p\<rparr>)" shows "call_live (smart_next_fetch_enum_continue R reply m)"
proof -
  obtain result iface where r: "reply = (result, iface)" by (cases reply)
  show ?thesis
  proof (cases "result = 0")
    case True
    then show ?thesis
      using assms r by (auto simp: smart_next_fetch_enum_continue_def call_live_def on_data_def send_def Let_def split: prod.splits)
  next
    case False
    then show ?thesis
      using call_error_live(1) [OF assms status_of_werror_nonzero [OF False]] r by (simp add: smart_next_fetch_enum_continue_def)
  qed
qed

lemma query_continue_live:
  assumes "call_live (m\<lparr>sm_pending := p\<rparr>)" shows "call_live (smart_next_query_interface_continue reply m)"
proof -
  obtain st iface where r: "reply = (st, iface)" by (cases reply)
  obtain c where c: "w_ctx (sm_world m) = Some c" "c_fn c = None" "sm_data m \<noteq> None" using assms by (auto simp: call_live_def)
  have w: "composite_is_ok (\<lambda>_. False) (sm_world (set_status st m)) =
      (st = 0, (sm_world m)\<lparr>w_ctx := Some (if st = 0 then c\<lparr>c_status := st\<rparr> else c\<lparr>c_status := st, c_state := COMPOSITE_STATE_ERROR\<rparr>)\<rparr>)"
    using c by (simp add: set_status_def composite_defs)
  show ?thesis
    unfolding r smart_next_query_interface_continue_def prod.case w
    using c by (auto simp: call_live_def send_def on_data_def Let_def state_order)
qed

lemma smart_event_live:
  assumes "call_live m" "smart_event R m = (r, m')" shows "call_live m'"
proof -
  have drop: "call_live ((m\<lparr>sm_pending := None, sm_server := srv\<rparr>)\<lparr>sm_pending := sm_pending m\<rparr>)" for srv
    using assms(1) by (simp add: call_live_def)
  show ?thesis
    using assms enum_continue_live [OF drop] fetch_continue_live [OF drop] query_continue_live [OF drop]
    by (auto simp: smart_event_def Let_def split: option.splits request.splits prod.splits)
qed

lemma smart_event_budget: "smart_event R m = (r, m') \<Longrightarrow> budget m' \<le> budget m"
  by (auto simp: budget_def smart_event_def smart_rank_def smart_defs Let_def
      split: option.splits request.splits prod.splits if_splits)

lemma live_event_ok: "call_live m \<Longrightarrow> smart_state m < COMPOSITE_STATE_DONE \<Longrightarrow> fst (smart_event R m) = 0"
  by (auto simp: call_live_def smart_state_def smart_event_def Let_def split: option.splits)

lemma smart_wait:
  assumes "call_live m"
  shows "\<exists>m'. wait_loop smart_state (smart_event R) m = Some (True, m') \<and> call_live m' \<and>
     COMPOSITE_STATE_DONE \<le> smart_state m' \<and> budget m' \<le> budget m"
  using assms
proof (induction "smart_rank m" arbitrary: m rule: less_induct)
  case less
  show ?case
  proof (cases "smart_state m < COMPOSITE_STATE_DONE")
    case True
    then obtain m1 where e: "smart_event R m = (0, m1)"
      using live_event_ok [OF less.prems True, of R] by (cases "smart_event R m") auto
    from less.hyps [OF smart_event_rank [OF e] smart_event_live [OF less.prems e]] smart_event_budget [OF e] e True
    show ?thesis by (subst wait_loop.simps) fastforce
  next
    case False
    then show ?thesis using less.prems by (subst wait_loop.simps) auto
  qed
qed

lemma send_live: "call_live (waiting t n m)" "budget (waiting t n m) \<le> length (sm_sent m) + 3"
  by (auto simp: call_live_def budget_def smart_rank_def waiting_def set_used_wait_def on_ctx_def IEnumWbemClassObject_SmartNext_send_def send_def start_def composite_create_def Let_def
      split: option.splits)

lemma recv_keeps:
  "IEnumWbemClassObject_SmartNext_recv pg W st objs m = (r, objs', m') \<Longrightarrow>
     sm_sent m' = sm_sent m \<and> sm_world m' = sm_world m \<and> sm_server m' = sm_server m \<and> sm_pending m' = sm_pending m"
  by (auto simp: IEnumWbemClassObject_SmartNext_recv_def on_data_def split: if_splits option.splits prod.splits)

lemma smart_next_run:
  obtains m' where "wait_loop smart_state (smart_event R) (waiting t n m) = Some (True, m')"
    "IEnumWbemClassObject_SmartNext R pg W t n objs m = Some (IEnumWbemClassObject_SmartNext_recv pg W (smart_status m') objs m')"
    "COMPOSITE_STATE_DONE \<le> smart_state m'" "length (sm_sent m') \<le> length (sm_sent m) + 3"
proof -
  from smart_wait [OF send_live(1)] obtain m' where
    m': "wait_loop smart_state (smart_event R) (waiting t n m) = Some (True, m')"
      "COMPOSITE_STATE_DONE \<le> smart_state m'" "budget m' \<le> budget (waiting t n m)" by blast
  then show ?thesis
    using that [OF m'(1) _ m'(2)] send_live(2) [of t n m]
    by (simp add: IEnumWbemClassObject_SmartNext_def waiting_def composite_wait_def budget_def)
qed

lemma sent_grows: "smart_event R m = (r, m') \<Longrightarrow> prefix (sm_sent m) (sm_sent m')"
  by (auto simp: smart_event_def smart_defs Let_def split: option.splits request.splits prod.splits if_splits)

lemma wait_sent_grows: "wait_loop smart_state (smart_event R) m = Some (fin, m') \<Longrightarrow> prefix (sm_sent m) (sm_sent m')"
proof (induction "smart_rank m" arbitrary: m rule: less_induct)
  case less
  obtain r m1 where e: "smart_event R m = (r, m1)" by fastforce
  then show ?case
    using less.prems less.hyps [of m1] sent_grows [OF e] smart_event_rank [of R m m1]
    by (subst (asm) wait_loop.simps) (auto split: if_splits intro: prefix_order.trans)
qed

text \<open>A call that continues an enumeration sends one request.\<close>

lemma continue_sends:
  assumes "sm_data m = Some s"
  obtains res objs' m' where "IEnumWbemClassObject_SmartNext R pg W t n objs m = Some (res, objs', m')"
    "sm_sent m' = sm_sent m @ [Next (ed_pSE s) (ed_guid s) (ed_lTimeout s) (ed_uCount s)]"
proof -
  let ?m = "waiting t n m" and ?r = "Next (ed_pSE s) (ed_guid s) (ed_lTimeout s) (ed_uCount s)"
  obtain m1 where m1: "wait_loop smart_state (smart_event R) ?m = Some (True, m1)"
    "IEnumWbemClassObject_SmartNext R pg W t n objs m = Some (IEnumWbemClassObject_SmartNext_recv pg W (smart_status m1) objs m1)"
    by (rule smart_next_run)
  obtain res objs' m' where r: "IEnumWbemClassObject_SmartNext_recv pg W (smart_status m1) objs m1 = (res, objs', m')"
    by (cases "IEnumWbemClassObject_SmartNext_recv pg W (smart_status m1) objs m1")
  have m: "sm_sent ?m = sm_sent m @ [?r]" "budget ?m = length (sm_sent m @ [?r])"
    using assms by (simp_all add: waiting_def set_used_wait_def on_ctx_def IEnumWbemClassObject_SmartNext_send_def send_def budget_def smart_rank_def)
  have "budget m1 \<le> budget ?m" using smart_wait [OF send_live(1), of R t n m] m1(1) by auto
  then have "length (sm_sent m1) \<le> length (sm_sent ?m)" using m by (simp add: budget_def)
  then have "sm_sent m1 = sm_sent ?m"
    using wait_sent_grows [OF m1(1)] by (auto simp: prefix_def)
  then show ?thesis using that m1(2) r recv_keeps [OF r] m(1) by simp
qed

section \<open>Sequences of calls\<close>

definition fresh :: "'s \<Rightarrow> 's smart" where
  "fresh srv = \<lparr>sm_world = start, sm_data = None, sm_pending = None, sm_sent = [], sm_server = srv\<rparr>"

text \<open>A client that calls \<open>IEnumWbemClassObject_SmartNext\<close> again and again, with any arguments.\<close>

fun smart_calls ::
  "'s remote \<Rightarrow> (ndr_pull, GUID) comp \<Rightarrow> wbem_pull \<Rightarrow> (u32 \<times> u32 \<times> WbemClassObject option list) list \<Rightarrow> 's smart \<Rightarrow> 's smart option" where
  "smart_calls R pg W [] m = Some m"
| "smart_calls R pg W ((t, n, objs) # cs) m =
     (case IEnumWbemClassObject_SmartNext R pg W t n objs m of
        None \<Rightarrow> None
      | Some (res, _, m') \<Rightarrow> if res = Inl Fault then Some m' else smart_calls R pg W cs m')"

text \<open>The requests that an enumeration may have sent.\<close>

definition requests_of :: "enum_data \<Rightarrow> request set" where
  "requests_of s = {Query_Interface, Fetch (ed_pFSE s), Next (ed_pSE s) (ed_guid s) (ed_lTimeout s) (ed_uCount s)}"

definition sent_ok :: "u32 \<Rightarrow> u32 \<Rightarrow> 's smart \<Rightarrow> bool" where
  "sent_ok t n m \<longleftrightarrow> (\<exists>s. sm_data m = Some s \<and> ed_lTimeout s = t \<and> ed_uCount s = n \<and> set (sm_sent m) \<subseteq> requests_of s)"

definition sent_inv :: "u32 \<Rightarrow> u32 \<Rightarrow> 's smart \<Rightarrow> bool" where
  "sent_inv t n m \<longleftrightarrow> (\<exists>s. sm_data m = Some s \<and> ed_lTimeout s = t \<and> ed_uCount s = n \<and>
     set (sm_sent m) \<subseteq>
       (case sm_pending m of
          Some Query_Interface \<Rightarrow> {Query_Interface}
        | Some (Fetch _) \<Rightarrow> {Query_Interface, Fetch (ed_pFSE s)}
        | _ \<Rightarrow> requests_of s))"

lemma sent_inv_ok:
  assumes "sent_inv t n m" shows "sent_ok t n m"
proof -
  have "(case sm_pending m of Some Query_Interface \<Rightarrow> {Query_Interface}
      | Some (Fetch _) \<Rightarrow> {Query_Interface, Fetch (ed_pFSE s)} | _ \<Rightarrow> requests_of s) \<subseteq> requests_of s" for s
    by (auto simp: requests_of_def split: option.splits request.splits)
  then show ?thesis using assms unfolding sent_inv_def sent_ok_def by blast
qed

lemma send_first: "sm_data m = None \<Longrightarrow> sm_sent m = [] \<Longrightarrow> sent_inv t n (waiting t n m)"
  by (simp add: sent_inv_def waiting_def set_used_wait_def on_ctx_def IEnumWbemClassObject_SmartNext_send_def send_def)

lemma send_again: "sent_ok t n m \<Longrightarrow> sent_inv t n (waiting t' n' m)"
  by (auto simp: sent_ok_def sent_inv_def waiting_def set_used_wait_def on_ctx_def IEnumWbemClassObject_SmartNext_send_def send_def requests_of_def)

lemma sent_inv_event:
  assumes "sent_inv t n m" "smart_event R m = (r, m')" shows "sent_inv t n m'"
proof (cases "sm_pending m")
  case None
  then show ?thesis using assms by (simp add: smart_event_def)
next
  case (Some req)
  then show ?thesis
    using assms
    by (cases req) (fastforce simp: sent_inv_def requests_of_def smart_event_def smart_defs composite_is_ok_def Let_def
        split: prod.splits if_splits option.splits)+
qed

lemma sent_inv_wait:
  "sent_inv t n m \<Longrightarrow> wait_loop smart_state (smart_event R) m = Some (fin, m') \<Longrightarrow> sent_inv t n m'"
proof (induction "smart_rank m" arbitrary: m rule: less_induct)
  case less
  obtain r m1 where e: "smart_event R m = (r, m1)" by fastforce
  show ?case
    using less.prems less.hyps [of m1] sent_inv_event [OF less.prems(1) e] smart_event_rank [of R m m1] e
    by (subst (asm) wait_loop.simps) (auto split: if_splits)
qed

lemma recv_data:
  "IEnumWbemClassObject_SmartNext_recv pg W st objs m = (r, objs', m') \<Longrightarrow> sent_ok t n m \<Longrightarrow> sent_ok t n m'"
  by (auto simp: IEnumWbemClassObject_SmartNext_recv_def on_data_def sent_ok_def requests_of_def
      split: if_splits option.splits prod.splits)

lemma sent_ok_call:
  assumes "sent_inv t n (waiting t' n' m)"
  obtains res objs' m' where "IEnumWbemClassObject_SmartNext R pg W t' n' objs m = Some (res, objs', m')" "sent_ok t n m'"
proof -
  obtain m1 where m1: "wait_loop smart_state (smart_event R) (waiting t' n' m) = Some (True, m1)"
    "IEnumWbemClassObject_SmartNext R pg W t' n' objs m = Some (IEnumWbemClassObject_SmartNext_recv pg W (smart_status m1) objs m1)"
    by (rule smart_next_run)
  obtain res objs' m' where r: "IEnumWbemClassObject_SmartNext_recv pg W (smart_status m1) objs m1 = (res, objs', m')"
    by (cases "IEnumWbemClassObject_SmartNext_recv pg W (smart_status m1) objs m1")
  show ?thesis
    using that m1(2) r recv_data [OF r sent_inv_ok [OF sent_inv_wait [OF assms m1(1)]]] by simp
qed

lemma smart_calls_sent: "sent_ok t n m \<Longrightarrow> \<exists>m'. smart_calls R pg W cs m = Some m' \<and> sent_ok t n m'"
proof (induction cs arbitrary: m)
  case (Cons c cs)
  obtain t' n' objs where c: "c = (t', n', objs)" by (cases c)
  obtain res objs' m' where "IEnumWbemClassObject_SmartNext R pg W t' n' objs m = Some (res, objs', m')" "sent_ok t n m'"
    by (rule sent_ok_call [OF send_again [OF Cons.prems]])
  then show ?case using Cons.IH [of m'] c by auto
qed simp

section \<open>Properties\<close>

text \<open>C27: when the remote calls are answered, a call of \<open>IEnumWbemClassObject_SmartNext\<close> always returns, with its
  context finished, after at most three requests, whatever the answers are.\<close>

theorem SmartNext_returns:
  "\<exists>res objs' m'. IEnumWbemClassObject_SmartNext R ndr_pull_GUID W lTimeout uCount objs m = Some (res, objs', m') \<and>
     COMPOSITE_STATE_DONE \<le> smart_state m' \<and> length (sm_sent m') \<le> length (sm_sent m) + 3"
proof -
  obtain m' where m': "IEnumWbemClassObject_SmartNext R ndr_pull_GUID W lTimeout uCount objs m =
      Some (IEnumWbemClassObject_SmartNext_recv ndr_pull_GUID W (smart_status m') objs m')"
    "COMPOSITE_STATE_DONE \<le> smart_state m'" "length (sm_sent m') \<le> length (sm_sent m) + 3"
    by (rule smart_next_run)
  obtain res objs' m'' where r: "IEnumWbemClassObject_SmartNext_recv ndr_pull_GUID W (smart_status m') objs m' = (res, objs', m'')"
    by (cases "IEnumWbemClassObject_SmartNext_recv ndr_pull_GUID W (smart_status m') objs m'")
  then show ?thesis using m' recv_keeps [OF r] by (auto simp: smart_state_def)
qed


text \<open>When the server refuses the interface in the first call, the enumeration keeps a state without enumerator, and
  the next call asks a null interface for objects.\<close>

theorem SmartNext_after_failure:
  assumes "query_interface R srv = ((status, iface), srv')" "status \<noteq> 0"
  shows "\<exists>m. smart_calls R ndr_pull_GUID W [(lTimeout, uCount, objs), (lTimeout', uCount', objs')] (fresh srv) = Some m \<and>
     sm_sent m = [Query_Interface, Next None GUID_zero lTimeout uCount]"
proof -
  let ?m = "waiting lTimeout uCount (fresh srv)" and ?s = "zero_data\<lparr>ed_lTimeout := lTimeout, ed_uCount := uCount\<rparr>"
  let ?c = "composite_create\<lparr>c_status := status, c_state := COMPOSITE_STATE_ERROR, c_used_wait := True\<rparr> :: unit composite_context"
  let ?m1 = "(fresh srv')\<lparr>sm_world := (start :: unit world)\<lparr>w_ctx := Some ?c\<rparr>, sm_data := Some ?s, sm_sent := [Query_Interface]\<rparr>"
  have m: "?m = (fresh srv)\<lparr>sm_world := on_ctx (\<lambda>c. c\<lparr>c_used_wait := True\<rparr>) start, sm_data := Some ?s, sm_pending := Some Query_Interface, sm_sent := [Query_Interface]\<rparr>"
    by (simp add: waiting_def set_used_wait_def on_ctx_def IEnumWbemClassObject_SmartNext_send_def fresh_def send_def)
  have e: "smart_event R ?m = (0, ?m1)"
    using assms unfolding m by (simp add: smart_event_def fresh_def smart_next_query_interface_continue_def set_status_def composite_defs start_def composite_create_def)
  have "smart_state ?m < COMPOSITE_STATE_DONE" unfolding m by (simp add: smart_state_def fresh_def on_ctx_def start_def composite_create_def state_order)
  then have "wait_loop smart_state (smart_event R) ?m = wait_loop smart_state (smart_event R) ?m1"
    using e by (subst wait_loop.simps) simp
  also have "\<dots> = Some (True, ?m1)"
    by (subst wait_loop.simps) (simp add: smart_state_def state_order)
  finally have "IEnumWbemClassObject_SmartNext R ndr_pull_GUID W lTimeout uCount objs (fresh srv) = Some (Inr (werror_of_status status, 0), objs, ?m1)"
    using assms(2) by (simp add: IEnumWbemClassObject_SmartNext_def waiting_def composite_wait_def IEnumWbemClassObject_SmartNext_recv_def smart_status_def)
  moreover obtain res objs'' m' where
    "IEnumWbemClassObject_SmartNext R ndr_pull_GUID W lTimeout' uCount' objs' ?m1 = Some (res, objs'', m')"
    "sm_sent m' = [Query_Interface, Next None GUID_zero lTimeout uCount]"
    by (rule continue_sends [of ?m1 ?s]) (simp_all add: zero_data_def)
  ultimately show ?thesis by auto
qed

text \<open>A server that refuses the interface and has no pages.\<close>

definition refusing :: "unit remote" where
  "refusing = \<lparr>query_interface = (\<lambda>s. ((0xC0000022, None), s)), fetch_enum = (\<lambda>p s. ((0, None), s)),
     next_page = (\<lambda>p g t n s. ((0, 0, 0, None), s)), random_guid = (\<lambda>s. (GUID_zero, s))\<rparr>"

theorem SmartNext_after_failure_witness:
  "\<exists>m. smart_calls refusing pull_guid sample_pull [(0xFFFFFFFF, 5, []), (0xFFFFFFFF, 5, [])] (fresh ()) = Some m \<and>
     sm_sent m = [Query_Interface, Next None GUID_zero 0xFFFFFFFF 5]"
  by (rule SmartNext_after_failure [of refusing "()" "0xC0000022" None]) (simp_all add: refusing_def)

end
