(* ===== verification/Wmic.thy ===== *)
theory Wmic
  imports SmartEnum
begin

text \<open>
  The client \<open>wmi/wmic.c\<close>: it runs a query and prints the objects of the result.

  \<^item> \<open>None\<close> for a text means that the C code has none: a null or dangling pointer is followed, or
    \<open>printf\<close> gets an argument of another type than its format says.
  \<^item> The output is the text written to the standard output.  Connecting and starting the query are
    given by their results; the error message of a failed run is not modelled, its error code is.
\<close>

section \<open>Values as text\<close>

definition print_int :: "int \<Rightarrow> string" where
  "print_int i = (if i < 0 then ''-'' @ dec (nat (- i)) else dec (nat i))"

text \<open>A null string argument of \<open>printf\<close> (GNU C library).\<close>

definition print_str :: "string option \<Rightarrow> string" where
  "print_str s = (case s of None \<Rightarrow> ''(null)'' | Some t \<Rightarrow> t)"

text \<open>The conversion of an unsigned integer to \<open>double\<close>: 53 bits, round half to even.\<close>

function double_exp :: "nat \<Rightarrow> nat" where
  "double_exp v = (if v < 2 ^ 53 then 0 else Suc (double_exp (v div 2)))"
  by auto
termination by (relation "measure id") auto

definition to_double :: "nat \<Rightarrow> nat" where
  "to_double v =
     (let e = double_exp v; q = v div 2 ^ e; r = v mod 2 ^ e
      in (if 2 * r > 2 ^ e \<or> 2 * r = 2 ^ e \<and> e > 0 \<and> odd q then q + 1 else q) * 2 ^ e)"

definition print_double :: "nat \<Rightarrow> string" where
  "print_double v = dec (to_double v) @ ''.000000''"

text \<open>\<open>RETURN_CVAR_ARRAY_STR\<close>.\<close>

fun items_text :: "('a \<Rightarrow> string option) \<Rightarrow> 'a list \<Rightarrow> string option" where
  "items_text f [] = Some ''''"
| "items_text f (x # xs) =
     do { s \<leftarrow> f x; rest \<leftarrow> items_text f xs; Some (s @ (if xs = [] then '''' else '','') @ rest) }"

definition array_text :: "('a \<Rightarrow> string option) \<Rightarrow> 'a list option \<Rightarrow> string option" where
  "array_text f arr =
     (case arr of None \<Rightarrow> Some ''NULL''
                | Some items \<Rightarrow> do { s \<leftarrow> items_text f items; Some (''('' @ s @ '')'') })"

text \<open>The members of the union.\<close>

definition v_bits :: "cimvar \<Rightarrow> u64 option" where
  "v_bits v = (case v of CIM_bits b \<Rightarrow> Some b | _ \<Rightarrow> None)"

definition v_text :: "cimvar \<Rightarrow> string option option" where
  "v_text v = (case v of CIM_text s \<Rightarrow> Some s | _ \<Rightarrow> None)"

definition a_nums :: "cimvar \<Rightarrow> u64 list option option" where
  "a_nums v = (case v of CIM_nums a \<Rightarrow> Some a | _ \<Rightarrow> None)"

definition a_texts :: "cimvar \<Rightarrow> string option list option option" where
  "a_texts v = (case v of CIM_texts a \<Rightarrow> Some a | _ \<Rightarrow> None)"

text \<open>The integer formats of a value or item of a type; \<open>ucast\<close> takes the low bytes.\<close>

definition int_text :: "u32 \<Rightarrow> u64 \<Rightarrow> string option" where
  "int_text t b =
     (if t = CIM_SINT8 then Some (print_int (sint (ucast b :: u8)))
      else if t = CIM_UINT8 then Some (print_int (uint (ucast b :: u8)))
      else if t = CIM_SINT16 then Some (print_int (sint (ucast b :: u16)))
      else if t = CIM_UINT16 then Some (print_int (uint (ucast b :: u16)))
      else if t = CIM_SINT32 then Some (print_int (sint (ucast b :: u32)))
      else if t = CIM_UINT32 then Some (print_int (uint (ucast b :: u32)))
      else if t = CIM_SINT64 then Some (print_int (sint b))
      else if t = CIM_UINT64 then Some (print_int (uint b))
      else None)"

definition integer_types :: "u32 list" where
  "integer_types = [CIM_SINT8, CIM_UINT8, CIM_SINT16, CIM_UINT16, CIM_SINT32, CIM_UINT32, CIM_SINT64, CIM_UINT64]"

definition string_CIMVAR :: "cimvar \<Rightarrow> u32 \<Rightarrow> string option" where
  "string_CIMVAR v t =
     (let elem = t AND NOT CIM_FLAG_ARRAY in
      if t AND CIM_FLAG_ARRAY = 0
      then if t \<in> set integer_types then do { b \<leftarrow> v_bits v; int_text t b }
           else if t = CIM_REAL32 then do { b \<leftarrow> v_bits v; Some (print_double (unat (ucast b :: u32))) }
           else if t = CIM_REAL64 then do { b \<leftarrow> v_bits v; Some (print_double (unat b)) }
           else if t = CIM_BOOLEAN then do { b \<leftarrow> v_bits v; Some (if (ucast b :: u16) \<noteq> 0 then ''True'' else ''False'') }
           else if t = CIM_STRING \<or> t = CIM_DATETIME \<or> t = CIM_REFERENCE then do { s \<leftarrow> v_text v; Some (print_str s) }
           else Some ''Unsupported''
      else if elem \<in> set integer_types then do { a \<leftarrow> a_nums v; array_text (int_text elem) a }
           else if elem = CIM_REAL32 \<or> elem = CIM_REAL64 then do { a \<leftarrow> a_nums v; array_text (\<lambda>_. None) a }
           else if elem = CIM_BOOLEAN then do { a \<leftarrow> a_nums v; array_text (\<lambda>b. Some (print_int (uint (ucast b :: u16)))) a }
           else if elem = CIM_STRING \<or> elem = CIM_DATETIME \<or> elem = CIM_REFERENCE
           then do { a \<leftarrow> a_texts v; array_text (\<lambda>s. Some (print_str s)) a }
           else Some ''Unsupported'')"

section \<open>Objects as lines\<close>

text \<open>The loops over the properties of a class: \<open>printf("%s%s", j ? delim : "", ...)\<close>.\<close>

fun print_loop :: "string \<Rightarrow> (nat \<Rightarrow> string option) \<Rightarrow> nat \<Rightarrow> nat \<Rightarrow> string option" where
  "print_loop delim f j 0 = Some ''''"
| "print_loop delim f j (Suc k) =
     do { s \<leftarrow> f j; rest \<leftarrow> print_loop delim f (Suc j) k; Some ((if j \<noteq> 0 then delim else '''') @ s @ rest) }"

definition at :: "'a list \<Rightarrow> nat \<Rightarrow> 'a option" where
  "at xs i = (if i < length xs then Some (xs ! i) else None)"

definition column_name :: "wclass \<Rightarrow> nat \<Rightarrow> string option" where
  "column_name c j = do { p \<leftarrow> at (class_properties c) j; Some (print_str (prop_name p)) }"

definition cell :: "WbemClassObject \<Rightarrow> wclass \<Rightarrow> nat \<Rightarrow> string option" where
  "cell co c j =
     do { inst \<leftarrow> wco_instance co; v \<leftarrow> at (inst_data inst) j; p \<leftarrow> at (class_properties c) j; d \<leftarrow> prop_desc p;
          string_CIMVAR v (desc_cimtype d AND CIM_TYPEMASK) }"

definition newline :: string where "newline = [CHR 0x0A]"

text \<open>The class header, and whether it is printed: \<open>strcmp\<close> on a null class name has no result.\<close>

definition class_changed :: "string option \<Rightarrow> string option \<Rightarrow> bool option" where
  "class_changed old new =
     (case old of None \<Rightarrow> Some True
                       | Some n \<Rightarrow> (case new of None \<Rightarrow> None | Some m \<Rightarrow> Some (m \<noteq> n)))"

definition print_header :: "string \<Rightarrow> wclass \<Rightarrow> string option" where
  "print_header delim c =
     do { names \<leftarrow> print_loop delim (column_name c) 0 (unat (class_property_count c));
          Some (''CLASS: '' @ print_str (class_name c) @ newline @ names @ newline) }"

definition print_object :: "string \<Rightarrow> string option \<Rightarrow> WbemClassObject \<Rightarrow> (string \<times> string option) option" where
  "print_object delim cn co =
     do { c \<leftarrow> wco_obj_class co;
          changed \<leftarrow> class_changed cn (class_name c);
          header \<leftarrow> (if changed then print_header delim c else Some '''');
          row \<leftarrow> print_loop delim (cell co c) 0 (unat (class_property_count c));
          Some (header @ row @ newline, if changed then class_name c else cn) }"

fun print_objects :: "string \<Rightarrow> string option \<Rightarrow> WbemClassObject option list \<Rightarrow> (string \<times> string option) option" where
  "print_objects delim cn [] = Some ('''', cn)"
| "print_objects delim cn (co # cos) =
     do { co \<leftarrow> co; (s, cn) \<leftarrow> print_object delim cn co; (rest, cn) \<leftarrow> print_objects delim cn cos; Some (s @ rest, cn) }"

section \<open>The loop of the client\<close>

datatype exit = Exit_ok | Exit_error werror | Crash

definition cnt :: nat where "cnt = 5"

definition WERR_BADFUNC :: werror where "WERR_BADFUNC = 1"

partial_function (option) wmic_loop ::
  "'s remote \<Rightarrow> (ndr_pull, GUID) comp \<Rightarrow> wbem_pull \<Rightarrow> string \<Rightarrow> string option \<Rightarrow> string \<Rightarrow> 's smart \<Rightarrow> (exit \<times> string) option" where
  "wmic_loop R pg W delim cn out m =
     (case IEnumWbemClassObject_SmartNext R pg W 0xFFFFFFFF (of_nat cnt) (replicate cnt None) m of
        None \<Rightarrow> None
      | Some (res, co, m) \<Rightarrow>
         (case res of
            Inl f \<Rightarrow> Some (Crash, out)
          | Inr (result, ret) \<Rightarrow>
              if result \<noteq> WERR_BADFUNC \<and> result \<noteq> 0 then Some (Exit_error result, out)
              else if ret = 0 then Some (Exit_ok, out)
              else if length co < unat ret then Some (Crash, out)
              else (case print_objects delim cn (take (unat ret) co) of
                      None \<Rightarrow> Some (Crash, out)
                    | Some (s, cn) \<Rightarrow> if ret = of_nat cnt then wmic_loop R pg W delim cn (out @ s) m
                                      else Some (Exit_ok, out @ s))))"

text \<open>\<open>main\<close>: \<open>login\<close> and \<open>query\<close> are the results of connecting and of \<open>ExecQuery\<close>.  The result of
  \<open>Reset\<close> is not looked at: the second check tests the result of the query again.\<close>

definition wmic_main ::
  "'s remote \<Rightarrow> (ndr_pull, GUID) comp \<Rightarrow> wbem_pull \<Rightarrow> string option \<Rightarrow> werror \<Rightarrow> werror \<Rightarrow> 's \<Rightarrow> (exit \<times> string) option" where
  "wmic_main R pg W delim login query srv =
     (let delim = (case delim of None \<Rightarrow> ''|'' | Some d \<Rightarrow> d)
      in if login \<noteq> 0 then Some (Exit_error login, '''')
         else if query \<noteq> 0 then Some (Exit_error query, '''')
         else wmic_loop R pg W delim None '''' (fresh srv))"

section \<open>What should be printed\<close>

fun join :: "string \<Rightarrow> string list \<Rightarrow> string" where
  "join d [] = ''''"
| "join d [x] = x"
| "join d (x # y # ys) = x @ d @ join d (y # ys)"

definition cell_text :: "WbemClassObject WbemProperty \<Rightarrow> cimvar \<Rightarrow> string option" where
  "cell_text p v = do { d \<leftarrow> prop_desc p; string_CIMVAR v (desc_cimtype d AND CIM_TYPEMASK) }"

text \<open>An object that can be printed: it has a class with a name and an instance with a value of the right kind for each
  property of the class.\<close>

definition printable :: "WbemClassObject \<Rightarrow> bool" where
  "printable co \<longleftrightarrow>
     (case (wco_obj_class co, wco_instance co) of
        (Some c, Some i) \<Rightarrow> class_name c \<noteq> None \<and> length (class_properties c) = unat (class_property_count c) \<and>
          list_all2 (\<lambda>p v. cell_text p v \<noteq> None) (class_properties c) (inst_data i)
      | _ \<Rightarrow> False)"

definition class_of :: "WbemClassObject \<Rightarrow> string option" where
  "class_of co = Option.bind (wco_obj_class co) class_name"

definition header_text :: "string \<Rightarrow> WbemClassObject \<Rightarrow> string" where
  "header_text delim co = (let c = the (wco_obj_class co)
     in ''CLASS: '' @ print_str (class_name c) @ newline @ join delim (map (\<lambda>p. print_str (prop_name p)) (class_properties c)) @ newline)"

definition row_text :: "string \<Rightarrow> WbemClassObject \<Rightarrow> string" where
  "row_text delim co = join delim (map2 (\<lambda>p v. the (cell_text p v)) (class_properties (the (wco_obj_class co)))
     (inst_data (the (wco_instance co)))) @ newline"

text \<open>One line for each object, in order, and a header before each object whose class differs from that of the one before.\<close>

fun objects_text :: "string \<Rightarrow> string option \<Rightarrow> WbemClassObject list \<Rightarrow> string" where
  "objects_text delim cn [] = ''''"
| "objects_text delim cn (co # cos) =
     (if cn = class_of co then '''' else header_text delim co) @ row_text delim co @ objects_text delim (class_of co) cos"

section \<open>The printing loops print it\<close>

lemma print_loop_join:
  assumes "\<And>j. j < k \<Longrightarrow> f j = Some (xs ! j)" "length xs = k"
  shows "print_loop d f 0 k = Some (join d xs)"
proof -
  have tail: "print_loop d f (Suc i) n = Some (concat (map (\<lambda>x. d @ x) (drop (Suc i) xs)))" if "Suc i + n = k" for i n
    using that
  proof (induction n arbitrary: i)
    case (Suc n)
    then have i: "Suc i < length xs" using assms(2) by simp
    have "drop (Suc i) xs = xs ! Suc i # drop (Suc (Suc i)) xs" by (rule Cons_nth_drop_Suc [OF i, symmetric])
    then show ?case using Suc assms(1) [of "Suc i"] by simp
  qed (use assms(2) in simp)
  have j: "join d (x # ys) = x @ concat (map (\<lambda>x. d @ x) ys)" for x and ys :: "string list"
    by (induction ys arbitrary: x) simp_all
  show ?thesis
  proof (cases k)
    case (Suc n)
    then obtain x ys where xs: "xs = x # ys" using assms(2) by (cases xs) auto
    then show ?thesis using Suc tail [of 0 n] assms(1) [of 0] by (simp add: j)
  qed (use assms(2) in simp)
qed

lemma print_object_text:
  assumes "printable co"
  shows "print_object delim cn co =
     Some ((if cn = class_of co then '''' else header_text delim co) @ row_text delim co, class_of co)"
proof -
  from assms obtain c i n where co: "wco_obj_class co = Some c" "wco_instance co = Some i" "class_name c = Some n"
    and len: "length (class_properties c) = unat (class_property_count c)"
    and all: "list_all2 (\<lambda>p v. cell_text p v \<noteq> None) (class_properties c) (inst_data i)"
    by (auto simp: printable_def split: option.splits)
  let ?k = "unat (class_property_count c)"
  have names: "print_loop delim (column_name c) 0 ?k = Some (join delim (map (\<lambda>p. print_str (prop_name p)) (class_properties c)))"
    by (rule print_loop_join) (simp_all add: column_name_def at_def len)
  have cells: "print_loop delim (cell co c) 0 ?k =
      Some (join delim (map2 (\<lambda>p v. the (cell_text p v)) (class_properties c) (inst_data i)))"
  proof (rule print_loop_join)
    fix j assume j: "j < ?k"
    then show "cell co c j = Some (map2 (\<lambda>p v. the (cell_text p v)) (class_properties c) (inst_data i) ! j)"
      using all co(2) len by (auto simp: cell_def at_def list_all2_conv_all_nth cell_text_def split: option.splits Option.bind_splits)
  qed (use all len in \<open>simp add: list_all2_lengthD\<close>)
  show ?thesis
    using names cells co
    by (cases cn) (auto simp: print_object_def class_changed_def print_header_def header_text_def row_text_def class_of_def)
qed

lemma print_objects_text:
  "list_all printable cos \<Longrightarrow>
   print_objects delim cn (map Some cos) = Some (objects_text delim cn cos, if cos = [] then cn else class_of (last cos))"
  by (induction cos arbitrary: cn) (auto simp: print_object_text)

lemma objects_text_append:
  "objects_text delim cn (xs @ ys) = objects_text delim cn xs @ objects_text delim (if xs = [] then cn else class_of (last xs)) ys"
  by (induction xs arbitrary: cn) auto

section \<open>A server that delivers pages\<close>

definition page_result :: "werror \<Rightarrow> bool" where
  "page_result w \<longleftrightarrow> w = WBEM_NO_ERROR \<or> w = WBEM_S_FALSE \<or> w = WBEM_S_TIMEDOUT"

text \<open>
  In the state \<open>srv\<close> the server answers the requests for pages with the given blocks, and then, if it is asked
  again, with no objects.
\<close>

fun serves :: "'s remote \<Rightarrow> 's \<Rightarrow> (u8 \<times> entry list) list \<Rightarrow> bool" where
  "serves R srv [] \<longleftrightarrow>
     (\<forall>p g. \<exists>w sz d srv'. next_page R p g 0xFFFFFFFF (of_nat cnt) srv = ((w, 0, sz, d), srv') \<and> page_result w)"
| "serves R srv ((minor, es) # pages) \<longleftrightarrow>
     (\<forall>p g. \<exists>w srv'. next_page R p g 0xFFFFFFFF (of_nat cnt) srv =
        ((w, of_nat (length es), of_nat (length (page minor es)), Some (page minor es)), srv') \<and>
        page_result w \<and> serves R srv' pages)"

text \<open>All pages but the last are full, and none is empty.\<close>

fun full_pages :: "(u8 \<times> entry list) list \<Rightarrow> bool" where
  "full_pages [] \<longleftrightarrow> True"
| "full_pages [(minor, es)] \<longleftrightarrow> es \<noteq> [] \<and> length es \<le> cnt"
| "full_pages ((minor, es) # pages) \<longleftrightarrow> length es = cnt \<and> full_pages pages"

text \<open>The objects of the pages, with the classes that are known after each.\<close>

fun pages_hold :: "(ndr_pull, GUID) comp \<Rightarrow> wbem_pull \<Rightarrow> class_cache \<Rightarrow> (u8 \<times> entry list) list \<Rightarrow> WbemClassObject list list \<Rightarrow> bool" where
  "pages_hold pg W c [] rss \<longleftrightarrow> rss = []"
| "pages_hold pg W c ((minor, es) # pages) rss \<longleftrightarrow>
     (\<exists>rs rss' c'. rss = rs # rss' \<and> block_objects pg W c es rs c' \<and> minor \<le> 1 \<and> length (page minor es) < 2 ^ 31 \<and>
        pages_hold pg W c' pages rss')"

definition wait_start :: "unit world" where
  "wait_start = on_ctx (\<lambda>c. c\<lparr>c_used_wait := True\<rparr>) start"

text \<open>A call on \<open>m\<close> will ask the server, in the state \<open>srv\<close>, for the next page.\<close>

definition ready :: "'s remote \<Rightarrow> 's smart \<Rightarrow> class_cache \<Rightarrow> 's \<Rightarrow> bool" where
  "ready R m c srv \<longleftrightarrow> (\<exists>m1 s p g.
     wait_loop smart_state (smart_event R) (waiting 0xFFFFFFFF (of_nat cnt) m) =
       wait_loop smart_state (smart_event R) m1 \<and>
     sm_pending m1 = Some (Next p g 0xFFFFFFFF (of_nat cnt)) \<and> sm_server m1 = srv \<and> sm_world m1 = wait_start \<and>
     sm_data m1 = Some s \<and> ed_cache s = c \<and> ed_lTimeout s = 0xFFFFFFFF \<and> ed_uCount s = of_nat cnt)"

definition continued :: "'s smart \<Rightarrow> class_cache \<Rightarrow> 's \<Rightarrow> bool" where
  "continued m c srv \<longleftrightarrow> sm_server m = srv \<and>
     (\<exists>s. sm_data m = Some s \<and> ed_cache s = c \<and> ed_lTimeout s = 0xFFFFFFFF \<and> ed_uCount s = of_nat cnt)"

lemma ready_continued: "continued m c srv \<Longrightarrow> ready R m c srv"
  unfolding continued_def ready_def
  by (intro exI [of _ "waiting 0xFFFFFFFF (of_nat cnt) m"])
     (auto simp: wait_start_def waiting_def set_used_wait_def IEnumWbemClassObject_SmartNext_send_def send_def)

lemma wait_turn: "smart_state m < COMPOSITE_STATE_DONE \<Longrightarrow> smart_event R m = (0, m') \<Longrightarrow>
   wait_loop smart_state (smart_event R) m = wait_loop smart_state (smart_event R) m'"
  by (subst wait_loop.simps) simp

lemma start_state: "sm_world m = wait_start \<Longrightarrow> smart_state m < COMPOSITE_STATE_DONE"
  by (simp add: smart_state_def wait_start_def on_ctx_def start_def composite_create_def state_order)

lemma ready_fresh:
  assumes "query_interface R srv = ((0, fse), srv1)" "fetch_enum R fse srv1 = ((0, se), srv2)" "random_guid R srv2 = (g, srv3)"
  shows "ready R (fresh srv) [] srv3"
proof -
  let ?s = "zero_data\<lparr>ed_lTimeout := 0xFFFFFFFF, ed_uCount := of_nat cnt\<rparr>"
  let ?m0 = "waiting 0xFFFFFFFF (of_nat cnt) (fresh srv)"
  let ?m1 = "(fresh srv1)\<lparr>sm_world := wait_start, sm_data := Some (?s\<lparr>ed_pFSE := fse\<rparr>), sm_pending := Some (Fetch fse), sm_sent := [Query_Interface, Fetch fse]\<rparr>"
  let ?r = "Next se (GUID_random g) 0xFFFFFFFF (of_nat cnt)"
  let ?m2 = "(fresh srv3)\<lparr>sm_world := wait_start, sm_data := Some (?s\<lparr>ed_pFSE := fse, ed_pSE := se, ed_guid := GUID_random g\<rparr>), sm_pending := Some ?r,
     sm_sent := [Query_Interface, Fetch fse, ?r]\<rparr>"
  have m0: "?m0 = (fresh srv)\<lparr>sm_world := wait_start, sm_data := Some ?s, sm_pending := Some Query_Interface, sm_sent := [Query_Interface]\<rparr>"
    by (simp add: wait_start_def waiting_def set_used_wait_def IEnumWbemClassObject_SmartNext_send_def fresh_def send_def)
  have e1: "smart_event R ?m0 = (0, ?m1)"
    using assms(1) unfolding m0
    by (simp add: smart_event_def fresh_def smart_next_query_interface_continue_def set_status_def composite_is_ok_def on_ctx_def wait_start_def start_def
        composite_create_def on_data_def send_def)
  have e2: "smart_event R ?m1 = (0, ?m2)"
    using assms(2,3) by (simp add: smart_event_def fresh_def smart_next_fetch_enum_continue_def on_data_def send_def)
  have w: "sm_world ?m0 = wait_start" "sm_world ?m1 = wait_start" unfolding m0 by (simp_all add: fresh_def)
  have "wait_loop smart_state (smart_event R) ?m0 = wait_loop smart_state (smart_event R) ?m2"
    using wait_turn [OF start_state [OF w(1)] e1] wait_turn [OF start_state [OF w(2)] e2] by (rule trans)
  then show ?thesis
    unfolding ready_def by (intro exI [of _ ?m2]) (simp add: fresh_def zero_data_def)
qed

lemma page_call:
  assumes "ready R m c srv"
  shows "\<exists>p g. \<forall>w n sz d srv'. next_page R p g 0xFFFFFFFF (of_nat cnt) srv = ((w, n, sz, d), srv') \<longrightarrow> page_result w \<longrightarrow>
     (\<exists>m' s. IEnumWbemClassObject_SmartNext R pg W 0xFFFFFFFF (of_nat cnt) objs m =
        Some (IEnumWbemClassObject_SmartNext_recv pg W 0 objs m') \<and> continued m' c srv' \<and>
        sm_data m' = Some s \<and> ed_uReturned s = n \<and> ed_size s = sz \<and> ed_pData s = d \<and> ed_cache s = c)"
proof -
  from assms obtain m1 s p g where
    wait: "wait_loop smart_state (smart_event R) (waiting 0xFFFFFFFF (of_nat cnt) m) =
       wait_loop smart_state (smart_event R) m1" and
    m1: "sm_pending m1 = Some (Next p g 0xFFFFFFFF (of_nat cnt))" "sm_server m1 = srv" "sm_world m1 = wait_start"
     "sm_data m1 = Some s" "ed_cache s = c" "ed_lTimeout s = 0xFFFFFFFF" "ed_uCount s = of_nat cnt"
    unfolding ready_def by blast
  show ?thesis
  proof (intro exI [of _ p] exI [of _ g] allI impI)
    fix w n sz d srv' assume reply: "next_page R p g 0xFFFFFFFF (of_nat cnt) srv = ((w, n, sz, d), srv')" and w: "page_result w"
    let ?s = "s\<lparr>ed_uReturned := n, ed_size := sz, ed_pData := d\<rparr>"
    let ?m2 = "call_done (set_status 0 (m1\<lparr>sm_pending := None, sm_server := srv', sm_data := Some ?s\<rparr>))"
    have e: "smart_event R m1 = (0, ?m2)"
      using m1 reply w by (auto simp: smart_event_def smart_next_enum_continue_def page_result_def on_data_def)
    have st: "smart_state ?m2 = COMPOSITE_STATE_DONE" "smart_status ?m2 = 0"
      using m1(3) by (simp_all add: smart_state_def smart_status_def call_done_def set_status_def composite_defs wait_start_def start_def composite_create_def)
    have "wait_loop smart_state (smart_event R) ?m2 = Some (True, ?m2)"
      using st(1) by (subst wait_loop.simps) (simp add: state_order)
    then have "IEnumWbemClassObject_SmartNext R pg W 0xFFFFFFFF (of_nat cnt) objs m =
        Some (IEnumWbemClassObject_SmartNext_recv pg W 0 objs ?m2)"
      using wait [unfolded waiting_def] wait_turn [OF start_state [OF m1(3)] e] st(2)
      by (simp add: IEnumWbemClassObject_SmartNext_def waiting_def composite_wait_def)
    moreover have "sm_data ?m2 = Some ?s" "sm_server ?m2 = srv'" by (simp_all add: call_done_def set_status_def)
    ultimately show "\<exists>m' s. IEnumWbemClassObject_SmartNext R pg W 0xFFFFFFFF (of_nat cnt) objs m =
        Some (IEnumWbemClassObject_SmartNext_recv pg W 0 objs m') \<and> continued m' c srv' \<and>
        sm_data m' = Some s \<and> ed_uReturned s = n \<and> ed_size s = sz \<and> ed_pData s = d \<and> ed_cache s = c"
      using m1(5-7) by (intro exI [of _ ?m2] exI [of _ ?s]) (simp add: continued_def)
  qed
qed

section \<open>The loop prints the pages\<close>

text \<open>The end: a reply without objects ends the loop with success, whether or not it carries data (an empty block is
  answered with \<open>NT_STATUS_NOT_IMPLEMENTED\<close>, which is \<open>WERR_BADFUNC\<close> in Win32 terms).\<close>

lemma not_implemented_badfunc: "werror_of_status NT_STATUS_NOT_IMPLEMENTED = WERR_BADFUNC"
proof -
  have "ntstatus_to_werror NT_STATUS_NOT_IMPLEMENTED = Some 1"
    by (simp add: ntstatus_to_werror_def NT_STATUS_NOT_IMPLEMENTED_def ntstatus_to_werror_map_def werror_nums_def ntstatus_to_werror_map1_def)
  then show ?thesis by (simp add: werror_of_status_def WERR_BADFUNC_def)
qed

lemma wmic_loop_end:
  assumes "ready R m c srv" "serves R srv []"
  shows "wmic_loop R pg W delim cn out m = Some (Exit_ok, out)"
proof -
  from page_call [OF assms(1), of pg W "replicate cnt None"] assms(2) obtain m' s sz d where
    run: "IEnumWbemClassObject_SmartNext R pg W 0xFFFFFFFF (of_nat cnt) (replicate cnt None) m =
        Some (IEnumWbemClassObject_SmartNext_recv pg W 0 (replicate cnt None) m')"
    and s: "sm_data m' = Some s" "ed_uReturned s = 0" "ed_pData s = d" by (auto simp: serves.simps) blast
  obtain r co m'' where recv: "IEnumWbemClassObject_SmartNext_recv pg W 0 (replicate cnt None) m' = (r, co, m'')"
    by (cases "IEnumWbemClassObject_SmartNext_recv pg W 0 (replicate cnt None) m'")
  have "r = Inr (0, 0) \<or> r = Inr (WERR_BADFUNC, 0)"
    using recv s not_implemented_badfunc
    by (cases d) (auto simp: IEnumWbemClassObject_SmartNext_recv_def WBEMDATA_Parse_def)
  then show ?thesis using run recv by (subst wmic_loop.simps) auto
qed

lemma wmic_loop_page:
  assumes r: "ready R m c srv" and sv: "serves R srv ((minor, es) # pages)" and b: "block_objects pg W c es rs c'"
    and n: "minor \<le> 1" "length (page minor es) < 2 ^ 31" "es \<noteq> []" "length es \<le> cnt" and pr: "list_all printable rs"
  obtains m' srv' where "continued m' c' srv'" "serves R srv' pages"
    "wmic_loop R pg W delim cn out m =
       (if length es = cnt then wmic_loop R pg W delim (class_of (last rs)) (out @ objects_text delim cn rs) m'
        else Some (Exit_ok, out @ objects_text delim cn rs))"
proof -
  from page_call [OF r, of pg W "replicate cnt None"] sv obtain m1 s srv' where
    run: "IEnumWbemClassObject_SmartNext R pg W 0xFFFFFFFF (of_nat cnt) (replicate cnt None) m =
        Some (IEnumWbemClassObject_SmartNext_recv pg W 0 (replicate cnt None) m1)"
    and m1: "continued m1 c srv'" "sm_data m1 = Some s" and srv': "serves R srv' pages"
    and s: "ed_uReturned s = of_nat (length es)" "ed_size s = of_nat (length (page minor es))" "ed_pData s = Some (page minor es)"
      "ed_cache s = c" by (auto simp: serves.simps) blast
  let ?env = "\<lparr>pe_objects = replicate cnt None, pe_cache = c\<rparr>"
  have rs: "length rs = length es" "rs \<noteq> []" using block_length [OF b] n(3) by auto
  from parse_page_run [of pg W ?env es rs c' minor] b n obtain q where
    q: "WBEMDATA_Parse pg W (page minor es) (of_nat (length (page minor es))) (of_nat (length es)) ?env =
     (Inr q, \<lparr>pe_objects = map Some rs @ drop (length rs) (replicate cnt None), pe_cache = c'\<rparr>)" by auto
  let ?m' = "on_data (\<lambda>s. s\<lparr>ed_cache := c'\<rparr>) m1" and ?co = "map Some rs @ drop (length rs) (replicate cnt None)"
  have recv: "IEnumWbemClassObject_SmartNext_recv pg W 0 (replicate cnt None) m1 = (Inr (0, of_nat (length es)), ?co, ?m')"
    using m1(2) s q by (simp add: IEnumWbemClassObject_SmartNext_recv_def)
  have u: "unat (of_nat (length es) :: u32) = length es" "unat (of_nat cnt :: u32) = cnt"
    using n(4) by (simp_all add: cnt_def unat_of_nat_small)
  then have ret: "(of_nat (length es) :: u32) \<noteq> 0" "(of_nat (length es) :: u32) = of_nat cnt \<longleftrightarrow> length es = cnt"
    "take (unat (of_nat (length es) :: u32)) ?co = map Some rs" "unat (of_nat (length es) :: u32) \<le> length ?co"
    using n(3) rs by (auto simp: word_unat_eq_iff)
  have "wmic_loop R pg W delim cn out m =
       (if length es = cnt then wmic_loop R pg W delim (class_of (last rs)) (out @ objects_text delim cn rs) ?m'
        else Some (Exit_ok, out @ objects_text delim cn rs))"
    using run recv ret rs(2) print_objects_text [OF pr, of delim cn] by (subst wmic_loop.simps) simp
  moreover have "continued ?m' c' srv'" using m1 by (auto simp: continued_def on_data_def)
  ultimately show ?thesis using that srv' by blast
qed

lemma wmic_loop_pages:
  "ready R m c srv \<Longrightarrow> serves R srv pages \<Longrightarrow> full_pages pages \<Longrightarrow> pages_hold pg W c pages rss \<Longrightarrow> list_all (list_all printable) rss \<Longrightarrow>
   wmic_loop R pg W delim cn out m = Some (Exit_ok, out @ objects_text delim cn (concat rss))"
proof (induction pages arbitrary: m c srv rss cn out)
  case Nil
  then show ?case by (simp add: wmic_loop_end)
next
  case (Cons p pages)
  obtain minor es where p: "p = (minor, es)" by (cases p)
  from Cons.prems(4) obtain rs rss' c' where
    h: "rss = rs # rss'" "block_objects pg W c es rs c'" "minor \<le> 1" "length (page minor es) < 2 ^ 31" "pages_hold pg W c' pages rss'"
    by (auto simp: p)
  have full: "es \<noteq> []" "length es \<le> cnt" "full_pages pages" "pages \<noteq> [] \<Longrightarrow> length es = cnt"
    using Cons.prems(3) by (cases pages; auto simp: p cnt_def)+
  have pr: "list_all printable rs" "list_all (list_all printable) rss'" using Cons.prems(5) h(1) by simp_all
  have rs: "rs \<noteq> []" using block_length [OF h(2)] full(1) by auto
  obtain m' srv' where m': "continued m' c' srv'" "serves R srv' pages"
    "wmic_loop R pg W delim cn out m =
       (if length es = cnt then wmic_loop R pg W delim (class_of (last rs)) (out @ objects_text delim cn rs) m'
        else Some (Exit_ok, out @ objects_text delim cn rs))"
    by (rule wmic_loop_page [OF Cons.prems(1) Cons.prems(2) [unfolded p] h(2-4) full(1,2) pr(1)])
  show ?case
  proof (cases "length es = cnt")
    case True
    then show ?thesis
      using m'(3) Cons.IH [OF ready_continued [OF m'(1)] m'(2) full(3) h(5) pr(2)] rs h(1) by (simp add: objects_text_append)
  next
    case False
    then have "pages = []" using full(4) by blast
    then have "rss' = []" using h(5) by simp
    then show ?thesis using m'(3) False h(1) by simp
  qed
qed

section \<open>Properties\<close>

text \<open>C1: the client prints what the query returned: for every server that gives the interface and delivers well-formed
  pages, full but for the last, \<open>wmic\<close> ends with success and has printed one line for each object of all pages, in
  order, with a header whenever the class changes, wherever the page boundaries are.\<close>

theorem wmic_prints_result:
  assumes "query_interface R srv = ((0, fse), srv1)" "fetch_enum R fse srv1 = ((0, se), srv2)" "random_guid R srv2 = (g, srv3)"
    and "serves R srv3 pages" "full_pages pages" "pages_hold ndr_pull_GUID W [] pages rss" "list_all (list_all printable) rss"
  shows "wmic_main R ndr_pull_GUID W (Some delim) 0 0 srv = Some (Exit_ok, objects_text delim None (concat rss))"
  using wmic_loop_pages [OF ready_fresh [OF assms(1-3)] assms(4-7), of delim None Nil] by (simp add: wmic_main_def)

text \<open>A server whose state is the list of the pages it will deliver.\<close>

definition paging :: "(u8 \<times> entry list) list remote" where
  "paging = \<lparr>query_interface = (\<lambda>s. ((0, Some 1), s)), fetch_enum = (\<lambda>p s. ((0, Some 2), s)),
     next_page = (\<lambda>p g t n s. case s of
        [] \<Rightarrow> ((WBEM_S_FALSE, 0, 0, None), [])
      | (minor, es) # s \<Rightarrow> ((0, of_nat (length es), of_nat (length (page minor es)), Some (page minor es)), s)),
     random_guid = (\<lambda>s. (GUID_zero, s))\<rparr>"

lemma paging_serves: "serves paging pages pages"
  by (induction pages) (auto simp: paging_def page_result_def WBEM_NO_ERROR_def)

definition one_page :: "(u8 \<times> entry list) list" where
  "one_page = [(1, [hd sample_entries, hd sample_entries])]"

lemma one_page_holds: "pages_hold pull_guid sample_pull [] one_page [[sample_object, sample_object]]"
proof -
  have "length (page 1 [hd sample_entries, hd sample_entries]) < 200" by code_simp
  then have "length (page 1 [hd sample_entries, hd sample_entries]) < 2 ^ 31" by simp
  moreover have "hd sample_entries = (DATATYPE_CLASSOBJECT, clsid_wbem, guid_bytes, written sample_written)"
    by (simp add: sample_entries_def)
  ultimately show ?thesis
    using block_class [OF reads_clsid sample_class_object block_class [OF reads_clsid sample_class_object block_Nil]]
    by (auto simp: one_page_def simp del: entry_bytes.simps)
qed

theorem wmic_prints_result_witness:
  "wmic_main paging pull_guid sample_pull (Some ''|'') 0 0 one_page =
     Some (Exit_ok, ''CLASS: s'' @ newline @ newline @ newline @ newline)"
proof -
  have "full_pages one_page" by (simp add: one_page_def cnt_def)
  moreover have "list_all (list_all printable) [[sample_object, sample_object]]" by code_simp
  moreover have "objects_text ''|'' None (concat [[sample_object, sample_object]]) = ''CLASS: s'' @ newline @ newline @ newline @ newline"
    by code_simp
  ultimately show ?thesis
    using wmic_prints_result [of paging one_page "Some 1" one_page "Some 2" one_page GUID_zero one_page one_page
        pull_guid sample_pull "[[sample_object, sample_object]]" "''|''"]
      paging_serves [of one_page] one_page_holds by (simp add: paging_def)
qed

text \<open>The member of the union that a type selects.\<close>

definition cimvar_typed :: "u32 \<Rightarrow> cimvar \<Rightarrow> bool" where
  "cimvar_typed t v =
     (let elem = t AND NOT CIM_FLAG_ARRAY; numeric = set integer_types \<union> {CIM_REAL32, CIM_REAL64, CIM_BOOLEAN};
          textual = {CIM_STRING, CIM_DATETIME, CIM_REFERENCE}
      in if t AND CIM_FLAG_ARRAY = 0
         then (t \<in> numeric \<longrightarrow> v_bits v \<noteq> None) \<and> (t \<in> textual \<longrightarrow> v_text v \<noteq> None)
         else (elem \<in> numeric \<longrightarrow> a_nums v \<noteq> None) \<and> (elem \<in> textual \<longrightarrow> a_texts v \<noteq> None))"

lemma int_text_defined: "t \<in> set integer_types \<Longrightarrow> int_text t b \<noteq> None"
  by (auto simp: integer_types_def int_text_def)

lemma items_text_None: "items_text f xs = None \<longleftrightarrow> (\<exists>x\<in>set xs. f x = None)"
  by (induction xs) (auto split: Option.bind_splits)

lemma array_text_None: "array_text f a = None \<longleftrightarrow> (\<exists>xs. a = Some xs \<and> (\<exists>x\<in>set xs. f x = None))"
  by (cases a) (simp_all add: array_text_def bind_eq_None_conv items_text_None)

lemma array_text_Some: "\<exists>s. array_text (\<lambda>b. Some (f b)) a = Some s"
  using array_text_None [of "\<lambda>b. Some (f b)" a] by auto

text \<open>C35: every value of the kind that its type selects has a text, with one exception: a non-empty array of reals, which
  is passed to \<open>printf\<close> as integers under the format \<open>%f\<close>.\<close>

theorem string_CIMVAR_defined:
  assumes "cimvar_typed t v"
  shows "string_CIMVAR v t = None \<longleftrightarrow>
     t AND CIM_FLAG_ARRAY \<noteq> 0 \<and> (t AND NOT CIM_FLAG_ARRAY) \<in> {CIM_REAL32, CIM_REAL64} \<and> (\<exists>x xs. v = CIM_nums (Some (x # xs)))"
proof (cases "t AND CIM_FLAG_ARRAY = 0")
  case True
  have v: "t \<in> set integer_types \<or> t = CIM_REAL32 \<or> t = CIM_REAL64 \<or> t = CIM_BOOLEAN \<Longrightarrow> v_bits v \<noteq> None"
    "t = CIM_STRING \<or> t = CIM_DATETIME \<or> t = CIM_REFERENCE \<Longrightarrow> v_text v \<noteq> None"
    using assms unfolding cimvar_typed_def Let_def if_P [OF True] by blast+
  have "string_CIMVAR v t \<noteq> None"
    unfolding string_CIMVAR_def Let_def if_P [OF True]
    by (cases "v_bits v"; cases "v_text v"; use v int_text_defined [of t] in \<open>simp; blast\<close>)
  then show ?thesis using True by simp
next
  case False
  let ?e = "t AND NOT CIM_FLAG_ARRAY"
  have ne: "CIM_REAL32 \<notin> set integer_types" "CIM_REAL64 \<notin> set integer_types" by code_simp+
  have v: "?e \<in> set integer_types \<or> ?e = CIM_REAL32 \<or> ?e = CIM_REAL64 \<or> ?e = CIM_BOOLEAN \<Longrightarrow> a_nums v \<noteq> None"
    "?e = CIM_STRING \<or> ?e = CIM_DATETIME \<or> ?e = CIM_REFERENCE \<Longrightarrow> a_texts v \<noteq> None"
    using assms unfolding cimvar_typed_def Let_def if_not_P [OF False] by blast+
  show ?thesis
  proof (cases "?e = CIM_REAL32 \<or> ?e = CIM_REAL64")
    case True
    then obtain a where a: "a_nums v = Some a" using v(1) by auto
    have "?e \<notin> set integer_types" using True ne by auto
    then have "string_CIMVAR v t = array_text (\<lambda>_. None) a"
      unfolding string_CIMVAR_def Let_def if_not_P [OF False] using True a by simp
    moreover have "v = CIM_nums a" using a by (auto simp: a_nums_def split: CIMVAR.splits)
    moreover have "array_text (\<lambda>_. None) a = None \<longleftrightarrow> (\<exists>x xs. a = Some (x # xs))"
      unfolding array_text_None by (cases a) (auto simp: neq_Nil_conv elim: list.set_cases)
    ultimately show ?thesis using True False by simp
  next
    case other: False
    have ints: "?e \<in> set integer_types \<Longrightarrow> array_text (int_text ?e) a \<noteq> None" for a
      using int_text_defined [of ?e] by (simp add: array_text_None)
    have "string_CIMVAR v t \<noteq> None"
      unfolding string_CIMVAR_def Let_def if_not_P [OF False]
      using v other ints by (auto split: if_splits simp: bind_eq_None_conv array_text_Some)
    then show ?thesis using other by simp
  qed
qed

theorem string_CIMVAR_defined_witness:
  "string_CIMVAR (CIM_nums (Some [1])) (CIM_FLAG_ARRAY OR CIM_REAL32) = None \<and>
   string_CIMVAR (CIM_nums (Some [1, 0xFF])) (CIM_FLAG_ARRAY OR CIM_SINT8) = Some ''(1,-1)''"
proof
  have "cimvar_typed (CIM_FLAG_ARRAY OR CIM_REAL32) (CIM_nums (Some [1]))"
    "(CIM_FLAG_ARRAY OR CIM_REAL32) AND CIM_FLAG_ARRAY \<noteq> 0" "(CIM_FLAG_ARRAY OR CIM_REAL32) AND NOT CIM_FLAG_ARRAY = CIM_REAL32"
    by code_simp+
  then show "string_CIMVAR (CIM_nums (Some [1])) (CIM_FLAG_ARRAY OR CIM_REAL32) = None"
    using string_CIMVAR_defined by blast
  show "string_CIMVAR (CIM_nums (Some [1, 0xFF])) (CIM_FLAG_ARRAY OR CIM_SINT8) = Some ''(1,-1)''" by code_simp
qed

end
