(* ===== verification/Crypto.thy ===== *)
theory Crypto
  imports DataBlob "HOL-Library.Multiset"
begin

text \<open>
  The ciphers and digests of \<open>lib/crypto\<close> that authentication uses: RC4 (\<open>arcfour.c\<close>), CRC-32 (\<open>crc32.c\<close>), MD5
  (\<open>md5.c\<close>) and its keyed form (\<open>hmacmd5.c\<close>).  A buffer with its length is a list of bytes.

  Shown: the state of RC4 stays a permutation, decryption inverts encryption, and a stream may be cut anywhere; the
  table of CRC-32 is the polynomial, so the table driven loop is the bitwise one; MD5 of a message does not depend on
  how it is cut into calls of \<open>MD5Update\<close> and is the padded fold of RFC 1321; HMAC is that of RFC 2104 for keys cut
  to 64 bytes.
\<close>

section \<open>RC4\<close>

record arcfour_state =
  sbox :: "u8 list"
  index_i :: u8
  index_j :: u8

definition swap_at :: "'a list \<Rightarrow> nat \<Rightarrow> nat \<Rightarrow> 'a list" where
  "swap_at xs i j = xs[i := xs ! j, j := xs ! i]"

definition mix_step :: "u8 list \<Rightarrow> nat \<Rightarrow> u8 list \<times> u8 \<Rightarrow> u8 list \<times> u8" where
  "mix_step key ind st =
     (case st of (box, j) \<Rightarrow>
        let j = j + (box ! ind + key ! (ind mod length key)) in (swap_at box ind (unat j), j))"

text \<open>An empty key makes \<open>ind%key->length\<close> divide by zero.\<close>

definition arcfour_init :: "u8 list \<Rightarrow> arcfour_state option" where
  "arcfour_init key =
     (if key = [] then None
      else Some \<lparr>sbox = fst (fold (mix_step key) [0..<256] (map of_nat [0..<256], 0)), index_i = 0, index_j = 0\<rparr>)"

definition arcfour_next :: "arcfour_state \<Rightarrow> u8 \<times> arcfour_state" where
  "arcfour_next state =
     (let i = index_i state + 1;
          j = index_j state + sbox state ! unat i;
          box = swap_at (sbox state) (unat i) (unat j);
          t = box ! unat i + box ! unat j
      in (box ! unat t, \<lparr>sbox = box, index_i = i, index_j = j\<rparr>))"

fun arcfour_crypt_sbox :: "arcfour_state \<Rightarrow> u8 list \<Rightarrow> arcfour_state \<times> u8 list" where
  "arcfour_crypt_sbox state [] = (state, [])"
| "arcfour_crypt_sbox state (d # data) =
     (case arcfour_next state of (k, state) \<Rightarrow>
      case arcfour_crypt_sbox state data of (state, data) \<Rightarrow> (state, (d XOR k) # data))"

definition arcfour_crypt_blob :: "u8 list \<Rightarrow> u8 list \<Rightarrow> u8 list option" where
  "arcfour_crypt_blob data key = map_option (\<lambda>state. snd (arcfour_crypt_sbox state data)) (arcfour_init key)"

definition arcfour_crypt :: "u8 list \<Rightarrow> u8 list \<Rightarrow> u8 list option" where
  "arcfour_crypt data keystr = (if length keystr < 16 then None else arcfour_crypt_blob data (take 16 keystr))"

section \<open>CRC-32\<close>

definition crc32_tab :: "u32 list" where
  "crc32_tab =
  [0x00000000, 0x77073096, 0xEE0E612C, 0x990951BA, 0x076DC419, 0x706AF48F, 0xE963A535, 0x9E6495A3,
   0x0EDB8832, 0x79DCB8A4, 0xE0D5E91E, 0x97D2D988, 0x09B64C2B, 0x7EB17CBD, 0xE7B82D07, 0x90BF1D91,
   0x1DB71064, 0x6AB020F2, 0xF3B97148, 0x84BE41DE, 0x1ADAD47D, 0x6DDDE4EB, 0xF4D4B551, 0x83D385C7,
   0x136C9856, 0x646BA8C0, 0xFD62F97A, 0x8A65C9EC, 0x14015C4F, 0x63066CD9, 0xFA0F3D63, 0x8D080DF5,
   0x3B6E20C8, 0x4C69105E, 0xD56041E4, 0xA2677172, 0x3C03E4D1, 0x4B04D447, 0xD20D85FD, 0xA50AB56B,
   0x35B5A8FA, 0x42B2986C, 0xDBBBC9D6, 0xACBCF940, 0x32D86CE3, 0x45DF5C75, 0xDCD60DCF, 0xABD13D59,
   0x26D930AC, 0x51DE003A, 0xC8D75180, 0xBFD06116, 0x21B4F4B5, 0x56B3C423, 0xCFBA9599, 0xB8BDA50F,
   0x2802B89E, 0x5F058808, 0xC60CD9B2, 0xB10BE924, 0x2F6F7C87, 0x58684C11, 0xC1611DAB, 0xB6662D3D,
   0x76DC4190, 0x01DB7106, 0x98D220BC, 0xEFD5102A, 0x71B18589, 0x06B6B51F, 0x9FBFE4A5, 0xE8B8D433,
   0x7807C9A2, 0x0F00F934, 0x9609A88E, 0xE10E9818, 0x7F6A0DBB, 0x086D3D2D, 0x91646C97, 0xE6635C01,
   0x6B6B51F4, 0x1C6C6162, 0x856530D8, 0xF262004E, 0x6C0695ED, 0x1B01A57B, 0x8208F4C1, 0xF50FC457,
   0x65B0D9C6, 0x12B7E950, 0x8BBEB8EA, 0xFCB9887C, 0x62DD1DDF, 0x15DA2D49, 0x8CD37CF3, 0xFBD44C65,
   0x4DB26158, 0x3AB551CE, 0xA3BC0074, 0xD4BB30E2, 0x4ADFA541, 0x3DD895D7, 0xA4D1C46D, 0xD3D6F4FB,
   0x4369E96A, 0x346ED9FC, 0xAD678846, 0xDA60B8D0, 0x44042D73, 0x33031DE5, 0xAA0A4C5F, 0xDD0D7CC9,
   0x5005713C, 0x270241AA, 0xBE0B1010, 0xC90C2086, 0x5768B525, 0x206F85B3, 0xB966D409, 0xCE61E49F,
   0x5EDEF90E, 0x29D9C998, 0xB0D09822, 0xC7D7A8B4, 0x59B33D17, 0x2EB40D81, 0xB7BD5C3B, 0xC0BA6CAD,
   0xEDB88320, 0x9ABFB3B6, 0x03B6E20C, 0x74B1D29A, 0xEAD54739, 0x9DD277AF, 0x04DB2615, 0x73DC1683,
   0xE3630B12, 0x94643B84, 0x0D6D6A3E, 0x7A6A5AA8, 0xE40ECF0B, 0x9309FF9D, 0x0A00AE27, 0x7D079EB1,
   0xF00F9344, 0x8708A3D2, 0x1E01F268, 0x6906C2FE, 0xF762575D, 0x806567CB, 0x196C3671, 0x6E6B06E7,
   0xFED41B76, 0x89D32BE0, 0x10DA7A5A, 0x67DD4ACC, 0xF9B9DF6F, 0x8EBEEFF9, 0x17B7BE43, 0x60B08ED5,
   0xD6D6A3E8, 0xA1D1937E, 0x38D8C2C4, 0x4FDFF252, 0xD1BB67F1, 0xA6BC5767, 0x3FB506DD, 0x48B2364B,
   0xD80D2BDA, 0xAF0A1B4C, 0x36034AF6, 0x41047A60, 0xDF60EFC3, 0xA867DF55, 0x316E8EEF, 0x4669BE79,
   0xCB61B38C, 0xBC66831A, 0x256FD2A0, 0x5268E236, 0xCC0C7795, 0xBB0B4703, 0x220216B9, 0x5505262F,
   0xC5BA3BBE, 0xB2BD0B28, 0x2BB45A92, 0x5CB36A04, 0xC2D7FFA7, 0xB5D0CF31, 0x2CD99E8B, 0x5BDEAE1D,
   0x9B64C2B0, 0xEC63F226, 0x756AA39C, 0x026D930A, 0x9C0906A9, 0xEB0E363F, 0x72076785, 0x05005713,
   0x95BF4A82, 0xE2B87A14, 0x7BB12BAE, 0x0CB61B38, 0x92D28E9B, 0xE5D5BE0D, 0x7CDCEFB7, 0x0BDBDF21,
   0x86D3D2D4, 0xF1D4E242, 0x68DDB3F8, 0x1FDA836E, 0x81BE16CD, 0xF6B9265B, 0x6FB077E1, 0x18B74777,
   0x88085AE6, 0xFF0F6A70, 0x66063BCA, 0x11010B5C, 0x8F659EFF, 0xF862AE69, 0x616BFFD3, 0x166CCF45,
   0xA00AE278, 0xD70DD2EE, 0x4E048354, 0x3903B3C2, 0xA7672661, 0xD06016F7, 0x4969474D, 0x3E6E77DB,
   0xAED16A4A, 0xD9D65ADC, 0x40DF0B66, 0x37D83BF0, 0xA9BCAE53, 0xDEBB9EC5, 0x47B2CF7F, 0x30B5FFE9,
   0xBDBDF21C, 0xCABAC28A, 0x53B39330, 0x24B4A3A6, 0xBAD03605, 0xCDD70693, 0x54DE5729, 0x23D967BF,
   0xB3667A2E, 0xC4614AB8, 0x5D681B02, 0x2A6F2B94, 0xB40BBE37, 0xC30C8EA1, 0x5A05DF1B, 0x2D02EF8D]"

fun crc32_loop :: "u32 \<Rightarrow> u8 list \<Rightarrow> u32" where
  "crc32_loop crc [] = crc"
| "crc32_loop crc (p # buf) =
     crc32_loop (crc32_tab ! unat ((crc XOR ucast p) AND 0xFF) XOR drop_bit 8 crc) buf"

definition crc32_calc_buffer :: "u8 list \<Rightarrow> u32" where
  "crc32_calc_buffer buf = crc32_loop (NOT 0) buf XOR NOT 0"

section \<open>MD5\<close>

text \<open>
  The word array a transformation works on is the buffer read as 16 little-endian words (\<open>byteReverse\<close> converts it in
  place on other machines, where its bytes are overwritten before they are read again).
\<close>

record MD5Context =
  md_buf :: "u32 list"
  md_bits0 :: u32
  md_bits1 :: u32
  md_in :: "u8 list"

definition F1 :: "u32 \<Rightarrow> u32 \<Rightarrow> u32 \<Rightarrow> u32" where "F1 x y z = z XOR (x AND (y XOR z))"
definition F2 :: "u32 \<Rightarrow> u32 \<Rightarrow> u32 \<Rightarrow> u32" where "F2 x y z = F1 z x y"
definition F3 :: "u32 \<Rightarrow> u32 \<Rightarrow> u32 \<Rightarrow> u32" where "F3 x y z = x XOR y XOR z"
definition F4 :: "u32 \<Rightarrow> u32 \<Rightarrow> u32 \<Rightarrow> u32" where "F4 x y z = y XOR (x OR NOT z)"

definition MD5STEP :: "(u32 \<Rightarrow> u32 \<Rightarrow> u32 \<Rightarrow> u32) \<Rightarrow> u32 \<Rightarrow> u32 \<Rightarrow> u32 \<Rightarrow> u32 \<Rightarrow> u32 \<Rightarrow> nat \<Rightarrow> u32" where
  "MD5STEP f w x y z data s =
     (let w = w + (f x y z + data); w = push_bit s w OR drop_bit (32 - s) w in w + x)"

text \<open>
  The calls of \<open>MD5STEP\<close> in their order: function, word, constant, shift.  The four registers of a call are those of
  the call before, rotated by one.
\<close>

definition md5_steps :: "((u32 \<Rightarrow> u32 \<Rightarrow> u32 \<Rightarrow> u32) \<times> nat \<times> u32 \<times> nat) list" where
  "md5_steps =
  [(F1, 0, 0xD76AA478, 7), (F1, 1, 0xE8C7B756, 12), (F1, 2, 0x242070DB, 17), (F1, 3, 0xC1BDCEEE, 22),
   (F1, 4, 0xF57C0FAF, 7), (F1, 5, 0x4787C62A, 12), (F1, 6, 0xA8304613, 17), (F1, 7, 0xFD469501, 22),
   (F1, 8, 0x698098D8, 7), (F1, 9, 0x8B44F7AF, 12), (F1, 10, 0xFFFF5BB1, 17), (F1, 11, 0x895CD7BE, 22),
   (F1, 12, 0x6B901122, 7), (F1, 13, 0xFD987193, 12), (F1, 14, 0xA679438E, 17), (F1, 15, 0x49B40821, 22),
   (F2, 1, 0xF61E2562, 5), (F2, 6, 0xC040B340, 9), (F2, 11, 0x265E5A51, 14), (F2, 0, 0xE9B6C7AA, 20),
   (F2, 5, 0xD62F105D, 5), (F2, 10, 0x02441453, 9), (F2, 15, 0xD8A1E681, 14), (F2, 4, 0xE7D3FBC8, 20),
   (F2, 9, 0x21E1CDE6, 5), (F2, 14, 0xC33707D6, 9), (F2, 3, 0xF4D50D87, 14), (F2, 8, 0x455A14ED, 20),
   (F2, 13, 0xA9E3E905, 5), (F2, 2, 0xFCEFA3F8, 9), (F2, 7, 0x676F02D9, 14), (F2, 12, 0x8D2A4C8A, 20),
   (F3, 5, 0xFFFA3942, 4), (F3, 8, 0x8771F681, 11), (F3, 11, 0x6D9D6122, 16), (F3, 14, 0xFDE5380C, 23),
   (F3, 1, 0xA4BEEA44, 4), (F3, 4, 0x4BDECFA9, 11), (F3, 7, 0xF6BB4B60, 16), (F3, 10, 0xBEBFBC70, 23),
   (F3, 13, 0x289B7EC6, 4), (F3, 0, 0xEAA127FA, 11), (F3, 3, 0xD4EF3085, 16), (F3, 6, 0x04881D05, 23),
   (F3, 9, 0xD9D4D039, 4), (F3, 12, 0xE6DB99E5, 11), (F3, 15, 0x1FA27CF8, 16), (F3, 2, 0xC4AC5665, 23),
   (F4, 0, 0xF4292244, 6), (F4, 7, 0x432AFF97, 10), (F4, 14, 0xAB9423A7, 15), (F4, 5, 0xFC93A039, 21),
   (F4, 12, 0x655B59C3, 6), (F4, 3, 0x8F0CCC92, 10), (F4, 10, 0xFFEFF47D, 15), (F4, 1, 0x85845DD1, 21),
   (F4, 8, 0x6FA87E4F, 6), (F4, 15, 0xFE2CE6E0, 10), (F4, 6, 0xA3014314, 15), (F4, 13, 0x4E0811A1, 21),
   (F4, 4, 0xF7537E82, 6), (F4, 11, 0xBD3AF235, 10), (F4, 2, 0x2AD7D2BB, 15), (F4, 9, 0xEB86D391, 21)]"

fun md5_run :: "u32 list \<Rightarrow> ((u32 \<Rightarrow> u32 \<Rightarrow> u32 \<Rightarrow> u32) \<times> nat \<times> u32 \<times> nat) list \<Rightarrow> u32 \<times> u32 \<times> u32 \<times> u32 \<Rightarrow>
    u32 \<times> u32 \<times> u32 \<times> u32" where
  "md5_run inp [] regs = regs"
| "md5_run inp ((f, i, k, s) # steps) (w, x, y, z) =
     md5_run inp steps (z, MD5STEP f w x y z (inp ! i + k) s, x, y)"

definition MD5Transform :: "u32 list \<Rightarrow> u32 list \<Rightarrow> u32 list" where
  "MD5Transform buf inp =
     (case md5_run inp md5_steps (buf ! 0, buf ! 1, buf ! 2, buf ! 3) of
        (a, b, c, d) \<Rightarrow> [buf ! 0 + a, buf ! 1 + b, buf ! 2 + c, buf ! 3 + d])"

text \<open>The words of a buffer, as \<open>byteReverse\<close> computes them.\<close>

fun byteReverse :: "u8 list \<Rightarrow> u32 list" where
  "byteReverse (b0 # b1 # b2 # b3 # bs) =
     (push_bit 16 (push_bit 8 (ucast b3) OR ucast b2) OR (push_bit 8 (ucast b1) OR ucast b0)) # byteReverse bs"
| "byteReverse bs = []"

definition MD5Init :: MD5Context where
  "MD5Init = \<lparr>md_buf = [0x67452301, 0xEFCDAB89, 0x98BADCFE, 0x10325476], md_bits0 = 0, md_bits1 = 0,
     md_in = replicate 64 0\<rparr>"

function md5_chunks :: "u32 list \<Rightarrow> u8 list \<Rightarrow> u8 list \<Rightarrow> u32 list \<times> u8 list" where
  "md5_chunks buf inp data =
     (if length data < 64 then (buf, store inp 0 data)
      else md5_chunks (MD5Transform buf (byteReverse (take 64 data))) (take 64 data) (drop 64 data))"
  by pat_completeness auto
termination by (relation "measure (\<lambda>(buf, inp, data). length data)") auto

declare md5_chunks.simps [simp del]

definition count_bits :: "nat \<Rightarrow> MD5Context \<Rightarrow> MD5Context" where
  "count_bits len ctx =
     (let t = md_bits0 ctx;
          ctx = ctx\<lparr>md_bits0 := t + push_bit 3 (of_nat len)\<rparr>;
          ctx = (if md_bits0 ctx < t then ctx\<lparr>md_bits1 := md_bits1 ctx + 1\<rparr> else ctx)
      in ctx\<lparr>md_bits1 := md_bits1 ctx + ucast (drop_bit 29 (of_nat len :: u64))\<rparr>)"

definition MD5Update :: "u8 list \<Rightarrow> MD5Context \<Rightarrow> MD5Context" where
  "MD5Update data ctx =
     (let len = length data;
          t = unat (drop_bit 3 (md_bits0 ctx) AND 0x3F);
          ctx = count_bits len ctx
      in if t \<noteq> 0
         then if len < 64 - t then ctx\<lparr>md_in := store (md_in ctx) t data\<rparr>
              else let inp = store (md_in ctx) t (take (64 - t) data)
                   in (case md5_chunks (MD5Transform (md_buf ctx) (byteReverse inp)) inp (drop (64 - t) data) of
                         (buf, inp) \<Rightarrow> ctx\<lparr>md_buf := buf, md_in := inp\<rparr>)
         else (case md5_chunks (md_buf ctx) (md_in ctx) data of (buf, inp) \<Rightarrow> ctx\<lparr>md_buf := buf, md_in := inp\<rparr>))"

definition MD5Final :: "MD5Context \<Rightarrow> u8 list" where
  "MD5Final ctx =
     (let count = unat (drop_bit 3 (md_bits0 ctx) AND 0x3F);
          inp = store (md_in ctx) count [0x80];
          p = count + 1;
          count = 64 - 1 - count;
          (buf, inp) =
            (if count < 8
             then (MD5Transform (md_buf ctx) (byteReverse (store inp p (replicate count 0))), replicate 56 0 @ drop 56 inp)
             else (md_buf ctx, store inp p (replicate (count - 8) 0)));
          words = byteReverse (take 56 inp) @ [md_bits0 ctx, md_bits1 ctx]
      in concat (map le32 (MD5Transform buf words)))"

section \<open>HMAC\<close>

record HMACMD5Context =
  hm_ctx :: MD5Context
  k_ipad :: "u8 list"
  k_opad :: "u8 list"

definition hmac_md5_init_rfc2104 :: "u8 list \<Rightarrow> HMACMD5Context" where
  "hmac_md5_init_rfc2104 key =
     (let key = (if length key > 64 then MD5Final (MD5Update key MD5Init) else key);
          pad = store (replicate 65 0) 0 key;
          ipad = map (\<lambda>b. b XOR 0x36) (take 64 pad) @ drop 64 pad;
          opad = map (\<lambda>b. b XOR 0x5C) (take 64 pad) @ drop 64 pad
      in \<lparr>hm_ctx = MD5Update (take 64 ipad) MD5Init, k_ipad = ipad, k_opad = opad\<rparr>)"

definition hmac_md5_init_limK_to_64 :: "u8 list \<Rightarrow> HMACMD5Context" where
  "hmac_md5_init_limK_to_64 key = hmac_md5_init_rfc2104 (if length key > 64 then take 64 key else key)"

definition hmac_md5_update :: "u8 list \<Rightarrow> HMACMD5Context \<Rightarrow> HMACMD5Context" where
  "hmac_md5_update text ctx = ctx\<lparr>hm_ctx := MD5Update text (hm_ctx ctx)\<rparr>"

definition hmac_md5_final :: "HMACMD5Context \<Rightarrow> u8 list" where
  "hmac_md5_final ctx =
     (let digest = MD5Final (hm_ctx ctx);
          ctx_o = MD5Update (take 64 (k_opad ctx)) MD5Init;
          ctx_o = MD5Update digest ctx_o
      in MD5Final ctx_o)"

definition hmac_md5 :: "u8 list \<Rightarrow> u8 list \<Rightarrow> u8 list" where
  "hmac_md5 key data =
     (let ctx = hmac_md5_init_limK_to_64 (take 16 key)
      in hmac_md5_final (if data = [] then ctx else hmac_md5_update data ctx))"

section \<open>RC4 is a stream cipher\<close>

definition all_bytes :: "u8 multiset" where
  "all_bytes = mset (map of_nat [0..<256])"

lemma size_all_bytes: "size all_bytes = 256"
  by (simp only: all_bytes_def size_mset length_map length_upt)

lemma sbox_length: "mset box = all_bytes \<Longrightarrow> length box = 256"
  using size_all_bytes by (metis size_mset)

lemma swap_at_mset: "i < length xs \<Longrightarrow> j < length xs \<Longrightarrow> mset (swap_at xs i j) = mset xs"
  using mset_swap [of j xs i] by (simp add: swap_at_def)

lemma byte_index: "unat (b :: u8) < 256"
  using unsigned_less [of b] by simp

lemma mix_step_mset: "mset (fst st) = all_bytes \<Longrightarrow> ind < 256 \<Longrightarrow> mset (fst (mix_step key ind st)) = all_bytes"
  by (cases st) (auto simp: mix_step_def Let_def swap_at_mset sbox_length byte_index)

lemma mix_mset:
  "mset (fst st) = all_bytes \<Longrightarrow> \<forall>i\<in>set is. i < 256 \<Longrightarrow> mset (fst (fold (mix_step key) is st)) = all_bytes"
  by (induction "is" arbitrary: st) (auto simp: mix_step_mset)

lemma arcfour_init_mset: "arcfour_init key = Some st \<Longrightarrow> mset (sbox st) = all_bytes"
  using mix_mset [of "(map of_nat [0..<256], 0)" "[0..<256]" key]
  by (auto simp: arcfour_init_def all_bytes_def split: if_splits)

lemma arcfour_next_mset: "mset (sbox st) = all_bytes \<Longrightarrow> mset (sbox (snd (arcfour_next st))) = all_bytes"
  by (simp add: arcfour_next_def Let_def swap_at_mset sbox_length byte_index)

lemma arcfour_crypt_mset: "mset (sbox st) = all_bytes \<Longrightarrow> mset (sbox (fst (arcfour_crypt_sbox st data))) = all_bytes"
  by (induction st data rule: arcfour_crypt_sbox.induct) (auto dest: arcfour_next_mset split: prod.splits)

lemma arcfour_crypt_length [simp]: "length (snd (arcfour_crypt_sbox st data)) = length data"
  by (induction st data rule: arcfour_crypt_sbox.induct) (auto split: prod.splits)

lemma arcfour_crypt_inverse:
  "arcfour_crypt_sbox st data = (st', out) \<Longrightarrow> arcfour_crypt_sbox st out = (st', data)"
proof (induction st data arbitrary: st' out rule: arcfour_crypt_sbox.induct)
  case (2 st d data)
  obtain k st1 where k: "arcfour_next st = (k, st1)" by fastforce
  obtain out1 where out: "arcfour_crypt_sbox st1 data = (st', out1)" "out = (d XOR k) # out1"
    using "2.prems" by (auto simp: k split: prod.splits)
  have "arcfour_crypt_sbox st1 out1 = (st', data)" using "2.IH" [OF k [symmetric] out(1)] .
  then show ?case by (simp add: k out(2) xor.assoc)
qed simp

lemma arcfour_crypt_append:
  "arcfour_crypt_sbox st (xs @ ys) =
     (case arcfour_crypt_sbox st xs of (st, xs) \<Rightarrow>
      case arcfour_crypt_sbox st ys of (st, ys) \<Rightarrow> (st, xs @ ys))"
  by (induction st xs rule: arcfour_crypt_sbox.induct) (auto split: prod.splits)

section \<open>CRC-32 is the polynomial\<close>

text \<open>One shift of the register of the polynomial \<open>EDB88320\<close>, and the digest bit by bit.\<close>

definition crc_step :: "u32 \<Rightarrow> u32" where
  "crc_step c = (if bit c 0 then 0xEDB88320 XOR drop_bit 1 c else drop_bit 1 c)"

definition crc32_bitwise :: "u8 list \<Rightarrow> u32" where
  "crc32_bitwise buf = fold (\<lambda>p c. (crc_step ^^ 8) (c XOR ucast p)) buf (NOT 0) XOR NOT 0"

lemma crc_step_xor: "crc_step (x XOR y) = crc_step x XOR crc_step y"
proof -
  have "drop_bit 1 (x XOR y) = drop_bit 1 x XOR drop_bit 1 y" by (simp add: drop_bit_xor)
  then show ?thesis
    by (simp only: crc_step_def bit_xor_iff) (auto simp: ac_simps)
qed

lemma crc_steps_xor: "(crc_step ^^ n) (x XOR y) = (crc_step ^^ n) x XOR (crc_step ^^ n) y"
  by (induction n) (simp_all add: crc_step_xor)

lemma crc_steps_shift: "(\<And>m. m < n \<Longrightarrow> \<not> bit x m) \<Longrightarrow> (crc_step ^^ n) x = drop_bit n x"
proof (induction n)
  case (Suc n)
  then have "(crc_step ^^ n) x = drop_bit n x" by simp
  moreover have "\<not> bit (drop_bit n x) 0" using Suc.prems [of n] by (simp add: bit_drop_bit_eq)
  ultimately have "crc_step ((crc_step ^^ n) x) = drop_bit (Suc n) x"
    by (simp only: crc_step_def [of "drop_bit n x"] if_False) simp
  then show ?case by simp
qed simp

text \<open>
  By linearity the terms of the table are sums of those of the eight single bits, so the table doubles with each bit.
\<close>

definition double_table :: "u32 list \<Rightarrow> u32 \<Rightarrow> u32 list" where
  "double_table t b = t @ map (\<lambda>x. x XOR b) t"

lemma double_table_polynomial:
  assumes "t = map (\<lambda>i. (crc_step ^^ 8) (of_nat i)) [0..<2 ^ k]" "b = (crc_step ^^ 8) (2 ^ k)" "k < 8"
  shows "double_table t b = map (\<lambda>i. (crc_step ^^ 8) (of_nat i)) [0..<2 ^ Suc k]"
proof -
  have "(crc_step ^^ 8) (of_nat (2 ^ k + i)) = (crc_step ^^ 8) (of_nat i) XOR b" if "i < 2 ^ k" for i
  proof -
    have "\<not> bit i k" using that by (simp add: bit_iff_odd)
    then have dis: "\<not> bit (of_nat i :: u32) n \<or> \<not> bit (2 ^ k :: u32) n" for n
      by (auto simp: bit_simps bit_of_nat_iff)
    have "of_nat i XOR 2 ^ k = (of_nat i OR 2 ^ k :: u32)"
      by (rule bit_eqI) (use dis in \<open>auto simp: bit_or_iff bit_xor_iff\<close>)
    also have "\<dots> = of_nat i + 2 ^ k" using dis by (simp add: disjunctive_add)
    finally have "of_nat (2 ^ k + i) = (of_nat i XOR 2 ^ k :: u32)" by (simp add: add.commute)
    then show ?thesis by (simp only: crc_steps_xor assms(2))
  qed
  moreover have "[0..<2 ^ Suc k] = [0..<2 ^ k] @ map (\<lambda>i. 2 ^ k + i) [0..<2 ^ k]"
    using map_add_upt [of "2 ^ k" "2 ^ k"] upt_add_eq_append [of 0 "2 ^ k" "2 ^ k"] by (simp add: add.commute mult_2)
  ultimately show ?thesis by (simp add: double_table_def assms(1) comp_def)
qed

lemma crc32_tab_doubles:
  "crc32_tab = fold (\<lambda>b t. double_table t b)
     [0x77073096, 0xEE0E612C, 0x076DC419, 0x0EDB8832, 0x1DB71064, 0x3B6E20C8, 0x76DC4190, 0xEDB88320] [0]"
  by code_simp

lemma crc_basis:
  "map (\<lambda>k. (crc_step ^^ 8) (2 ^ k)) [0..<8] =
     [0x77073096, 0xEE0E612C, 0x076DC419, 0x0EDB8832, 0x1DB71064, 0x3B6E20C8, 0x76DC4190, 0xEDB88320]"
  by code_simp

lemma crc32_tab_polynomial: "crc32_tab = map (\<lambda>i. (crc_step ^^ 8) (of_nat i)) [0..<256]"
proof -
  let ?terms = "\<lambda>k. map (\<lambda>i. (crc_step ^^ 8) (of_nat i)) [0..<2 ^ k] :: u32 list"
  have "k \<le> 8 \<Longrightarrow> fold (\<lambda>k t. double_table t ((crc_step ^^ 8) (2 ^ k))) [0..<k] [0] = ?terms k" for k
  proof (induction k)
    case 0
    have "(crc_step ^^ 8) 0 = 0" using crc_steps_shift [of 8 0] by simp
    then show ?case by simp
  next
    case (Suc k)
    then show ?case using double_table_polynomial [of "?terms k" k] by simp
  qed
  from this [of 8] have "fold (\<lambda>k t. double_table t ((crc_step ^^ 8) (2 ^ k))) [0..<8] [0] = ?terms 8" by simp
  moreover have "fold (\<lambda>k t. double_table t ((crc_step ^^ 8) (2 ^ k))) [0..<8] [0] = crc32_tab"
    unfolding crc32_tab_doubles crc_basis [symmetric] fold_map comp_def ..
  ultimately show ?thesis by (simp del: upt_rec_numeral)
qed

lemma crc_byte:
  fixes c :: u32 and p :: u8
  shows "crc32_tab ! unat ((c XOR ucast p) AND 0xFF) XOR drop_bit 8 c = (crc_step ^^ 8) (c XOR ucast p)"
proof -
  let ?x = "c XOR ucast p"
  have split: "?x = (?x AND 0xFF) XOR (?x AND NOT 0xFF)"
    by (rule bit_word_eqI) (auto simp: bit_simps)
  have low: "unat (?x AND 0xFF) < 256"
  proof -
    have "?x AND 0xFF \<le> 0xFF" by (rule word_and_le1)
    then show ?thesis by (simp add: word_le_nat_alt)
  qed
  have "crc32_tab ! unat (?x AND 0xFF) = (crc_step ^^ 8) (?x AND 0xFF)"
    using low by (simp add: crc32_tab_polynomial del: upt_rec_numeral)
  moreover have ff: "(0xFF :: u32) = mask 8" by (simp add: mask_eq_exp_minus_1)
  moreover have "\<not> bit (?x AND NOT 0xFF) m" if "m < 8" for m
    using that unfolding ff by (auto simp: bit_simps)
  then have "(crc_step ^^ 8) (?x AND NOT 0xFF) = drop_bit 8 (?x AND NOT 0xFF)" by (rule crc_steps_shift)
  moreover have "drop_bit 8 (?x AND NOT 0xFF) = drop_bit 8 c"
    unfolding ff by (rule bit_word_eqI) (auto simp: bit_simps dest: bit_imp_le_length)
  ultimately show ?thesis using crc_steps_xor [of 8 "?x AND 0xFF" "?x AND NOT 0xFF"] split by metis
qed

lemma crc32_loop_bitwise: "crc32_loop c buf = fold (\<lambda>p c. (crc_step ^^ 8) (c XOR ucast p)) buf c"
  by (induction c buf rule: crc32_loop.induct) (simp_all add: crc_byte)

section \<open>MD5 of a message\<close>

text \<open>The reference: complete blocks are folded in, the rest is kept; the padding of RFC 1321 completes it.\<close>

function md5_absorb :: "u32 list \<Rightarrow> u8 list \<Rightarrow> u32 list \<times> u8 list" where
  "md5_absorb buf data =
     (if length data < 64 then (buf, data)
      else md5_absorb (MD5Transform buf (byteReverse (take 64 data))) (drop 64 data))"
  by pat_completeness auto
termination by (relation "measure (\<lambda>(buf, data). length data)") auto

declare md5_absorb.simps [simp del]

definition md5_pad :: "nat \<Rightarrow> u8 list" where
  "md5_pad n = 0x80 # replicate ((119 - n mod 64) mod 64) 0 @ le32 (of_nat (8 * n)) @ le32 (of_nat (8 * n div 2 ^ 32))"

definition md5_digest :: "u8 list \<Rightarrow> u8 list" where
  "md5_digest msg = concat (map le32 (fst (md5_absorb (md_buf MD5Init) (msg @ md5_pad (length msg)))))"

lemma absorb_short: "length data < 64 \<Longrightarrow> md5_absorb buf data = (buf, data)"
  by (subst md5_absorb.simps) simp

lemma absorb_block:
  "length b = 64 \<Longrightarrow> md5_absorb buf (b @ data) = md5_absorb (MD5Transform buf (byteReverse b)) data"
  by (subst md5_absorb.simps) simp

lemma absorb_append: "md5_absorb buf xs = (buf', r) \<Longrightarrow> md5_absorb buf (xs @ ys) = md5_absorb buf' (r @ ys)"
proof (induction buf xs rule: md5_absorb.induct)
  case (1 buf xs)
  show ?case
  proof (cases "length xs < 64")
    case True
    with "1.prems" show ?thesis by (simp add: absorb_short)
  next
    case False
    then have "md5_absorb (MD5Transform buf (byteReverse (take 64 xs))) (drop 64 xs) = (buf', r)"
      using "1.prems" by (subst (asm) md5_absorb.simps) simp
    with False "1.IH" have "md5_absorb (MD5Transform buf (byteReverse (take 64 xs))) (drop 64 xs @ ys) = md5_absorb buf' (r @ ys)"
      by simp
    with False show ?thesis by (subst md5_absorb.simps) simp
  qed
qed

lemma absorb_rest: "md5_absorb buf xs = (buf', r) \<Longrightarrow> length r = length xs mod 64"
proof (induction buf xs rule: md5_absorb.induct)
  case (1 buf xs)
  show ?case
  proof (cases "length xs < 64")
    case True
    with "1.prems" show ?thesis by (simp add: absorb_short)
  next
    case False
    then have "md5_absorb (MD5Transform buf (byteReverse (take 64 xs))) (drop 64 xs) = (buf', r)"
      using "1.prems" by (subst (asm) md5_absorb.simps) simp
    with False "1.IH" show ?thesis by (simp add: le_mod_geq)
  qed
qed

text \<open>The loop over the blocks leaves the rest at the start of the buffer.\<close>

lemma md5_chunks_absorb:
  "length inp = 64 \<Longrightarrow> md5_absorb buf data = (buf', r) \<Longrightarrow>
   \<exists>inp'. md5_chunks buf inp data = (buf', inp') \<and> length inp' = 64 \<and> take (length r) inp' = r"
proof (induction buf inp data rule: md5_chunks.induct)
  case (1 buf inp data)
  show ?case
  proof (cases "length data < 64")
    case True
    with "1.prems" show ?thesis by (subst md5_chunks.simps) (simp add: absorb_short store_def)
  next
    case False
    then have "md5_absorb (MD5Transform buf (byteReverse (take 64 data))) (drop 64 data) = (buf', r)"
      using "1.prems" by (subst (asm) md5_absorb.simps) simp
    with False "1.IH" show ?thesis by (subst md5_chunks.simps) simp
  qed
qed

text \<open>A context that has been given the message \<open>msg\<close>.\<close>

definition md5_holds :: "u8 list \<Rightarrow> MD5Context \<Rightarrow> bool" where
  "md5_holds msg ctx \<longleftrightarrow> length (md_in ctx) = 64 \<and> md_bits0 ctx = of_nat (8 * length msg) \<and>
     md_bits1 ctx = of_nat (8 * length msg div 2 ^ 32) \<and>
     (\<exists>r. md5_absorb (md_buf MD5Init) msg = (md_buf ctx, r) \<and> take (length r) (md_in ctx) = r)"

lemma md5_holds_Init: "md5_holds [] MD5Init"
  by (simp add: md5_holds_def absorb_short) (simp add: MD5Init_def)

lemma md5_position: "unat (drop_bit 3 (of_nat (8 * n) :: u32) AND 0x3F) = n mod 64"
proof -
  have "unat (drop_bit 3 w AND 0x3F) = unat w div 8 mod 64" for w :: u32
  proof -
    have "drop_bit 3 w AND 0x3F = take_bit 6 (drop_bit 3 w)" by (simp add: take_bit_eq_mask mask_eq_exp_minus_1)
    then have "unat (drop_bit 3 w AND 0x3F) = take_bit 6 (unat w div 2 ^ 3)"
      by (simp only: unsigned_take_bit_eq unat_drop_bit32)
    then show ?thesis by (simp add: take_bit_eq_mod)
  qed
  then have "unat (drop_bit 3 (of_nat (8 * n) :: u32) AND 0x3F) = (8 * n mod 2 ^ 32) div 8 mod 64"
    by (simp only: unat_of_nat_mod)
  also have "8 * n mod 2 ^ 32 = 8 * (n mod 2 ^ 29)" using mod_mult_mult1 [of 8 n "2 ^ 29"] by simp
  also have "8 * (n mod 2 ^ 29) div 8 mod 64 = n mod 2 ^ 29 mod 64" by simp
  also have "\<dots> = n mod 64" by (simp add: mod_mod_cancel)
  finally show ?thesis .
qed

lemma div_add_carry: "(a + b) div M = a div M + (if M \<le> a mod M + b mod M then 1 else 0) + b div M" if "0 < M" for M :: nat
proof -
  have "a mod M + b mod M < 2 * M" using mod_less_divisor [OF that, of a] mod_less_divisor [OF that, of b] by linarith
  then have "(a mod M + b mod M) div M = (if M \<le> a mod M + b mod M then 1 else 0)"
    using that by (auto simp: le_div_geq)
  then show ?thesis by (simp add: div_add1_eq [of a b M])
qed

lemma u32_carry: "a + b < a \<longleftrightarrow> 2 ^ 32 \<le> unat a + unat b" for a b :: u32
proof -
  have "unat (a + b) = (unat a + unat b) mod 2 ^ 32" by (simp add: unat_word_ariths)
  moreover have "unat a < 2 ^ 32" "unat b < 2 ^ 32" using unsigned_less [of a] unsigned_less [of b] by simp_all
  ultimately show ?thesis by (cases "unat a + unat b < 2 ^ 32") (auto simp: word_less_nat_alt mod_if)
qed

lemma md5_count:
  fixes n len :: nat
  assumes "len < 2 ^ 64"
  shows "(of_nat (8 * n) :: u32) + push_bit 3 (of_nat len) = of_nat (8 * (n + len))"
    and "(of_nat (8 * n div 2 ^ 32) :: u32) + (if of_nat (8 * n) + push_bit 3 (of_nat len) < (of_nat (8 * n) :: u32) then 1 else 0) +
           ucast (drop_bit 29 (of_nat len :: u64)) = of_nat (8 * (n + len) div 2 ^ 32)"
proof -
  have push: "push_bit 3 (of_nat len) = (of_nat (8 * len) :: u32)" by (simp add: push_bit_eq_mult mult.commute)
  then show "(of_nat (8 * n) :: u32) + push_bit 3 (of_nat len) = of_nat (8 * (n + len))" by simp
  have "unat (drop_bit 29 (of_nat len :: u64)) = len div 2 ^ 29"
    using assms by (simp only: unat_drop_bit64 unat_of_nat_small) (simp add: unat_of_nat_small)
  then have high: "ucast (drop_bit 29 (of_nat len :: u64)) = (of_nat (len div 2 ^ 29) :: u32)"
    by (metis of_nat_unat)
  have eq: "8 * len div 2 ^ 32 = len div 2 ^ 29" by simp
  have "8 * (n + len) div 2 ^ 32 =
      8 * n div 2 ^ 32 + (if 2 ^ 32 \<le> 8 * n mod 2 ^ 32 + 8 * len mod 2 ^ 32 then 1 else 0) + len div 2 ^ 29"
    unfolding eq [symmetric] distrib_left by (rule div_add_carry) simp
  then have "of_nat (8 * (n + len) div 2 ^ 32) = (of_nat (8 * n div 2 ^ 32) :: u32) +
      (if 2 ^ 32 \<le> 8 * n mod 2 ^ 32 + 8 * len mod 2 ^ 32 then 1 else 0) + of_nat (len div 2 ^ 29)"
    by (simp only: of_nat_add if_distrib [of of_nat] of_nat_1 semiring_1_class.of_nat_0)
  then show "(of_nat (8 * n div 2 ^ 32) :: u32) + (if of_nat (8 * n) + push_bit 3 (of_nat len) < (of_nat (8 * n) :: u32) then 1 else 0) +
           ucast (drop_bit 29 (of_nat len :: u64)) = of_nat (8 * (n + len) div 2 ^ 32)"
    unfolding push high u32_carry unat_of_nat_mod by (simp only:)
qed

lemma md5_holds_Update:
  assumes "md5_holds msg ctx" "length data < 2 ^ 64"
  shows "md5_holds (msg @ data) (MD5Update data ctx)"
proof -
  obtain r where r: "md5_absorb (md_buf MD5Init) msg = (md_buf ctx, r)" "take (length r) (md_in ctx) = r"
    and len: "length (md_in ctx) = 64" and bits: "md_bits0 ctx = of_nat (8 * length msg)" "md_bits1 ctx = of_nat (8 * length msg div 2 ^ 32)"
    using assms(1) by (auto simp: md5_holds_def)
  let ?t = "length r"
  have t: "unat (drop_bit 3 (md_bits0 ctx) AND 0x3F) = ?t" "?t < 64"
    using md5_position [of "length msg"] absorb_rest [OF r(1)] by (simp_all add: bits(1))
  have app: "md5_absorb (md_buf MD5Init) (msg @ data) = md5_absorb (md_buf ctx) (r @ data)" by (rule absorb_append [OF r(1)])
  define c where "c = count_bits (length data) ctx"
  have c: "md_bits0 c = of_nat (8 * length (msg @ data))" "md_bits1 c = of_nat (8 * length (msg @ data) div 2 ^ 32)"
    "md_buf c = md_buf ctx" "md_in c = md_in ctx"
  proof -
    note count = md5_count [OF assms(2), of "length msg", folded bits]
    show "md_bits0 c = of_nat (8 * length (msg @ data))" using count(1) by (simp only: c_def count_bits_def Let_def length_append) simp
    show "md_bits1 c = of_nat (8 * length (msg @ data) div 2 ^ 32)"
      unfolding length_append count(2) [symmetric] by (simp add: c_def count_bits_def Let_def)
  qed (simp_all add: c_def count_bits_def Let_def)
  have holds: "md5_holds (msg @ data) (c\<lparr>md_buf := b, md_in := i\<rparr>)"
    if "md5_absorb (md_buf ctx) (r @ data) = (b, r')" "length i = 64" "take (length r') i = r'" for b i r'
    using that c app by (simp add: md5_holds_def)
  show ?thesis
  proof (cases "length data < 64 - ?t")
    case True
    then have "MD5Update data ctx = c\<lparr>md_buf := md_buf ctx, md_in := store (md_in ctx) ?t data\<rparr>"
      using md5_chunks.simps [of "md_buf ctx" "md_in ctx" data]
      by (auto simp: MD5Update_def Let_def t(1) c_def [symmetric] c)
    also have "md5_holds (msg @ data) \<dots>"
      using True len t(2) r(2) by (intro holds [where r' = "r @ data"]) (auto simp: absorb_short store_def)
    finally show ?thesis .
  next
    case False
    let ?inp = "store (md_in ctx) ?t (take (64 - ?t) data)"
    have inp: "?inp = r @ take (64 - ?t) data" using False len t(2) r(2) by (simp add: store_def)
    have l: "length ?inp = 64" using False t(2) by (simp add: inp)
    obtain b r' where abs: "md5_absorb (md_buf ctx) (r @ data) = (b, r')" by fastforce
    have "r @ data = ?inp @ drop (64 - ?t) data" by (simp add: inp)
    then have "md5_absorb (MD5Transform (md_buf ctx) (byteReverse ?inp)) (drop (64 - ?t) data) = (b, r')"
      using abs absorb_block [OF l, of "md_buf ctx" "drop (64 - ?t) data"] by (simp only:)
    from md5_chunks_absorb [OF l this] obtain i where
      i: "md5_chunks (MD5Transform (md_buf ctx) (byteReverse ?inp)) ?inp (drop (64 - ?t) data) = (b, i)" "length i = 64" "take (length r') i = r'"
      by auto
    show ?thesis
    proof (cases "?t = 0")
      case True
      then have "r @ data = data" by simp
      with abs obtain i where "md5_chunks (md_buf ctx) (md_in ctx) data = (b, i)" "length i = 64" "take (length r') i = r'"
        using md5_chunks_absorb [OF len, of "md_buf ctx" data b r'] by auto
      then show ?thesis using True holds [OF abs] by (simp add: MD5Update_def Let_def t(1) c_def [symmetric] c)
    next
      case nz: False
      then have "MD5Update data ctx = c\<lparr>md_buf := b, md_in := i\<rparr>"
        using False i(1) by (simp add: MD5Update_def Let_def t(1) c_def [symmetric] c)
      then show ?thesis using holds [OF abs i(2,3)] by simp
    qed
  qed
qed

lemma byteReverse_append: "4 dvd length xs \<Longrightarrow> byteReverse (xs @ ys) = byteReverse xs @ byteReverse ys"
proof (induction xs rule: byteReverse.induct)
  case (1 b0 b1 b2 b3 bs)
  then have "4 dvd length bs" by simp presburger
  with 1 show ?case by simp
qed (auto dest: dvd_imp_le)

lemma byteReverse_le32: "byteReverse (le32 w @ ys) = w # byteReverse ys"
proof -
  have "byteReverse (le32 (join4 a b c d) @ ys) = join4 a b c d # byteReverse ys" for a b c d
    by (simp only: le32_join4 append.simps byteReverse.simps) (simp add: join4_def ac_simps)
  from this [of "ucast w" "ucast (drop_bit 8 w)" "ucast (drop_bit 16 w)" "ucast (drop_bit 24 w)"]
  show ?thesis by (simp only: le32_join)
qed

lemma MD5Final_digest:
  assumes "md5_holds msg ctx"
  shows "MD5Final ctx = md5_digest msg"
proof -
  obtain r where r: "md5_absorb (md_buf MD5Init) msg = (md_buf ctx, r)" "take (length r) (md_in ctx) = r"
    and len: "length (md_in ctx) = 64" and bits: "md_bits0 ctx = of_nat (8 * length msg)" "md_bits1 ctx = of_nat (8 * length msg div 2 ^ 32)"
    using assms by (auto simp: md5_holds_def)
  let ?c = "length r" and ?L = "le32 (md_bits0 ctx) @ le32 (md_bits1 ctx)"
  have c: "length msg mod 64 = ?c" "?c < 64" using absorb_rest [OF r(1)] by simp_all
  have pos: "unat (drop_bit 3 (md_bits0 ctx) AND 0x3F) = ?c" using md5_position [of "length msg"] c(1) by (simp add: bits(1))
  have pad: "md5_pad (length msg) = 0x80 # replicate ((119 - ?c) mod 64) 0 @ ?L" by (simp add: md5_pad_def bits c(1))
  have digest: "md5_digest msg = concat (map le32 (fst (md5_absorb (md_buf ctx) (r @ 0x80 # replicate ((119 - ?c) mod 64) 0 @ ?L))))"
    by (simp only: md5_digest_def absorb_append [OF r(1)] pad)
  have words: "byteReverse (xs @ ?L) = byteReverse xs @ [md_bits0 ctx, md_bits1 ctx]" if "length xs = 56" for xs
    using that by (simp add: byteReverse_append byteReverse_le32) (use byteReverse_le32 [of "md_bits1 ctx" "[]"] in simp)
  have inp: "store (md_in ctx) ?c [0x80] = r @ 0x80 # drop (?c + 1) (md_in ctx)"
    using len c(2) r(2) by (simp add: store_def)
  have last: "fst (md5_absorb b (xs @ ?L)) = MD5Transform b (byteReverse xs @ [md_bits0 ctx, md_bits1 ctx])"
    if "length xs = 56" for b xs
    using absorb_block [of "xs @ ?L" b "[]"] that by (simp add: words absorb_short)
  show ?thesis
  proof (cases "?c < 56")
    case True
    let ?xs = "r @ 0x80 # replicate (55 - ?c) 0"
    have "(119 - ?c) mod 64 = 55 - ?c" using True by (simp add: mod_if)
    then have "md5_digest msg = concat (map le32 (MD5Transform (md_buf ctx) (byteReverse ?xs @ [md_bits0 ctx, md_bits1 ctx])))"
      using last [of ?xs "md_buf ctx"] True by (simp add: digest)
    moreover have "take 56 (store (r @ 0x80 # drop (?c + 1) (md_in ctx)) (?c + 1) (replicate (63 - ?c - 8) 0)) = ?xs"
    proof -
      have "56 - ?c = Suc (55 - ?c)" using True by simp
      then show ?thesis using True len by (simp add: store_def)
    qed
    moreover have "\<not> 63 - ?c < 8" using True by simp
    ultimately show ?thesis by (simp add: MD5Final_def Let_def pos inp)
  next
    case False
    let ?b = "r @ 0x80 # replicate (63 - ?c) 0"
    have "(119 - ?c) mod 64 = (63 - ?c) + 56" using False c(2) by simp
    then have "r @ 0x80 # replicate ((119 - ?c) mod 64) 0 @ ?L = ?b @ replicate 56 0 @ ?L"
      by (simp only: replicate_add append_Cons append_assoc)
    moreover have "length ?b = 64" using c(2) by simp
    ultimately have "md5_digest msg = concat (map le32 (MD5Transform (MD5Transform (md_buf ctx) (byteReverse ?b))
        (byteReverse (replicate 56 0) @ [md_bits0 ctx, md_bits1 ctx])))"
      by (simp only: digest absorb_block last length_replicate)
    moreover have "store (r @ 0x80 # drop (?c + 1) (md_in ctx)) (?c + 1) (replicate (63 - ?c) 0) = ?b"
      using c(2) len by (simp add: store_def)
    moreover have "63 - ?c < 8" using False c(2) by simp
    moreover have "take 56 (replicate 56 0 @ xs) = replicate 56 (0 :: u8)" for xs by simp
    ultimately show ?thesis by (simp add: MD5Final_def Let_def pos inp)
  qed
qed

lemma md5_holds_updates:
  "md5_holds msg ctx \<Longrightarrow> \<forall>c\<in>set chunks. length c < 2 ^ 64 \<Longrightarrow> md5_holds (msg @ concat chunks) (fold MD5Update chunks ctx)"
proof (induction chunks arbitrary: msg ctx)
  case (Cons c chunks)
  then show ?case using md5_holds_Update [of msg ctx c] by fastforce
qed simp

lemma length_md5_digest [simp]: "length (md5_digest msg) = 16"
proof -
  have "length (fst (md5_absorb buf data)) = 4" if "length buf = 4" for buf data
    using that
  proof (induction buf data rule: md5_absorb.induct)
    case (1 buf data)
    moreover have "length (MD5Transform b w) = 4" for b w by (simp add: MD5Transform_def split: prod.splits)
    ultimately show ?case by (subst md5_absorb.simps) auto
  qed
  then show ?thesis
    by (simp add: md5_digest_def length_concat comp_def MD5Init_def sum_list_triv)
qed

lemma MD5_message: "length msg < 2 ^ 64 \<Longrightarrow> MD5Final (MD5Update msg MD5Init) = md5_digest msg"
  using MD5Final_digest [OF md5_holds_Update [OF md5_holds_Init, of msg]] by simp

section \<open>HMAC\<close>

text \<open>RFC 2104 with blocks of 64 bytes.\<close>

definition hmac_digest :: "u8 list \<Rightarrow> u8 list \<Rightarrow> u8 list" where
  "hmac_digest key msg =
     (let pad = key @ replicate (64 - length key) 0
      in md5_digest (map (\<lambda>b. b XOR 0x5C) pad @ md5_digest (map (\<lambda>b. b XOR 0x36) pad @ msg)))"

lemma hmac_updates:
  assumes "length key \<le> 64" "\<forall>c\<in>set chunks. length c < 2 ^ 64"
  shows "hmac_md5_final (fold hmac_md5_update chunks (hmac_md5_init_rfc2104 key)) = hmac_digest key (concat chunks)"
proof -
  let ?pad = "key @ replicate (64 - length key) 0"
  let ?i = "map (\<lambda>b. b XOR 0x36) ?pad" and ?o = "map (\<lambda>b. b XOR 0x5C) ?pad"
  have take: "take 64 (store (replicate 65 0) 0 key) = ?pad" using assms(1) by (simp add: store_def)
  have init: "hm_ctx (hmac_md5_init_rfc2104 key) = MD5Update ?i MD5Init" "take 64 (k_opad (hmac_md5_init_rfc2104 key)) = ?o"
    using assms(1) by (simp_all add: hmac_md5_init_rfc2104_def Let_def take del: map_append)
  have upd: "hm_ctx (fold hmac_md5_update chunks ctx) = fold MD5Update chunks (hm_ctx ctx)"
    "k_opad (fold hmac_md5_update chunks ctx) = k_opad ctx" for ctx
    by (induction chunks arbitrary: ctx) (simp_all add: hmac_md5_update_def)
  have len: "length ?i < 2 ^ 64" "length ?o < 2 ^ 64" using assms(1) by simp_all
  have "md5_holds (?i @ concat chunks) (fold MD5Update chunks (MD5Update ?i MD5Init))"
    using md5_holds_updates [OF md5_holds_Update [OF md5_holds_Init len(1)] assms(2)] by simp
  then have inner: "MD5Final (hm_ctx (fold hmac_md5_update chunks (hmac_md5_init_rfc2104 key))) = md5_digest (?i @ concat chunks)"
    by (simp only: upd init MD5Final_digest)
  have outer: "MD5Final (MD5Update d (MD5Update ?o MD5Init)) = md5_digest (?o @ d)" if "length d < 2 ^ 64" for d
    using MD5Final_digest [OF md5_holds_Update [OF md5_holds_Update [OF md5_holds_Init len(2)] that]] by simp
  let ?x = "fold hmac_md5_update chunks (hmac_md5_init_rfc2104 key)"
  have "hmac_md5_final ?x = MD5Final (MD5Update (MD5Final (hm_ctx ?x)) (MD5Update (take 64 (k_opad ?x)) MD5Init))"
    by (simp only: hmac_md5_final_def Let_def)
  also have "\<dots> = MD5Final (MD5Update (md5_digest (?i @ concat chunks)) (MD5Update ?o MD5Init))"
    by (simp only: inner upd(2) init(2))
  also have "\<dots> = md5_digest (?o @ md5_digest (?i @ concat chunks))" by (rule outer) (simp only: length_md5_digest, simp)
  finally show ?thesis by (simp only: hmac_digest_def Let_def)
qed

section \<open>Properties\<close>

text \<open>C17: RC4 as a stream cipher.  Every non-empty key gives a state whose box is a permutation of the bytes; encrypting
  keeps it one; decrypting with the same state gives the text back and leaves the same state; and a text may be
  processed in pieces.\<close>

theorem arcfour_stream_cipher:
  assumes "arcfour_init key = Some state"
  shows "mset (sbox state) = all_bytes \<and>
     mset (sbox (fst (arcfour_crypt_sbox state data))) = all_bytes \<and>
     arcfour_crypt_sbox state (snd (arcfour_crypt_sbox state data)) = (fst (arcfour_crypt_sbox state data), data) \<and>
     arcfour_crypt_sbox state (data @ next_data) =
       (case arcfour_crypt_sbox state data of (state1, out1) \<Rightarrow>
        case arcfour_crypt_sbox state1 next_data of (state2, out2) \<Rightarrow> (state2, out1 @ out2))"
  using arcfour_init_mset [OF assms] arcfour_crypt_mset [of state data] arcfour_crypt_inverse [of state data]
    arcfour_crypt_append [of state data next_data]
  by (cases "arcfour_crypt_sbox state data") auto

theorem arcfour_stream_cipher_witness:
  "\<exists>state. arcfour_init [75, 101, 121] = Some state \<and> mset (sbox state) = all_bytes \<and>
     arcfour_crypt_sbox state (snd (arcfour_crypt_sbox state [80, 108])) = (fst (arcfour_crypt_sbox state [80, 108]), [80, 108])"
proof -
  obtain state where "arcfour_init [75, 101, 121] = Some state" by (simp add: arcfour_init_def)
  then show ?thesis using arcfour_stream_cipher [of "[75, 101, 121]" state "[80, 108]" "[]"] by blast
qed

text \<open>C21: the table driven CRC-32 is the bitwise division by the polynomial \<open>EDB88320\<close>, for every buffer.\<close>

theorem crc32_table_correct: "crc32_calc_buffer buf = crc32_bitwise buf"
  by (simp add: crc32_calc_buffer_def crc32_bitwise_def crc32_loop_bitwise)

text \<open>C8: MD5.  However a message is cut into calls of \<open>MD5Update\<close>, \<open>MD5Final\<close> gives the digest of the whole message:
  the transformations of its blocks after the padding of RFC 1321, with its length in bits modulo \<open>2^64\<close>.\<close>

theorem md5_any_chunks:
  assumes "\<forall>c\<in>set chunks. length c < 2 ^ 64"
  shows "MD5Final (fold MD5Update chunks MD5Init) = md5_digest (concat chunks)"
  using MD5Final_digest [OF md5_holds_updates [OF md5_holds_Init assms]] by simp

theorem md5_any_chunks_witness:
  "MD5Final (fold MD5Update [[97], [], [98, 99]] MD5Init) = md5_digest [97, 98, 99]"
  using md5_any_chunks [of "[[97], [], [98, 99]]"] by simp

text \<open>C20: keyed digests.  With a key cut to 64 bytes and the text given in any pieces, the result is the HMAC of RFC 2104
  over MD5.\<close>

theorem hmac_md5_correct:
  assumes "\<forall>c\<in>set chunks. length c < 2 ^ 64"
  shows "hmac_md5_final (fold hmac_md5_update chunks (hmac_md5_init_limK_to_64 key)) = hmac_digest (take 64 key) (concat chunks)"
  using hmac_updates [of "take 64 key" chunks] assms by (auto simp: hmac_md5_init_limK_to_64_def)

theorem hmac_md5_correct_witness:
  "hmac_md5_final (fold hmac_md5_update [[72, 105], [32]] (hmac_md5_init_limK_to_64 (replicate 16 11))) =
     hmac_digest (replicate 16 11) [72, 105, 32]"
  using hmac_md5_correct [of "[[72, 105], [32]]" "replicate 16 11"] by simp

end
