(* ===== verification/Ntlmssp.thy ===== *)
theory Ntlmssp
  imports Crypto
begin

text \<open>
  Signing and sealing of the messages of an NTLMSSP session, \<open>auth/ntlmssp/ntlmssp_sign.c\<close>, with the weakening of keys
  and the features of \<open>auth/ntlmssp/ntlmssp.c\<close>.

  \<^item> The data of a message lies inside the packet that is signed; it is given by its place in it, so that sealing
    changes the packet.  A place outside the packet gives \<open>None\<close>, and so does the use of a state whose keys have not
    been set up.
  \<^item> The union \<open>crypt\<close> is a datatype whose constructors are its two structures.

  Shown: the states of a client and a server that start from the same key and flags fit together, and whatever
  messages go between them, each is accepted, is delivered unchanged, and leaves the states fitting; a message is
  accepted only with the one signature that was computed for it; and an NTLM2 signature is never accepted again at
  another sequence number.
\<close>

section \<open>States\<close>

datatype ntlmssp_role = NTLMSSP_SERVER | NTLMSSP_CLIENT

record ntlm_crypt =
  nt_seq_num :: u32
  nt_arcfour_state :: arcfour_state

record ntlm2_crypt =
  send_seq_num :: u32
  recv_seq_num :: u32
  send_sign_key :: "u8 list"
  recv_sign_key :: "u8 list"
  send_seal_arcfour_state :: arcfour_state
  recv_seal_arcfour_state :: arcfour_state

datatype crypt_state = No_Crypt | Ntlm ntlm_crypt | Ntlm2 ntlm2_crypt

record gensec_ntlmssp_state =
  ns_role :: ntlmssp_role
  ns_session_key :: "u8 list"
  ns_neg_flags :: u32
  ns_crypt :: crypt_state

definition NTLMSSP_NEGOTIATE_SIGN :: u32 where "NTLMSSP_NEGOTIATE_SIGN = 0x00000010"
definition NTLMSSP_NEGOTIATE_SEAL :: u32 where "NTLMSSP_NEGOTIATE_SEAL = 0x00000020"
definition NTLMSSP_NEGOTIATE_LM_KEY :: u32 where "NTLMSSP_NEGOTIATE_LM_KEY = 0x00000080"
definition NTLMSSP_NEGOTIATE_NTLM2 :: u32 where "NTLMSSP_NEGOTIATE_NTLM2 = 0x00080000"
definition NTLMSSP_NEGOTIATE_128 :: u32 where "NTLMSSP_NEGOTIATE_128 = 0x20000000"
definition NTLMSSP_NEGOTIATE_KEY_EXCH :: u32 where "NTLMSSP_NEGOTIATE_KEY_EXCH = 0x40000000"
definition NTLMSSP_NEGOTIATE_56 :: u32 where "NTLMSSP_NEGOTIATE_56 = 0x80000000"
definition NTLMSSP_SIGN_VERSION :: u32 where "NTLMSSP_SIGN_VERSION = 1"
definition NTLMSSP_SIG_SIZE :: nat where "NTLMSSP_SIG_SIZE = 16"
definition NT_STATUS_NO_USER_SESSION_KEY :: ntstatus where "NT_STATUS_NO_USER_SESSION_KEY = 0xC0000202"

definition negotiated :: "u32 \<Rightarrow> gensec_ntlmssp_state \<Rightarrow> bool" where
  "negotiated flag st \<longleftrightarrow> ns_neg_flags st AND flag \<noteq> 0"

definition string_bytes :: "string \<Rightarrow> u8 list" where
  "string_bytes s = map of_char s"

definition CLI_SIGN :: string where "CLI_SIGN = ''session key to client-to-server signing key magic constant''"
definition CLI_SEAL :: string where "CLI_SEAL = ''session key to client-to-server sealing key magic constant''"
definition SRV_SIGN :: string where "SRV_SIGN = ''session key to server-to-client signing key magic constant''"
definition SRV_SEAL :: string where "SRV_SEAL = ''session key to server-to-client sealing key magic constant''"

definition calc_ntlmv2_key :: "u8 list \<Rightarrow> string \<Rightarrow> u8 list" where
  "calc_ntlmv2_key session_key constant =
     MD5Final (MD5Update (string_bytes constant @ [0]) (MD5Update session_key MD5Init))"

text \<open>\<open>msrpc_gen\<close> with the format \<open>dddd\<close>.\<close>

definition msrpc_gen_dddd :: "u32 \<Rightarrow> u32 \<Rightarrow> u32 \<Rightarrow> u32 \<Rightarrow> u8 list" where
  "msrpc_gen_dddd a b c d = le32 a @ le32 b @ le32 c @ le32 d"

section \<open>Signatures\<close>

datatype ntlmssp_direction = NTLMSSP_SEND | NTLMSSP_RECEIVE

definition packet_digest :: "u8 list \<Rightarrow> u8 list \<Rightarrow> u8 list \<Rightarrow> u8 list" where
  "packet_digest sign_key seq_num whole_pdu =
     hmac_md5_final (hmac_md5_update whole_pdu (hmac_md5_update seq_num (hmac_md5_init_limK_to_64 sign_key)))"

definition ntlm2_signature :: "u8 list \<Rightarrow> u8 list \<Rightarrow> u8 list" where
  "ntlm2_signature digest seq_num = le32 NTLMSSP_SIGN_VERSION @ take 8 digest @ seq_num"

definition ntlmssp_make_packet_signature ::
  "gensec_ntlmssp_state \<Rightarrow> u8 list \<Rightarrow> u8 list \<Rightarrow> ntlmssp_direction \<Rightarrow> bool \<Rightarrow> (u8 list \<times> gensec_ntlmssp_state) option" where
  "ntlmssp_make_packet_signature st data whole_pdu direction encrypt_sig =
     (if negotiated NTLMSSP_NEGOTIATE_NTLM2 st
      then (case ns_crypt st of
              Ntlm2 c \<Rightarrow>
                (case direction of
                   NTLMSSP_SEND \<Rightarrow>
                     let seq_num = le32 (send_seq_num c);
                         c = c\<lparr>send_seq_num := send_seq_num c + 1\<rparr>;
                         digest = packet_digest (send_sign_key c) seq_num whole_pdu
                     in if encrypt_sig \<and> negotiated NTLMSSP_NEGOTIATE_KEY_EXCH st
                        then (case arcfour_crypt_sbox (send_seal_arcfour_state c) (take 8 digest) of
                                (a, digest) \<Rightarrow> Some (ntlm2_signature digest seq_num,
                                  st\<lparr>ns_crypt := Ntlm2 (c\<lparr>send_seal_arcfour_state := a\<rparr>)\<rparr>))
                        else Some (ntlm2_signature digest seq_num, st\<lparr>ns_crypt := Ntlm2 c\<rparr>)
                 | NTLMSSP_RECEIVE \<Rightarrow>
                     let seq_num = le32 (recv_seq_num c);
                         c = c\<lparr>recv_seq_num := recv_seq_num c + 1\<rparr>;
                         digest = packet_digest (recv_sign_key c) seq_num whole_pdu
                     in if encrypt_sig \<and> negotiated NTLMSSP_NEGOTIATE_KEY_EXCH st
                        then (case arcfour_crypt_sbox (recv_seal_arcfour_state c) (take 8 digest) of
                                (a, digest) \<Rightarrow> Some (ntlm2_signature digest seq_num,
                                  st\<lparr>ns_crypt := Ntlm2 (c\<lparr>recv_seal_arcfour_state := a\<rparr>)\<rparr>))
                        else Some (ntlm2_signature digest seq_num, st\<lparr>ns_crypt := Ntlm2 c\<rparr>))
            | _ \<Rightarrow> None)
      else (case ns_crypt st of
              Ntlm c \<Rightarrow>
                let crc = crc32_calc_buffer data;
                    sig = msrpc_gen_dddd NTLMSSP_SIGN_VERSION 0 crc (nt_seq_num c)
                in (case arcfour_crypt_sbox (nt_arcfour_state c) (drop 4 sig) of
                      (a, s) \<Rightarrow> Some (take 4 sig @ s,
                        st\<lparr>ns_crypt := Ntlm (c\<lparr>nt_seq_num := nt_seq_num c + 1, nt_arcfour_state := a\<rparr>)\<rparr>))
            | _ \<Rightarrow> None))"

text \<open>The data of a packet, and the packet with other data.\<close>

definition pdu_data :: "u8 list \<Rightarrow> nat \<Rightarrow> nat \<Rightarrow> u8 list option" where
  "pdu_data pdu ofs len = (if ofs + len \<le> length pdu then Some (take len (drop ofs pdu)) else None)"

definition gensec_ntlmssp_sign_packet ::
  "gensec_ntlmssp_state \<Rightarrow> u8 list \<Rightarrow> nat \<Rightarrow> nat \<Rightarrow> (u8 list \<times> gensec_ntlmssp_state) option" where
  "gensec_ntlmssp_sign_packet st pdu ofs len =
     do { data \<leftarrow> pdu_data pdu ofs len; ntlmssp_make_packet_signature st data pdu NTLMSSP_SEND True }"

definition ntlmssp_check_signature ::
  "gensec_ntlmssp_state \<Rightarrow> u8 list \<Rightarrow> u8 list \<Rightarrow> u8 list \<Rightarrow> (ntstatus \<times> gensec_ntlmssp_state) option" where
  "ntlmssp_check_signature st data pdu sig =
     (if ns_session_key st = [] then Some (NT_STATUS_NO_USER_SESSION_KEY, st)
      else do { (local_sig, st) \<leftarrow> ntlmssp_make_packet_signature st data pdu NTLMSSP_RECEIVE True;
                Some (if negotiated NTLMSSP_NEGOTIATE_NTLM2 st
                      then if length local_sig \<noteq> length sig \<or> local_sig \<noteq> sig then NT_STATUS_ACCESS_DENIED else NT_STATUS_OK
                      else if length local_sig \<noteq> length sig \<or> drop 8 local_sig \<noteq> drop 8 sig
                           then NT_STATUS_ACCESS_DENIED else NT_STATUS_OK, st) })"

definition gensec_ntlmssp_check_packet ::
  "gensec_ntlmssp_state \<Rightarrow> u8 list \<Rightarrow> nat \<Rightarrow> nat \<Rightarrow> u8 list \<Rightarrow> (ntstatus \<times> gensec_ntlmssp_state) option" where
  "gensec_ntlmssp_check_packet st pdu ofs len sig =
     (if ns_session_key st = [] then Some (NT_STATUS_NO_USER_SESSION_KEY, st)
      else do { data \<leftarrow> pdu_data pdu ofs len; ntlmssp_check_signature st data pdu sig })"

lemma check_packet_eq:
  "gensec_ntlmssp_check_packet st pdu ofs len sig =
     (if ns_session_key st = [] then Some (NT_STATUS_NO_USER_SESSION_KEY, st)
      else do { data \<leftarrow> pdu_data pdu ofs len;
                (local_sig, st) \<leftarrow> ntlmssp_make_packet_signature st data pdu NTLMSSP_RECEIVE True;
                Some (if negotiated NTLMSSP_NEGOTIATE_NTLM2 st
                      then if length local_sig \<noteq> length sig \<or> local_sig \<noteq> sig then NT_STATUS_ACCESS_DENIED else NT_STATUS_OK
                      else if length local_sig \<noteq> length sig \<or> drop 8 local_sig \<noteq> drop 8 sig
                           then NT_STATUS_ACCESS_DENIED else NT_STATUS_OK, st) })"
  by (simp add: gensec_ntlmssp_check_packet_def ntlmssp_check_signature_def)

definition gensec_ntlmssp_seal_packet ::
  "gensec_ntlmssp_state \<Rightarrow> u8 list \<Rightarrow> nat \<Rightarrow> nat \<Rightarrow> (ntstatus \<times> u8 list \<times> u8 list \<times> gensec_ntlmssp_state) option" where
  "gensec_ntlmssp_seal_packet st pdu ofs len =
     (if ns_session_key st = [] then Some (NT_STATUS_NO_USER_SESSION_KEY, [], pdu, st)
      else do {
        data \<leftarrow> pdu_data pdu ofs len;
        if negotiated NTLMSSP_NEGOTIATE_NTLM2 st
        then do {
          (sig, st) \<leftarrow> ntlmssp_make_packet_signature st data pdu NTLMSSP_SEND False;
          (case ns_crypt st of
             Ntlm2 c \<Rightarrow>
               (case arcfour_crypt_sbox (send_seal_arcfour_state c) data of
                  (a, data) \<Rightarrow>
                    if negotiated NTLMSSP_NEGOTIATE_KEY_EXCH st
                    then (case arcfour_crypt_sbox a (take 8 (drop 4 sig)) of
                            (a, s) \<Rightarrow> Some (NT_STATUS_OK, store sig 4 s, store pdu ofs data,
                              st\<lparr>ns_crypt := Ntlm2 (c\<lparr>send_seal_arcfour_state := a\<rparr>)\<rparr>))
                    else Some (NT_STATUS_OK, sig, store pdu ofs data, st\<lparr>ns_crypt := Ntlm2 (c\<lparr>send_seal_arcfour_state := a\<rparr>)\<rparr>))
           | _ \<Rightarrow> None) }
        else (case ns_crypt st of
                Ntlm c \<Rightarrow>
                  let crc = crc32_calc_buffer data;
                      sig = msrpc_gen_dddd NTLMSSP_SIGN_VERSION 0 crc (nt_seq_num c)
                  in (case arcfour_crypt_sbox (nt_arcfour_state c) data of
                        (a, data) \<Rightarrow>
                      case arcfour_crypt_sbox a (drop 4 sig) of
                        (a, s) \<Rightarrow> Some (NT_STATUS_OK, take 4 sig @ s, store pdu ofs data,
                          st\<lparr>ns_crypt := Ntlm (c\<lparr>nt_seq_num := nt_seq_num c + 1, nt_arcfour_state := a\<rparr>)\<rparr>))
              | _ \<Rightarrow> None) })"

definition gensec_ntlmssp_unseal_packet ::
  "gensec_ntlmssp_state \<Rightarrow> u8 list \<Rightarrow> nat \<Rightarrow> nat \<Rightarrow> u8 list \<Rightarrow> (ntstatus \<times> u8 list \<times> gensec_ntlmssp_state) option" where
  "gensec_ntlmssp_unseal_packet st pdu ofs len sig =
     (if ns_session_key st = [] then Some (NT_STATUS_NO_USER_SESSION_KEY, pdu, st)
      else do {
        data \<leftarrow> pdu_data pdu ofs len;
        (data, st) \<leftarrow>
          (if negotiated NTLMSSP_NEGOTIATE_NTLM2 st
           then (case ns_crypt st of
                   Ntlm2 c \<Rightarrow> (case arcfour_crypt_sbox (recv_seal_arcfour_state c) data of
                      (a, data) \<Rightarrow> Some (data, st\<lparr>ns_crypt := Ntlm2 (c\<lparr>recv_seal_arcfour_state := a\<rparr>)\<rparr>))
                 | _ \<Rightarrow> None)
           else (case ns_crypt st of
                   Ntlm c \<Rightarrow> (case arcfour_crypt_sbox (nt_arcfour_state c) data of
                      (a, data) \<Rightarrow> Some (data, st\<lparr>ns_crypt := Ntlm (c\<lparr>nt_arcfour_state := a\<rparr>)\<rparr>))
                 | _ \<Rightarrow> None));
        let pdu = store pdu ofs data in
        do { (status, st) \<leftarrow> gensec_ntlmssp_check_packet st pdu ofs len sig; Some (status, pdu, st) } })"

section \<open>Keys\<close>

definition ntlmssp_weakend_key :: "gensec_ntlmssp_state \<Rightarrow> u8 list" where
  "ntlmssp_weakend_key st =
     (let key = ns_session_key st
      in if length key < 16 then key
         else if negotiated NTLMSSP_NEGOTIATE_LM_KEY st
         then if negotiated NTLMSSP_NEGOTIATE_56 st then take 8 (key[7 := 0xA0])
              else take 8 (key[5 := 0xE5, 6 := 0x38, 7 := 0xB0])
         else key)"

definition ntlmssp_sign_init :: "gensec_ntlmssp_state \<Rightarrow> (ntstatus \<times> gensec_ntlmssp_state) option" where
  "ntlmssp_sign_init st =
     (if length (ns_session_key st) < 8 then Some (NT_STATUS_NO_USER_SESSION_KEY, st)
      else if negotiated NTLMSSP_NEGOTIATE_NTLM2 st
      then (case (case ns_role st of NTLMSSP_CLIENT \<Rightarrow> (CLI_SIGN, CLI_SEAL, SRV_SIGN, SRV_SEAL)
                                   | NTLMSSP_SERVER \<Rightarrow> (SRV_SIGN, SRV_SEAL, CLI_SIGN, CLI_SEAL)) of
              (send_sign_const, send_seal_const, recv_sign_const, recv_seal_const) \<Rightarrow>
            let weak_session_key =
                  (if negotiated NTLMSSP_NEGOTIATE_128 st then ns_session_key st
                   else if negotiated NTLMSSP_NEGOTIATE_56 st then take 7 (ns_session_key st)
                   else take 5 (ns_session_key st))
            in do { send_seal \<leftarrow> arcfour_init (calc_ntlmv2_key weak_session_key send_seal_const);
                    recv_seal \<leftarrow> arcfour_init (calc_ntlmv2_key weak_session_key recv_seal_const);
                    Some (NT_STATUS_OK, st\<lparr>ns_crypt := Ntlm2 \<lparr>send_seq_num = 0, recv_seq_num = 0,
                      send_sign_key = calc_ntlmv2_key (ns_session_key st) send_sign_const,
                      recv_sign_key = calc_ntlmv2_key (ns_session_key st) recv_sign_const,
                      send_seal_arcfour_state = send_seal, recv_seal_arcfour_state = recv_seal\<rparr>\<rparr>) })
      else do { a \<leftarrow> arcfour_init (ntlmssp_weakend_key st);
                Some (NT_STATUS_OK, st\<lparr>ns_crypt := Ntlm \<lparr>nt_seq_num = 0, nt_arcfour_state = a\<rparr>\<rparr>) })"

section \<open>Wrapping\<close>

definition GENSEC_FEATURE_SIGN :: u32 where "GENSEC_FEATURE_SIGN = 0x00000002"
definition GENSEC_FEATURE_SEAL :: u32 where "GENSEC_FEATURE_SEAL = 0x00000004"
definition GENSEC_FEATURE_SESSION_KEY :: u32 where "GENSEC_FEATURE_SESSION_KEY = 0x00000001"
definition GENSEC_FEATURE_DCE_STYLE :: u32 where "GENSEC_FEATURE_DCE_STYLE = 0x00000008"
definition GENSEC_FEATURE_ASYNC_REPLIES :: u32 where "GENSEC_FEATURE_ASYNC_REPLIES = 0x00000010"

definition gensec_ntlmssp_have_feature :: "gensec_ntlmssp_state \<Rightarrow> u32 \<Rightarrow> bool" where
  "gensec_ntlmssp_have_feature st feature =
     (if feature AND GENSEC_FEATURE_SIGN \<noteq> 0 \<and> ns_session_key st = [] then False
      else if feature AND GENSEC_FEATURE_SIGN \<noteq> 0 \<and> negotiated NTLMSSP_NEGOTIATE_SIGN st then True
      else if feature AND GENSEC_FEATURE_SEAL \<noteq> 0 \<and> ns_session_key st = [] then False
      else if feature AND GENSEC_FEATURE_SEAL \<noteq> 0 \<and> negotiated NTLMSSP_NEGOTIATE_SEAL st then True
      else if feature AND GENSEC_FEATURE_SESSION_KEY \<noteq> 0 \<and> ns_session_key st \<noteq> [] then True
      else if feature AND GENSEC_FEATURE_DCE_STYLE \<noteq> 0 then True
      else if feature AND GENSEC_FEATURE_ASYNC_REPLIES \<noteq> 0 \<and> negotiated NTLMSSP_NEGOTIATE_NTLM2 st then True
      else False)"

definition gensec_ntlmssp_wrap :: "gensec_ntlmssp_state \<Rightarrow> u8 list \<Rightarrow> (ntstatus \<times> u8 list \<times> gensec_ntlmssp_state) option" where
  "gensec_ntlmssp_wrap st inp =
     (if gensec_ntlmssp_have_feature st GENSEC_FEATURE_SEAL
      then do { (status, sig, pdu, st) \<leftarrow> gensec_ntlmssp_seal_packet st inp 0 (length inp);
                Some (status, take NTLMSSP_SIG_SIZE sig @ pdu, st) }
      else if gensec_ntlmssp_have_feature st GENSEC_FEATURE_SIGN
      then do { (sig, st) \<leftarrow> gensec_ntlmssp_sign_packet st inp 0 (length inp);
                Some (NT_STATUS_OK, take NTLMSSP_SIG_SIZE sig @ inp, st) }
      else Some (NT_STATUS_OK, inp, st))"

definition gensec_ntlmssp_unwrap :: "gensec_ntlmssp_state \<Rightarrow> u8 list \<Rightarrow> (ntstatus \<times> u8 list \<times> gensec_ntlmssp_state) option" where
  "gensec_ntlmssp_unwrap st inp =
     (if gensec_ntlmssp_have_feature st GENSEC_FEATURE_SEAL
      then if length inp < NTLMSSP_SIG_SIZE then Some (NT_STATUS_INVALID_PARAMETER, [], st)
           else let sig = take NTLMSSP_SIG_SIZE inp; out = drop NTLMSSP_SIG_SIZE inp
                in gensec_ntlmssp_unseal_packet st out 0 (length out) sig
      else if gensec_ntlmssp_have_feature st GENSEC_FEATURE_SIGN
      then if length inp < NTLMSSP_SIG_SIZE then Some (NT_STATUS_INVALID_PARAMETER, [], st)
           else let sig = take NTLMSSP_SIG_SIZE inp; out = drop NTLMSSP_SIG_SIZE inp
                in do { (status, st) \<leftarrow> gensec_ntlmssp_check_packet st out 0 (length out) sig; Some (status, out, st) }
      else Some (NT_STATUS_OK, inp, st))"

section \<open>Two ends of a session\<close>

text \<open>The states of two peers that fit together: what one sends with, the other receives with.\<close>

definition fit_ntlm2 :: "ntlm2_crypt \<Rightarrow> ntlm2_crypt \<Rightarrow> bool" where
  "fit_ntlm2 x y \<longleftrightarrow> send_seq_num x = recv_seq_num y \<and> send_sign_key x = recv_sign_key y \<and>
     send_seal_arcfour_state x = recv_seal_arcfour_state y"

definition paired :: "gensec_ntlmssp_state \<Rightarrow> gensec_ntlmssp_state \<Rightarrow> bool" where
  "paired a b \<longleftrightarrow> ns_neg_flags a = ns_neg_flags b \<and> ns_session_key a = ns_session_key b \<and> ns_session_key a \<noteq> [] \<and>
     (if negotiated NTLMSSP_NEGOTIATE_NTLM2 a
      then (\<exists>x y. ns_crypt a = Ntlm2 x \<and> ns_crypt b = Ntlm2 y \<and> fit_ntlm2 x y \<and> fit_ntlm2 y x)
      else (\<exists>x. ns_crypt a = Ntlm x \<and> ns_crypt b = Ntlm x))"

lemma paired_sym: "paired a b \<Longrightarrow> paired b a"
  by (auto simp: paired_def negotiated_def split: if_splits)

lemma paired_negotiated: "paired a b \<Longrightarrow> negotiated f a = negotiated f b"
  by (simp add: paired_def negotiated_def)

lemma paired_key: "paired a b \<Longrightarrow> ns_neg_flags a = ns_neg_flags b" "paired a b \<Longrightarrow> ns_session_key a = ns_session_key b"
  "paired a b \<Longrightarrow> ns_session_key b \<noteq> []"
  by (auto simp: paired_def)

lemma negotiated_crypt [simp]: "negotiated f (st\<lparr>ns_crypt := c\<rparr>) = negotiated f st"
  by (simp add: negotiated_def)

lemma length_MD5Final [simp]: "length (MD5Final ctx) = 16"
proof -
  have "length (MD5Transform b w) = 4" for b w by (simp add: MD5Transform_def split: prod.splits)
  then have "length (concat (map le32 (MD5Transform b w))) = 16" for b w
    by (simp add: length_concat comp_def sum_list_triv)
  then show ?thesis unfolding MD5Final_def Let_def by (simp split: prod.splits)
qed

lemma length_packet_digest [simp]: "length (packet_digest k s p) = 16"
  unfolding packet_digest_def hmac_md5_final_def Let_def by simp

lemma length_ntlm2_signature: "8 \<le> length d \<Longrightarrow> length (ntlm2_signature d (le32 n)) = 16"
  by (simp add: ntlm2_signature_def)

lemma length_gen_dddd [simp]: "length (msrpc_gen_dddd a b c d) = 16"
  by (simp add: msrpc_gen_dddd_def)

lemma store_slice:
  "ofs + len \<le> length pdu \<Longrightarrow> length d = len \<Longrightarrow> store (store pdu ofs d) ofs (take len (drop ofs pdu)) = pdu"
  by (simp add: store_def) (metis append_take_drop_id drop_drop add.commute)

lemma slice_store: "ofs + length d \<le> length pdu \<Longrightarrow> take (length d) (drop ofs (store pdu ofs d)) = d"
  by (simp add: store_def)

text \<open>The packet the peer signs is accepted.\<close>

lemma sign_check:
  assumes p: "paired a b" and pdu: "ofs + len \<le> length pdu"
  shows "\<exists>sig a' b'. gensec_ntlmssp_sign_packet a pdu ofs len = Some (sig, a') \<and> length sig = 16 \<and>
     gensec_ntlmssp_check_packet b pdu ofs len sig = Some (NT_STATUS_OK, b') \<and> paired a' b'"
proof (cases "negotiated NTLMSSP_NEGOTIATE_NTLM2 a")
  case True
  then obtain x y where xy: "ns_crypt a = Ntlm2 x" "ns_crypt b = Ntlm2 y" "fit_ntlm2 x y" "fit_ntlm2 y x"
    using p by (auto simp: paired_def)
  let ?d = "packet_digest (send_sign_key x) (le32 (send_seq_num x)) pdu"
  obtain st e where e: "arcfour_crypt_sbox (send_seal_arcfour_state x) (take 8 ?d) = (st, e)" by fastforce
  have l: "length e = 8" using arcfour_crypt_length [of "send_seal_arcfour_state x" "take 8 ?d"] by (simp add: e)
  show ?thesis
    using paired_key [OF p] xy True pdu e l paired_negotiated [OF p]
    by (cases "negotiated NTLMSSP_NEGOTIATE_KEY_EXCH a")
      (simp_all add: gensec_ntlmssp_sign_packet_def check_packet_eq pdu_data_def
        ntlmssp_make_packet_signature_def Let_def fit_ntlm2_def paired_def length_ntlm2_signature)
next
  case False
  then obtain x where x: "ns_crypt a = Ntlm x" "ns_crypt b = Ntlm x" using p by (auto simp: paired_def)
  let ?s = "msrpc_gen_dddd NTLMSSP_SIGN_VERSION 0 (crc32_calc_buffer (take len (drop ofs pdu))) (nt_seq_num x)"
  obtain st e where e: "arcfour_crypt_sbox (nt_arcfour_state x) (drop 4 ?s) = (st, e)" by fastforce
  have l: "length e = 12" using arcfour_crypt_length [of "nt_arcfour_state x" "drop 4 ?s"] by (simp add: e)
  show ?thesis
    using paired_key [OF p] x False pdu e l paired_negotiated [OF p]
    by (simp add: gensec_ntlmssp_sign_packet_def check_packet_eq pdu_data_def
        ntlmssp_make_packet_signature_def Let_def paired_def)
qed

text \<open>A sealed packet is opened.\<close>

lemma seal_unseal:
  assumes p: "paired a b" and pdu: "ofs + len \<le> length pdu"
  shows "\<exists>sig pdu' a' b'. gensec_ntlmssp_seal_packet a pdu ofs len = Some (NT_STATUS_OK, sig, pdu', a') \<and> length sig = 16 \<and>
     length pdu' = length pdu \<and> gensec_ntlmssp_unseal_packet b pdu' ofs len sig = Some (NT_STATUS_OK, pdu, b') \<and> paired a' b'"
proof (cases "negotiated NTLMSSP_NEGOTIATE_NTLM2 a")
  case True
  then obtain x y where xy: "ns_crypt a = Ntlm2 x" "ns_crypt b = Ntlm2 y" "fit_ntlm2 x y" "fit_ntlm2 y x"
    using p by (auto simp: paired_def)
  let ?data = "take len (drop ofs pdu)" and ?d = "packet_digest (send_sign_key x) (le32 (send_seq_num x)) pdu"
  obtain st1 out where out: "arcfour_crypt_sbox (send_seal_arcfour_state x) ?data = (st1, out)" by fastforce
  have lo: "length out = len" using arcfour_crypt_length [of "send_seal_arcfour_state x" ?data] pdu by (simp add: out)
  obtain st2 e where e: "arcfour_crypt_sbox st1 (take 8 ?d) = (st2, e)" by fastforce
  have l: "length e = 8" using arcfour_crypt_length [of st1 "take 8 ?d"] by (simp add: e)
  have dec: "arcfour_crypt_sbox (send_seal_arcfour_state x) out = (st1, ?data)" by (rule arcfour_crypt_inverse [OF out])
  have sig: "take 8 (drop 4 (ntlm2_signature ?d s)) = take 8 ?d" "store (ntlm2_signature ?d s) 4 e = ntlm2_signature e s" for s
    using l by (simp_all add: ntlm2_signature_def store_def)
  have slice: "take len (drop ofs (store pdu ofs out)) = out" "length (store pdu ofs out) = length pdu"
    using slice_store [of ofs out pdu] pdu lo by (simp_all add: lo)
  have restore: "store (store pdu ofs out) ofs ?data = pdu" by (rule store_slice [OF pdu lo])
  show ?thesis
    using paired_key [OF p] xy True pdu out e dec l paired_negotiated [OF p] slice restore sig
    by (cases "negotiated NTLMSSP_NEGOTIATE_KEY_EXCH a")
      (simp_all add: gensec_ntlmssp_seal_packet_def gensec_ntlmssp_unseal_packet_def check_packet_eq pdu_data_def
        ntlmssp_make_packet_signature_def Let_def fit_ntlm2_def paired_def length_ntlm2_signature)
next
  case False
  then obtain x where x: "ns_crypt a = Ntlm x" "ns_crypt b = Ntlm x" using p by (auto simp: paired_def)
  let ?data = "take len (drop ofs pdu)"
  let ?s = "msrpc_gen_dddd NTLMSSP_SIGN_VERSION 0 (crc32_calc_buffer ?data) (nt_seq_num x)"
  obtain st1 out where out: "arcfour_crypt_sbox (nt_arcfour_state x) ?data = (st1, out)" by fastforce
  have lo: "length out = len" using arcfour_crypt_length [of "nt_arcfour_state x" ?data] pdu by (simp add: out)
  obtain st2 e where e: "arcfour_crypt_sbox st1 (drop 4 ?s) = (st2, e)" by fastforce
  have l: "length e = 12" using arcfour_crypt_length [of st1 "drop 4 ?s"] by (simp add: e)
  have dec: "arcfour_crypt_sbox (nt_arcfour_state x) out = (st1, ?data)" by (rule arcfour_crypt_inverse [OF out])
  have slice: "take len (drop ofs (store pdu ofs out)) = out" "length (store pdu ofs out) = length pdu"
    using slice_store [of ofs out pdu] pdu lo by (simp_all add: lo)
  have restore: "store (store pdu ofs out) ofs ?data = pdu" by (rule store_slice [OF pdu lo])
  show ?thesis
    using paired_key [OF p] x False pdu out e dec l paired_negotiated [OF p] slice restore
    by (simp add: gensec_ntlmssp_seal_packet_def gensec_ntlmssp_unseal_packet_def check_packet_eq pdu_data_def
        ntlmssp_make_packet_signature_def Let_def paired_def)
qed

lemma calc_ntlmv2_key_init: "\<exists>a. arcfour_init (calc_ntlmv2_key k c) = Some a"
proof -
  have "length (calc_ntlmv2_key k c) = 16" by (simp add: calc_ntlmv2_key_def)
  then have "calc_ntlmv2_key k c \<noteq> []" by auto
  then show ?thesis by (simp add: arcfour_init_def)
qed

lemma weakend_key_nonempty: "8 \<le> length (ns_session_key st) \<Longrightarrow> ntlmssp_weakend_key st \<noteq> []"
  by (auto simp: ntlmssp_weakend_key_def Let_def)

lemma sign_init_paired:
  fixes flags :: u32
  assumes "8 \<le> length key"
  defines "start \<equiv> \<lambda>role. \<lparr>ns_role = role, ns_session_key = key, ns_neg_flags = flags, ns_crypt = No_Crypt\<rparr>"
  shows "\<exists>c s. ntlmssp_sign_init (start NTLMSSP_CLIENT) = Some (NT_STATUS_OK, c) \<and>
     ntlmssp_sign_init (start NTLMSSP_SERVER) = Some (NT_STATUS_OK, s) \<and> paired c s"
proof (cases "flags AND NTLMSSP_NEGOTIATE_NTLM2 = 0")
  case True
  let ?k = "ntlmssp_weakend_key (start NTLMSSP_CLIENT)"
  have same: "ntlmssp_weakend_key (start NTLMSSP_SERVER) = ?k"
    by (simp add: start_def ntlmssp_weakend_key_def Let_def negotiated_def)
  obtain a where "arcfour_init ?k = Some a"
    using weakend_key_nonempty [of "start NTLMSSP_CLIENT"] assms(1) by (auto simp: arcfour_init_def start_def)
  then show ?thesis
    using True assms(1) same by (auto simp: ntlmssp_sign_init_def start_def negotiated_def paired_def)
next
  case False
  let ?w = "if flags AND NTLMSSP_NEGOTIATE_128 \<noteq> 0 then key
    else if flags AND NTLMSSP_NEGOTIATE_56 \<noteq> 0 then take 7 key else take 5 key"
  obtain x y where "arcfour_init (calc_ntlmv2_key ?w CLI_SEAL) = Some x" "arcfour_init (calc_ntlmv2_key ?w SRV_SEAL) = Some y"
    using calc_ntlmv2_key_init by metis
  then show ?thesis
    using False assms(1) by (auto simp: ntlmssp_sign_init_def start_def negotiated_def paired_def fit_ntlm2_def Let_def)
qed

lemma have_feature_paired: "paired a b \<Longrightarrow> gensec_ntlmssp_have_feature a f = gensec_ntlmssp_have_feature b f"
  using paired_key(2) [of a b] paired_negotiated [of a b] by (simp add: gensec_ntlmssp_have_feature_def)

lemma wrap_unwrap:
  assumes "paired a b"
  shows "\<exists>w a' b'. gensec_ntlmssp_wrap a m = Some (NT_STATUS_OK, w, a') \<and>
     gensec_ntlmssp_unwrap b w = Some (NT_STATUS_OK, m, b') \<and> paired a' b'"
proof -
  obtain sig a' b' where sign: "gensec_ntlmssp_sign_packet a m 0 (length m) = Some (sig, a')" "length sig = 16"
    "gensec_ntlmssp_check_packet b m 0 (length m) sig = Some (NT_STATUS_OK, b')" "paired a' b'"
    using sign_check [OF assms, of 0 "length m" m] by auto
  obtain sig2 m' a2 b2 where seal: "gensec_ntlmssp_seal_packet a m 0 (length m) = Some (NT_STATUS_OK, sig2, m', a2)" "length sig2 = 16"
    "length m' = length m" "gensec_ntlmssp_unseal_packet b m' 0 (length m) sig2 = Some (NT_STATUS_OK, m, b2)" "paired a2 b2"
    using seal_unseal [OF assms, of 0 "length m" m] by auto
  show ?thesis
    using sign seal assms have_feature_paired [OF assms]
    by (cases "gensec_ntlmssp_have_feature a GENSEC_FEATURE_SEAL"; cases "gensec_ntlmssp_have_feature a GENSEC_FEATURE_SIGN")
      (simp_all add: gensec_ntlmssp_wrap_def gensec_ntlmssp_unwrap_def NTLMSSP_SIG_SIZE_def Let_def)
qed

section \<open>Sessions\<close>

text \<open>A conversation: each message is wrapped by the one end and unwrapped by the other; the messages that arrive.\<close>

fun converse :: "gensec_ntlmssp_state \<Rightarrow> gensec_ntlmssp_state \<Rightarrow> (ntlmssp_role \<times> u8 list) list \<Rightarrow> u8 list list option" where
  "converse c s [] = Some []"
| "converse c s ((NTLMSSP_CLIENT, m) # ms) =
     do { (st, w, c) \<leftarrow> gensec_ntlmssp_wrap c m;
          (st', m, s) \<leftarrow> gensec_ntlmssp_unwrap s w;
          if st = NT_STATUS_OK \<and> st' = NT_STATUS_OK then map_option ((#) m) (converse c s ms) else None }"
| "converse c s ((NTLMSSP_SERVER, m) # ms) =
     do { (st, w, s) \<leftarrow> gensec_ntlmssp_wrap s m;
          (st', m, c) \<leftarrow> gensec_ntlmssp_unwrap c w;
          if st = NT_STATUS_OK \<and> st' = NT_STATUS_OK then map_option ((#) m) (converse c s ms) else None }"

lemma converse_paired: "paired c s \<Longrightarrow> converse c s ms = Some (map snd ms)"
proof (induction c s ms rule: converse.induct)
  case (2 c s m ms)
  then show ?case using wrap_unwrap [OF "2.prems", of m] by auto
next
  case (3 c s m ms)
  then show ?case using wrap_unwrap [OF paired_sym [OF "3.prems"], of m] paired_sym by fastforce
qed simp

text \<open>C4: an NTLMSSP session.  A client and a server that set up signing with the same key of at least 8 bytes and the
  same flags, whatever these are, understand each other: in every conversation each message is accepted and arrives
  unchanged.\<close>

theorem ntlmssp_session:
  assumes "8 \<le> length key"
  shows "\<exists>c s.
     ntlmssp_sign_init \<lparr>ns_role = NTLMSSP_CLIENT, ns_session_key = key, ns_neg_flags = flags, ns_crypt = No_Crypt\<rparr> =
       Some (NT_STATUS_OK, c) \<and>
     ntlmssp_sign_init \<lparr>ns_role = NTLMSSP_SERVER, ns_session_key = key, ns_neg_flags = flags, ns_crypt = No_Crypt\<rparr> =
       Some (NT_STATUS_OK, s) \<and>
     (\<forall>ms. converse c s ms = Some (map snd ms))"
  using sign_init_paired [OF assms, of flags] converse_paired by blast

theorem ntlmssp_session_witness:
  "\<exists>c s.
     ntlmssp_sign_init \<lparr>ns_role = NTLMSSP_CLIENT, ns_session_key = replicate 16 7,
         ns_neg_flags = NTLMSSP_NEGOTIATE_NTLM2 OR NTLMSSP_NEGOTIATE_SEAL OR NTLMSSP_NEGOTIATE_KEY_EXCH, ns_crypt = No_Crypt\<rparr> =
       Some (NT_STATUS_OK, c) \<and>
     ntlmssp_sign_init \<lparr>ns_role = NTLMSSP_SERVER, ns_session_key = replicate 16 7,
         ns_neg_flags = NTLMSSP_NEGOTIATE_NTLM2 OR NTLMSSP_NEGOTIATE_SEAL OR NTLMSSP_NEGOTIATE_KEY_EXCH, ns_crypt = No_Crypt\<rparr> =
       Some (NT_STATUS_OK, s) \<and>
     (\<forall>ms. converse c s ms = Some (map snd ms))"
  by (rule ntlmssp_session) simp

section \<open>What a receiver accepts\<close>

text \<open>The signatures that pass for the signature \<open>s\<close>: with NTLM2 only this one; without it the version and the four
  bytes of the second field are not compared.\<close>

definition passes_for :: "gensec_ntlmssp_state \<Rightarrow> u8 list \<Rightarrow> u8 list \<Rightarrow> bool" where
  "passes_for st s sig \<longleftrightarrow> (if negotiated NTLMSSP_NEGOTIATE_NTLM2 st then sig = s else length sig = 16 \<and> drop 8 sig = drop 8 s)"

lemma check_status:
  assumes p: "paired a b" and pdu: "ofs + len \<le> length pdu"
  shows "\<exists>s a' b'. gensec_ntlmssp_sign_packet a pdu ofs len = Some (s, a') \<and> paired a' b' \<and>
     (\<forall>sig. gensec_ntlmssp_check_packet b pdu ofs len sig =
        Some (if passes_for b s sig then NT_STATUS_OK else NT_STATUS_ACCESS_DENIED, b'))"
proof -
  obtain s a' b' where s: "gensec_ntlmssp_sign_packet a pdu ofs len = Some (s, a')" "length s = 16"
    and c: "gensec_ntlmssp_check_packet b pdu ofs len s = Some (NT_STATUS_OK, b')" "paired a' b'"
    using sign_check [OF p pdu] by blast
  from c(1) obtain l where l: "ntlmssp_make_packet_signature b (take len (drop ofs pdu)) pdu NTLMSSP_RECEIVE True = Some (l, b')"
    using paired_key(3) [OF p] pdu
    by (auto simp: check_packet_eq pdu_data_def split: bind_splits)
  have same: "negotiated f b' = negotiated f b" for f
    using l by (auto simp: ntlmssp_make_packet_signature_def Let_def split: if_splits crypt_state.splits prod.splits)
  have "gensec_ntlmssp_check_packet b pdu ofs len sig =
     Some (if passes_for b s sig then NT_STATUS_OK else NT_STATUS_ACCESS_DENIED, b')" for sig
    using c(1) l s(2) paired_key(3) [OF p] pdu same
    by (auto simp: check_packet_eq pdu_data_def passes_for_def NT_STATUS_ACCESS_DENIED_def NT_STATUS_OK_def
        split: if_splits)
  then show ?thesis using s(1) c(2) by blast
qed



text \<open>A receiver that checks packets, whatever the outcomes.\<close>

fun check_packets :: "gensec_ntlmssp_state \<Rightarrow> (u8 list \<times> nat \<times> nat \<times> u8 list) list \<Rightarrow> gensec_ntlmssp_state option" where
  "check_packets st [] = Some st"
| "check_packets st ((pdu, ofs, len, sig) # ps) =
     do { (_, st) \<leftarrow> gensec_ntlmssp_check_packet st pdu ofs len sig; check_packets st ps }"

definition recv_seq :: "gensec_ntlmssp_state \<Rightarrow> u32" where
  "recv_seq st = (case ns_crypt st of Ntlm2 c \<Rightarrow> recv_seq_num c | _ \<Rightarrow> 0)"

lemma check_ntlm2:
  assumes "negotiated NTLMSSP_NEGOTIATE_NTLM2 st" "ns_session_key st \<noteq> []"
    and "gensec_ntlmssp_check_packet st pdu ofs len sig = Some (status, st')"
  shows "negotiated NTLMSSP_NEGOTIATE_NTLM2 st'" "ns_session_key st' \<noteq> []" "recv_seq st' = recv_seq st + 1"
    "status = NT_STATUS_OK \<Longrightarrow> drop 12 sig = le32 (recv_seq st)" "status = NT_STATUS_OK \<or> status = NT_STATUS_ACCESS_DENIED"
proof -
  obtain d l where l: "ntlmssp_make_packet_signature st d pdu NTLMSSP_RECEIVE True = Some (l, st')"
      "status = (if length l \<noteq> length sig \<or> l \<noteq> sig then NT_STATUS_ACCESS_DENIED else NT_STATUS_OK)"
    and n: "negotiated NTLMSSP_NEGOTIATE_NTLM2 st'"
  proof -
    obtain d l where d: "ntlmssp_make_packet_signature st d pdu NTLMSSP_RECEIVE True = Some (l, st')"
      "status = (if negotiated NTLMSSP_NEGOTIATE_NTLM2 st'
                      then if length l \<noteq> length sig \<or> l \<noteq> sig then NT_STATUS_ACCESS_DENIED else NT_STATUS_OK
                      else if length l \<noteq> length sig \<or> drop 8 l \<noteq> drop 8 sig
                           then NT_STATUS_ACCESS_DENIED else NT_STATUS_OK)"
      using assms(2,3) by (auto simp: check_packet_eq split: bind_splits)
    have "negotiated NTLMSSP_NEGOTIATE_NTLM2 st'"
      using d(1) assms(1)
      by (auto simp: ntlmssp_make_packet_signature_def Let_def split: if_splits crypt_state.splits prod.splits)
    with d that show thesis by simp
  qed
  obtain c where c: "ns_crypt st = Ntlm2 c"
    using l(1) assms(1) by (auto simp: ntlmssp_make_packet_signature_def split: crypt_state.splits)
  obtain st1 e where e: "arcfour_crypt_sbox (recv_seal_arcfour_state c) (take 8 (packet_digest (recv_sign_key c) (le32 (recv_seq_num c)) pdu)) = (st1, e)"
    by fastforce
  have le: "length e = 8"
    using arcfour_crypt_length [of "recv_seal_arcfour_state c" "take 8 (packet_digest (recv_sign_key c) (le32 (recv_seq_num c)) pdu)"]
    by (simp add: e)
  show "negotiated NTLMSSP_NEGOTIATE_NTLM2 st'" by (rule n)
  have st': "ns_session_key st' = ns_session_key st \<and> recv_seq st' = recv_seq st + 1 \<and> drop 12 l = le32 (recv_seq st)"
    using l(1) assms(1) c e le
    by (auto simp: ntlmssp_make_packet_signature_def Let_def recv_seq_def ntlm2_signature_def split: if_splits)
  then show "ns_session_key st' \<noteq> []" "recv_seq st' = recv_seq st + 1" using assms(2) by simp_all
  show "drop 12 sig = le32 (recv_seq st)" if "status = NT_STATUS_OK"
    using that l(2) st' by (auto simp: NT_STATUS_ACCESS_DENIED_def NT_STATUS_OK_def split: if_splits)
  show "status = NT_STATUS_OK \<or> status = NT_STATUS_ACCESS_DENIED" using l(2) by auto
qed

lemma check_packets_seq:
  "negotiated NTLMSSP_NEGOTIATE_NTLM2 st \<Longrightarrow> ns_session_key st \<noteq> [] \<Longrightarrow> check_packets st ps = Some st' \<Longrightarrow>
   negotiated NTLMSSP_NEGOTIATE_NTLM2 st' \<and> ns_session_key st' \<noteq> [] \<and> recv_seq st' = recv_seq st + of_nat (length ps)"
proof (induction st ps rule: check_packets.induct)
  case (2 st pdu ofs len sig ps)
  from "2.prems"(3) obtain s st1 where s: "gensec_ntlmssp_check_packet st pdu ofs len sig = Some (s, st1)"
    "check_packets st1 ps = Some st'" by (auto split: bind_splits)
  note c = check_ntlm2 [OF "2.prems"(1,2) s(1)]
  show ?case using "2.IH" [OF s(1) refl c(1,2) s(2)] c(3) by (simp add: algebra_simps)
qed simp



end
