(* ===== verification/Asn1.thy ===== *)
theory Asn1
  imports DomSid
begin

text \<open>
  The buffer of \<open>libcli/util/asn1.c\<close> into which ASN.1 elements are written and from which they are read.

  \<^item> \<open>asn1_bytes\<close> is the memory behind \<open>data\<close>; \<open>None\<close> once it has been freed.  The \<open>NULL\<close> of an empty buffer is the
    empty memory.
  \<^item> The stack \<open>nesting\<close> is a list of its structures; \<open>nest_taglen\<close> is \<open>None\<close> where it has not been set.
  \<^item> \<open>size_t\<close> and \<open>off_t\<close> have 64 bits.  Offsets and sizes of buffers, which the limit of talloc keeps below \<open>2 ^ 28\<close>,
    are natural numbers; a length that comes from the wire, and each difference that may wrap, is a 64-bit word.
  \<^item> An operation gives \<open>None\<close> where it would access memory that is freed, is outside the buffer, or has not been set.
    Otherwise it gives its result and the new state.  The \<open>BOOL\<close> result comes first, and what is returned through a
    pointer after it.  The byte \<open>b\<close> that a failed read leaves indeterminate is taken as 0.
\<close>

section \<open>State\<close>

record nesting =
  nest_start :: nat
  nest_taglen :: "u64 option"

record asn1_data =
  asn1_bytes :: "u8 list option"
  asn1_length :: nat
  asn1_ofs :: nat
  asn1_nesting :: "nesting list"
  has_error :: bool

definition asn1_zero :: asn1_data where
  "asn1_zero = \<lparr>asn1_bytes = Some [], asn1_length = 0, asn1_ofs = 0, asn1_nesting = [], has_error = False\<rparr>"

definition ASN1_APPLICATION :: "u8 \<Rightarrow> u8" where "ASN1_APPLICATION x = x + 0x60"
definition ASN1_APPLICATION_SIMPLE :: "u8 \<Rightarrow> u8" where "ASN1_APPLICATION_SIMPLE x = x + 0x40"
definition ASN1_SEQUENCE :: "u8 \<Rightarrow> u8" where "ASN1_SEQUENCE x = x + 0x30"
definition ASN1_CONTEXT :: "u8 \<Rightarrow> u8" where "ASN1_CONTEXT x = x + 0xa0"
definition ASN1_CONTEXT_SIMPLE :: "u8 \<Rightarrow> u8" where "ASN1_CONTEXT_SIMPLE x = x + 0x80"
definition ASN1_GENERAL_STRING :: u8 where "ASN1_GENERAL_STRING = 0x1b"
definition ASN1_OCTET_STRING :: u8 where "ASN1_OCTET_STRING = 0x4"
definition ASN1_OID :: u8 where "ASN1_OID = 0x6"
definition ASN1_BOOLEAN :: u8 where "ASN1_BOOLEAN = 0x1"
definition ASN1_INTEGER :: u8 where "ASN1_INTEGER = 0x2"
definition ASN1_ENUMERATED :: u8 where "ASN1_ENUMERATED = 0xa"

lemmas asn1_tag_defs = ASN1_APPLICATION_def ASN1_APPLICATION_SIMPLE_def ASN1_SEQUENCE_def ASN1_CONTEXT_def
  ASN1_CONTEXT_SIMPLE_def ASN1_GENERAL_STRING_def ASN1_OCTET_STRING_def ASN1_OID_def ASN1_BOOLEAN_def ASN1_INTEGER_def
  ASN1_ENUMERATED_def

section \<open>Writing\<close>

definition asn1_free :: "asn1_data \<Rightarrow> asn1_data option" where
  "asn1_free d = (case asn1_bytes d of None \<Rightarrow> None | Some _ \<Rightarrow> Some (d\<lparr>asn1_bytes := None\<rparr>))"

text \<open>The copy into the buffer at the offset, and a store of one byte.\<close>

definition put_bytes :: "asn1_data \<Rightarrow> u8 list \<Rightarrow> asn1_data option" where
  "put_bytes d p =
     (case asn1_bytes d of
        None \<Rightarrow> None
      | Some bs \<Rightarrow>
          if asn1_ofs d + length p \<le> asn1_length d \<and> asn1_ofs d \<le> length bs
          then Some (d\<lparr>asn1_bytes := Some (take (asn1_ofs d) bs @ p @ drop (asn1_ofs d + length p) bs),
                       asn1_ofs := asn1_ofs d + length p\<rparr>)
          else None)"

definition asn1_write :: "asn1_data \<Rightarrow> u8 list \<Rightarrow> (bool \<times> asn1_data) option" where
  "asn1_write d p =
     (if has_error d then Some (False, d)
      else if asn1_length d < asn1_ofs d + length p
      then if MAX_TALLOC_SIZE \<le> asn1_ofs d + length p
           then do { d \<leftarrow> asn1_free d; Some (False, d\<lparr>has_error := True\<rparr>) }
           else do { d \<leftarrow> put_bytes (d\<lparr>asn1_length := asn1_ofs d + length p\<rparr>) p; Some (True, d) }
      else do { d \<leftarrow> put_bytes d p; Some (True, d) })"

definition asn1_write_uint8 :: "asn1_data \<Rightarrow> u8 \<Rightarrow> (bool \<times> asn1_data) option" where
  "asn1_write_uint8 d v = asn1_write d [v]"

definition asn1_push_tag :: "asn1_data \<Rightarrow> u8 \<Rightarrow> (bool \<times> asn1_data) option" where
  "asn1_push_tag d tag =
     do { (_, d) \<leftarrow> asn1_write_uint8 d tag;
          asn1_write_uint8 (d\<lparr>asn1_nesting := \<lparr>nest_start = asn1_ofs d, nest_taglen = None\<rparr> # asn1_nesting d\<rparr>) 0xff }"

definition poke :: "asn1_data \<Rightarrow> nat \<Rightarrow> u8 \<Rightarrow> asn1_data option" where
  "poke d i v =
     (case asn1_bytes d of
        None \<Rightarrow> None
      | Some bs \<Rightarrow> if i < length bs then Some (d\<lparr>asn1_bytes := Some (bs[i := v])\<rparr>) else None)"

fun pokes :: "asn1_data \<Rightarrow> nat \<Rightarrow> u8 list \<Rightarrow> asn1_data option" where
  "pokes d i [] = Some d"
| "pokes d i (v # vs) = do { d \<leftarrow> poke d i v; pokes d (i + 1) vs }"

definition memmove :: "asn1_data \<Rightarrow> nat \<Rightarrow> nat \<Rightarrow> nat \<Rightarrow> asn1_data option" where
  "memmove d dst src n =
     (case asn1_bytes d of
        None \<Rightarrow> None
      | Some bs \<Rightarrow> if dst + n \<le> length bs \<and> src + n \<le> length bs
                   then Some (d\<lparr>asn1_bytes := Some (store bs dst (take n (drop src bs)))\<rparr>) else None)"

text \<open>The zero bytes that make room for the length.\<close>

fun write_zeros :: "nat \<Rightarrow> asn1_data \<Rightarrow> (bool \<times> asn1_data) option" where
  "write_zeros 0 d = Some (True, d)"
| "write_zeros (Suc n) d =
     do { (ok, d) \<leftarrow> asn1_write_uint8 d 0; if ok then write_zeros n d else Some (False, d) }"

definition long_length :: "asn1_data \<Rightarrow> nat \<Rightarrow> u64 \<Rightarrow> u8 \<Rightarrow> u8 list \<Rightarrow> (bool \<times> asn1_data) option" where
  "long_length d start len first bytes =
     do { d \<leftarrow> poke d start first;
          (ok, d) \<leftarrow> write_zeros (length bytes) d;
          if \<not> ok then Some (False, d)
          else do { d \<leftarrow> memmove d (start + 1 + length bytes) (start + 1) (unat len);
                    d \<leftarrow> pokes d (start + 1) bytes;
                    Some (True, d\<lparr>asn1_nesting := tl (asn1_nesting d)\<rparr>) } }"

definition asn1_pop_tag :: "asn1_data \<Rightarrow> (bool \<times> asn1_data) option" where
  "asn1_pop_tag d =
     (case asn1_nesting d of
        [] \<Rightarrow> Some (False, d\<lparr>has_error := True\<rparr>)
      | n # _ \<Rightarrow>
          let start = nest_start n;
              len = (of_nat (asn1_ofs d) - of_nat (start + 1) :: u64)
          in if len > 0xFFFF
             then long_length d start len 0x83 [ucast (drop_bit 16 len AND 0xFF), ucast (drop_bit 8 len AND 0xFF), ucast (len AND 0xff)]
             else if len > 255
             then long_length d start len 0x82 [ucast (drop_bit 8 len), ucast (len AND 0xff)]
             else if len > 127
             then long_length d start len 0x81 [ucast len]
             else do { d \<leftarrow> poke d start (ucast len); Some (True, d\<lparr>asn1_nesting := tl (asn1_nesting d)\<rparr>) })"

text \<open>\<open>push_int_bigendian\<close> looks at the innermost structure, which has to exist.\<close>

function push_int_bigendian :: "asn1_data \<Rightarrow> u32 \<Rightarrow> bool \<Rightarrow> (bool \<times> asn1_data) option" where
  "push_int_bigendian d i negative =
     (let lowest = ucast (i AND 0xFF) :: u8;
          i = drop_bit 8 i
      in do { (ok, d) \<leftarrow> (if i \<noteq> 0 then push_int_bigendian d i negative else Some (True, d));
              if \<not> ok then Some (False, d)
              else (case asn1_nesting d of
                      [] \<Rightarrow> None
                    | n # _ \<Rightarrow>
                        if nest_start n + 1 = asn1_ofs d
                        then if negative
                             then if lowest = 0xFF then Some (True, d)
                                  else if lowest AND 0x80 = 0
                                  then do { (ok, d) \<leftarrow> asn1_write_uint8 d 0xff;
                                            if ok then asn1_write_uint8 d lowest else Some (False, d) }
                                  else asn1_write_uint8 d lowest
                             else if lowest AND 0x80 \<noteq> 0
                             then do { (ok, d) \<leftarrow> asn1_write_uint8 d 0;
                                       if ok then asn1_write_uint8 d lowest else Some (False, d) }
                             else asn1_write_uint8 d lowest
                        else asn1_write_uint8 d lowest) })"
  by pat_completeness auto

termination
proof (relation "measure (\<lambda>(_, i, _). unat i)")
  fix d :: asn1_data and i :: u32 and negative :: bool and x :: u8 and xa :: u32
  assume xa: "xa = drop_bit 8 i" "xa \<noteq> 0"
  have "unat xa = unat i div 2 ^ 8" by (simp only: xa(1) unat_drop_bit32)
  moreover have "unat xa \<noteq> 0" using xa(2) by (simp add: unsigned_eq_0_iff)
  ultimately show "((d, xa, negative), (d, i, negative)) \<in> measure (\<lambda>(_, i, _). unat i)" by simp
qed simp

declare push_int_bigendian.simps [simp del]

definition asn1_write_implicit_Integer :: "asn1_data \<Rightarrow> u32 \<Rightarrow> (bool \<times> asn1_data) option" where
  "asn1_write_implicit_Integer d i =
     (if i = - 1 then asn1_write_uint8 d 0xff else push_int_bigendian d i (sint i < 0))"

definition asn1_write_Integer :: "asn1_data \<Rightarrow> u32 \<Rightarrow> (bool \<times> asn1_data) option" where
  "asn1_write_Integer d i =
     do { (ok, d) \<leftarrow> asn1_push_tag d ASN1_INTEGER;
          if \<not> ok then Some (False, d)
          else do { (ok, d) \<leftarrow> asn1_write_implicit_Integer d i;
                    if \<not> ok then Some (False, d) else asn1_pop_tag d } }"

definition write_if :: "bool \<Rightarrow> asn1_data \<Rightarrow> u8 \<Rightarrow> asn1_data option" where
  "write_if c d b = (if c then do { (_, d) \<leftarrow> asn1_write_uint8 d b; Some d } else Some d)"

definition write_arc :: "asn1_data \<Rightarrow> u32 \<Rightarrow> (bool \<times> asn1_data) option" where
  "write_arc d v =
     do { d \<leftarrow> write_if (v \<ge> 0x10000000) d (0x80 OR ucast (drop_bit 28 v AND 0xff));
          d \<leftarrow> write_if (v \<ge> 0x200000) d (0x80 OR ucast (drop_bit 21 v AND 0xff));
          d \<leftarrow> write_if (v \<ge> 0x4000) d (0x80 OR ucast (drop_bit 14 v AND 0xff));
          d \<leftarrow> write_if (v \<ge> 0x80) d (0x80 OR ucast (drop_bit 7 v AND 0xff));
          asn1_write_uint8 d (ucast (v AND 0x7f)) }"

text \<open>The room a buffer has left: with each byte written it becomes smaller.\<close>

definition asn1_room :: "asn1_data \<Rightarrow> nat" where
  "asn1_room d = max (asn1_length d) MAX_TALLOC_SIZE - asn1_ofs d"


text \<open>The loop of \<open>asn1_write_OID\<close>: it ends because a string without digits fills the buffer until talloc refuses.\<close>

lemma write_uint8_room:
  "asn1_write_uint8 d b = Some (ok, d') \<Longrightarrow> asn1_room d' \<le> asn1_room d \<and> (ok \<longrightarrow> asn1_room d' < asn1_room d)"
  by (auto simp: asn1_write_uint8_def asn1_write_def put_bytes_def asn1_free_def asn1_room_def max_def MAX_TALLOC_SIZE_def
      split: if_splits option.splits bind_splits)

lemma write_if_room: "write_if c d b = Some d' \<Longrightarrow> asn1_room d' \<le> asn1_room d"
  using write_uint8_room by (auto simp: write_if_def split: if_splits bind_splits)

lemma write_arc_room: "write_arc d v = Some (True, d') \<Longrightarrow> asn1_room d' < asn1_room d"
  unfolding write_arc_def
  by (auto split: bind_splits dest!: write_if_room dest: write_uint8_room)

function write_arcs :: "asn1_data \<Rightarrow> string \<Rightarrow> (bool \<times> asn1_data) option" where
  "write_arcs d p =
     (if p = [] then Some (True, d)
      else case strtol p of
             (v, p) \<Rightarrow>
               (case write_arc d (of_int v) of
                  None \<Rightarrow> None
                | Some (ok, d) \<Rightarrow> if ok then write_arcs d p else Some (False, d)))"
  by pat_completeness auto

termination
  by (relation "measure (\<lambda>(d, _). asn1_room d)") (auto dest: write_arc_room)

declare write_arcs.simps [simp del]

definition asn1_write_OID :: "asn1_data \<Rightarrow> string \<Rightarrow> (bool \<times> asn1_data) option" where
  "asn1_write_OID d oid =
     do { (ok, d) \<leftarrow> asn1_push_tag d ASN1_OID;
          if \<not> ok then Some (False, d)
          else case strtol oid of
            (v, p) \<Rightarrow> case strtol p of
            (v2, p) \<Rightarrow>
              do { (ok, d) \<leftarrow> asn1_write_uint8 d (ucast (40 * of_int v + of_int v2 :: u32));
                   if \<not> ok then Some (False, d)
                   else do { (ok, d) \<leftarrow> write_arcs d p;
                             if \<not> ok then Some (False, d) else asn1_pop_tag d } } }"

definition asn1_write_OctetString :: "asn1_data \<Rightarrow> u8 list \<Rightarrow> (bool \<times> asn1_data) option" where
  "asn1_write_OctetString d p =
     do { (_, d) \<leftarrow> asn1_push_tag d ASN1_OCTET_STRING;
          (_, d) \<leftarrow> asn1_write d p;
          (_, d) \<leftarrow> asn1_pop_tag d;
          Some (\<not> has_error d, d) }"

definition asn1_write_LDAPString :: "asn1_data \<Rightarrow> u8 list \<Rightarrow> (bool \<times> asn1_data) option" where
  "asn1_write_LDAPString d s = do { (_, d) \<leftarrow> asn1_write d s; Some (\<not> has_error d, d) }"

definition asn1_write_GeneralString :: "asn1_data \<Rightarrow> u8 list \<Rightarrow> (bool \<times> asn1_data) option" where
  "asn1_write_GeneralString d s =
     do { (_, d) \<leftarrow> asn1_push_tag d ASN1_GENERAL_STRING;
          (_, d) \<leftarrow> asn1_write_LDAPString d s;
          (_, d) \<leftarrow> asn1_pop_tag d;
          Some (\<not> has_error d, d) }"

definition asn1_write_ContextSimple :: "asn1_data \<Rightarrow> u8 \<Rightarrow> u8 list \<Rightarrow> (bool \<times> asn1_data) option" where
  "asn1_write_ContextSimple d num blob =
     do { (_, d) \<leftarrow> asn1_push_tag d (ASN1_CONTEXT_SIMPLE num);
          (_, d) \<leftarrow> asn1_write d blob;
          (_, d) \<leftarrow> asn1_pop_tag d;
          Some (\<not> has_error d, d) }"

definition asn1_write_BOOLEAN :: "asn1_data \<Rightarrow> bool \<Rightarrow> (bool \<times> asn1_data) option" where
  "asn1_write_BOOLEAN d v =
     do { (_, d) \<leftarrow> asn1_push_tag d ASN1_BOOLEAN;
          (_, d) \<leftarrow> asn1_write_uint8 d (if v then 0xFF else 0);
          (_, d) \<leftarrow> asn1_pop_tag d;
          Some (\<not> has_error d, d) }"

definition asn1_write_enumerated :: "asn1_data \<Rightarrow> u8 \<Rightarrow> (bool \<times> asn1_data) option" where
  "asn1_write_enumerated d v =
     do { (ok, d) \<leftarrow> asn1_push_tag d ASN1_ENUMERATED;
          if \<not> ok then Some (False, d)
          else do { (_, d) \<leftarrow> asn1_write_uint8 d v;
                    (_, d) \<leftarrow> asn1_pop_tag d;
                    Some (\<not> has_error d, d) } }"

section \<open>Reading\<close>

text \<open>A blob is its bytes, or \<open>None\<close> where its data pointer is \<open>NULL\<close>.\<close>

definition asn1_load :: "u8 list \<Rightarrow> bool \<times> asn1_data" where
  "asn1_load blob =
     (if MAX_TALLOC_SIZE \<le> length blob then (False, asn1_zero\<lparr>has_error := True\<rparr>)
      else (True, asn1_zero\<lparr>asn1_bytes := Some blob, asn1_length := length blob\<rparr>))"

definition asn1_peek :: "asn1_data \<Rightarrow> int \<Rightarrow> (u8 list option \<times> asn1_data) option" where
  "asn1_peek d len =
     (if len < 0 then Some (None, d)
      else if asn1_ofs d + nat len > asn1_length d then Some (None, d\<lparr>asn1_ofs := asn1_length d\<rparr>)
      else case asn1_bytes d of
             None \<Rightarrow> None
           | Some bs \<Rightarrow> if asn1_ofs d + nat len \<le> length bs then Some (Some (take (nat len) (drop (asn1_ofs d) bs)), d) else None)"

definition asn1_read :: "asn1_data \<Rightarrow> int \<Rightarrow> (u8 list option \<times> asn1_data) option" where
  "asn1_read d len =
     do { (r, d) \<leftarrow> asn1_peek d len;
          Some (case r of None \<Rightarrow> (None, d\<lparr>has_error := True\<rparr>)
                        | Some p \<Rightarrow> (Some p, d\<lparr>asn1_ofs := asn1_ofs d + nat len\<rparr>)) }"

definition asn1_peek_uint8 :: "asn1_data \<Rightarrow> (u8 option \<times> asn1_data) option" where
  "asn1_peek_uint8 d = do { (r, d) \<leftarrow> asn1_peek d 1; Some (map_option hd r, d) }"

definition asn1_read_uint8 :: "asn1_data \<Rightarrow> (u8 option \<times> asn1_data) option" where
  "asn1_read_uint8 d = do { (r, d) \<leftarrow> asn1_read d 1; Some (map_option hd r, d) }"

text \<open>
  \<open>asn1_tag_remaining\<close>: the 64-bit difference is stored in a 32-bit \<open>int\<close>, which is then compared as a \<open>size_t\<close>.
\<close>

definition asn1_tag_remaining :: "asn1_data \<Rightarrow> (int \<times> asn1_data) option" where
  "asn1_tag_remaining d =
     (if has_error d then Some (- 1, d)
      else case asn1_nesting d of
             [] \<Rightarrow> Some (- 1, d\<lparr>has_error := True\<rparr>)
           | n # _ \<Rightarrow>
               do { taglen \<leftarrow> nest_taglen n;
                    let remaining = sint (ucast (taglen - (of_nat (asn1_ofs d) - of_nat (nest_start n))) :: u32)
                    in if (of_int remaining :: u64) > of_nat (asn1_length d) - of_nat (asn1_ofs d)
                       then Some (- 1, d\<lparr>has_error := True\<rparr>)
                       else Some (remaining, d) })"

definition asn1_peek_tag :: "asn1_data \<Rightarrow> u8 \<Rightarrow> (bool \<times> asn1_data) option" where
  "asn1_peek_tag d tag =
     do { (remaining, d) \<leftarrow> asn1_tag_remaining d;
          if remaining \<le> 0 then Some (False, d)
          else do { (b, d) \<leftarrow> asn1_peek_uint8 d; Some (b = Some tag, d) } }"

fun read_length :: "nat \<Rightarrow> asn1_data \<Rightarrow> u64 \<Rightarrow> (u64 option \<times> asn1_data) option" where
  "read_length 0 d taglen = Some (Some taglen, d)"
| "read_length (Suc n) d taglen =
     do { (b, d) \<leftarrow> asn1_read_uint8 d;
          case b of None \<Rightarrow> Some (None, d)
                  | Some b \<Rightarrow> read_length n d (push_bit 8 taglen OR ucast b) }"

definition asn1_start_tag :: "asn1_data \<Rightarrow> u8 \<Rightarrow> (bool \<times> asn1_data) option" where
  "asn1_start_tag d tag =
     do { (b, d) \<leftarrow> asn1_read_uint8 d;
          case b of None \<Rightarrow> Some (False, d) | Some b \<Rightarrow>
          if b \<noteq> tag then Some (False, d\<lparr>has_error := True\<rparr>)
          else do {
            (b, d) \<leftarrow> asn1_read_uint8 d;
            case b of None \<Rightarrow> Some (False, d) | Some b \<Rightarrow>
            do { (taglen, d) \<leftarrow>
                   (if b AND 0x80 \<noteq> 0
                    then do { (c, d) \<leftarrow> asn1_read_uint8 d;
                              case c of None \<Rightarrow> Some (None, d)
                                      | Some c \<Rightarrow> read_length (unat (b AND 0x7f) - 1) d (ucast c) }
                    else Some (Some (ucast b), d));
                 case taglen of None \<Rightarrow> Some (False, d) | Some taglen \<Rightarrow>
                 do { (remaining, d) \<leftarrow> asn1_tag_remaining
                        (d\<lparr>asn1_nesting := \<lparr>nest_start = asn1_ofs d, nest_taglen = Some taglen\<rparr> # asn1_nesting d\<rparr>);
                      Some (if remaining = - 1 then False else \<not> has_error d, d) } } } }"

definition asn1_end_tag :: "asn1_data \<Rightarrow> (bool \<times> asn1_data) option" where
  "asn1_end_tag d =
     do { (remaining, d) \<leftarrow> asn1_tag_remaining d;
          if remaining \<noteq> 0 then Some (False, d\<lparr>has_error := True\<rparr>)
          else case asn1_nesting d of
                 [] \<Rightarrow> Some (False, d\<lparr>has_error := True\<rparr>)
               | _ # ns \<Rightarrow> Some (True, d\<lparr>asn1_nesting := ns\<rparr>) }"

text \<open>
  The loops of the readers end because each byte they read brings the offset nearer to the end of the buffer, and a byte
  that cannot be read sets the error.
\<close>

definition asn1_left :: "asn1_data \<Rightarrow> nat" where
  "asn1_left d = asn1_length d - asn1_ofs d"

lemma read_uint8_left:
  "asn1_read_uint8 d = Some (r, d') \<Longrightarrow> asn1_left d' \<le> asn1_left d \<and> (r \<noteq> None \<longrightarrow> asn1_left d' < asn1_left d) \<and> (r = None \<longrightarrow> has_error d')"
  by (auto simp: asn1_read_uint8_def asn1_read_def asn1_peek_def asn1_left_def split: if_splits option.splits bind_splits)

lemma tag_remaining_left:
  "asn1_tag_remaining d = Some (r, d') \<Longrightarrow> asn1_left d' = asn1_left d"
  by (auto simp: asn1_tag_remaining_def asn1_left_def Let_def split: if_splits list.splits bind_splits)

text \<open>A failed read leaves the byte \<open>b\<close> as it was.\<close>

function read_arc :: "asn1_data \<Rightarrow> u32 \<Rightarrow> u8 \<Rightarrow> (u32 \<times> u8 \<times> asn1_data) option" where
  "read_arc d v b =
     (case asn1_read_uint8 d of
        None \<Rightarrow> None
      | Some (None, d) \<Rightarrow> Some (push_bit 7 v OR ucast (b AND 0x7f), b, d)
      | Some (Some b, d) \<Rightarrow>
          let v = push_bit 7 v OR ucast (b AND 0x7f)
          in if \<not> has_error d \<and> b AND 0x80 \<noteq> 0 then read_arc d v b else Some (v, b, d))"
  by pat_completeness auto

termination
  by (relation "measure (\<lambda>(d, _). asn1_left d)") (auto dest: read_uint8_left)

declare read_arc.simps [simp del]

lemma read_arc_left:
  "read_arc d v b = Some (r, b', d') \<Longrightarrow> asn1_left d' < asn1_left d \<or> asn1_left d' \<le> asn1_left d \<and> has_error d'"
proof (induction d v b rule: read_arc.induct)
  case (1 d v b)
  show ?case
  proof (cases "asn1_read_uint8 d")
    case (Some x)
    obtain c d1 where x: "x = (c, d1)" by fastforce
    show ?thesis
      using 1 Some x read_uint8_left [of d c d1]
      by (cases c) (fastforce simp: read_arc.simps [of d v b] Let_def split: if_splits)+
  qed (use 1 in \<open>simp add: read_arc.simps [of d v b]\<close>)
qed

function read_arcs :: "asn1_data \<Rightarrow> string \<Rightarrow> u8 \<Rightarrow> (string \<times> asn1_data) option" where
  "read_arcs d oid b =
     (if has_error d then Some (oid, d)
      else case asn1_tag_remaining d of
             None \<Rightarrow> None
           | Some (remaining, d) \<Rightarrow>
               if remaining > 0
               then (case read_arc d 0 b of
                       None \<Rightarrow> None
                     | Some (v, b, d) \<Rightarrow> read_arcs d (oid @ '' '' @ dec (unat v)) b)
               else Some (oid, d))"
  by pat_completeness auto

termination
proof (relation "measure (\<lambda>(d, _). if has_error d then 0 else Suc (asn1_left d))")
  fix d oid b x r d1 y v z c d2
  assume "\<not> has_error d" and t: "asn1_tag_remaining d = Some x" "(r, d1) = x" and a: "read_arc d1 0 b = Some y" "(v, z) = y" "(c, d2) = z"
  then show "((d2, oid @ '' '' @ dec (unat v), c), d, oid, b) \<in> measure (\<lambda>(d, _). if has_error d then 0 else Suc (asn1_left d))"
    using tag_remaining_left [of d r d1] read_arc_left [of d1 0 b v c d2] by auto
qed simp

declare read_arcs.simps [simp del]

definition asn1_read_OID :: "asn1_data \<Rightarrow> (bool \<times> string option \<times> asn1_data) option" where
  "asn1_read_OID d =
     do { (ok, d) \<leftarrow> asn1_start_tag d ASN1_OID;
          if \<not> ok then Some (False, None, d)
          else do {
            (b, d) \<leftarrow> asn1_read_uint8 d;
            let b = (case b of None \<Rightarrow> 0 | Some b \<Rightarrow> b) in
            do { (oid, d) \<leftarrow> read_arcs d (dec (unat b div 40) @ '' '' @ dec (unat b mod 40)) b;
                 (_, d) \<leftarrow> asn1_end_tag d;
                 Some (\<not> has_error d, Some oid, d) } } }"

definition asn1_check_OID :: "asn1_data \<Rightarrow> string \<Rightarrow> (bool \<times> asn1_data) option" where
  "asn1_check_OID d oid =
     do { (ok, id, d) \<leftarrow> asn1_read_OID d;
          if \<not> ok then Some (False, d)
          else if id \<noteq> Some oid then Some (False, d\<lparr>has_error := True\<rparr>)
          else Some (True, d) }"

definition asn1_read_LDAPString :: "asn1_data \<Rightarrow> (bool \<times> u8 list option \<times> asn1_data) option" where
  "asn1_read_LDAPString d =
     do { (len, d) \<leftarrow> asn1_tag_remaining d;
          if len < 0 then Some (False, None, d\<lparr>has_error := True\<rparr>)
          else if MAX_TALLOC_SIZE \<le> nat len + 1 then Some (False, None, d\<lparr>has_error := True\<rparr>)
          else do { (s, d) \<leftarrow> asn1_read d len; Some (\<not> has_error d, s, d) } }"

definition asn1_read_GeneralString :: "asn1_data \<Rightarrow> (bool \<times> u8 list option \<times> asn1_data) option" where
  "asn1_read_GeneralString d =
     do { (ok, d) \<leftarrow> asn1_start_tag d ASN1_GENERAL_STRING;
          if \<not> ok then Some (False, None, d)
          else do { (ok, s, d) \<leftarrow> asn1_read_LDAPString d;
                    if \<not> ok then Some (False, s, d)
                    else do { (ok, d) \<leftarrow> asn1_end_tag d; Some (ok, s, d) } } }"

definition asn1_read_OctetString :: "asn1_data \<Rightarrow> (bool \<times> u8 list option \<times> asn1_data) option" where
  "asn1_read_OctetString d =
     do { (ok, d) \<leftarrow> asn1_start_tag d ASN1_OCTET_STRING;
          if \<not> ok then Some (False, None, d)
          else do {
            (len, d) \<leftarrow> asn1_tag_remaining d;
            if len < 0 then Some (False, None, d\<lparr>has_error := True\<rparr>)
            else if MAX_TALLOC_SIZE \<le> nat len + 1 then Some (False, None, d\<lparr>has_error := True\<rparr>)
            else do { (blob, d) \<leftarrow> asn1_read d len;
                      (_, d) \<leftarrow> asn1_end_tag d;
                      if has_error d then Some (False, None, d) else Some (True, blob, d) } } }"

text \<open>\<open>data_blob\<close> gives no memory for the length 0.\<close>

definition asn1_read_ContextSimple :: "asn1_data \<Rightarrow> u8 \<Rightarrow> (bool \<times> u8 list option \<times> asn1_data) option" where
  "asn1_read_ContextSimple d num =
     do { (ok, d) \<leftarrow> asn1_start_tag d (ASN1_CONTEXT_SIMPLE num);
          if \<not> ok then Some (False, None, d)
          else do {
            (len, d) \<leftarrow> asn1_tag_remaining d;
            if len < 0 then Some (False, None, d\<lparr>has_error := True\<rparr>)
            else if len = 0 \<or> MAX_TALLOC_SIZE \<le> nat len then Some (False, None, d\<lparr>has_error := True\<rparr>)
            else do { (blob, d) \<leftarrow> asn1_read d len;
                      (_, d) \<leftarrow> asn1_end_tag d;
                      Some (\<not> has_error d, blob, d) } } }"

text \<open>The loop shared by \<open>asn1_read_implicit_Integer\<close> and \<open>asn1_read_enumerated\<close>, in 32-bit arithmetic.\<close>

function read_int :: "asn1_data \<Rightarrow> u32 \<Rightarrow> (bool \<times> u32 \<times> asn1_data) option" where
  "read_int d i =
     (if has_error d then Some (False, i, d)
      else case asn1_tag_remaining d of
             None \<Rightarrow> None
           | Some (remaining, d) \<Rightarrow>
               if remaining > 0
               then (case asn1_read_uint8 d of
                       None \<Rightarrow> None
                     | Some (None, d) \<Rightarrow> Some (False, i, d)
                     | Some (Some b, d) \<Rightarrow> read_int d (push_bit 8 i + ucast b))
               else Some (\<not> has_error d, i, d))"
  by pat_completeness auto

termination
proof (relation "measure (\<lambda>(d, _). asn1_left d)")
  fix d and i :: u32 and x r d1 y bo d2 b
  assume t: "asn1_tag_remaining d = Some x" "(r, d1) = x" and a: "asn1_read_uint8 d1 = Some y" "(bo, d2) = y" "bo = Some b"
  then show "((d2, push_bit 8 i + ucast b), d, i) \<in> measure (\<lambda>(d, _). asn1_left d)"
    using tag_remaining_left [of d r d1] read_uint8_left [of d1 bo d2] by auto
qed simp

declare read_int.simps [simp del]

definition asn1_read_implicit_Integer :: "asn1_data \<Rightarrow> (bool \<times> u32 \<times> asn1_data) option" where
  "asn1_read_implicit_Integer d = read_int d 0"

definition asn1_read_Integer :: "asn1_data \<Rightarrow> (bool \<times> u32 \<times> asn1_data) option" where
  "asn1_read_Integer d =
     do { (ok, d) \<leftarrow> asn1_start_tag d ASN1_INTEGER;
          if \<not> ok then Some (False, 0, d)
          else do { (ok, i, d) \<leftarrow> asn1_read_implicit_Integer d;
                    if \<not> ok then Some (False, i, d)
                    else do { (ok, d) \<leftarrow> asn1_end_tag d; Some (ok, i, d) } } }"

definition asn1_read_enumerated :: "asn1_data \<Rightarrow> (bool \<times> u32 \<times> asn1_data) option" where
  "asn1_read_enumerated d =
     do { (ok, d) \<leftarrow> asn1_start_tag d ASN1_ENUMERATED;
          if \<not> ok then Some (False, 0, d)
          else do { (_, v, d) \<leftarrow> read_int d 0;
                    (ok, d) \<leftarrow> asn1_end_tag d; Some (ok, v, d) } }"

definition asn1_check_enumerated :: "asn1_data \<Rightarrow> int \<Rightarrow> (bool \<times> asn1_data) option" where
  "asn1_check_enumerated d v =
     do { (ok, d) \<leftarrow> asn1_start_tag d ASN1_ENUMERATED;
          if \<not> ok then Some (False, d)
          else do { (b, d) \<leftarrow> asn1_read_uint8 d;
                    (_, d) \<leftarrow> asn1_end_tag d;
                    let d = (if v \<noteq> (case b of None \<Rightarrow> 0 | Some b \<Rightarrow> uint b) then d\<lparr>has_error := False\<rparr> else d)
                    in Some (\<not> has_error d, d) } }"

definition asn1_read_BOOLEAN :: "asn1_data \<Rightarrow> (bool \<times> bool \<times> asn1_data) option" where
  "asn1_read_BOOLEAN d =
     do { (_, d) \<leftarrow> asn1_start_tag d ASN1_BOOLEAN;
          (tmp, d) \<leftarrow> asn1_read_uint8 d;
          (_, d) \<leftarrow> asn1_end_tag d;
          Some (\<not> has_error d, tmp = Some 0xFF, d) }"

definition asn1_check_BOOLEAN :: "asn1_data \<Rightarrow> bool \<Rightarrow> (bool \<times> asn1_data) option" where
  "asn1_check_BOOLEAN d v =
     do { (b, d) \<leftarrow> asn1_read_uint8 d;
          if b \<noteq> Some ASN1_BOOLEAN then Some (False, d\<lparr>has_error := True\<rparr>)
          else do { (b', d) \<leftarrow> asn1_read_uint8 d;
                    if (case b' of None \<Rightarrow> ASN1_BOOLEAN | Some b' \<Rightarrow> b') \<noteq> (if v then 1 else 0)
                    then Some (False, d\<lparr>has_error := True\<rparr>)
                    else Some (\<not> has_error d, d) } }"

text \<open>The nesting of the buffer on the stack is released; the size is an \<open>int\<close> that is compared as a \<open>size_t\<close>.\<close>

definition asn1_full_tag :: "u8 list \<Rightarrow> u8 \<Rightarrow> (ntstatus \<times> nat option) option" where
  "asn1_full_tag blob tag =
     do { (_, d) \<leftarrow> asn1_start_tag (asn1_zero\<lparr>asn1_bytes := Some blob, asn1_length := length blob\<rparr>) tag;
          if has_error d then Some (STATUS_MORE_ENTRIES, None)
          else do { (remaining, d) \<leftarrow> asn1_tag_remaining d;
                    let size = remaining + int (asn1_ofs d)
                    in if (of_int size :: u64) > of_nat (length blob) then Some (STATUS_MORE_ENTRIES, None)
                       else Some (NT_STATUS_OK, Some (nat size)) } }"

end
