(* ===== verification/Asn1Codec.thy ===== *)
theory Asn1Codec
  imports Asn1
begin

text \<open>
  What \<open>libcli/util/asn1.c\<close> writes, and that it reads this back.  An element is its tag, the length of its contents in
  one to four bytes, and its contents (\<open>tlv\<close>).  The states in which a buffer is being written without an error and
  those in which it is being read are \<open>W bs ns\<close> and \<open>R bs pos ns\<close>; \<open>writes\<close> and \<open>reads\<close> are the contracts of a writer and of
  a reader of the bytes \<open>e\<close>, and the locale \<open>asn1_codec\<close> is the interface of a writer and a reader that fit together.
\<close>

section \<open>Writing\<close>

definition W :: "u8 list \<Rightarrow> nesting list \<Rightarrow> asn1_data" where
  "W bs ns = \<lparr>asn1_bytes = Some bs, asn1_length = length bs, asn1_ofs = length bs, asn1_nesting = ns, has_error = False\<rparr>"

lemma W_sel [simp]: "has_error (W bs ns) = False" "asn1_nesting (W bs ns) = ns" "asn1_ofs (W bs ns) = length bs"
  "asn1_bytes (W bs ns) = Some bs" "(W bs ns)\<lparr>asn1_nesting := ms\<rparr> = W bs ms" "asn1_length (W bs ns) = length bs"
  by (simp_all add: W_def)

abbreviation tag_open :: "nat \<Rightarrow> nesting" where
  "tag_open s \<equiv> \<lparr>nest_start = s, nest_taglen = None\<rparr>"

definition der_len :: "nat \<Rightarrow> u8 list" where
  "der_len n =
     (if n < 128 then [of_nat n]
      else if n < 256 then [0x81, of_nat n]
      else if n < 65536 then [0x82, of_nat (n div 256), of_nat n]
      else [0x83, of_nat (n div 65536), of_nat (n div 256), of_nat n])"

definition tlv :: "u8 \<Rightarrow> u8 list \<Rightarrow> u8 list" where
  "tlv tag c = tag # der_len (length c) @ c"

lemma der_len_pos: "1 \<le> length (der_len n)"
  by (simp add: der_len_def)

lemma asn1_zero_W: "asn1_zero = W [] []"
  by (simp add: asn1_zero_def W_def)

lemma write_W [simp]: "length bs + length p < MAX_TALLOC_SIZE \<Longrightarrow> asn1_write (W bs ns) p = Some (True, W (bs @ p) ns)"
  by (simp add: asn1_write_def put_bytes_def W_def)

lemma write_uint8_W [simp]: "length bs + 1 < MAX_TALLOC_SIZE \<Longrightarrow> asn1_write_uint8 (W bs ns) b = Some (True, W (bs @ [b]) ns)"
  by (simp add: asn1_write_uint8_def)

lemma push_W [simp]:
  "length bs + 2 < MAX_TALLOC_SIZE \<Longrightarrow>
   asn1_push_tag (W bs ns) tag = Some (True, W (bs @ [tag, 0xff]) (tag_open (Suc (length bs)) # ns))"
  by (simp add: asn1_push_tag_def)

lemma write_zeros_W:
  "length bs + n < MAX_TALLOC_SIZE \<Longrightarrow> write_zeros n (W bs ns) = Some (True, W (bs @ replicate n 0) ns)"
proof (induction n arbitrary: bs)
  case (Suc n)
  from Suc.IH [of "bs @ [0]"] Suc.prems show ?case by simp
qed simp

lemma poke_W: "i < length bs \<Longrightarrow> poke (W bs ns) i v = Some (W (bs[i := v]) ns)"
  by (simp add: poke_def W_def)

lemma pokes_W: "i + length vs \<le> length bs \<Longrightarrow> pokes (W bs ns) i vs = Some (W (store bs i vs) ns)"
proof (induction vs arbitrary: i bs)
  case (Cons v vs)
  from Cons.IH [of "i + 1" "bs[i := v]"] Cons.prems show ?case by (simp add: poke_W store_Cons)
qed simp

lemma memmove_W:
  "dst + n \<le> length bs \<Longrightarrow> src + n \<le> length bs \<Longrightarrow> memmove (W bs ns) dst src n = Some (W (store bs dst (take n (drop src bs))) ns)"
  by (simp add: memmove_def W_def)

lemma long_length_W:
  assumes "length pre + 1 + length vs + length c < MAX_TALLOC_SIZE" and "unat len = length c"
  shows "long_length (W (pre @ x # c) (n # ns)) (length pre) len first vs = Some (True, W (pre @ first # vs @ c) ns)"
proof -
  let ?z = "replicate (length vs) 0"
  have 1: "poke (W (pre @ x # c) (n # ns)) (length pre) first = Some (W (pre @ first # c) (n # ns))" by (simp add: poke_W)
  have 2: "write_zeros (length vs) (W (pre @ first # c) (n # ns)) = Some (True, W (pre @ first # c @ ?z) (n # ns))"
    using write_zeros_W [of "pre @ first # c" "length vs" "n # ns"] assms(1) by simp
  obtain y where y: "store (pre @ first # c @ ?z) (length pre + 1 + length vs) c = pre @ first # y @ c" "length y = length vs"
    by (rule that [of "take (length vs) (c @ ?z)"]) (simp_all add: store_def)
  have 3: "memmove (W (pre @ first # c @ ?z) (n # ns)) (length pre + 1 + length vs) (length pre + 1) (length c) =
     Some (W (pre @ first # y @ c) (n # ns))"
    using y by (simp add: memmove_W)
  have 4: "pokes (W (pre @ first # y @ c) (n # ns)) (length pre + 1) vs = Some (W (pre @ first # vs @ c) (n # ns))"
    using y(2) by (simp add: pokes_W store_def)
  show ?thesis using 1 2 3 4 assms(2) by (simp add: long_length_def)
qed

lemma ucast_low_byte: "ucast (w AND 0xFF) = (ucast w :: u8)" for w :: u64
proof -
  have "w AND 0xFF = take_bit 8 w" by (simp add: take_bit_eq_mask mask_eq_exp_minus_1)
  then show ?thesis by (auto intro!: bit_word_eqI simp: bit_unsigned_iff bit_take_bit_iff)
qed

lemma ucast_drop_of_nat:
  assumes "n < 2 ^ 64" shows "ucast (drop_bit k (of_nat n :: u64)) = (of_nat (n div 2 ^ k) :: u8)"
proof -
  have "unat (of_nat n :: u64) = n" using assms by (simp add: unat_of_nat_small)
  then have "unat (drop_bit k (of_nat n :: u64)) = n div 2 ^ k" by (simp only: unat_drop_bit64)
  moreover have "ucast w = (of_nat (unat w) :: u8)" for w :: u64 by (simp add: word_eq_iff_unsigned unsigned_ucast_eq unsigned_of_nat)
  ultimately show ?thesis by metis
qed

lemma pop_branches:
  fixes bs :: "u8 list" and tag x :: u8 and ns :: "nesting list"
  assumes "length c < 2 ^ 28"
  defines "d \<equiv> W (bs @ tag # x # c) (tag_open (Suc (length bs)) # ns)" and "len \<equiv> of_nat (length c) :: u64"
  shows "asn1_pop_tag d =
    (if length c < 128 then Some (True, W (bs @ tag # of_nat (length c) # c) ns)
     else long_length d (Suc (length bs)) len (hd (der_len (length c))) (tl (der_len (length c))))" "unat len = length c"
proof -
  have len: "of_nat (length (bs @ tag # x # c)) - of_nat (Suc (length bs) + 1) = len" by (simp add: len_def)
  show u: "unat len = length c" using assms(1) by (simp add: unat_of_nat_small len_def)
  then have cmp: "len > 0xFFFF \<longleftrightarrow> \<not> length c < 65536" "len > 255 \<longleftrightarrow> \<not> length c < 256" "len > 127 \<longleftrightarrow> \<not> length c < 128"
    unfolding word_less_nat_alt by simp_all linarith+
  have b: "ucast len = (of_nat (length c) :: u8)" "ucast (drop_bit 8 len) = (of_nat (length c div 256) :: u8)"
    "ucast (drop_bit 16 len) = (of_nat (length c div 65536) :: u8)"
    using ucast_drop_of_nat [of "length c" 0] ucast_drop_of_nat [of "length c" 8] ucast_drop_of_nat [of "length c" 16] assms(1)
    by (simp_all add: len_def)
  show "asn1_pop_tag d =
    (if length c < 128 then Some (True, W (bs @ tag # of_nat (length c) # c) ns)
     else long_length d (Suc (length bs)) len (hd (der_len (length c))) (tl (der_len (length c))))"
    unfolding asn1_pop_tag_def d_def W_sel list.case nesting.simps len cmp b ucast_low_byte Let_def
    by (auto simp: poke_W list_update_append der_len_def)
qed

lemma pop_W:
  assumes "length bs + length (tlv tag c) < MAX_TALLOC_SIZE"
  shows "asn1_pop_tag (W (bs @ tag # x # c) (tag_open (Suc (length bs)) # ns)) = Some (True, W (bs @ tlv tag c) ns)"
proof -
  have small: "length c < 2 ^ 28" using assms by (simp add: tlv_def MAX_TALLOC_SIZE_def)
  note pop = pop_branches(1) [OF small, of bs tag x ns] pop_branches(2) [OF small]
  show ?thesis
  proof (cases "length c < 128")
    case True
    then show ?thesis using pop(1) by (simp add: tlv_def der_len_def)
  next
    case False
    obtain h t where h: "der_len (length c) = h # t" using der_len_pos [of "length c"] by (cases "der_len (length c)") auto
    with False show ?thesis
      using long_length_W [of "bs @ [tag]" t c "of_nat (length c)" x "tag_open (Suc (length bs))" ns h] pop assms
      by (simp add: tlv_def)
  qed
qed

section \<open>Reading\<close>

definition R :: "u8 list \<Rightarrow> nat \<Rightarrow> nesting list \<Rightarrow> asn1_data" where
  "R bs pos ns = \<lparr>asn1_bytes = Some bs, asn1_length = length bs, asn1_ofs = pos, asn1_nesting = ns, has_error = False\<rparr>"

lemma R_sel [simp]: "has_error (R bs pos ns) = False" "asn1_nesting (R bs pos ns) = ns" "asn1_ofs (R bs pos ns) = pos"
  "asn1_bytes (R bs pos ns) = Some bs" "(R bs pos ns)\<lparr>asn1_nesting := ms\<rparr> = R bs pos ms" "asn1_length (R bs pos ns) = length bs"
  by (simp_all add: R_def)

abbreviation tag_read :: "nat \<Rightarrow> nat \<Rightarrow> nesting" where
  "tag_read s n \<equiv> \<lparr>nest_start = s, nest_taglen = Some (of_nat n)\<rparr>"

lemma load_R: "length blob < MAX_TALLOC_SIZE \<Longrightarrow> asn1_load blob = (True, R blob 0 [])"
  by (simp add: asn1_load_def asn1_zero_def R_def)

lemma read_uint8_R: "pos < length bs \<Longrightarrow> asn1_read_uint8 (R bs pos ns) = Some (Some (bs ! pos), R bs (pos + 1) ns)"
  by (simp add: asn1_read_uint8_def asn1_read_def asn1_peek_def hd_drop_conv_nth R_def)

lemma read_R: "pos + n \<le> length bs \<Longrightarrow> asn1_read (R bs pos ns) (int n) = Some (Some (take n (drop pos bs)), R bs (pos + n) ns)"
  by (simp add: asn1_read_def asn1_peek_def R_def)

lemma remaining_R:
  assumes "s \<le> pos" "pos \<le> s + n" "s + n \<le> length bs" "length bs < MAX_TALLOC_SIZE"
  shows "asn1_tag_remaining (R bs pos (tag_read s n # ns)) = Some (int (s + n - pos), R bs pos (tag_read s n # ns))"
proof -
  let ?r = "s + n - pos"
  have small: "?r < 2 ^ 28" "length bs < 2 ^ 28" using assms by (simp_all add: MAX_TALLOC_SIZE_def)
  have d: "of_nat n - (of_nat pos - of_nat s) = (of_nat ?r :: u64)" using assms by (simp add: of_nat_diff)
  have "uint (ucast (of_nat ?r :: u64) :: u32) = int ?r"
    using small(1) by (simp add: unsigned_ucast_eq unsigned_of_nat take_bit_nat_eq_self)
  then have r: "sint (ucast (of_nat ?r :: u64) :: u32) = int ?r"
    using small(1) by (simp add: sint_uint signed_take_bit_int_eq_self)
  have l: "of_nat (length bs) - of_nat pos = (of_nat (length bs - pos) :: u64)" using assms by (simp add: of_nat_diff)
  have "unat (of_nat ?r :: u64) = ?r" "unat (of_nat (length bs - pos) :: u64) = length bs - pos"
    using small by (auto intro!: unat_of_nat_small)
  then have "\<not> (of_nat ?r :: u64) > of_nat (length bs - pos)"
    using assms unfolding word_less_nat_alt by simp
  then show ?thesis by (simp add: asn1_tag_remaining_def d r l Let_def del: of_int_sint)
qed

lemma end_tag_R:
  "s + n \<le> length bs \<Longrightarrow> length bs < MAX_TALLOC_SIZE \<Longrightarrow> asn1_end_tag (R bs (s + n) (tag_read s n # ns)) = Some (True, R bs (s + n) ns)"
  by (simp add: asn1_end_tag_def remaining_R)


text \<open>The next byte.\<close>

lemma next_R:
  assumes "drop pos bs = b # rest"
  shows "asn1_read_uint8 (R bs pos ns) = Some (Some b, R bs (Suc pos) ns)" "drop (Suc pos) bs = rest"
proof -
  have "pos < length bs" using assms by (metis drop_all list.distinct(1) not_le)
  moreover have "bs ! pos = b" using assms by (metis calculation Cons_nth_drop_Suc list.inject)
  ultimately show "asn1_read_uint8 (R bs pos ns) = Some (Some b, R bs (Suc pos) ns)" by (simp add: read_uint8_R)
  show "drop (Suc pos) bs = rest" using assms by (metis drop_Suc list.sel(3) tl_drop)
qed

lemma append_byte: "push_bit 8 (of_nat m :: u64) OR ucast (b :: u8) = of_nat (m * 256 + unat b)"
proof -
  have "push_bit 8 (of_nat m :: u64) OR ucast b = push_bit 8 (of_nat m) + ucast b"
    by (rule disjunctive_add [symmetric]) (auto simp: bit_push_bit_iff bit_unsigned_iff dest: bit_imp_le_length)
  also have "\<dots> = of_nat (m * 256) + of_nat (unat b)"
    by (simp add: push_bit_eq_mult)
  finally show ?thesis by simp
qed

lemma ucast_as_of_nat: "ucast b = (of_nat (unat b) :: u64)" for b :: u8
  by simp

lemma unat_of_nat_byte: "unat (of_nat n :: u8) = n mod 256"
  by (simp add: unsigned_of_nat take_bit_eq_mod)

definition be_nat :: "nat \<Rightarrow> u8 list \<Rightarrow> nat" where
  "be_nat m bs = foldl (\<lambda>m b. m * 256 + unat b) m bs"

lemma be_nat_simps [simp]: "be_nat m [] = m" "be_nat m (b # bs) = be_nat (m * 256 + unat b) bs"
  by (simp_all add: be_nat_def)

lemma read_length_R:
  "drop pos bs = vs @ rest \<Longrightarrow>
   read_length (length vs) (R bs pos ns) (of_nat m) = Some (Some (of_nat (be_nat m vs)), R bs (pos + length vs) ns)"
proof (induction vs arbitrary: pos m)
  case (Cons v vs)
  then have d: "drop pos bs = v # vs @ rest" by simp
  have "read_length (length (v # vs)) (R bs pos ns) (of_nat m) = read_length (length vs) (R bs (Suc pos) ns) (of_nat (m * 256 + unat v))"
    by (simp only: list.size add_Suc_right add_0_right read_length.simps next_R(1) [OF d] append_byte Option.bind.simps split option.case)
  also have "\<dots> = Some (Some (of_nat (be_nat (m * 256 + unat v) vs)), R bs (Suc pos + length vs) ns)"
    by (rule Cons.IH [OF next_R(2) [OF d]])
  finally show ?case by simp
qed simp

text \<open>The length of an element as the reader finds it: a single byte, or the number of bytes that follow and these.\<close>

definition start_at :: "u8 list \<Rightarrow> nat \<Rightarrow> nat \<Rightarrow> nesting list \<Rightarrow> (bool \<times> asn1_data) option" where
  "start_at bs s n ns =
     do { (remaining, d) \<leftarrow> asn1_tag_remaining (R bs s (tag_read s n # ns));
          Some (if remaining = - 1 then False else \<not> has_error d, d) }"

lemma start_tag_short:
  assumes "drop pos bs = tag # b # rest" "b AND 0x80 = 0"
  shows "asn1_start_tag (R bs pos ns) tag = start_at bs (pos + 2) (unat b) ns"
proof -
  note 1 = next_R [OF assms(1)]
  note 2 = next_R [OF 1(2)]
  show ?thesis using assms(2) by (simp add: asn1_start_tag_def start_at_def 1(1) 2(1))
qed

lemma start_tag_long:
  assumes "drop pos bs = tag # b # v # vs @ rest" "b AND 0x80 \<noteq> 0" "unat (b AND 0x7f) - 1 = length vs"
  shows "asn1_start_tag (R bs pos ns) tag = start_at bs (Suc (Suc (Suc pos)) + length vs) (be_nat 0 (v # vs)) ns"
proof -
  note 1 = next_R [OF assms(1)]
  note 2 = next_R [OF 1(2)]
  note 3 = next_R [OF 2(2)]
  have "read_length (length vs) (R bs (Suc (Suc (Suc pos))) ns) (ucast v) =
     Some (Some (of_nat (be_nat (unat v) vs)), R bs (Suc (Suc (Suc pos)) + length vs) ns)"
    using read_length_R [OF 3(2), of ns "unat v"] by simp
  then show ?thesis using assms(2) by (simp add: asn1_start_tag_def start_at_def 1(1) 2(1) 3(1) assms(3) [unfolded One_nat_def] eval_nat_numeral)
qed

lemma start_at_R:
  "s + n \<le> length bs \<Longrightarrow> length bs < MAX_TALLOC_SIZE \<Longrightarrow> start_at bs s n ns = Some (True, R bs s (tag_read s n # ns))"
  by (simp add: start_at_def remaining_R)

lemma be_nat_bytes1: "n < 256 \<Longrightarrow> be_nat 0 [of_nat n] = n"
  by (simp add: unat_of_nat_byte)

lemma be_nat_bytes2: "n < 65536 \<Longrightarrow> be_nat 0 [of_nat (n div 256), of_nat n] = n"
proof -
  assume "n < 65536"
  then have "n div 256 mod 256 = n div 256" by simp
  then show ?thesis by (simp add: unat_of_nat_byte)
qed

lemma be_nat_bytes3: "n < 2 ^ 24 \<Longrightarrow> be_nat 0 [of_nat (n div 65536), of_nat (n div 256), of_nat n] = n"
proof -
  assume "n < 2 ^ 24"
  then have "n div 256 div 256 mod 256 = n div 256 div 256" by simp
  then have "(n div 65536 mod 256) * 256 + n div 256 mod 256 = n div 256"
    using div_mult_mod_eq [of "n div 256" 256] by (simp add: div_mult2_eq [of n 256 256, simplified])
  then show ?thesis by (simp only: be_nat_simps unat_of_nat_byte mult_0 add_0 div_mult_mod_eq)
qed

lemma der_len_cases:
  assumes "n < 2 ^ 24"
  obtains (short) b where "der_len n = [b]" "b AND 0x80 = 0" "unat b = n"
  | (long) b v vs where "der_len n = b # v # vs" "b AND 0x80 \<noteq> 0" "unat (b AND 0x7f) - 1 = length vs" "be_nat 0 (v # vs) = n"
proof -
  consider (a) "n < 128" | (b) "128 \<le> n" "n < 256" | (c) "256 \<le> n" "n < 65536" | (d) "65536 \<le> n" by linarith
  then show thesis
  proof cases
    case a
    have "(of_nat n :: u8) AND mask 7 = of_nat n"
      using a by (simp flip: take_bit_eq_mask add: take_bit_of_nat take_bit_nat_eq_self)
    then have "(of_nat n :: u8) AND 0x80 = of_nat n AND (mask 7 AND 0x80)" by (metis and.assoc)
    then have "(of_nat n :: u8) AND 0x80 = 0" by (simp add: mask_eq_exp_minus_1)
    moreover have "unat (of_nat n :: u8) = n" using a by (simp only: unat_of_nat_byte) simp
    ultimately show thesis using a by (intro short) (simp_all add: der_len_def)
  next
    case b
    then show thesis using be_nat_bytes1 [of n] by (intro long [of "0x81" "of_nat n" "[]"]) (simp_all add: der_len_def)
  next
    case c
    then show thesis using be_nat_bytes2 [of n]
      by (intro long [of "0x82" "of_nat (n div 256)" "[of_nat n]"]) (simp_all add: der_len_def)
  next
    case d
    then show thesis using be_nat_bytes3 [OF assms]
      by (intro long [of "0x83" "of_nat (n div 65536)" "[of_nat (n div 256), of_nat n]"]) (simp_all add: der_len_def)
  qed
qed

lemma start_tag_header:
  assumes "n < 2 ^ 24" "drop pos bs = tag # der_len n @ rest"
  shows "asn1_start_tag (R bs pos ns) tag = start_at bs (pos + 1 + length (der_len n)) n ns"
  using assms(1)
proof (cases rule: der_len_cases)
  case (short b)
  then show ?thesis using start_tag_short [of pos bs tag b rest ns] assms(2) by simp
next
  case (long b v vs)
  then show ?thesis using start_tag_long [of pos bs tag b v vs rest ns] assms(2) by simp
qed

lemma start_tag_R:
  assumes c: "length c < 2 ^ 24" and small: "length (pre @ tlv tag c @ post) < MAX_TALLOC_SIZE"
  defines "s \<equiv> length pre + 1 + length (der_len (length c))"
  shows "asn1_start_tag (R (pre @ tlv tag c @ post) (length pre) ns) tag =
     Some (True, R (pre @ tlv tag c @ post) s (tag_read s (length c) # ns))"
proof -
  let ?bs = "pre @ tlv tag c @ post"
  have "asn1_start_tag (R ?bs (length pre) ns) tag = start_at ?bs s (length c) ns"
    unfolding s_def using c by (rule start_tag_header [of _ _ _ _ "c @ post"]) (simp add: tlv_def)
  also have "\<dots> = Some (True, R ?bs s (tag_read s (length c) # ns))"
    using small by (intro start_at_R) (simp_all add: s_def tlv_def)
  finally show ?thesis .
qed

section \<open>Contracts\<close>

text \<open>
  A writer that appends the bytes \<open>e\<close>, as long as talloc gives the room; a reader that consumes them and returns \<open>v\<close>,
  whatever is before and after them and in which structures they are nested.
\<close>

definition writes :: "(asn1_data \<Rightarrow> (bool \<times> asn1_data) option) \<Rightarrow> u8 list \<Rightarrow> bool" where
  "writes wr e \<longleftrightarrow> (\<forall>bs ns. length bs + length e < MAX_TALLOC_SIZE \<longrightarrow> wr (W bs ns) = Some (True, W (bs @ e) ns))"

definition reads :: "(asn1_data \<Rightarrow> (bool \<times> 'a \<times> asn1_data) option) \<Rightarrow> u8 list \<Rightarrow> 'a \<Rightarrow> bool" where
  "reads rd e v \<longleftrightarrow> (\<forall>pre post ns. length (pre @ e @ post) < MAX_TALLOC_SIZE \<longrightarrow>
     rd (R (pre @ e @ post) (length pre) ns) = Some (True, v, R (pre @ e @ post) (length pre + length e) ns))"

lemma writesI: "(\<And>bs ns. length bs + length e < MAX_TALLOC_SIZE \<Longrightarrow> wr (W bs ns) = Some (True, W (bs @ e) ns)) \<Longrightarrow> writes wr e"
  by (simp add: writes_def)

lemma writesD: "writes wr e \<Longrightarrow> length bs + length e < MAX_TALLOC_SIZE \<Longrightarrow> wr (W bs ns) = Some (True, W (bs @ e) ns)"
  by (simp add: writes_def)

lemma readsI:
  "(\<And>pre post ns. length (pre @ e @ post) < MAX_TALLOC_SIZE \<Longrightarrow>
     rd (R (pre @ e @ post) (length pre) ns) = Some (True, v, R (pre @ e @ post) (length pre + length e) ns)) \<Longrightarrow> reads rd e v"
  unfolding reads_def by blast

lemma readsD:
  "reads rd e v \<Longrightarrow> length (pre @ e @ post) < MAX_TALLOC_SIZE \<Longrightarrow>
   rd (R (pre @ e @ post) (length pre) ns) = Some (True, v, R (pre @ e @ post) (length pre + length e) ns)"
  unfolding reads_def by blast

text \<open>
  An element: its contents are written between \<open>asn1_push_tag\<close> and \<open>asn1_pop_tag\<close>, where the writer of the contents may
  look at where they begin.
\<close>

definition writes_in :: "(asn1_data \<Rightarrow> (bool \<times> asn1_data) option) \<Rightarrow> u8 list \<Rightarrow> bool" where
  "writes_in wr c \<longleftrightarrow> (\<forall>bs n ns. length bs + length c < MAX_TALLOC_SIZE \<longrightarrow> nest_start n + 1 = length bs \<longrightarrow>
     wr (W bs (n # ns)) = Some (True, W (bs @ c) (n # ns)))"

lemma writes_in: "writes wr c \<Longrightarrow> writes_in wr c"
  by (simp add: writes_in_def writes_def)

lemma tlv_room: "length bs + length (tlv tag c) < MAX_TALLOC_SIZE \<Longrightarrow> length bs + 2 + length c < MAX_TALLOC_SIZE"
  using der_len_pos [of "length c"] by (simp add: tlv_def)

lemma element_W:
  assumes "writes_in wr c" "length bs + length (tlv tag c) < MAX_TALLOC_SIZE"
  shows "wr (W (bs @ [tag, 0xff]) (tag_open (Suc (length bs)) # ns)) =
     Some (True, W (bs @ tag # 0xff # c) (tag_open (Suc (length bs)) # ns))"
    "asn1_push_tag (W bs ns) tag = Some (True, W (bs @ [tag, 0xff]) (tag_open (Suc (length bs)) # ns))"
    "asn1_pop_tag (W (bs @ tag # 0xff # c) (tag_open (Suc (length bs)) # ns)) = Some (True, W (bs @ tlv tag c) ns)"
proof -
  note room = tlv_room [OF assms(2)]
  show "asn1_push_tag (W bs ns) tag = Some (True, W (bs @ [tag, 0xff]) (tag_open (Suc (length bs)) # ns))"
    using room by (intro push_W) simp
  have "length (bs @ [tag, 0xff]) + length c < MAX_TALLOC_SIZE" using room by simp
  then have "wr (W (bs @ [tag, 0xff]) (tag_open (Suc (length bs)) # ns)) =
     Some (True, W ((bs @ [tag, 0xff]) @ c) (tag_open (Suc (length bs)) # ns))"
    using assms(1) unfolding writes_in_def by simp
  then show "wr (W (bs @ [tag, 0xff]) (tag_open (Suc (length bs)) # ns)) =
     Some (True, W (bs @ tag # 0xff # c) (tag_open (Suc (length bs)) # ns))" by simp
  show "asn1_pop_tag (W (bs @ tag # 0xff # c) (tag_open (Suc (length bs)) # ns)) = Some (True, W (bs @ tlv tag c) ns)"
    by (rule pop_W [OF assms(2)])
qed

text \<open>The reader of the contents, which knows how long they are.\<close>

definition reads_in :: "(asn1_data \<Rightarrow> (bool \<times> 'a \<times> asn1_data) option) \<Rightarrow> u8 list \<Rightarrow> 'a \<Rightarrow> bool" where
  "reads_in rd c v \<longleftrightarrow> (\<forall>pre post ns. length (pre @ c @ post) < MAX_TALLOC_SIZE \<longrightarrow>
     rd (R (pre @ c @ post) (length pre) (tag_read (length pre) (length c) # ns)) =
       Some (True, v, R (pre @ c @ post) (length pre + length c) (tag_read (length pre) (length c) # ns)))"

lemma reads_in: "reads rd c v \<Longrightarrow> reads_in rd c v"
  unfolding reads_in_def reads_def by blast

lemma reads_inI:
  "(\<And>pre post ns. length (pre @ c @ post) < MAX_TALLOC_SIZE \<Longrightarrow>
     rd (R (pre @ c @ post) (length pre) (tag_read (length pre) (length c) # ns)) =
       Some (True, v, R (pre @ c @ post) (length pre + length c) (tag_read (length pre) (length c) # ns))) \<Longrightarrow> reads_in rd c v"
  unfolding reads_in_def by blast

lemma element_R:
  assumes "reads_in rd c v" "length c < 2 ^ 24" "length (pre @ tlv tag c @ post) < MAX_TALLOC_SIZE"
  defines "s \<equiv> length pre + 1 + length (der_len (length c))" and "e \<equiv> length pre + length (tlv tag c)" and "bs \<equiv> pre @ tlv tag c @ post"
  shows "asn1_start_tag (R bs (length pre) ns) tag = Some (True, R bs s (tag_read s (length c) # ns))"
    "rd (R bs s (tag_read s (length c) # ns)) = Some (True, v, R bs e (tag_read s (length c) # ns))"
    "asn1_end_tag (R bs e (tag_read s (length c) # ns)) = Some (True, R bs e ns)"
proof -
  have e: "e = s + length c" by (simp add: e_def s_def tlv_def)
  show "asn1_start_tag (R bs (length pre) ns) tag = Some (True, R bs s (tag_read s (length c) # ns))"
    unfolding s_def bs_def by (rule start_tag_R [OF assms(2,3)])
  have split: "bs = (pre @ tag # der_len (length c)) @ c @ post" "length (pre @ tag # der_len (length c)) = s"
    by (simp_all add: bs_def s_def tlv_def)
  have "length bs < MAX_TALLOC_SIZE" using assms(3) by (simp add: bs_def)
  then show "rd (R bs s (tag_read s (length c) # ns)) = Some (True, v, R bs e (tag_read s (length c) # ns))"
    using assms(1) unfolding reads_in_def split(1) e by (metis split(2))
  show "asn1_end_tag (R bs e (tag_read s (length c) # ns)) = Some (True, R bs e ns)"
    unfolding e using assms(3) by (intro end_tag_R) (simp_all add: bs_def s_def tlv_def)
qed

section \<open>Integers\<close>

text \<open>The two's complement representation in as few bytes as possible.\<close>

fun strip :: "u8 list \<Rightarrow> u8 list" where
  "strip (x # y # r) = (if x = 0 \<and> y AND 0x80 = 0 \<or> x = 0xff \<and> y AND 0x80 \<noteq> 0 then strip (y # r) else x # y # r)"
| "strip r = r"

definition int_bytes :: "u32 \<Rightarrow> u8 list" where
  "int_bytes i = strip (rev (le32 i))"

text \<open>What \<open>push_int_bigendian\<close> writes, by the same recursion.\<close>

definition lead_bytes :: "bool \<Rightarrow> u8 \<Rightarrow> u8 list" where
  "lead_bytes negative b =
     (if negative then if b = 0xFF then [] else if b AND 0x80 = 0 then [0xff, b] else [b]
      else if b AND 0x80 \<noteq> 0 then [0, b] else [b])"

definition next_bytes :: "bool \<Rightarrow> u8 list \<Rightarrow> u8 \<Rightarrow> u8 list" where
  "next_bytes negative hi b = (if hi = [] then lead_bytes negative b else hi @ [b])"

lemma shift_less: "drop_bit 8 i \<noteq> 0 \<Longrightarrow> unat (drop_bit 8 i) < unat i" for i :: u32
proof -
  assume "drop_bit 8 i \<noteq> 0"
  then have "unat (drop_bit 8 i) \<noteq> 0" by (simp only: unsigned_eq_0_iff) simp
  moreover have "unat (drop_bit 8 i) = unat i div 2 ^ 8" by (simp only: unat_drop_bit32)
  ultimately show ?thesis by simp
qed

function be_min :: "bool \<Rightarrow> u32 \<Rightarrow> u8 list" where
  "be_min negative i = next_bytes negative (if drop_bit 8 i \<noteq> 0 then be_min negative (drop_bit 8 i) else []) (ucast (i AND 0xFF))"
  by pat_completeness auto

termination
  by (relation "measure (\<lambda>(_, i). unat i)") (use shift_less in auto)

declare be_min.simps [simp del]

lemma push_int_W:
  assumes "length bs + length (be_min negative i) < MAX_TALLOC_SIZE" "nest_start n + 1 = length bs"
  shows "push_int_bigendian (W bs (n # ns)) i negative = Some (True, W (bs @ be_min negative i) (n # ns))"
  using assms
proof (induction negative i rule: be_min.induct)
  case (1 negative i)
  let ?hi = "if drop_bit 8 i \<noteq> 0 then be_min negative (drop_bit 8 i) else []" and ?b = "ucast (i AND 0xFF) :: u8"
  have le: "length ?hi \<le> length (be_min negative i)" by (auto simp: be_min.simps [of negative i] next_bytes_def)
  have step: "be_min negative i = next_bytes negative ?hi ?b" by (rule be_min.simps)
  have rec: "(if drop_bit 8 i \<noteq> 0 then push_int_bigendian (W bs (n # ns)) (drop_bit 8 i) negative else Some (True, W bs (n # ns))) =
    Some (True, W (bs @ ?hi) (n # ns))"
    using "1.IH" "1.prems" le by (cases "drop_bit 8 i = 0") auto
  have room: "length bs + length (next_bytes negative ?hi ?b) < MAX_TALLOC_SIZE" using "1.prems"(1) by (simp only: step)
  show ?case
    unfolding push_int_bigendian.simps [of _ i] Let_def rec step
    using room "1.prems"(2) by (auto simp: next_bytes_def lead_bytes_def)
qed

lemma drop_join4: "drop_bit 8 (join4 a b c d) = join4 b c d 0"
  by (rule word32_eq_by_bytes) (auto simp: bit_join4 bit_drop_bit_eq dest: bit_imp_le_length)

lemma low_join4: "ucast (join4 a b c d AND 0xFF) = a"
proof -
  have "ucast (take_bit 8 (join4 a b c d)) = a"
    by (rule bit_word_eqI) (simp add: bit_join4 bit_simps)
  then show ?thesis by (simp only: and_masks)
qed

lemma join4_inject: "join4 a b c d = join4 a' b' c' d' \<longleftrightarrow> a = a' \<and> b = b' \<and> c = c' \<and> d = d'"
  by (auto dest: arg_cong [of _ _ le32] simp: le32_join4)

lemma join4_0: "join4 0 0 0 0 = 0" and join4_m1: "join4 0xff 0xff 0xff 0xff = - 1"
  by (simp_all add: join4_def)

lemma be_min_join4:
  "be_min negative (join4 a b c d) =
     next_bytes negative (if b = 0 \<and> c = 0 \<and> d = 0 then [] else be_min negative (join4 b c d 0)) a"
  using be_min.simps [of negative "join4 a b c d"] join4_inject [of b c d 0 0 0 0 0] unfolding drop_join4 low_join4 join4_0
  by simp

lemma msb_bit: "b AND 0x80 \<noteq> 0 \<longleftrightarrow> bit b 7" for b :: u8
  using and_exp_eq_0_iff_not_bit [of b 7] by simp

lemma sint_join4: "sint (join4 a b c d) < 0 \<longleftrightarrow> d AND 0x80 \<noteq> 0"
proof -
  have "sint (join4 a b c d) < 0 \<longleftrightarrow> bit (join4 a b c d) 31"
    by (simp add: sint_uint signed_take_bit_negative_iff bit_uint_iff)
  also have "\<dots> \<longleftrightarrow> bit d 7" by (simp add: bit_join4)
  finally show ?thesis by (simp only: msb_bit)
qed

lemma be_min_negative:
  assumes "d AND 0x80 \<noteq> 0" "join4 a b c d \<noteq> - 1"
  shows "be_min True (join4 a b c d) = strip [d, c, b, a]"
proof -
  have d: "d \<noteq> 0" using assms(1) by auto
  have m: "a \<noteq> 0xff \<or> b \<noteq> 0xff \<or> c \<noteq> 0xff \<or> d \<noteq> 0xff" using assms(2) by (auto simp: join4_m1 [symmetric] join4_inject)
  have "be_min True (join4 a b c d) =
      next_bytes True (next_bytes True (next_bytes True (lead_bytes True d) c) b) a"
    using d by (simp add: be_min_join4) (simp add: next_bytes_def)
  also have "\<dots> = strip [d, c, b, a]"
  proof (cases "d = 0xff")
    case False
    then show ?thesis using assms(1) d by (simp add: next_bytes_def lead_bytes_def)
  next
    case True
    then show ?thesis
    proof (cases "c = 0xff")
      case False
      then show ?thesis using True by (auto simp: next_bytes_def lead_bytes_def)
    next
      assume "c = 0xff"
      then show ?thesis using True m by (cases "b = 0xff") (auto simp: next_bytes_def lead_bytes_def)
    qed
  qed
  finally show ?thesis .
qed

lemma be_min_nonneg:
  assumes "d AND 0x80 = 0"
  shows "be_min False (join4 a b c d) = strip [d, c, b, a]"
proof (cases "d = 0")
  case False
  have "d \<noteq> 0xff" using assms by auto
  with False assms show ?thesis by (simp add: be_min_join4) (simp add: next_bytes_def lead_bytes_def)
next
  case True
  show ?thesis
  proof (cases "c = 0")
    case False
    then show ?thesis using True by (simp add: be_min_join4) (auto simp: next_bytes_def lead_bytes_def)
  next
    case c: True
    show ?thesis
      using True c by (cases "b = 0") (simp_all add: be_min_join4, auto simp: next_bytes_def lead_bytes_def)
  qed
qed

lemma be_min_strip:
  assumes "join4 a b c d \<noteq> - 1"
  shows "be_min (d AND 0x80 \<noteq> 0) (join4 a b c d) = strip [d, c, b, a]"
  using be_min_negative [OF _ assms] be_min_nonneg [of d a b c] by (cases "d AND 0x80 = 0") auto

lemma le32_bytes: obtains a b c d where "i = join4 a b c d" "le32 i = [a, b, c, d]"
  using le32_join [of i] le32_join4 by metis

lemma writes_implicit_Integer: "writes_in (\<lambda>d. asn1_write_implicit_Integer d i) (int_bytes i)"
proof -
  obtain a b c d where i: "i = join4 a b c d" "le32 i = [a, b, c, d]" by (rule le32_bytes)
  show ?thesis
  proof (cases "i = - 1")
    case True
    then have "int_bytes i = [0xff]" using le32_join4 [of "0xff" "0xff" "0xff" "0xff"] by (simp add: int_bytes_def join4_m1)
    then show ?thesis using True by (simp add: writes_in_def asn1_write_implicit_Integer_def)
  next
    case False
    then have "int_bytes i = be_min (sint i < 0) i"
      using be_min_strip [of a b c d] i by (simp add: int_bytes_def sint_join4)
    then show ?thesis using False by (simp add: writes_in_def asn1_write_implicit_Integer_def push_int_W)
  qed
qed

lemma writes_Integer: "writes (\<lambda>d. asn1_write_Integer d i) (tlv ASN1_INTEGER (int_bytes i))"
  using element_W [OF writes_implicit_Integer]
  by (intro writesI) (simp add: asn1_write_Integer_def)

lemma read_int_R:
  "drop pos bs = vs @ post \<Longrightarrow> s \<le> pos \<Longrightarrow> pos + length vs = s + n \<Longrightarrow> s + n \<le> length bs \<Longrightarrow> length bs < MAX_TALLOC_SIZE \<Longrightarrow>
   read_int (R bs pos (tag_read s n # ns)) (of_nat m) = Some (True, of_nat (be_nat m vs), R bs (s + n) (tag_read s n # ns))"
proof (induction vs arbitrary: pos m)
  case Nil
  then show ?case by (subst read_int.simps) (simp add: remaining_R)
next
  case (Cons v vs)
  then have d: "drop pos bs = v # vs @ post" by simp
  have "push_bit 8 (of_nat m :: u32) + ucast v = of_nat (m * 256 + unat v)" by (simp add: push_bit_eq_mult)
  then have "read_int (R bs pos (tag_read s n # ns)) (of_nat m) = read_int (R bs (Suc pos) (tag_read s n # ns)) (of_nat (m * 256 + unat v))"
    using Cons.prems(2-) by (subst read_int.simps) (simp add: remaining_R next_R(1) [OF d])
  also have "\<dots> = Some (True, of_nat (be_nat (m * 256 + unat v) vs), R bs (s + n) (tag_read s n # ns))"
    using Cons.prems(2-) next_R(2) [OF d] by (intro Cons.IH) simp_all
  finally show ?case by simp
qed

lemma reads_int: "reads_in (\<lambda>d. read_int d 0) c (of_nat (be_nat 0 c))"
proof (rule reads_inI)
  fix pre post ns assume l: "length (pre @ c @ post) < MAX_TALLOC_SIZE"
  show "read_int (R (pre @ c @ post) (length pre) (tag_read (length pre) (length c) # ns)) 0 =
     Some (True, of_nat (be_nat 0 c), R (pre @ c @ post) (length pre + length c) (tag_read (length pre) (length c) # ns))"
    using read_int_R [of "length pre" "pre @ c @ post" c post "length pre" "length c" ns 0] l by simp
qed

lemma length_strip: "length (strip bs) \<le> length bs"
  by (induction bs rule: strip.induct) auto

lemma length_int_bytes: "length (int_bytes i) \<le> 4"
  using length_strip [of "rev (le32 i)"] by (simp add: int_bytes_def)

lemma reads_Integer: "reads asn1_read_Integer (tlv ASN1_INTEGER (int_bytes i)) (of_nat (be_nat 0 (int_bytes i)))"
proof (rule readsI)
  fix pre post ns assume "length (pre @ tlv ASN1_INTEGER (int_bytes i) @ post) < MAX_TALLOC_SIZE"
  moreover have "length (int_bytes i) < 2 ^ 24" using length_int_bytes [of i] by simp
  ultimately show "asn1_read_Integer (R (pre @ tlv ASN1_INTEGER (int_bytes i) @ post) (length pre) ns) =
    Some (True, of_nat (be_nat 0 (int_bytes i)),
      R (pre @ tlv ASN1_INTEGER (int_bytes i) @ post) (length pre + length (tlv ASN1_INTEGER (int_bytes i))) ns)"
    using element_R [OF reads_int, of "int_bytes i" pre ASN1_INTEGER post ns]
    by (simp add: asn1_read_Integer_def asn1_read_implicit_Integer_def)
qed

text \<open>Reading returns the contents as an unsigned number: right for what is not negative, and where there are four bytes.\<close>

lemma be_nat_less: "be_nat m bs < (m + 1) * 256 ^ length bs"
proof (induction bs arbitrary: m)
  case (Cons b bs)
  have b: "unat b < 256" using unsigned_less [of b] by simp
  have "be_nat m (b # bs) < (m * 256 + unat b + 1) * 256 ^ length bs" using Cons.IH [of "m * 256 + unat b"] by simp
  also have "\<dots> \<le> ((m + 1) * 256) * 256 ^ length bs" using b by (intro mult_right_mono) simp_all
  finally show ?case by (simp only: list.size(4) add_Suc_right add_0_right power_Suc mult.assoc)
qed simp

lemma join4_step: "join4 a b c d = of_nat (unat (join4 b c d 0) * 256 + unat a)"
proof -
  have "join4 a b c d = push_bit 8 (join4 b c d 0) OR ucast a"
    by (rule word32_eq_by_bytes) (auto simp: bit_join4 bit_simps dest: bit_imp_le_length)
  also have "\<dots> = push_bit 8 (join4 b c d 0) + ucast a"
    by (rule disjunctive_add [symmetric]) (auto simp: bit_push_bit_iff bit_unsigned_iff dest: bit_imp_le_length)
  also have "\<dots> = of_nat (unat (join4 b c d 0) * 256 + unat a)" by (simp add: push_bit_eq_mult)
  finally show ?thesis .
qed

lemma of_nat_be_nat4: "(of_nat (be_nat 0 [d, c, b, a]) :: u32) = join4 a b c d"
  using join4_step [of a b c d] join4_step [of b c d 0] join4_step [of c d 0 0] join4_step [of d 0 0 0] join4_0
  by (simp add: algebra_simps)

lemma be_nat_4: "unat (join4 a b c d) = be_nat 0 [d, c, b, a]"
proof -
  have "be_nat 0 [d, c, b, a] < 2 ^ 32" using be_nat_less [of 0 "[d, c, b, a]"] by simp
  then show ?thesis unfolding of_nat_be_nat4 [symmetric] by (intro unat_of_nat_small) simp
qed

lemma msb_unat: "b AND 0x80 \<noteq> 0 \<longleftrightarrow> 128 \<le> unat b" for b :: u8
proof -
  have b: "unat b < 256" using unsigned_less [of b] by simp
  have "bit b 7 \<longleftrightarrow> bit (unat b) 7" by (simp add: bit_unsigned_iff)
  also have "\<dots> \<longleftrightarrow> odd (unat b div 2 ^ 7)" by (rule bit_iff_odd)
  finally have "b AND 0x80 \<noteq> 0 \<longleftrightarrow> odd (unat b div 128)" by (simp only: msb_bit) simp
  moreover have "unat b div 128 = (if 128 \<le> unat b then 1 else 0)" using b by (auto intro: div_nat_eqI)
  ultimately show ?thesis by (simp split: if_splits)
qed

lemma strip_nonneg: "hd xs AND 0x80 = 0 \<Longrightarrow> be_nat 0 (strip xs) = be_nat 0 xs"
  by (induction xs rule: strip.induct) auto

lemma sint_negative: "sint i < 0 \<Longrightarrow> sint i = int (unat i) - 2 ^ 32" for i :: u32
proof -
  assume "sint i < 0"
  then have "bit (uint i) 31" by (simp add: sint_uint signed_take_bit_negative_iff)
  moreover have "take_bit 32 (uint i) = uint i" using unsigned_less [of i] by (intro take_bit_int_eq_self) simp_all
  ultimately show ?thesis by (simp add: sint_uint signed_take_bit_eq_take_bit_minus)
qed

lemma sint_bound: "sint i < 0 \<Longrightarrow> sint i < - (2 ^ 23) \<longleftrightarrow> unat i < 0xFF800000" for i :: u32
proof -
  assume "sint i < 0"
  moreover obtain n where n: "unat i = n" by blast
  ultimately have "sint i = int n - 2 ^ 32" using sint_negative [of i] by (simp only:)
  then show ?thesis unfolding n by simp
qed

lemma Integer_value:
  "of_nat (be_nat 0 (int_bytes i)) = i \<longleftrightarrow> 0 \<le> sint i \<or> sint i < - (2 ^ 23)"
proof -
  obtain a b c d where i: "i = join4 a b c d" "le32 i = [a, b, c, d]" by (rule le32_bytes)
  have u: "unat i = be_nat 0 [d, c, b, a]" by (simp only: i(1) be_nat_4)
  have bytes: "unat a < 256" "unat b < 256" "unat c < 256" "unat d < 256"
    using unsigned_less [of a] unsigned_less [of b] unsigned_less [of c] unsigned_less [of d] by simp_all
  consider (pos) "d AND 0x80 = 0" | (short) "d = 0xff" "c AND 0x80 \<noteq> 0" | (long) "d AND 0x80 \<noteq> 0" "d \<noteq> 0xff \<or> c AND 0x80 = 0"
    by auto
  then show ?thesis
  proof cases
    case pos
    then have "0 \<le> sint i" using sint_join4 [of a b c d] i(1) by (simp add: not_less [symmetric])
    moreover have "be_nat 0 (int_bytes i) = unat i" using pos u i(2) strip_nonneg [of "[d, c, b, a]"] by (simp add: int_bytes_def del: strip.simps)
    ultimately show ?thesis by simp
  next
    case short
    then have "d AND 0x80 \<noteq> 0" by simp
    then have neg: "sint i < 0" using sint_join4 [of a b c d] i(1) by simp
    have "0xFF800000 \<le> unat i" using short msb_unat [of c] u by simp
    then have s: "\<not> sint i < - (2 ^ 23)" using sint_bound [OF neg] by simp
    have "int_bytes i = strip [c, b, a]" using short i(2) by (simp add: int_bytes_def)
    then have "be_nat 0 (int_bytes i) < 256 ^ length (strip [c, b, a])" using be_nat_less [of 0 "strip [c, b, a]"] by simp
    also have "\<dots> \<le> 256 ^ 3" using length_strip [of "[c, b, a]"] by (intro power_increasing) simp_all
    finally have small: "be_nat 0 (int_bytes i) < 2 ^ 24" by simp
    then have "unat (of_nat (be_nat 0 (int_bytes i)) :: u32) = be_nat 0 (int_bytes i)" by (intro unat_of_nat_small) simp
    with small \<open>0xFF800000 \<le> unat i\<close> have "of_nat (be_nat 0 (int_bytes i)) \<noteq> i" by auto
    with s neg show ?thesis by simp
  next
    case long
    then have neg: "sint i < 0" using sint_join4 [of a b c d] i(1) by simp
    have d0: "d \<noteq> 0" using long(1) by auto
    have "int_bytes i = [d, c, b, a]" using long d0 i(2) by (auto simp: int_bytes_def)
    then have eq: "be_nat 0 (int_bytes i) = unat i" using u by simp
    have "unat d \<noteq> 255 \<or> unat c < 128"
    proof (cases "d = 0xff")
      case True then show ?thesis using long(2) msb_unat [of c] by linarith
    next
      case False
      have "of_nat (unat d) = d" by simp
      then have "unat d \<noteq> 255" using False by (metis of_nat_numeral)
      then show ?thesis ..
    qed
    then have "unat i < 0xFF800000" using u bytes by simp linarith
    then have "sint i < - (2 ^ 23)" using sint_bound [OF neg] by simp
    with eq show ?thesis by simp
  qed
qed
section \<open>Strings, booleans, enumerations\<close>

lemma raw_R:
  assumes "length c < 2 ^ 24" "length (pre @ tlv tag c @ post) < MAX_TALLOC_SIZE"
  defines "s \<equiv> length pre + 1 + length (der_len (length c))" and "e \<equiv> length pre + length (tlv tag c)" and "bs \<equiv> pre @ tlv tag c @ post"
  shows "asn1_start_tag (R bs (length pre) ns) tag = Some (True, R bs s (tag_read s (length c) # ns))"
    "asn1_tag_remaining (R bs s (tag_read s (length c) # ns)) = Some (int (length c), R bs s (tag_read s (length c) # ns))"
    "asn1_read (R bs s (tag_read s (length c) # ns)) (int (length c)) = Some (Some c, R bs e (tag_read s (length c) # ns))"
    "asn1_end_tag (R bs e (tag_read s (length c) # ns)) = Some (True, R bs e ns)"
proof -
  have "reads_in (\<lambda>d. do { (len, d) \<leftarrow> asn1_tag_remaining d; (p, d) \<leftarrow> asn1_read d len; Some (True, p, d) }) c (Some c)"
    by (rule reads_inI) (simp add: remaining_R read_R)
  note e = element_R [OF this assms(1,2), of ns]
  show "asn1_start_tag (R bs (length pre) ns) tag = Some (True, R bs s (tag_read s (length c) # ns))"
    "asn1_end_tag (R bs e (tag_read s (length c) # ns)) = Some (True, R bs e ns)"
    using e unfolding s_def e_def bs_def by simp_all
  show r: "asn1_tag_remaining (R bs s (tag_read s (length c) # ns)) = Some (int (length c), R bs s (tag_read s (length c) # ns))"
    using remaining_R [of s s "length c" bs ns] assms(2) by (simp add: bs_def s_def tlv_def)
  show "asn1_read (R bs s (tag_read s (length c) # ns)) (int (length c)) = Some (Some c, R bs e (tag_read s (length c) # ns))"
    using e(2) r unfolding s_def e_def bs_def by (auto split: bind_splits)
qed

lemma byte_R:
  assumes "length (pre @ tlv tag [b] @ post) < MAX_TALLOC_SIZE"
  shows "asn1_read_uint8 (R (pre @ tlv tag [b] @ post) (Suc (Suc (length pre))) ns) = Some (Some b, R (pre @ tlv tag [b] @ post) (Suc (Suc (Suc (length pre)))) ns)"
proof -
  have "drop (Suc (Suc (length pre))) (pre @ tlv tag [b] @ post) = b # post" by (simp add: tlv_def der_len_def)
  then show ?thesis by (rule next_R(1))
qed

lemma writes_raw: "writes_in (\<lambda>d. asn1_write d p) p" and writes_byte: "writes_in (\<lambda>d. asn1_write_uint8 d b) [b]"
  by (simp_all add: writes_in_def)

lemma writes_OctetString: "writes (\<lambda>d. asn1_write_OctetString d p) (tlv ASN1_OCTET_STRING p)"
  using element_W [OF writes_raw] by (intro writesI) (simp add: asn1_write_OctetString_def)

lemma writes_GeneralString: "writes (\<lambda>d. asn1_write_GeneralString d p) (tlv ASN1_GENERAL_STRING p)"
  using element_W [OF writes_raw] by (intro writesI) (simp add: asn1_write_GeneralString_def asn1_write_LDAPString_def)

lemma writes_ContextSimple: "writes (\<lambda>d. asn1_write_ContextSimple d num p) (tlv (ASN1_CONTEXT_SIMPLE num) p)"
  using element_W [OF writes_raw] by (intro writesI) (simp add: asn1_write_ContextSimple_def)

lemma writes_BOOLEAN: "writes (\<lambda>d. asn1_write_BOOLEAN d v) (tlv ASN1_BOOLEAN [if v then 0xFF else 0])"
  using element_W [OF writes_byte, of _ ASN1_BOOLEAN "if v then 0xFF else 0"] by (intro writesI) (simp add: asn1_write_BOOLEAN_def)

lemma writes_enumerated: "writes (\<lambda>d. asn1_write_enumerated d v) (tlv ASN1_ENUMERATED [v])"
  using element_W [OF writes_byte] by (intro writesI) (simp add: asn1_write_enumerated_def)

lemma reads_OctetString: "length p < 2 ^ 24 \<Longrightarrow> reads asn1_read_OctetString (tlv ASN1_OCTET_STRING p) (Some p)"
  using raw_R [of p _ ASN1_OCTET_STRING] by (intro readsI) (simp add: asn1_read_OctetString_def MAX_TALLOC_SIZE_def)

lemma reads_GeneralString: "length p < 2 ^ 24 \<Longrightarrow> reads asn1_read_GeneralString (tlv ASN1_GENERAL_STRING p) (Some p)"
  using raw_R [of p _ ASN1_GENERAL_STRING]
  by (intro readsI) (simp add: asn1_read_GeneralString_def asn1_read_LDAPString_def MAX_TALLOC_SIZE_def)

lemma reads_ContextSimple:
  "length p < 2 ^ 24 \<Longrightarrow> p \<noteq> [] \<Longrightarrow> reads (\<lambda>d. asn1_read_ContextSimple d num) (tlv (ASN1_CONTEXT_SIMPLE num) p) (Some p)"
  using raw_R [of p _ "ASN1_CONTEXT_SIMPLE num"] by (intro readsI) (simp add: asn1_read_ContextSimple_def MAX_TALLOC_SIZE_def)

lemma length_tlv1: "length (tlv tag [b]) = Suc (Suc (Suc 0))"
  by (simp add: tlv_def der_len_def)

lemma der_len1: "length (der_len (Suc 0)) = 1"
  by (simp add: der_len_def)

lemma reads_BOOLEAN: "reads asn1_read_BOOLEAN (tlv ASN1_BOOLEAN [if v then 0xFF else 0]) v"
proof (rule readsI)
  fix pre post ns assume "length (pre @ tlv ASN1_BOOLEAN [if v then 0xFF else 0] @ post) < MAX_TALLOC_SIZE"
  then show "asn1_read_BOOLEAN (R (pre @ tlv ASN1_BOOLEAN [if v then 0xFF else 0] @ post) (length pre) ns) =
    Some (True, v, R (pre @ tlv ASN1_BOOLEAN [if v then 0xFF else 0] @ post) (length pre + length (tlv ASN1_BOOLEAN [if v then 0xFF else 0])) ns)"
    using raw_R [of "[if v then 0xFF else 0]" pre ASN1_BOOLEAN post ns] byte_R [of pre ASN1_BOOLEAN "if v then 0xFF else 0" post]
    by (simp add: asn1_read_BOOLEAN_def length_tlv1 der_len1)
qed

lemma reads_enumerated: "reads asn1_read_enumerated (tlv ASN1_ENUMERATED [v]) (ucast v)"
proof (rule readsI)
  fix pre post ns assume "length (pre @ tlv ASN1_ENUMERATED [v] @ post) < MAX_TALLOC_SIZE"
  then show "asn1_read_enumerated (R (pre @ tlv ASN1_ENUMERATED [v] @ post) (length pre) ns) =
    Some (True, ucast v, R (pre @ tlv ASN1_ENUMERATED [v] @ post) (length pre + length (tlv ASN1_ENUMERATED [v])) ns)"
    using element_R [OF reads_int, of "[v]" pre ASN1_ENUMERATED post ns] by (simp add: asn1_read_enumerated_def)
qed

section \<open>Object identifiers\<close>

text \<open>The text of an identifier has a blank between its numbers.\<close>

definition oid_text :: "nat \<Rightarrow> nat \<Rightarrow> u32 list \<Rightarrow> string" where
  "oid_text a b vs = dec a @ concat (map (\<lambda>n. CHR '' '' # dec n) (b # map unat vs))"

definition arc_bytes :: "u32 \<Rightarrow> u8 list" where
  "arc_bytes v =
     (if v \<ge> 0x10000000 then [0x80 OR ucast (drop_bit 28 v AND 0xff)] else []) @
     (if v \<ge> 0x200000 then [0x80 OR ucast (drop_bit 21 v AND 0xff)] else []) @
     (if v \<ge> 0x4000 then [0x80 OR ucast (drop_bit 14 v AND 0xff)] else []) @
     (if v \<ge> 0x80 then [0x80 OR ucast (drop_bit 7 v AND 0xff)] else []) @
     [ucast (v AND 0x7f)]"

definition oid_bytes :: "nat \<Rightarrow> nat \<Rightarrow> u32 list \<Rightarrow> u8 list" where
  "oid_bytes a b vs = of_nat (40 * a + b) # concat (map arc_bytes vs)"

lemma write_if_W: "length bs + 1 < MAX_TALLOC_SIZE \<Longrightarrow> write_if c (W bs ns) b = Some (W (bs @ (if c then [b] else [])) ns)"
  by (simp add: write_if_def)

lemma write_arc_W:
  assumes "length bs + length (arc_bytes v) < MAX_TALLOC_SIZE"
  shows "write_arc (W bs ns) v = Some (True, W (bs @ arc_bytes v) ns)"
  using assms unfolding write_arc_def arc_bytes_def
  by (auto simp: write_if_def)

lemma skip_blank: "strtol (CHR '' '' # dec n @ rest) = strtol (dec n @ rest)"
  by (simp add: strtol_def number_prefix)

lemma blanks_no_digit: "\<not> starts_digit (concat (map (\<lambda>n. CHR '' '' # dec n) ns))"
  by (cases ns) (simp_all add: starts_digit_def is_digit_def)

lemma write_arcs_W:
  "length bs + length (concat (map arc_bytes vs)) < MAX_TALLOC_SIZE \<Longrightarrow>
   write_arcs (W bs ns) (concat (map (\<lambda>n. CHR '' '' # dec n) (map unat vs))) = Some (True, W (bs @ concat (map arc_bytes vs)) ns)"
proof (induction vs arbitrary: bs)
  case Nil
  then show ?case by (simp add: write_arcs.simps)
next
  case (Cons v vs)
  let ?t = "concat (map (\<lambda>n. CHR '' '' # dec n) (map unat vs))"
  have "unat v < 2 ^ 32" using unsigned_less [of v] by simp
  then have "strtol (CHR '' '' # dec (unat v) @ ?t) = (int (unat v), ?t)"
    unfolding skip_blank by (intro strtol_dec blanks_no_digit) simp
  then have "write_arcs (W bs ns) (CHR '' '' # dec (unat v) @ ?t) = write_arcs (W (bs @ arc_bytes v) ns) ?t"
    using Cons.prems write_arc_W [of bs v ns] by (subst write_arcs.simps) simp
  then show ?case using Cons.IH [of "bs @ arc_bytes v"] Cons.prems by simp
qed

lemma ucast_of_nat_u8: "ucast (of_nat n :: u32) = (of_nat n :: u8)"
  by (simp add: unsigned_of_nat word_of_nat_eq_iff)

lemma writes_OID:
  assumes "a < 2 ^ 63" "b < 2 ^ 63"
  shows "writes (\<lambda>d. asn1_write_OID d (oid_text a b vs)) (tlv ASN1_OID (oid_bytes a b vs))"
proof (rule writesI)
  fix bs :: "u8 list" and ns assume l: "length bs + length (tlv ASN1_OID (oid_bytes a b vs)) < MAX_TALLOC_SIZE"
  let ?t = "concat (map (\<lambda>n. CHR '' '' # dec n) (map unat vs))"
  have 1: "strtol (oid_text a b vs) = (int a, CHR '' '' # dec b @ ?t)"
    unfolding oid_text_def using assms(1) strtol_dec [OF blanks_no_digit, of a "b # map unat vs"] by simp
  have 2: "strtol (CHR '' '' # dec b @ ?t) = (int b, ?t)"
    unfolding skip_blank by (intro strtol_dec blanks_no_digit assms(2))
  have "ucast (of_nat (40 * a + b) :: u32) = (of_nat (40 * a + b) :: u8)" by (rule ucast_of_nat_u8)
  then have byte: "ucast (40 * of_int (int a) + of_int (int b) :: u32) = (of_nat (40 * a + b) :: u8)" by simp
  have "writes_in (\<lambda>d. do { (ok, d) \<leftarrow> asn1_write_uint8 d (of_nat (40 * a + b));
      if \<not> ok then Some (False, d) else write_arcs d ?t }) (oid_bytes a b vs)"
    using write_arcs_W [of _ vs] by (simp add: writes_in_def oid_bytes_def)
  note e = element_W [OF this l, of ns]
  show "asn1_write_OID (W bs ns) (oid_text a b vs) = Some (True, W (bs @ tlv ASN1_OID (oid_bytes a b vs)) ns)"
    unfolding asn1_write_OID_def e(2) 1 2 byte Option.bind.simps split
    using e(1,3) by (auto split: bind_splits if_splits)
qed

lemma read_arc_R:
  "drop pos bs = vs @ l # rest \<Longrightarrow> \<forall>b \<in> set vs. b AND 0x80 \<noteq> 0 \<Longrightarrow> l AND 0x80 = 0 \<Longrightarrow>
   read_arc (R bs pos ns) v b = Some (foldl (\<lambda>v b. push_bit 7 v OR ucast (b AND 0x7f)) v (vs @ [l]), l, R bs (pos + length vs + 1) ns)"
proof (induction vs arbitrary: pos v b)
  case Nil
  then show ?case using next_R(1) [of pos bs l rest] by (simp add: read_arc.simps [of _ v b])
next
  case (Cons x vs)
  then have d: "drop pos bs = x # vs @ l # rest" by simp
  have "read_arc (R bs pos ns) v b = read_arc (R bs (Suc pos) ns) (push_bit 7 v OR ucast (x AND 0x7f)) x"
    using Cons.prems(2) by (simp add: read_arc.simps [of "R bs pos ns" v b] next_R(1) [OF d])
  then show ?case using Cons.IH [OF next_R(2) [OF d]] Cons.prems by simp
qed

lemma low7: "ucast ((0x80 OR ucast (w AND 0xff)) AND (0x7f :: u8)) = take_bit 7 w" "ucast (ucast (w AND 0x7f) AND (0x7f :: u8)) = take_bit 7 w"
  "(0x80 OR ucast (w AND 0xff)) AND (0x80 :: u8) \<noteq> 0" "ucast (w AND 0x7f) AND (0x80 :: u8) = 0" for w :: u32
proof -
  have m: "(0x7f :: u8) = mask 7" "(0x7f :: u32) = mask 7" "(0xff :: u32) = mask 8"
    by (simp_all add: mask_eq_exp_minus_1)
  have b: "bit (0x80 :: u8) n \<longleftrightarrow> n = 7" "bit (0x80 :: u32) n \<longleftrightarrow> n = 7" for n
    using bit_exp_iff [where 'a = u8, of 7 n] bit_exp_iff [where 'a = u32, of 7 n] by auto
  show "ucast ((0x80 OR ucast (w AND 0xff)) AND (0x7f :: u8)) = take_bit 7 w"
  proof -
    have "(0x80 OR x) AND (0x7f :: u8) = x AND 0x7f" for x by (simp add: bit.conj_disj_distrib2)
    then show ?thesis unfolding m by simp (rule bit_word_eqI; auto simp: bit_simps)
  qed
  show "ucast (ucast (w AND 0x7f) AND (0x7f :: u8)) = take_bit 7 w"
    unfolding m by (rule bit_word_eqI) (auto simp: bit_simps)
  show "(0x80 OR ucast (w AND 0xff)) AND (0x80 :: u8) \<noteq> 0"
    unfolding msb_bit by (simp add: bit_simps b)
  have "\<not> bit (ucast (w AND 0x7f) :: u8) 7" unfolding m by (simp add: bit_simps)
  then show "ucast (w AND 0x7f) AND (0x80 :: u8) = 0" using msb_bit by blast
qed

lemma arc_chunks:
  "push_bit 7 (push_bit 7 (push_bit 7 (push_bit 7 (take_bit 7 (drop_bit 28 v)) OR take_bit 7 (drop_bit 21 v))
       OR take_bit 7 (drop_bit 14 v)) OR take_bit 7 (drop_bit 7 v)) OR take_bit 7 v = v" for v :: u32
proof (rule bit_word_eqI)
  fix n assume "n < LENGTH(32)"
  then consider "n < 7" | "7 \<le> n" "n < 14" | "14 \<le> n" "n < 21" | "21 \<le> n" "n < 28" | "28 \<le> n" "n < 32" by fastforce
  then show "bit (push_bit 7 (push_bit 7 (push_bit 7 (push_bit 7 (take_bit 7 (drop_bit 28 v)) OR take_bit 7 (drop_bit 21 v))
       OR take_bit 7 (drop_bit 14 v)) OR take_bit 7 (drop_bit 7 v)) OR take_bit 7 v) n = bit v n"
    by cases (auto simp: bit_simps)
qed

lemma arc_leading: "unat v < 2 ^ k \<Longrightarrow> drop_bit k v = 0" for v :: u32
proof -
  assume "unat v < 2 ^ k"
  then have "unat (drop_bit k v) = 0" by (simp only: unat_drop_bit32) simp
  then show ?thesis by (simp only: unsigned_eq_0_iff)
qed

lemma arc_fold: "foldl (\<lambda>v b. push_bit 7 v OR ucast (b AND 0x7f)) 0 (arc_bytes v) = v"
proof -
  consider "unat v < 0x80" | "0x80 \<le> unat v" "unat v < 0x4000" | "0x4000 \<le> unat v" "unat v < 0x200000"
    | "0x200000 \<le> unat v" "unat v < 0x10000000" | "0x10000000 \<le> unat v" by linarith
  then show ?thesis
    using arc_chunks [of v] arc_leading [of v 28] arc_leading [of v 21] arc_leading [of v 14] arc_leading [of v 7]
    unfolding arc_bytes_def word_le_nat_alt by cases (simp_all add: low7)
qed

lemma arc_bytes_shape: "\<exists>vs l. arc_bytes v = vs @ [l] \<and> (\<forall>b \<in> set vs. b AND 0x80 \<noteq> 0) \<and> l AND 0x80 = 0"
  by (intro exI conjI) (auto simp: arc_bytes_def low7 simp flip: append_assoc)

lemma read_arc_bytes:
  assumes "drop pos bs = arc_bytes v @ rest"
  shows "\<exists>l. read_arc (R bs pos ns) 0 b = Some (v, l, R bs (pos + length (arc_bytes v)) ns)"
proof -
  obtain vs l where s: "arc_bytes v = vs @ [l]" "\<forall>b \<in> set vs. b AND 0x80 \<noteq> 0" "l AND 0x80 = 0" using arc_bytes_shape by blast
  have "drop pos bs = vs @ l # rest" using assms s(1) by simp
  from read_arc_R [OF this s(2,3), of ns 0 b] show ?thesis unfolding s(1) [symmetric] arc_fold by (auto simp: s(1))
qed

lemma read_arcs_R:
  "drop pos bs = concat (map arc_bytes vs) @ post \<Longrightarrow> s \<le> pos \<Longrightarrow> pos + length (concat (map arc_bytes vs)) = s + n \<Longrightarrow>
   s + n \<le> length bs \<Longrightarrow> length bs < MAX_TALLOC_SIZE \<Longrightarrow>
   read_arcs (R bs pos (tag_read s n # ns)) oid b =
     Some (oid @ concat (map (\<lambda>n. CHR '' '' # dec n) (map unat vs)), R bs (s + n) (tag_read s n # ns))"
proof (induction vs arbitrary: pos oid b)
  case Nil
  then show ?case by (subst read_arcs.simps) (simp add: remaining_R)
next
  case (Cons v vs)
  then have d: "drop pos bs = arc_bytes v @ concat (map arc_bytes vs) @ post" by simp
  obtain l where l: "read_arc (R bs pos (tag_read s n # ns)) 0 b = Some (v, l, R bs (pos + length (arc_bytes v)) (tag_read s n # ns))"
    using read_arc_bytes [OF d] by blast
  have "0 < length (arc_bytes v)" by (simp add: arc_bytes_def)
  moreover have "pos + length (arc_bytes v) \<le> s + n" using Cons.prems(3) by simp
  ultimately have pos: "pos < s + n" by linarith
  have "drop (pos + length (arc_bytes v)) bs = drop (length (arc_bytes v)) (drop pos bs)" by (simp add: add.commute)
  also have "\<dots> = concat (map arc_bytes vs) @ post" unfolding d by simp
  finally have d': "drop (pos + length (arc_bytes v)) bs = concat (map arc_bytes vs) @ post" .
  have "read_arcs (R bs pos (tag_read s n # ns)) oid b =
     read_arcs (R bs (pos + length (arc_bytes v)) (tag_read s n # ns)) (oid @ '' '' @ dec (unat v)) l"
    using Cons.prems(2-) pos by (subst read_arcs.simps) (simp add: remaining_R l)
  also have "\<dots> = Some ((oid @ '' '' @ dec (unat v)) @ concat (map (\<lambda>n. CHR '' '' # dec n) (map unat vs)), R bs (s + n) (tag_read s n # ns))"
    using Cons.prems(2-) by (intro Cons.IH [OF d']) simp_all
  finally show ?case by simp
qed

lemma reads_OID:
  assumes ab: "40 * a + b < 256" "b < 40" and l: "length (oid_bytes a b vs) < 2 ^ 24"
  shows "reads asn1_read_OID (tlv ASN1_OID (oid_bytes a b vs)) (Some (oid_text a b vs))"
proof (rule readsI)
  let ?c = "oid_bytes a b vs" and ?b = "of_nat (40 * a + b) :: u8"
  fix pre post ns assume m: "length (pre @ tlv ASN1_OID ?c @ post) < MAX_TALLOC_SIZE"
  have u: "unat ?b = 40 * a + b" using ab(1) by (simp only: unat_of_nat_byte) simp
  have "reads_in (\<lambda>d. do { (x, d) \<leftarrow> asn1_read_uint8 d;
      let x = (case x of None \<Rightarrow> 0 | Some x \<Rightarrow> x) in
      do { (oid, d) \<leftarrow> read_arcs d (dec (unat x div 40) @ '' '' @ dec (unat x mod 40)) x; Some (True, Some oid, d) } }) ?c
      (Some (oid_text a b vs))"
  proof (rule reads_inI)
    fix pre post ns assume l: "length (pre @ ?c @ post) < MAX_TALLOC_SIZE"
    let ?bs = "pre @ ?c @ post" and ?ns = "tag_read (length pre) (length ?c) # ns"
    have "drop (length pre) ?bs = ?b # concat (map arc_bytes vs) @ post" by (simp add: oid_bytes_def)
    note d = next_R [OF this]
    have ab': "unat ?b div 40 = a" "unat ?b mod 40 = b" using ab(2) unfolding u by simp_all
    have "read_arcs (R ?bs (Suc (length pre)) ?ns) (dec a @ '' '' @ dec b) ?b = Some (oid_text a b vs, R ?bs (length pre + length ?c) ?ns)"
      using read_arcs_R [OF d(2), of "length pre" "length ?c" ns "dec a @ '' '' @ dec b" ?b] l
      by (simp add: oid_bytes_def oid_text_def)
    with d(1) show "(do { (x, d) \<leftarrow> asn1_read_uint8 (R ?bs (length pre) ?ns);
      let x = (case x of None \<Rightarrow> 0 | Some x \<Rightarrow> x) in
      do { (oid, d) \<leftarrow> read_arcs d (dec (unat x div 40) @ '' '' @ dec (unat x mod 40)) x; Some (True, Some oid, d) } }) =
      Some (True, Some (oid_text a b vs), R ?bs (length pre + length ?c) ?ns)"
      by (simp only: Option.bind.simps split option.case Let_def ab')
  qed
  note e = element_R [OF this l m, of ns]
  show "asn1_read_OID (R (pre @ tlv ASN1_OID ?c @ post) (length pre) ns) =
    Some (True, Some (oid_text a b vs), R (pre @ tlv ASN1_OID ?c @ post) (length pre + length (tlv ASN1_OID ?c)) ns)"
    unfolding asn1_read_OID_def e(1) Option.bind.simps split
    using e(2,3) by (auto simp: Let_def split: bind_splits)
qed
section \<open>Writers and readers that fit together\<close>

locale asn1_codec =
  fixes wr :: "'a \<Rightarrow> asn1_data \<Rightarrow> (bool \<times> asn1_data) option"
    and rd :: "asn1_data \<Rightarrow> (bool \<times> 'b \<times> asn1_data) option"
    and enc :: "'a \<Rightarrow> u8 list"
    and fits :: "'a \<Rightarrow> bool"
    and res :: "'a \<Rightarrow> 'b"
  assumes writes_enc: "fits v \<Longrightarrow> writes (wr v) (enc v)"
    and reads_enc: "fits v \<Longrightarrow> reads rd (enc v) (res v)"
begin

lemma written: "fits v \<Longrightarrow> length (enc v) < MAX_TALLOC_SIZE \<Longrightarrow> wr v asn1_zero = Some (True, W (enc v) [])"
  using writesD [OF writes_enc, of v "[]" "[]"] by (simp add: asn1_zero_W)

lemma read_back:
  "fits v \<Longrightarrow> length (enc v) < MAX_TALLOC_SIZE \<Longrightarrow>
   rd (snd (asn1_load (enc v))) = Some (True, res v, R (enc v) (length (enc v)) [])"
  using readsD [OF reads_enc, of v "[]" "[]" "[]"] by (simp add: load_R)

text \<open>What follows an element does not matter to its reader.\<close>

lemma read_first:
  "fits v \<Longrightarrow> length (enc v @ post) < MAX_TALLOC_SIZE \<Longrightarrow>
   rd (snd (asn1_load (enc v @ post))) = Some (True, res v, R (enc v @ post) (length (enc v)) [])"
  using readsD [OF reads_enc, of v "[]" post "[]"] by (simp add: load_R)

end

interpretation int_codec: asn1_codec "\<lambda>i d. asn1_write_Integer d i" asn1_read_Integer "\<lambda>i. tlv ASN1_INTEGER (int_bytes i)" "\<lambda>_. True"
    "\<lambda>i. of_nat (be_nat 0 (int_bytes i))"
  by unfold_locales (rule writes_Integer, rule reads_Integer)

interpretation octets_codec: asn1_codec "\<lambda>p d. asn1_write_OctetString d p" asn1_read_OctetString "tlv ASN1_OCTET_STRING"
    "\<lambda>p. length p < 2 ^ 24" Some
  by unfold_locales (rule writes_OctetString, rule reads_OctetString)

interpretation string_codec: asn1_codec "\<lambda>p d. asn1_write_GeneralString d p" asn1_read_GeneralString "tlv ASN1_GENERAL_STRING"
    "\<lambda>p. length p < 2 ^ 24" Some
  by unfold_locales (rule writes_GeneralString, rule reads_GeneralString)

interpretation simple_codec: asn1_codec "\<lambda>p d. asn1_write_ContextSimple d num p" "\<lambda>d. asn1_read_ContextSimple d num"
    "tlv (ASN1_CONTEXT_SIMPLE num)" "\<lambda>p. length p < 2 ^ 24 \<and> p \<noteq> []" Some for num
  by unfold_locales (rule writes_ContextSimple, simp add: reads_ContextSimple)

interpretation bool_codec: asn1_codec "\<lambda>v d. asn1_write_BOOLEAN d v" asn1_read_BOOLEAN "\<lambda>v. tlv ASN1_BOOLEAN [if v then 0xFF else 0]"
    "\<lambda>_. True" "\<lambda>v. v"
  by unfold_locales (rule writes_BOOLEAN, rule reads_BOOLEAN)

interpretation enum_codec: asn1_codec "\<lambda>v d. asn1_write_enumerated d v" asn1_read_enumerated "\<lambda>v. tlv ASN1_ENUMERATED [v]"
    "\<lambda>_. True" ucast
  by unfold_locales (rule writes_enumerated, rule reads_enumerated)

text \<open>Identifiers whose numbers fit: the first two in one byte, the others in 32 bits.\<close>

definition oid_fits :: "nat \<times> nat \<times> u32 list \<Rightarrow> bool" where
  "oid_fits = (\<lambda>(a, b, vs). 40 * a + b < 256 \<and> b < 40 \<and> length (oid_bytes a b vs) < 2 ^ 24)"

interpretation oid_codec: asn1_codec "\<lambda>(a, b, vs) d. asn1_write_OID d (oid_text a b vs)" asn1_read_OID
    "\<lambda>(a, b, vs). tlv ASN1_OID (oid_bytes a b vs)" oid_fits "\<lambda>(a, b, vs). Some (oid_text a b vs)"
  by unfold_locales (auto simp: oid_fits_def intro!: writes_OID reads_OID)

text \<open>C25: an integer is written as the two's complement number of as few bytes as possible, and reading gives
  back the same integer exactly if it is not negative or needs all four bytes: the reader does not extend the sign.\<close>

theorem asn1_Integer_exact:
  "\<exists>d v d'. asn1_write_Integer asn1_zero i = Some (True, d) \<and> asn1_bytes d = Some (tlv ASN1_INTEGER (int_bytes i)) \<and>
     asn1_read_Integer (snd (asn1_load (tlv ASN1_INTEGER (int_bytes i)))) = Some (True, v, d') \<and>
     (v = i \<longleftrightarrow> 0 \<le> sint i \<or> sint i < - (2 ^ 23))"
proof -
  have "length (tlv ASN1_INTEGER (int_bytes i)) < MAX_TALLOC_SIZE"
    using length_int_bytes [of i] by (simp add: tlv_def der_len_def MAX_TALLOC_SIZE_def)
  then show ?thesis using int_codec.written [of i] int_codec.read_back [of i] by (auto simp: Integer_value)
qed

section \<open>Documents\<close>

text \<open>
  Elements nested in one another: the values of a document, their types, and the functions that write and read a
  document by the calls a program makes for it.
\<close>

datatype asn1_value = V_Integer u32 | V_Octets "u8 list" | V_String "u8 list" | V_Simple u8 "u8 list" | V_Bool bool | V_Enum u8
  | V_OID nat nat "u32 list" | V_Tag u8 "asn1_value list"

datatype asn1_type = T_Integer | T_Octets | T_String | T_Simple u8 | T_Bool | T_Enum | T_OID | T_Tag u8 "asn1_type list"

text \<open>What a reader delivers for each.\<close>

datatype asn1_result = R_Integer u32 | R_Octets "u8 list option" | R_String "u8 list option" | R_Simple "u8 list option" | R_Bool bool
  | R_Enum u32 | R_OID "string option" | R_Tag "asn1_result list"

fun write_value :: "asn1_value \<Rightarrow> asn1_data \<Rightarrow> (bool \<times> asn1_data) option"
  and write_values :: "asn1_value list \<Rightarrow> asn1_data \<Rightarrow> (bool \<times> asn1_data) option" where
  "write_value (V_Integer i) d = asn1_write_Integer d i"
| "write_value (V_Octets p) d = asn1_write_OctetString d p"
| "write_value (V_String p) d = asn1_write_GeneralString d p"
| "write_value (V_Simple num p) d = asn1_write_ContextSimple d num p"
| "write_value (V_Bool v) d = asn1_write_BOOLEAN d v"
| "write_value (V_Enum v) d = asn1_write_enumerated d v"
| "write_value (V_OID a b vs) d = asn1_write_OID d (oid_text a b vs)"
| "write_value (V_Tag tag vs) d =
     do { (_, d) \<leftarrow> asn1_push_tag d tag; (_, d) \<leftarrow> write_values vs d; asn1_pop_tag d }"
| "write_values [] d = Some (True, d)"
| "write_values (v # vs) d = do { (ok, d) \<leftarrow> write_value v d; if ok then write_values vs d else Some (False, d) }"

definition wrap_result :: "('a \<Rightarrow> asn1_result) \<Rightarrow> (bool \<times> 'a \<times> asn1_data) option \<Rightarrow> (bool \<times> asn1_result \<times> asn1_data) option" where
  "wrap_result f r = map_option (\<lambda>(ok, v, d). (ok, f v, d)) r"

fun read_value :: "asn1_type \<Rightarrow> asn1_data \<Rightarrow> (bool \<times> asn1_result \<times> asn1_data) option"
  and read_values :: "asn1_type list \<Rightarrow> asn1_data \<Rightarrow> (bool \<times> asn1_result list \<times> asn1_data) option" where
  "read_value T_Integer d = wrap_result R_Integer (asn1_read_Integer d)"
| "read_value T_Octets d = wrap_result R_Octets (asn1_read_OctetString d)"
| "read_value T_String d = wrap_result R_String (asn1_read_GeneralString d)"
| "read_value (T_Simple num) d = wrap_result R_Simple (asn1_read_ContextSimple d num)"
| "read_value T_Bool d = wrap_result R_Bool (asn1_read_BOOLEAN d)"
| "read_value T_Enum d = wrap_result R_Enum (asn1_read_enumerated d)"
| "read_value T_OID d = wrap_result R_OID (asn1_read_OID d)"
| "read_value (T_Tag tag ts) d =
     do { (ok, d) \<leftarrow> asn1_start_tag d tag;
          if \<not> ok then Some (False, R_Tag [], d)
          else do { (ok, vs, d) \<leftarrow> read_values ts d;
                    if \<not> ok then Some (False, R_Tag vs, d)
                    else do { (ok, d) \<leftarrow> asn1_end_tag d; Some (ok, R_Tag vs, d) } } }"
| "read_values [] d = Some (True, [], d)"
| "read_values (t # ts) d =
     do { (ok, v, d) \<leftarrow> read_value t d;
          if \<not> ok then Some (False, [v], d)
          else do { (ok, vs, d) \<leftarrow> read_values ts d; Some (ok, v # vs, d) } }"

primrec type_of :: "asn1_value \<Rightarrow> asn1_type" where
  "type_of (V_Integer _) = T_Integer"
| "type_of (V_Octets _) = T_Octets"
| "type_of (V_String _) = T_String"
| "type_of (V_Simple num _) = T_Simple num"
| "type_of (V_Bool _) = T_Bool"
| "type_of (V_Enum _) = T_Enum"
| "type_of (V_OID _ _ _) = T_OID"
| "type_of (V_Tag tag vs) = T_Tag tag (map type_of vs)"

primrec encode :: "asn1_value \<Rightarrow> u8 list" where
  "encode (V_Integer i) = tlv ASN1_INTEGER (int_bytes i)"
| "encode (V_Octets p) = tlv ASN1_OCTET_STRING p"
| "encode (V_String p) = tlv ASN1_GENERAL_STRING p"
| "encode (V_Simple num p) = tlv (ASN1_CONTEXT_SIMPLE num) p"
| "encode (V_Bool v) = tlv ASN1_BOOLEAN [if v then 0xFF else 0]"
| "encode (V_Enum v) = tlv ASN1_ENUMERATED [v]"
| "encode (V_OID a b vs) = tlv ASN1_OID (oid_bytes a b vs)"
| "encode (V_Tag tag vs) = tlv tag (concat (map encode vs))"

primrec result_of :: "asn1_value \<Rightarrow> asn1_result" where
  "result_of (V_Integer i) = R_Integer (of_nat (be_nat 0 (int_bytes i)))"
| "result_of (V_Octets p) = R_Octets (Some p)"
| "result_of (V_String p) = R_String (Some p)"
| "result_of (V_Simple _ p) = R_Simple (Some p)"
| "result_of (V_Bool v) = R_Bool v"
| "result_of (V_Enum v) = R_Enum (ucast v)"
| "result_of (V_OID a b vs) = R_OID (Some (oid_text a b vs))"
| "result_of (V_Tag _ vs) = R_Tag (map result_of vs)"

text \<open>The contents of each element have less than \<open>2 ^ 24\<close> bytes, and simple elements are not empty.\<close>

primrec value_ok :: "asn1_value \<Rightarrow> bool" where
  "value_ok (V_Integer _) = True"
| "value_ok (V_Octets p) = (length p < 2 ^ 24)"
| "value_ok (V_String p) = (length p < 2 ^ 24)"
| "value_ok (V_Simple _ p) = (length p < 2 ^ 24 \<and> p \<noteq> [])"
| "value_ok (V_Bool _) = True"
| "value_ok (V_Enum _) = True"
| "value_ok (V_OID a b vs) = oid_fits (a, b, vs)"
| "value_ok (V_Tag _ vs) = (length (concat (map encode vs)) < 2 ^ 24 \<and> list_all value_ok vs)"

lemma writes_values:
  "(\<And>v. v \<in> set vs \<Longrightarrow> writes (write_value v) (encode v)) \<Longrightarrow> writes (write_values vs) (concat (map encode vs))"
proof (induction vs)
  case Nil
  then show ?case by (simp add: writes_def)
next
  case (Cons v vs)
  have v: "writes (write_value v) (encode v)" and vs: "writes (write_values vs) (concat (map encode vs))"
    using Cons by simp_all
  show ?case by (rule writesI) (simp add: writesD [OF v] writesD [OF vs])
qed

lemma write_value_fun:
  "write_value (V_Integer i) = (\<lambda>d. asn1_write_Integer d i)" "write_value (V_Octets p) = (\<lambda>d. asn1_write_OctetString d p)"
  "write_value (V_String p) = (\<lambda>d. asn1_write_GeneralString d p)"
  "write_value (V_Simple num p) = (\<lambda>d. asn1_write_ContextSimple d num p)" "write_value (V_Bool v) = (\<lambda>d. asn1_write_BOOLEAN d v)"
  "write_value (V_Enum e) = (\<lambda>d. asn1_write_enumerated d e)" "write_value (V_OID a b vs) = (\<lambda>d. asn1_write_OID d (oid_text a b vs))"
  by (simp_all add: fun_eq_iff)

lemma writes_value: "value_ok v \<Longrightarrow> writes (write_value v) (encode v)"
proof (induction v)
  case (V_Tag tag vs)
  then have "writes_in (write_values vs) (concat (map encode vs))"
    by (intro writes_in writes_values) (simp add: list_all_iff)
  from element_W [OF this, of _ tag] show ?case by (intro writesI) simp
qed (simp_all only: write_value_fun encode.simps writes_Integer writes_OctetString writes_GeneralString writes_ContextSimple writes_BOOLEAN writes_enumerated,
    simp add: oid_fits_def writes_OID)

lemma reads_wrap: "reads rd e v \<Longrightarrow> reads (\<lambda>d. wrap_result f (rd d)) e (f v)"
  by (simp add: reads_def wrap_result_def)

lemma reads_values:
  "(\<And>v. v \<in> set vs \<Longrightarrow> reads (read_value (type_of v)) (encode v) (result_of v)) \<Longrightarrow>
   reads (read_values (map type_of vs)) (concat (map encode vs)) (map result_of vs)"
proof (induction vs)
  case Nil
  then show ?case by (simp add: reads_def)
next
  case (Cons v vs)
  have v: "reads (read_value (type_of v)) (encode v) (result_of v)"
    and vs: "reads (read_values (map type_of vs)) (concat (map encode vs)) (map result_of vs)"
    using Cons by simp_all
  show ?case
  proof (rule readsI)
    fix pre post ns assume l: "length (pre @ concat (map encode (v # vs)) @ post) < MAX_TALLOC_SIZE"
    have 1: "read_value (type_of v) (R (pre @ encode v @ concat (map encode vs) @ post) (length pre) ns) =
      Some (True, result_of v, R (pre @ encode v @ concat (map encode vs) @ post) (length pre + length (encode v)) ns)"
      using readsD [OF v, of pre "concat (map encode vs) @ post" ns] l by simp
    have 2: "read_values (map type_of vs) (R (pre @ encode v @ concat (map encode vs) @ post) (length pre + length (encode v)) ns) =
      Some (True, map result_of vs, R (pre @ encode v @ concat (map encode vs) @ post) (length pre + length (encode v) + length (concat (map encode vs))) ns)"
      using readsD [OF vs, of "pre @ encode v" post ns] l by simp
    show "read_values (map type_of (v # vs)) (R (pre @ concat (map encode (v # vs)) @ post) (length pre) ns) =
      Some (True, map result_of (v # vs), R (pre @ concat (map encode (v # vs)) @ post) (length pre + length (concat (map encode (v # vs)))) ns)"
      using 1 2 by (simp add: add.assoc)
  qed
qed

lemma read_value_fun:
  "read_value T_Integer = (\<lambda>d. wrap_result R_Integer (asn1_read_Integer d))"
  "read_value T_Octets = (\<lambda>d. wrap_result R_Octets (asn1_read_OctetString d))"
  "read_value T_String = (\<lambda>d. wrap_result R_String (asn1_read_GeneralString d))"
  "read_value (T_Simple num) = (\<lambda>d. wrap_result R_Simple (asn1_read_ContextSimple d num))"
  "read_value T_Bool = (\<lambda>d. wrap_result R_Bool (asn1_read_BOOLEAN d))"
  "read_value T_Enum = (\<lambda>d. wrap_result R_Enum (asn1_read_enumerated d))"
  "read_value T_OID = (\<lambda>d. wrap_result R_OID (asn1_read_OID d))"
  by (simp_all add: fun_eq_iff)

lemma reads_value: "value_ok v \<Longrightarrow> reads (read_value (type_of v)) (encode v) (result_of v)"
proof (induction v)
  case (V_Tag tag vs)
  then have "reads_in (read_values (map type_of vs)) (concat (map encode vs)) (map result_of vs)"
    by (intro reads_in reads_values) (simp add: list_all_iff)
  from element_R [OF this, of _ tag] V_Tag.prems show ?case by (intro readsI) simp
qed (auto simp only: read_value_fun encode.simps type_of.simps result_of.simps value_ok.simps oid_fits_def split
    intro!: reads_wrap reads_Integer reads_OctetString reads_GeneralString reads_ContextSimple reads_BOOLEAN reads_enumerated reads_OID)



section \<open>Framing\<close>

text \<open>The ways in which an element is cut short.\<close>

lemma short_uint8: "length bs \<le> pos \<Longrightarrow> \<exists>d. asn1_read_uint8 (R bs pos ns) = Some (None, d) \<and> has_error d"
  by (simp add: asn1_read_uint8_def asn1_read_def asn1_peek_def R_def)

lemma short_length:
  "drop pos bs = vs \<Longrightarrow> length vs < n \<Longrightarrow> \<exists>d. read_length n (R bs pos ns) m = Some (None, d) \<and> has_error d"
proof (induction vs arbitrary: pos n m)
  case Nil
  then show ?case using short_uint8 [of bs pos ns] by (cases n) auto
next
  case (Cons v vs)
  then obtain k where n: "n = Suc k" "length vs < k" by (cases n) auto
  show ?case using Cons.IH [OF next_R(2) [OF Cons.prems(1)] n(2)] next_R(1) [OF Cons.prems(1)] n(1) by simp
qed

lemma short_contents:
  assumes "s \<le> length bs" "length bs < s + n" "n < 2 ^ 24" "length bs < MAX_TALLOC_SIZE"
  shows "\<exists>d. start_at bs s n ns = Some (False, d) \<and> has_error d"
proof -
  have "uint (ucast (of_nat n :: u64) :: u32) = int n"
    using assms(3) by (simp add: unsigned_ucast_eq unsigned_of_nat take_bit_nat_eq_self)
  then have r: "sint (ucast (of_nat n :: u64) :: u32) = int n"
    using assms(3) by (simp add: sint_uint signed_take_bit_int_eq_self)
  have l: "of_nat (length bs) - of_nat s = (of_nat (length bs - s) :: u64)" using assms(1) by (simp add: of_nat_diff)
  have "unat (of_nat n :: u64) = n" "unat (of_nat (length bs - s) :: u64) = length bs - s"
    using assms(3,4) by (auto intro!: unat_of_nat_small simp: MAX_TALLOC_SIZE_def)
  then have "(of_nat n :: u64) > of_nat (length bs - s)" using assms(1,2) unfolding word_less_nat_alt by simp
  then show ?thesis by (simp add: start_at_def asn1_tag_remaining_def r l Let_def del: of_int_sint)
qed

lemma cut_header:
  assumes "n < 2 ^ 24" "drop pos bs = take k (tag # der_len n)" "k < 1 + length (der_len n)"
  shows "\<exists>d. asn1_start_tag (R bs pos ns) tag = Some (False, d) \<and> has_error d"
proof (cases k)
  case 0
  then show ?thesis using short_uint8 [of bs pos ns] assms(2) by (auto simp: asn1_start_tag_def)
next
  case (Suc j)
  then have d: "drop pos bs = tag # take j (der_len n)" using assms(2) by simp
  note 1 = next_R [OF d]
  show ?thesis
  proof (cases j)
    case 0
    then show ?thesis using short_uint8 [of bs "Suc pos" ns] 1 by (auto simp: asn1_start_tag_def)
  next
    case (Suc i)
    with assms(3) \<open>k = Suc j\<close> have i: "Suc i < length (der_len n)" by simp
    from assms(1) show ?thesis
    proof (cases rule: der_len_cases)
      case (short b)
      then show ?thesis using i by simp
    next
      case (long b v vs)
      with 1(2) Suc have "drop (Suc pos) bs = b # take i (v # vs)" by simp
      note 2 = next_R [OF this]
      show ?thesis
      proof (cases i)
        case 0
        then show ?thesis using short_uint8 [of bs "Suc (Suc pos)" ns] 1(1) 2 long(2) by (auto simp: asn1_start_tag_def)
      next
        case (Suc h)
        with 2(2) have "drop (Suc (Suc pos)) bs = v # take h vs" by simp
        note 3 = next_R [OF this]
        have "length (take h vs) < length vs" using i Suc long(1) by simp
        from short_length [OF 3(2) this, of ns "ucast v"] obtain d where
          "read_length (length vs) (R bs (Suc (Suc (Suc pos))) ns) (ucast v) = Some (None, d)" "has_error d" by blast
        then show ?thesis using long(2) by (simp add: asn1_start_tag_def 1(1) 2(1) 3(1) long(3) [unfolded One_nat_def])
      qed
    qed
  qed
qed

lemma cut_short:
  assumes "n < length (tlv tag c)" "length c < 2 ^ 24"
  shows "\<exists>d. asn1_start_tag (R (take n (tlv tag c)) 0 ns) tag = Some (False, d) \<and> has_error d"
proof (cases "n < 1 + length (der_len (length c))")
  case True
  then have "drop 0 (take n (tlv tag c)) = take n (tag # der_len (length c))" by (simp add: tlv_def take_Cons split: nat.splits)
  then show ?thesis using cut_header assms(2) True by blast
next
  case False
  then obtain k where k: "n = 1 + length (der_len (length c)) + k" using nat_le_iff_add by (metis not_less)
  have h: "length (der_len (length c)) \<le> 4" by (simp add: der_len_def)
  have d: "drop 0 (take n (tlv tag c)) = tag # der_len (length c) @ take k c" by (simp add: tlv_def k)
  have "asn1_start_tag (R (take n (tlv tag c)) 0 ns) tag = start_at (take n (tlv tag c)) (0 + 1 + length (der_len (length c))) (length c) ns"
    by (rule start_tag_header [OF assms(2) d])
  then show ?thesis
    using short_contents [of "0 + 1 + length (der_len (length c))" "take n (tlv tag c)" "length c" ns] assms k h
    by (simp add: tlv_def MAX_TALLOC_SIZE_def)
qed

text \<open>C23: the framing of messages.  \<open>asn1_full_tag\<close> recognises an element at the beginning of the received bytes and
  gives its size, whatever follows it; for every proper part of the element it asks for more.\<close>

theorem asn1_full_tag_frames:
  assumes "length c < 2 ^ 24" and "length (tlv tag c @ post) < MAX_TALLOC_SIZE"
  shows "asn1_full_tag (tlv tag c @ post) tag = Some (NT_STATUS_OK, Some (length (tlv tag c))) \<and>
    (\<forall>n < length (tlv tag c). asn1_full_tag (take n (tlv tag c)) tag = Some (STATUS_MORE_ENTRIES, None))"
proof (intro conjI allI impI)
  let ?bs = "tlv tag c @ post" and ?s = "1 + length (der_len (length c))"
  have z: "asn1_zero\<lparr>asn1_bytes := Some bs, asn1_length := length bs\<rparr> = R bs 0 []" for bs
    by (simp add: asn1_zero_def R_def)
  have size: "length c + ?s = length (tlv tag c)" by (simp add: tlv_def)
  have "unat (of_nat (length (tlv tag c)) :: u64) = length (tlv tag c)" "unat (of_nat (length ?bs) :: u64) = length ?bs"
    using assms(2) by (auto intro!: unat_of_nat_small simp: MAX_TALLOC_SIZE_def simp del: of_nat_add)
  then have "\<not> (of_nat (length (tlv tag c)) :: u64) > of_nat (length ?bs)" unfolding word_less_nat_alt by (simp del: of_nat_add)
  moreover have "asn1_start_tag (R ?bs 0 []) tag = Some (True, R ?bs ?s [tag_read ?s (length c)])"
    "asn1_tag_remaining (R ?bs ?s [tag_read ?s (length c)]) = Some (int (length c), R ?bs ?s [tag_read ?s (length c)])"
    using raw_R(1,2) [of c "[]" tag post "[]"] assms by simp_all
  moreover have "int (length c) + int ?s = int (length (tlv tag c))" using size by simp
  ultimately show "asn1_full_tag ?bs tag = Some (NT_STATUS_OK, Some (length (tlv tag c)))"
    unfolding asn1_full_tag_def z by (simp only: Option.bind.simps split R_sel if_False Let_def of_int_of_nat_eq nat_int)
  fix n assume "n < length (tlv tag c)"
  from cut_short [OF this assms(1), of "[]"] show "asn1_full_tag (take n (tlv tag c)) tag = Some (STATUS_MORE_ENTRIES, None)"
    unfolding asn1_full_tag_def z by auto
qed

theorem asn1_full_tag_frames_witness:
  "asn1_full_tag (tlv 0x30 (replicate 300 1) @ [9]) 0x30 = Some (NT_STATUS_OK, Some (length (tlv 0x30 (replicate 300 1)))) \<and>
   asn1_full_tag (take 100 (tlv 0x30 (replicate 300 1))) 0x30 = Some (STATUS_MORE_ENTRIES, None)"
proof -
  have l: "length (tlv 0x30 (replicate 300 1)) = 304" by (simp add: tlv_def der_len_def)
  then have "length (tlv 0x30 (replicate 300 1) @ [9]) < MAX_TALLOC_SIZE" by (simp add: MAX_TALLOC_SIZE_def)
  with asn1_full_tag_frames [of "replicate 300 1" "0x30" "[9]"] l show ?thesis by simp
qed

end
