(* ===== verification/Asn1Safe.thy ===== *)
theory Asn1Safe
  imports Asn1Codec
begin

text \<open>
  The behaviour of \<open>libcli/util/asn1.c\<close> on arbitrary input.  Shown: no sequence of read operations on received bytes,
  whatever they are and in whatever order the operations come, accesses memory outside the buffer or uses a length that
  has not been set; the loop of \<open>asn1_write_OID\<close> ends for every text, also where \<open>strtol\<close> makes no progress; and
  where \<open>asn1_check_enumerated\<close>, \<open>asn1_check_BOOLEAN\<close> and the lengths of more than 32 bits go wrong.
\<close>

section \<open>The readers stay in the buffer\<close>

text \<open>The states of a buffer that is being read.\<close>

definition rd_ok :: "u8 list \<Rightarrow> asn1_data \<Rightarrow> bool" where
  "rd_ok bs d \<longleftrightarrow> asn1_bytes d = Some bs \<and> asn1_length d = length bs \<and> asn1_ofs d \<le> length bs \<and>
     list_all (\<lambda>n. nest_taglen n \<noteq> None) (asn1_nesting d)"

text \<open>
  A result that is defined, in which the state, selected by \<open>sel\<close>, is such a state with an offset of at least \<open>k\<close>.
\<close>

definition ok_res :: "u8 list \<Rightarrow> nat \<Rightarrow> ('r \<Rightarrow> asn1_data) \<Rightarrow> 'r option \<Rightarrow> bool" where
  "ok_res bs k sel x \<longleftrightarrow> (\<exists>r. x = Some r \<and> rd_ok bs (sel r) \<and> k \<le> asn1_ofs (sel r))"

abbreviation state2 :: "'a \<times> asn1_data \<Rightarrow> asn1_data" where "state2 \<equiv> snd"

abbreviation state3 :: "'a \<times> 'b \<times> asn1_data \<Rightarrow> asn1_data" where "state3 r \<equiv> snd (snd r)"

named_theorems asn1_safe \<open>results of the read operations\<close>

lemma ok_Some: "rd_ok bs (sel r) \<Longrightarrow> k \<le> asn1_ofs (sel r) \<Longrightarrow> ok_res bs k sel (Some r)"
  by (simp add: ok_res_def)

lemma ok_bind:
  assumes "ok_res bs k sel m" "\<And>r. rd_ok bs (sel r) \<Longrightarrow> k \<le> asn1_ofs (sel r) \<Longrightarrow> ok_res bs k sel' (f r)"
  shows "ok_res bs k sel' (m \<bind> f)"
  using assms by (auto simp: ok_res_def)

lemma ok_bind2:
  "ok_res bs k state2 m \<Longrightarrow> (\<And>a d. rd_ok bs d \<Longrightarrow> k \<le> asn1_ofs d \<Longrightarrow> ok_res bs k sel (f a d)) \<Longrightarrow>
   ok_res bs k sel (m \<bind> (\<lambda>(a, d). f a d))"
  by (rule ok_bind) auto

lemma ok_bind3:
  "ok_res bs k state3 m \<Longrightarrow> (\<And>a b d. rd_ok bs d \<Longrightarrow> k \<le> asn1_ofs d \<Longrightarrow> ok_res bs k sel (f a b d)) \<Longrightarrow>
   ok_res bs k sel (m \<bind> (\<lambda>(a, b, d). f a b d))"
  by (rule ok_bind) auto

lemma ok_if: "(c \<Longrightarrow> ok_res bs k sel x) \<Longrightarrow> (\<not> c \<Longrightarrow> ok_res bs k sel y) \<Longrightarrow> ok_res bs k sel (if c then x else y)"
  by simp

lemma ok_case: "ok_res bs k sel x \<Longrightarrow> (\<And>a. ok_res bs k sel (f a)) \<Longrightarrow> ok_res bs k sel (case v of None \<Rightarrow> x | Some a \<Rightarrow> f a)"
  by (cases v) simp_all

lemma rd_ok_error [simp]: "rd_ok bs (d\<lparr>has_error := e\<rparr>) = rd_ok bs d"
  by (simp add: rd_ok_def)

lemma rd_ok_push [simp]: "rd_ok bs (d\<lparr>asn1_nesting := \<lparr>nest_start = s, nest_taglen = Some n\<rparr> # asn1_nesting d\<rparr>) = rd_ok bs d"
  by (simp add: rd_ok_def)

lemma rd_ok_pop: "rd_ok bs d \<Longrightarrow> asn1_nesting d = n # ns \<Longrightarrow> rd_ok bs (d\<lparr>asn1_nesting := ns\<rparr>)"
  by (simp add: rd_ok_def)

lemmas ok_rules = ok_bind2 ok_bind3 ok_if ok_case ok_Some

lemma ok_peek [asn1_safe]: "rd_ok bs d \<Longrightarrow> k \<le> asn1_ofs d \<Longrightarrow> ok_res bs k state2 (asn1_peek d len)"
  by (auto simp: asn1_peek_def ok_res_def rd_ok_def)

lemma ok_read [asn1_safe]: "rd_ok bs d \<Longrightarrow> k \<le> asn1_ofs d \<Longrightarrow> ok_res bs k state2 (asn1_read d len)"
  by (auto simp: asn1_read_def asn1_peek_def ok_res_def rd_ok_def)

lemma ok_peek_uint8 [asn1_safe]: "rd_ok bs d \<Longrightarrow> k \<le> asn1_ofs d \<Longrightarrow> ok_res bs k state2 (asn1_peek_uint8 d)"
  unfolding asn1_peek_uint8_def by (intro ok_rules asn1_safe) auto

lemma ok_read_uint8 [asn1_safe]: "rd_ok bs d \<Longrightarrow> k \<le> asn1_ofs d \<Longrightarrow> ok_res bs k state2 (asn1_read_uint8 d)"
  unfolding asn1_read_uint8_def by (intro ok_rules asn1_safe) auto

lemma ok_tag_remaining [asn1_safe]: "rd_ok bs d \<Longrightarrow> k \<le> asn1_ofs d \<Longrightarrow> ok_res bs k state2 (asn1_tag_remaining d)"
  by (auto simp: asn1_tag_remaining_def ok_res_def rd_ok_def Let_def split: list.splits)

lemma ok_peek_tag [asn1_safe]: "rd_ok bs d \<Longrightarrow> k \<le> asn1_ofs d \<Longrightarrow> ok_res bs k state2 (asn1_peek_tag d tag)"
  unfolding asn1_peek_tag_def by (intro ok_rules asn1_safe) auto

lemma ok_read_length [asn1_safe]: "rd_ok bs d \<Longrightarrow> k \<le> asn1_ofs d \<Longrightarrow> ok_res bs k state2 (read_length n d m)"
proof (induction n arbitrary: d m)
  case (Suc n)
  then show ?case by (auto intro!: ok_rules asn1_safe)
qed (simp add: ok_Some)

lemma ok_start_tag [asn1_safe]: "rd_ok bs d \<Longrightarrow> k \<le> asn1_ofs d \<Longrightarrow> ok_res bs k state2 (asn1_start_tag d tag)"
  unfolding asn1_start_tag_def by (intro ok_rules asn1_safe) simp_all

lemma ok_end_tag [asn1_safe]: "rd_ok bs d \<Longrightarrow> k \<le> asn1_ofs d \<Longrightarrow> ok_res bs k state2 (asn1_end_tag d)"
  unfolding asn1_end_tag_def
  by (intro ok_bind2 ok_if asn1_safe) (auto split: list.splits intro!: ok_Some rd_ok_pop)

lemma ok_read_arc [asn1_safe]: "rd_ok bs d \<Longrightarrow> k \<le> asn1_ofs d \<Longrightarrow> ok_res bs k state3 (read_arc d v b)"
proof (induction d v b rule: read_arc.induct)
  case (1 d v b)
  obtain r d1 where r: "asn1_read_uint8 d = Some (r, d1)" "rd_ok bs d1" "k \<le> asn1_ofs d1"
    using ok_read_uint8 [OF "1.prems"] by (auto simp: ok_res_def)
  then show ?case
    using 1 by (cases r) (auto simp: read_arc.simps [of d v b] Let_def intro!: ok_Some)
qed

lemma ok_read_arcs [asn1_safe]: "rd_ok bs d \<Longrightarrow> k \<le> asn1_ofs d \<Longrightarrow> ok_res bs k state2 (read_arcs d oid b)"
proof (induction d oid b rule: read_arcs.induct)
  case (1 d oid b)
  show ?case
  proof (cases "has_error d")
    case False
    obtain r d1 where r: "asn1_tag_remaining d = Some (r, d1)" "rd_ok bs d1" "k \<le> asn1_ofs d1"
      using ok_tag_remaining [OF "1.prems"] by (auto simp: ok_res_def)
    obtain v c d2 where v: "read_arc d1 0 b = Some (v, c, d2)" "rd_ok bs d2" "k \<le> asn1_ofs d2"
      using ok_read_arc [OF r(2,3), of 0 b] by (auto simp: ok_res_def)
    show ?thesis
      using "1.IH" [OF False r(1) refl _ v(1) refl refl v(2,3)] False r v by (auto simp: read_arcs.simps [of d oid b] intro!: ok_Some)
  qed (use 1 in \<open>simp add: read_arcs.simps [of d oid b] ok_Some\<close>)
qed

lemma ok_read_int [asn1_safe]: "rd_ok bs d \<Longrightarrow> k \<le> asn1_ofs d \<Longrightarrow> ok_res bs k state3 (read_int d i)"
proof (induction d i rule: read_int.induct)
  case (1 d i)
  show ?case
  proof (cases "has_error d")
    case False
    obtain r d1 where r: "asn1_tag_remaining d = Some (r, d1)" "rd_ok bs d1" "k \<le> asn1_ofs d1"
      using ok_tag_remaining [OF "1.prems"] by (auto simp: ok_res_def)
    obtain b d2 where b: "asn1_read_uint8 d1 = Some (b, d2)" "rd_ok bs d2" "k \<le> asn1_ofs d2"
      using ok_read_uint8 [OF r(2,3)] by (auto simp: ok_res_def)
    show ?thesis
      using "1.IH" [OF False r(1) refl _ b(1) refl _ b(2,3)] False r b
      by (cases b) (auto simp: read_int.simps [of d i] intro!: ok_Some)
  qed (use 1 in \<open>simp add: read_int.simps [of d i] ok_Some\<close>)
qed

lemma ok_read_OID [asn1_safe]: "rd_ok bs d \<Longrightarrow> k \<le> asn1_ofs d \<Longrightarrow> ok_res bs k state3 (asn1_read_OID d)"
  unfolding asn1_read_OID_def Let_def by (intro ok_rules asn1_safe) simp_all

lemma ok_check_OID [asn1_safe]: "rd_ok bs d \<Longrightarrow> k \<le> asn1_ofs d \<Longrightarrow> ok_res bs k state2 (asn1_check_OID d oid)"
  unfolding asn1_check_OID_def by (intro ok_rules asn1_safe) simp_all

lemma ok_read_LDAPString [asn1_safe]: "rd_ok bs d \<Longrightarrow> k \<le> asn1_ofs d \<Longrightarrow> ok_res bs k state3 (asn1_read_LDAPString d)"
  unfolding asn1_read_LDAPString_def by (intro ok_rules asn1_safe) simp_all

lemma ok_read_GeneralString [asn1_safe]: "rd_ok bs d \<Longrightarrow> k \<le> asn1_ofs d \<Longrightarrow> ok_res bs k state3 (asn1_read_GeneralString d)"
  unfolding asn1_read_GeneralString_def by (intro ok_rules asn1_safe) simp_all

lemma ok_read_OctetString [asn1_safe]: "rd_ok bs d \<Longrightarrow> k \<le> asn1_ofs d \<Longrightarrow> ok_res bs k state3 (asn1_read_OctetString d)"
  unfolding asn1_read_OctetString_def by (intro ok_rules asn1_safe) simp_all

lemma ok_read_ContextSimple [asn1_safe]: "rd_ok bs d \<Longrightarrow> k \<le> asn1_ofs d \<Longrightarrow> ok_res bs k state3 (asn1_read_ContextSimple d num)"
  unfolding asn1_read_ContextSimple_def by (intro ok_rules asn1_safe) simp_all

lemma ok_read_implicit_Integer [asn1_safe]:
  "rd_ok bs d \<Longrightarrow> k \<le> asn1_ofs d \<Longrightarrow> ok_res bs k state3 (asn1_read_implicit_Integer d)"
  unfolding asn1_read_implicit_Integer_def by (intro asn1_safe)

lemma ok_read_Integer [asn1_safe]: "rd_ok bs d \<Longrightarrow> k \<le> asn1_ofs d \<Longrightarrow> ok_res bs k state3 (asn1_read_Integer d)"
  unfolding asn1_read_Integer_def by (intro ok_rules asn1_safe) simp_all

lemma ok_read_enumerated [asn1_safe]: "rd_ok bs d \<Longrightarrow> k \<le> asn1_ofs d \<Longrightarrow> ok_res bs k state3 (asn1_read_enumerated d)"
  unfolding asn1_read_enumerated_def by (intro ok_rules asn1_safe) simp_all

lemma ok_check_enumerated [asn1_safe]: "rd_ok bs d \<Longrightarrow> k \<le> asn1_ofs d \<Longrightarrow> ok_res bs k state2 (asn1_check_enumerated d v)"
  unfolding asn1_check_enumerated_def Let_def by (intro ok_rules asn1_safe) simp_all

lemma ok_read_BOOLEAN [asn1_safe]: "rd_ok bs d \<Longrightarrow> k \<le> asn1_ofs d \<Longrightarrow> ok_res bs k state3 (asn1_read_BOOLEAN d)"
  unfolding asn1_read_BOOLEAN_def by (intro ok_rules asn1_safe) simp_all

lemma ok_check_BOOLEAN [asn1_safe]: "rd_ok bs d \<Longrightarrow> k \<le> asn1_ofs d \<Longrightarrow> ok_res bs k state2 (asn1_check_BOOLEAN d v)"
  unfolding asn1_check_BOOLEAN_def by (intro ok_rules asn1_safe) simp_all

section \<open>Sequences of read operations\<close>

text \<open>
  The interface of read operations: each gives a state in which the buffer is still being read.  Every sequence of them
  is then safe.
\<close>

locale asn1_reader =
  fixes rd_op :: "'p \<Rightarrow> asn1_data \<Rightarrow> asn1_data option"
  assumes op_safe: "rd_ok bs d \<Longrightarrow> \<exists>d'. rd_op p d = Some d' \<and> rd_ok bs d' \<and> asn1_ofs d \<le> asn1_ofs d'"
begin

fun run :: "'p list \<Rightarrow> asn1_data \<Rightarrow> asn1_data option" where
  "run [] d = Some d"
| "run (p # ps) d = rd_op p d \<bind> run ps"

lemma run_safe: "rd_ok bs d \<Longrightarrow> \<exists>d'. run ps d = Some d' \<and> rd_ok bs d' \<and> asn1_ofs d \<le> asn1_ofs d'"
proof (induction ps arbitrary: d)
  case (Cons p ps)
  obtain d1 where d1: "rd_op p d = Some d1" "rd_ok bs d1" "asn1_ofs d \<le> asn1_ofs d1" using op_safe [OF Cons.prems] by blast
  then show ?case using Cons.IH [of d1] by fastforce
qed simp

lemma run_fold: "run ps d = fold (\<lambda>p x. x \<bind> rd_op p) ps (Some d)"
proof -
  have "fold (\<lambda>p x. x \<bind> rd_op p) ps None = None" for ps by (induction ps) simp_all
  then show ?thesis by (induction ps arbitrary: d) (auto split: bind_splits)
qed

end

datatype asn1_read_op = Peek int | Read int | Peek_uint8 | Read_uint8 | Peek_tag u8 | Start_tag u8 | End_tag | Tag_remaining
  | Read_OID | Check_OID string | Read_LDAPString | Read_GeneralString | Read_OctetString | Read_ContextSimple u8
  | Read_implicit_Integer | Read_Integer | Read_enumerated | Check_enumerated int | Read_BOOLEAN | Check_BOOLEAN bool

primrec read_op :: "asn1_read_op \<Rightarrow> asn1_data \<Rightarrow> asn1_data option" where
  "read_op (Peek len) d = map_option snd (asn1_peek d len)"
| "read_op (Read len) d = map_option snd (asn1_read d len)"
| "read_op Peek_uint8 d = map_option snd (asn1_peek_uint8 d)"
| "read_op Read_uint8 d = map_option snd (asn1_read_uint8 d)"
| "read_op (Peek_tag tag) d = map_option snd (asn1_peek_tag d tag)"
| "read_op (Start_tag tag) d = map_option snd (asn1_start_tag d tag)"
| "read_op End_tag d = map_option snd (asn1_end_tag d)"
| "read_op Tag_remaining d = map_option snd (asn1_tag_remaining d)"
| "read_op Read_OID d = map_option (\<lambda>r. snd (snd r)) (asn1_read_OID d)"
| "read_op (Check_OID oid) d = map_option snd (asn1_check_OID d oid)"
| "read_op Read_LDAPString d = map_option (\<lambda>r. snd (snd r)) (asn1_read_LDAPString d)"
| "read_op Read_GeneralString d = map_option (\<lambda>r. snd (snd r)) (asn1_read_GeneralString d)"
| "read_op Read_OctetString d = map_option (\<lambda>r. snd (snd r)) (asn1_read_OctetString d)"
| "read_op (Read_ContextSimple num) d = map_option (\<lambda>r. snd (snd r)) (asn1_read_ContextSimple d num)"
| "read_op Read_implicit_Integer d = map_option (\<lambda>r. snd (snd r)) (asn1_read_implicit_Integer d)"
| "read_op Read_Integer d = map_option (\<lambda>r. snd (snd r)) (asn1_read_Integer d)"
| "read_op Read_enumerated d = map_option (\<lambda>r. snd (snd r)) (asn1_read_enumerated d)"
| "read_op (Check_enumerated v) d = map_option snd (asn1_check_enumerated d v)"
| "read_op Read_BOOLEAN d = map_option (\<lambda>r. snd (snd r)) (asn1_read_BOOLEAN d)"
| "read_op (Check_BOOLEAN v) d = map_option snd (asn1_check_BOOLEAN d v)"

lemma ok_state: "ok_res bs k sel x \<Longrightarrow> \<exists>d'. map_option sel x = Some d' \<and> rd_ok bs d' \<and> k \<le> asn1_ofs d'"
  by (auto simp: ok_res_def)

interpretation reading: asn1_reader read_op
proof
  fix bs d p assume "rd_ok bs d"
  then show "\<exists>d'. read_op p d = Some d' \<and> rd_ok bs d' \<and> asn1_ofs d \<le> asn1_ofs d'"
    by (cases p; simp only: read_op.simps; intro ok_state asn1_safe; simp)
qed

text \<open>C7: reading is memory safe.  However the received bytes look, and in whatever order the read operations are
  applied to them, with whatever tags, lengths and expected values: every operation is defined, so that nothing outside
  the buffer and no unset length is used, the bytes are not changed and the offset stays within them.\<close>

theorem asn1_reader_safe:
  assumes "asn1_load bs = (True, d)"
  shows "\<exists>d'. fold (\<lambda>p x. x \<bind> read_op p) ps (Some d) = Some d' \<and> asn1_bytes d' = Some bs \<and> asn1_ofs d' \<le> length bs"
proof -
  have "rd_ok bs d" using assms by (auto simp: asn1_load_def asn1_zero_def rd_ok_def split: if_splits)
  from reading.run_safe [OF this, of ps] show ?thesis by (auto simp: reading.run_fold rd_ok_def)
qed

theorem asn1_reader_safe_witness:
  "\<exists>d'. fold (\<lambda>p x. x \<bind> read_op p) [Start_tag 0x30, Read_OID, Read_Integer, End_tag]
     (Some \<lparr>asn1_bytes = Some [0x30, 0x84, 0xff, 6], asn1_length = 4, asn1_ofs = 0, asn1_nesting = [], has_error = False\<rparr>) = Some d' \<and>
   asn1_bytes d' = Some [0x30, 0x84, 0xff, 6] \<and> asn1_ofs d' \<le> length [0x30, 0x84, 0xff, 6 :: u8]"
  by (rule asn1_reader_safe) (simp add: asn1_load_def asn1_zero_def MAX_TALLOC_SIZE_def)

section \<open>Where a check does not check\<close>

text \<open>Two checks that do not check.  For an element with the value \<open>b\<close>, \<open>asn1_check_enumerated\<close> succeeds whatever
  value was expected, since a difference clears the error where it should set it.  \<open>asn1_check_BOOLEAN\<close> compares the
  expected truth value with the length byte of the element, so that of an encoded boolean it accepts \<open>True\<close> and refuses
  \<open>False\<close>, whatever its value is; and it leaves the value unread.\<close>

theorem asn1_checks_wrong:
  "\<exists>d. asn1_check_enumerated (snd (asn1_load (tlv ASN1_ENUMERATED [b]))) v = Some (True, d)"
  "\<exists>d. asn1_check_BOOLEAN (snd (asn1_load (tlv ASN1_BOOLEAN [b]))) True = Some (True, d) \<and> asn1_ofs d = 2"
  "\<exists>d. asn1_check_BOOLEAN (snd (asn1_load (tlv ASN1_BOOLEAN [b]))) False = Some (False, d) \<and> has_error d"
proof -
  have small: "length (tlv tag [b]) < MAX_TALLOC_SIZE" for tag by (simp add: length_tlv1 MAX_TALLOC_SIZE_def)
  show "\<exists>d. asn1_check_enumerated (snd (asn1_load (tlv ASN1_ENUMERATED [b]))) v = Some (True, d)"
    using raw_R [of "[b]" "[]" ASN1_ENUMERATED "[]" "[]"] byte_R [of "[]" ASN1_ENUMERATED b "[]"] small [of ASN1_ENUMERATED]
    by (simp add: load_R asn1_check_enumerated_def length_tlv1 der_len1)
  have "drop 0 (tlv ASN1_BOOLEAN [b]) = ASN1_BOOLEAN # 1 # [b]" by (simp add: tlv_def der_len_def)
  note 1 = next_R [OF this]
  note 2 = next_R [OF 1(2)]
  show "\<exists>d. asn1_check_BOOLEAN (snd (asn1_load (tlv ASN1_BOOLEAN [b]))) True = Some (True, d) \<and> asn1_ofs d = 2"
    "\<exists>d. asn1_check_BOOLEAN (snd (asn1_load (tlv ASN1_BOOLEAN [b]))) False = Some (False, d) \<and> has_error d"
    by (simp_all add: load_R small asn1_check_BOOLEAN_def 1(1) 2(1))
qed

lemma remaining_wrap:
  assumes "s \<le> pos" "pos \<le> s + n" "s + n \<le> length bs" "length bs < MAX_TALLOC_SIZE"
  shows "asn1_tag_remaining (R bs pos (tag_read s (2 ^ 32 + n) # ns)) = Some (int (s + n - pos), R bs pos (tag_read s (2 ^ 32 + n) # ns))"
proof -
  let ?r = "s + n - pos"
  have small: "?r < 2 ^ 28" "length bs < 2 ^ 28" using assms by (simp_all add: MAX_TALLOC_SIZE_def)
  have d: "of_nat (2 ^ 32 + n) - (of_nat pos - of_nat s) = (of_nat (2 ^ 32 + ?r) :: u64)" using assms by (simp add: of_nat_diff)
  have "unat (of_nat (2 ^ 32 + ?r) :: u64) = 2 ^ 32 + ?r" using small(1) by (intro unat_of_nat_small) simp
  then have "unat (ucast (of_nat (2 ^ 32 + ?r) :: u64) :: u32) = (2 ^ 32 + ?r) mod 2 ^ 32"
    by (simp only: unsigned_ucast_eq take_bit_eq_mod len_bit0 len_num1) simp
  also have "\<dots> = ?r" using small(1) by (simp only: mod_add_self1) simp
  finally have u: "unat (ucast (of_nat (2 ^ 32 + ?r) :: u64) :: u32) = ?r" .
  then have "uint (ucast (of_nat (2 ^ 32 + ?r) :: u64) :: u32) = int ?r" by (metis uint_nat)
  then have r: "sint (ucast (of_nat (2 ^ 32 + ?r) :: u64) :: u32) = int ?r"
    using small(1) by (simp only: sint_uint) (simp add: signed_take_bit_int_eq_self)
  have l: "of_nat (length bs) - of_nat pos = (of_nat (length bs - pos) :: u64)" using assms by (simp add: of_nat_diff)
  have "unat (of_nat ?r :: u64) = ?r" "unat (of_nat (length bs - pos) :: u64) = length bs - pos"
    using small by (auto intro!: unat_of_nat_small)
  then have "\<not> (of_nat ?r :: u64) > of_nat (length bs - pos)"
    using assms unfolding word_less_nat_alt by simp
  then show ?thesis
    unfolding asn1_tag_remaining_def
    by (simp only: R_sel if_False list.case nesting.simps Option.bind.simps d r l Let_def of_int_of_nat_eq)
qed



section \<open>Writing identifiers ends\<close>

text \<open>A buffer that is being written, or that has failed.\<close>

definition wr_ok :: "u8 list \<Rightarrow> nesting list \<Rightarrow> bool \<times> asn1_data \<Rightarrow> bool" where
  "wr_ok bs ns r \<longleftrightarrow> (case r of (ok, d) \<Rightarrow> if ok then \<exists>c. d = W (bs @ c) ns \<and> length (bs @ c) < MAX_TALLOC_SIZE else has_error d \<and> asn1_bytes d = None)"

lemma write_uint8_total: "\<exists>r. asn1_write_uint8 (W bs ns) b = Some r \<and> wr_ok bs ns r"
proof (cases "length bs + 1 < MAX_TALLOC_SIZE")
  case True
  then show ?thesis by (auto simp: wr_ok_def)
next
  case False
  then show ?thesis by (simp add: asn1_write_uint8_def asn1_write_def asn1_free_def wr_ok_def)
qed

lemma wr_ok_mono: "wr_ok (bs @ c) ns r \<Longrightarrow> wr_ok bs ns r"
proof (cases r)
  fix ok d
  assume "wr_ok (bs @ c) ns r" and r: "r = (ok, d)"
  show "wr_ok bs ns r"
  proof (cases ok)
    case True
    then obtain c' where "d = W ((bs @ c) @ c') ns" "length ((bs @ c) @ c') < MAX_TALLOC_SIZE" using \<open>wr_ok (bs @ c) ns r\<close> r by (auto simp: wr_ok_def)
    then have "d = W (bs @ (c @ c')) ns" "length (bs @ (c @ c')) < MAX_TALLOC_SIZE" by simp_all
    then show ?thesis using True unfolding r wr_ok_def by (simp only: split if_True) blast
  qed (use \<open>wr_ok (bs @ c) ns r\<close> r in \<open>simp add: wr_ok_def\<close>)
qed

lemma write_uint8_failed: "has_error d \<Longrightarrow> asn1_write_uint8 d b = Some (False, d)"
  by (simp add: asn1_write_uint8_def asn1_write_def)

text \<open>The state after a conditional write, whose result is not looked at.\<close>

definition going :: "u8 list \<Rightarrow> nesting list \<Rightarrow> asn1_data \<Rightarrow> bool" where
  "going bs ns d \<longleftrightarrow> (\<exists>c. d = W (bs @ c) ns \<and> length (bs @ c) < MAX_TALLOC_SIZE) \<or> has_error d \<and> asn1_bytes d = None"

lemma write_uint8_going:
  assumes "going bs ns d" shows "\<exists>r. asn1_write_uint8 d b = Some r \<and> wr_ok bs ns r"
  using assms
proof (cases "has_error d")
  case True
  then show ?thesis using assms by (auto simp: going_def write_uint8_failed wr_ok_def)
next
  case False
  then obtain c where "d = W (bs @ c) ns" using assms by (auto simp: going_def)
  then show ?thesis using write_uint8_total [of "bs @ c" ns b] wr_ok_mono by blast
qed

lemma wr_ok_going: "wr_ok bs ns (ok, d) \<Longrightarrow> going bs ns d"
  by (auto simp: wr_ok_def going_def split: if_splits)

lemma write_if_going: "going bs ns d \<Longrightarrow> \<exists>d'. write_if c d b = Some d' \<and> going bs ns d'"
  using write_uint8_going [of bs ns d b] wr_ok_going by (fastforce simp: write_if_def)

lemma write_arc_going: assumes "going bs ns d" shows "\<exists>r. write_arc d v = Some r \<and> wr_ok bs ns r"
proof -
  obtain d1 where 1: "write_if (v \<ge> 0x10000000) d (0x80 OR ucast (drop_bit 28 v AND 0xff)) = Some d1" "going bs ns d1"
    using write_if_going [OF assms] by blast
  obtain d2 where 2: "write_if (v \<ge> 0x200000) d1 (0x80 OR ucast (drop_bit 21 v AND 0xff)) = Some d2" "going bs ns d2"
    using write_if_going [OF 1(2)] by blast
  obtain d3 where 3: "write_if (v \<ge> 0x4000) d2 (0x80 OR ucast (drop_bit 14 v AND 0xff)) = Some d3" "going bs ns d3"
    using write_if_going [OF 2(2)] by blast
  obtain d4 where 4: "write_if (v \<ge> 0x80) d3 (0x80 OR ucast (drop_bit 7 v AND 0xff)) = Some d4" "going bs ns d4"
    using write_if_going [OF 3(2)] by blast
  show ?thesis unfolding write_arc_def 1(1) 2(1) 3(1) 4(1) Option.bind.simps by (rule write_uint8_going [OF 4(2)])
qed

lemma write_arcs_total: "going bs ns d \<Longrightarrow> p = [] \<longrightarrow> \<not> has_error d \<Longrightarrow> \<exists>r. write_arcs d p = Some r \<and> wr_ok bs ns r"
proof (induction d p rule: write_arcs.induct)
  case (1 d p)
  show ?case
  proof (cases "p = []")
    case True
    then have "\<exists>c. d = W (bs @ c) ns \<and> length (bs @ c) < MAX_TALLOC_SIZE" using "1.prems" unfolding going_def by blast
    then have "wr_ok bs ns (True, d)" unfolding wr_ok_def by simp
    moreover have "write_arcs d p = Some (True, d)" using True by (subst write_arcs.simps) simp
    ultimately show ?thesis by blast
  next
    case False
    obtain v p' where v: "strtol p = (v, p')" by fastforce
    obtain ok d' where r: "write_arc d (of_int v) = Some (ok, d')" "wr_ok bs ns (ok, d')" using write_arc_going [OF "1.prems"(1)] by force
    show ?thesis
    proof (cases ok)
      case True
      then have "\<not> has_error d'" using r(2) W_sel(1) unfolding wr_ok_def by fastforce
      then show ?thesis
        using "1.IH" [OF False v [symmetric] r(1) refl True wr_ok_going [OF r(2)]] False v r(1) True
        by (simp add: write_arcs.simps [of d p])
    next
      case False
      then show ?thesis using r v \<open>p \<noteq> []\<close> by (simp add: write_arcs.simps [of d p])
    qed
  qed
qed

definition failed :: "(bool \<times> asn1_data) option \<Rightarrow> bool" where
  "failed x \<longleftrightarrow> (\<exists>d. x = Some (False, d) \<and> has_error d \<and> asn1_bytes d = None)"

lemma write_uint8_fails: "\<not> length bs + 1 < MAX_TALLOC_SIZE \<Longrightarrow> failed (asn1_write_uint8 (W bs ns) b)"
  by (simp add: asn1_write_uint8_def asn1_write_def asn1_free_def failed_def)

lemma push_fails: "\<not> length bs + 2 < MAX_TALLOC_SIZE \<Longrightarrow> failed (asn1_push_tag (W bs ns) tag)"
proof (cases "length bs + 1 < MAX_TALLOC_SIZE")
  case True
  assume "\<not> length bs + 2 < MAX_TALLOC_SIZE"
  then have "failed (asn1_write_uint8 (W (bs @ [tag]) (tag_open (Suc (length bs)) # ns)) 0xff)" by (intro write_uint8_fails) simp
  then show ?thesis using True by (simp add: asn1_push_tag_def)
next
  case False
  then show ?thesis using write_uint8_fails [OF False, of ns tag] by (auto simp: asn1_push_tag_def failed_def write_uint8_failed)
qed

lemma write_zeros_fails:
  "0 < n \<Longrightarrow> \<not> length bs + n < MAX_TALLOC_SIZE \<Longrightarrow> failed (write_zeros n (W bs ns))"
proof (induction n arbitrary: bs)
  case (Suc n)
  show ?case
  proof (cases "length bs + 1 < MAX_TALLOC_SIZE")
    case True
    then have "0 < n" using Suc.prems by (cases n) auto
    then have "failed (write_zeros n (W (bs @ [0]) ns))" using Suc.prems by (intro Suc.IH) simp_all
    then show ?thesis using True by simp
  next
    case False
    then show ?thesis using write_uint8_fails [OF False, of ns 0] by (auto simp: failed_def)
  qed
qed simp

lemma long_length_fails:
  "\<not> length bs + length vs < MAX_TALLOC_SIZE \<Longrightarrow> 0 < length vs \<Longrightarrow> start < length bs \<Longrightarrow> failed (long_length (W bs ns) start len first vs)"
  using write_zeros_fails [of "length vs" "bs[start := first]" ns] by (auto simp: long_length_def poke_W failed_def)

lemma pop_ends:
  assumes "length (bs @ tag # x # c) < MAX_TALLOC_SIZE"
  shows "(\<exists>bs'. asn1_pop_tag (W (bs @ tag # x # c) (tag_open (Suc (length bs)) # ns)) = Some (True, W bs' ns)) \<or>
   failed (asn1_pop_tag (W (bs @ tag # x # c) (tag_open (Suc (length bs)) # ns)))"
proof (cases "length bs + length (tlv tag c) < MAX_TALLOC_SIZE")
  case True
  from pop_W [OF this] show ?thesis by blast
next
  case False
  have "length c < 2 ^ 28" using assms by (simp add: MAX_TALLOC_SIZE_def)
  note pop = pop_branches(1) [OF this, of bs tag x ns]
  show ?thesis
  proof (cases "length c < 128")
    case long: False
    have "0 < length (tl (der_len (length c)))" using long by (simp add: der_len_def)
    moreover have "\<not> length (bs @ tag # x # c) + length (tl (der_len (length c))) < MAX_TALLOC_SIZE"
      using False der_len_pos [of "length c"] by (simp add: tlv_def)
    ultimately show ?thesis using pop long long_length_fails [of "bs @ tag # x # c" "tl (der_len (length c))" "Suc (length bs)"] by simp
  qed (use pop in auto)
qed

lemma stuck_arcs: "p \<noteq> [] \<Longrightarrow> strtol p = (v, p) \<Longrightarrow> write_arcs d p \<noteq> Some (True, d')"
proof (induction d p rule: write_arcs.induct)
  case (1 d p)
  show ?case
  proof
    assume w: "write_arcs d p = Some (True, d')"
    then obtain d1 where "write_arc d (of_int v) = Some (True, d1)" "write_arcs d1 p = Some (True, d')"
      using "1.prems" by (auto simp: write_arcs.simps [of d p] split: option.splits if_splits)
    then show False using "1.IH" [OF "1.prems"(1) "1.prems"(2) [symmetric] _ refl _ "1.prems"] by blast
  qed
qed

lemma total_cases: "x = Some r \<Longrightarrow> wr_ok bs ns r \<Longrightarrow>
    (\<exists>c. x = Some (True, W (bs @ c) ns) \<and> length (bs @ c) < MAX_TALLOC_SIZE) \<or> failed x"
  unfolding wr_ok_def failed_def by (cases r) (simp split: if_splits)

lemma write_OID_ends:
  assumes "strtol oid = (v, p)" "strtol p = (v2, q)"
  defines "b \<equiv> ucast (40 * of_int v + of_int v2 :: u32) :: u8"
  shows "(\<exists>bs'. asn1_write_OID (W bs ns) oid = Some (True, W bs' ns) \<and>
       (\<exists>d d'. write_arcs d q = Some (True, d'))) \<or> failed (asn1_write_OID (W bs ns) oid)"
proof (cases "length bs + 2 < MAX_TALLOC_SIZE")
  case False
  from push_fails [OF this, of ns ASN1_OID] show ?thesis by (auto simp: asn1_write_OID_def failed_def)
next
  case True
  let ?bs = "bs @ [ASN1_OID, 0xff]" and ?ns = "tag_open (Suc (length bs)) # ns"
  note push = push_W [OF True, of ns ASN1_OID]
  have oid: "asn1_write_OID (W bs ns) oid =
      do { (ok, d) \<leftarrow> asn1_write_uint8 (W ?bs ?ns) b;
           if \<not> ok then Some (False, d)
           else do { (ok, d) \<leftarrow> write_arcs d q; if \<not> ok then Some (False, d) else asn1_pop_tag d } }"
    unfolding asn1_write_OID_def push Option.bind.simps split assms(1,2) b_def by simp
  show ?thesis
  proof (cases "length ?bs + 1 < MAX_TALLOC_SIZE")
    case False
    from write_uint8_fails [OF this, of ?ns b] show ?thesis unfolding oid by (auto simp: failed_def)
  next
    case True
    then have byte: "asn1_write_uint8 (W ?bs ?ns) b = Some (True, W (?bs @ [b]) ?ns)" by (rule write_uint8_W)
    have "length ((?bs @ [b]) @ []) < MAX_TALLOC_SIZE" using True by simp
    then have "going (?bs @ [b]) ?ns (W (?bs @ [b]) ?ns)" unfolding going_def by (metis append_Nil2)
    then obtain r where r: "write_arcs (W (?bs @ [b]) ?ns) q = Some r" "wr_ok (?bs @ [b]) ?ns r"
      using write_arcs_total [of "?bs @ [b]" ?ns "W (?bs @ [b]) ?ns" q] by auto
    from total_cases [OF this] show ?thesis
    proof
      assume "failed (write_arcs (W (?bs @ [b]) ?ns) q)"
      then show ?thesis unfolding oid byte by (auto simp: failed_def)
    next
      assume "\<exists>c. write_arcs (W (?bs @ [b]) ?ns) q = Some (True, W ((?bs @ [b]) @ c) ?ns) \<and> length ((?bs @ [b]) @ c) < MAX_TALLOC_SIZE"
      then obtain c where c: "write_arcs (W (?bs @ [b]) ?ns) q = Some (True, W (bs @ ASN1_OID # 0xff # b # c) ?ns)"
        "length (bs @ ASN1_OID # 0xff # b # c) < MAX_TALLOC_SIZE" by auto
      have "asn1_write_OID (W bs ns) oid = asn1_pop_tag (W (bs @ ASN1_OID # 0xff # b # c) ?ns)"
        unfolding oid byte Option.bind.simps split c(1) by simp
      then show ?thesis using pop_ends [OF c(2), of ns] c(1) by fastforce
    qed
  qed
qed



end
