(* ===== verification/Spnego.thy ===== *)
theory Spnego
  imports Asn1Safe
begin

text \<open>
  The messages of the SPNEGO negotiation, \<open>auth/gensec/spnego_parse.c\<close>, written and read with the operations of
  \<open>Asn1\<close>.

  \<^item> A \<open>DATA_BLOB\<close> is its bytes, or \<open>None\<close> where its data pointer is \<open>NULL\<close>; a string pointer is an option likewise.  The
    array \<open>mechTypes\<close> is the list of its strings before the terminating \<open>NULL\<close>.
  \<^item> The result \<open>None\<close> of a function stands for an access to memory that is freed, outside a buffer, or not set.
  \<^item> The structure \<open>spnego_data\<close> has a field for either kind of message, as in the source.
\<close>

section \<open>Messages\<close>

record spnego_negTokenInit =
  mechTypes :: "string list option"
  reqFlags :: u32
  mechToken :: "u8 list option"
  mechListMIC :: "u8 list option"
  targetPrincipal :: "u8 list option"

record spnego_negTokenTarg =
  negResult :: u8
  supportedMech :: "string option"
  responseToken :: "u8 list option"
  targ_mechListMIC :: "u8 list option"

definition SPNEGO_NEG_TOKEN_INIT :: int where "SPNEGO_NEG_TOKEN_INIT = 0"
definition SPNEGO_NEG_TOKEN_TARG :: int where "SPNEGO_NEG_TOKEN_TARG = 1"

record spnego_data =
  sp_type :: int
  negTokenInit :: spnego_negTokenInit
  negTokenTarg :: spnego_negTokenTarg

definition SPNEGO_REQ_FLAG :: u32 where "SPNEGO_REQ_FLAG = 0x80"
definition SPNEGO_NONE_RESULT :: u8 where "SPNEGO_NONE_RESULT = 3"
definition GENSEC_OID_SPNEGO :: string where "GENSEC_OID_SPNEGO = ''1 3 6 1 5 5 2''"

definition init_zero :: spnego_negTokenInit where
  "init_zero = \<lparr>mechTypes = None, reqFlags = 0, mechToken = None, mechListMIC = None, targetPrincipal = None\<rparr>"

definition targ_zero :: spnego_negTokenTarg where
  "targ_zero = \<lparr>negResult = 0, supportedMech = None, responseToken = None, targ_mechListMIC = None\<rparr>"

section \<open>Writing\<close>

fun write_mechTypes :: "string list \<Rightarrow> asn1_data \<Rightarrow> asn1_data option" where
  "write_mechTypes [] d = Some d"
| "write_mechTypes (oid # oids) d = do { (_, d) \<leftarrow> asn1_write_OID d oid; write_mechTypes oids d }"

definition write_mechToken :: "asn1_data \<Rightarrow> u8 \<Rightarrow> u8 list option \<Rightarrow> asn1_data option" where
  "write_mechToken d num blob =
     (case blob of
        None \<Rightarrow> Some d
      | Some p \<Rightarrow>
          do { (_, d) \<leftarrow> asn1_push_tag d (ASN1_CONTEXT num);
               (_, d) \<leftarrow> asn1_write_OctetString d p;
               (_, d) \<leftarrow> asn1_pop_tag d;
               Some d })"

definition write_negTokenInit :: "asn1_data \<Rightarrow> spnego_negTokenInit \<Rightarrow> (bool \<times> asn1_data) option" where
  "write_negTokenInit d token =
     do { (_, d) \<leftarrow> asn1_push_tag d (ASN1_CONTEXT 0);
          (_, d) \<leftarrow> asn1_push_tag d (ASN1_SEQUENCE 0);
          d \<leftarrow> (case mechTypes token of
                 Some (oid # oids) \<Rightarrow>
                   do { (_, d) \<leftarrow> asn1_push_tag d (ASN1_CONTEXT 0);
                        (_, d) \<leftarrow> asn1_push_tag d (ASN1_SEQUENCE 0);
                        d \<leftarrow> write_mechTypes (oid # oids) d;
                        (_, d) \<leftarrow> asn1_pop_tag d;
                        (_, d) \<leftarrow> asn1_pop_tag d;
                        Some d }
               | _ \<Rightarrow> Some d);
          d \<leftarrow> (if reqFlags token AND SPNEGO_REQ_FLAG \<noteq> 0
                then do { (_, d) \<leftarrow> asn1_push_tag d (ASN1_CONTEXT 1);
                          (_, d) \<leftarrow> asn1_write_Integer d (reqFlags token AND NOT SPNEGO_REQ_FLAG);
                          (_, d) \<leftarrow> asn1_pop_tag d;
                          Some d }
                else Some d);
          d \<leftarrow> write_mechToken d 2 (mechToken token);
          d \<leftarrow> (case mechListMIC token of
                 None \<Rightarrow> Some d
               | Some mic \<Rightarrow>
                   do { (_, d) \<leftarrow> asn1_push_tag d (ASN1_CONTEXT 3);
                        (_, d) \<leftarrow> asn1_push_tag d (ASN1_SEQUENCE 0);
                        (_, d) \<leftarrow> asn1_push_tag d (ASN1_CONTEXT 0);
                        (_, d) \<leftarrow> asn1_push_tag d ASN1_GENERAL_STRING;
                        (_, d) \<leftarrow> asn1_write d mic;
                        (_, d) \<leftarrow> asn1_pop_tag d;
                        (_, d) \<leftarrow> asn1_pop_tag d;
                        (_, d) \<leftarrow> asn1_pop_tag d;
                        (_, d) \<leftarrow> asn1_pop_tag d;
                        Some d });
          (_, d) \<leftarrow> asn1_pop_tag d;
          (_, d) \<leftarrow> asn1_pop_tag d;
          Some (\<not> has_error d, d) }"

definition write_negTokenTarg :: "asn1_data \<Rightarrow> spnego_negTokenTarg \<Rightarrow> (bool \<times> asn1_data) option" where
  "write_negTokenTarg d token =
     do { (_, d) \<leftarrow> asn1_push_tag d (ASN1_CONTEXT 1);
          (_, d) \<leftarrow> asn1_push_tag d (ASN1_SEQUENCE 0);
          d \<leftarrow> (if negResult token \<noteq> SPNEGO_NONE_RESULT
                then do { (_, d) \<leftarrow> asn1_push_tag d (ASN1_CONTEXT 0);
                          (_, d) \<leftarrow> asn1_write_enumerated d (negResult token);
                          (_, d) \<leftarrow> asn1_pop_tag d;
                          Some d }
                else Some d);
          d \<leftarrow> (case supportedMech token of
                 None \<Rightarrow> Some d
               | Some oid \<Rightarrow>
                   do { (_, d) \<leftarrow> asn1_push_tag d (ASN1_CONTEXT 1);
                        (_, d) \<leftarrow> asn1_write_OID d oid;
                        (_, d) \<leftarrow> asn1_pop_tag d;
                        Some d });
          d \<leftarrow> write_mechToken d 2 (responseToken token);
          d \<leftarrow> write_mechToken d 3 (targ_mechListMIC token);
          (_, d) \<leftarrow> asn1_pop_tag d;
          (_, d) \<leftarrow> asn1_pop_tag d;
          Some (\<not> has_error d, d) }"

text \<open>The blob and the number of bytes, \<open>None\<close> for \<open>-1\<close>.\<close>

definition spnego_write_data :: "spnego_data \<Rightarrow> (u8 list \<times> nat) option option" where
  "spnego_write_data spnego =
     do { d \<leftarrow> (if sp_type spnego = SPNEGO_NEG_TOKEN_INIT
                then do { (_, d) \<leftarrow> asn1_push_tag asn1_zero (ASN1_APPLICATION 0);
                          (_, d) \<leftarrow> asn1_write_OID d GENSEC_OID_SPNEGO;
                          (_, d) \<leftarrow> write_negTokenInit d (negTokenInit spnego);
                          (_, d) \<leftarrow> asn1_pop_tag d;
                          Some d }
                else if sp_type spnego = SPNEGO_NEG_TOKEN_TARG
                then do { (_, d) \<leftarrow> write_negTokenTarg asn1_zero (negTokenTarg spnego); Some d }
                else Some (asn1_zero\<lparr>has_error := True\<rparr>));
          bs \<leftarrow> asn1_bytes d;
          Some (if has_error d then None else Some (take (asn1_length d) bs, asn1_ofs d)) }"

section \<open>Reading\<close>

text \<open>
  What is left of the buffer never grows, also where the reader of \<open>mechListMIC\<close> writes into the buffer it is reading.
\<close>

definition left_le :: "nat \<Rightarrow> ('r \<Rightarrow> asn1_data) \<Rightarrow> 'r option \<Rightarrow> bool" where
  "left_le k sel x \<longleftrightarrow> (\<forall>r. x = Some r \<longrightarrow> asn1_left (sel r) \<le> k)"

named_theorems asn1_left_rules \<open>what is left of the buffer\<close>

lemma left_Some: "asn1_left (sel r) \<le> k \<Longrightarrow> left_le k sel (Some r)"
  by (simp add: left_le_def)

lemma left_None: "left_le k sel None"
  by (simp add: left_le_def)

lemma left_bind1: "left_le k (\<lambda>d. d) m \<Longrightarrow> (\<And>d. asn1_left d \<le> k \<Longrightarrow> left_le k sel (f d)) \<Longrightarrow> left_le k sel (m \<bind> f)"
  by (cases m) (auto simp: left_le_def)

lemma left_bind2:
  "left_le k state2 m \<Longrightarrow> (\<And>a d. asn1_left d \<le> k \<Longrightarrow> left_le k sel (f a d)) \<Longrightarrow> left_le k sel (m \<bind> (\<lambda>(a, d). f a d))"
  by (cases m) (auto simp: left_le_def)

lemma left_bind3:
  "left_le k state3 m \<Longrightarrow> (\<And>a b d. asn1_left d \<le> k \<Longrightarrow> left_le k sel (f a b d)) \<Longrightarrow> left_le k sel (m \<bind> (\<lambda>(a, b, d). f a b d))"
  by (cases m) (auto simp: left_le_def)

lemma left_if: "left_le k sel x \<Longrightarrow> left_le k sel y \<Longrightarrow> left_le k sel (if c then x else y)"
  by simp

lemma left_case: "left_le k sel x \<Longrightarrow> (\<And>a. left_le k sel (f a)) \<Longrightarrow> left_le k sel (case v of None \<Rightarrow> x | Some a \<Rightarrow> f a)"
  by (cases v) simp_all

lemmas left_rules = left_bind2 left_bind3 left_if left_case left_Some left_None

lemma asn1_left_update [simp]: "asn1_left (d\<lparr>has_error := e\<rparr>) = asn1_left d" "asn1_left (d\<lparr>asn1_nesting := ns\<rparr>) = asn1_left d"
    "asn1_left (d\<lparr>asn1_bytes := bs\<rparr>) = asn1_left d"
  by (simp_all add: asn1_left_def)

lemma left_peek [asn1_left_rules]: "asn1_left d \<le> k \<Longrightarrow> left_le k state2 (asn1_peek d len)"
  by (auto simp: left_le_def asn1_peek_def asn1_left_def split: if_splits option.splits)

lemma left_read [asn1_left_rules]: "asn1_left d \<le> k \<Longrightarrow> left_le k state2 (asn1_read d len)"
  by (auto simp: left_le_def asn1_read_def asn1_peek_def asn1_left_def split: if_splits option.splits)

lemma left_peek_uint8 [asn1_left_rules]: "asn1_left d \<le> k \<Longrightarrow> left_le k state2 (asn1_peek_uint8 d)"
  unfolding asn1_peek_uint8_def by (intro left_rules asn1_left_rules) simp_all

lemma left_read_uint8 [asn1_left_rules]: "asn1_left d \<le> k \<Longrightarrow> left_le k state2 (asn1_read_uint8 d)"
  unfolding asn1_read_uint8_def by (intro left_rules asn1_left_rules) simp_all

lemma left_tag_remaining [asn1_left_rules]: "asn1_left d \<le> k \<Longrightarrow> left_le k state2 (asn1_tag_remaining d)"
  using tag_remaining_left by (fastforce simp: left_le_def)

lemma left_read_length [asn1_left_rules]: "asn1_left d \<le> k \<Longrightarrow> left_le k state2 (read_length n d m)"
  by (induction n arbitrary: d m) (auto intro!: left_rules asn1_left_rules)

lemma left_start_tag [asn1_left_rules]: "asn1_left d \<le> k \<Longrightarrow> left_le k state2 (asn1_start_tag d tag)"
  unfolding asn1_start_tag_def by (intro left_rules asn1_left_rules) simp_all

lemma left_end_tag [asn1_left_rules]: "asn1_left d \<le> k \<Longrightarrow> left_le k state2 (asn1_end_tag d)"
  unfolding asn1_end_tag_def by (intro left_bind2 left_if asn1_left_rules) (auto split: list.splits intro!: left_Some)

lemma left_read_arc [asn1_left_rules]: "asn1_left d \<le> k \<Longrightarrow> left_le k state3 (read_arc d v b)"
  using read_arc_left by (fastforce simp: left_le_def)

lemma left_read_arcs [asn1_left_rules]: "asn1_left d \<le> k \<Longrightarrow> left_le k state2 (read_arcs d oid b)"
proof (induction d oid b rule: read_arcs.induct)
  case (1 d oid b)
  show ?case
  proof (cases "has_error d \<or> asn1_tag_remaining d = None")
    case True
    then show ?thesis using "1.prems" by (auto simp: read_arcs.simps [of d oid b] left_le_def)
  next
    case False
    then obtain r d1 where r: "asn1_tag_remaining d = Some (r, d1)" "\<not> has_error d" by auto
    have k: "asn1_left d1 \<le> k" using tag_remaining_left [OF r(1)] "1.prems" by simp
    show ?thesis
    proof (cases "r > 0 \<and> read_arc d1 0 b \<noteq> None")
      case True
      then obtain v c d2 where v: "read_arc d1 0 b = Some (v, c, d2)" "r > 0" by auto
      have "asn1_left d2 \<le> k" using left_read_arc [OF k, of 0 b] v(1) by (auto simp: left_le_def)
      from "1.IH" [OF r(2,1) refl v(2,1) refl refl this] show ?thesis using r v by (simp add: read_arcs.simps [of d oid b])
    next
      case False
      then show ?thesis using r k by (cases "read_arc d1 0 b") (auto simp: read_arcs.simps [of d oid b] left_le_def)
    qed
  qed
qed

lemma left_read_int [asn1_left_rules]: "asn1_left d \<le> k \<Longrightarrow> left_le k state3 (read_int d i)"
proof (induction d i rule: read_int.induct)
  case (1 d i)
  show ?case
  proof (cases "has_error d \<or> asn1_tag_remaining d = None")
    case True
    then show ?thesis using "1.prems" by (auto simp: read_int.simps [of d i] left_le_def)
  next
    case False
    then obtain r d1 where r: "asn1_tag_remaining d = Some (r, d1)" "\<not> has_error d" by auto
    have k: "asn1_left d1 \<le> k" using tag_remaining_left [OF r(1)] "1.prems" by simp
    show ?thesis
    proof (cases "r > 0 \<and> asn1_read_uint8 d1 \<noteq> None")
      case True
      then obtain b d2 where b: "asn1_read_uint8 d1 = Some (b, d2)" "r > 0" by auto
      have "asn1_left d2 \<le> k" using left_read_uint8 [OF k] b(1) by (auto simp: left_le_def)
      with "1.IH" [OF r(2,1) refl b(2,1) refl _ this] show ?thesis
        using r b by (cases b) (simp_all add: read_int.simps [of d i] left_Some)
    next
      case False
      then show ?thesis using r k by (cases "asn1_read_uint8 d1") (auto simp: read_int.simps [of d i] left_le_def)
    qed
  qed
qed

lemma left_read_OID [asn1_left_rules]: "asn1_left d \<le> k \<Longrightarrow> left_le k state3 (asn1_read_OID d)"
  unfolding asn1_read_OID_def Let_def by (intro left_rules asn1_left_rules) simp_all

lemma left_read_Integer [asn1_left_rules]: "asn1_left d \<le> k \<Longrightarrow> left_le k state3 (asn1_read_Integer d)"
  unfolding asn1_read_Integer_def asn1_read_implicit_Integer_def by (intro left_rules asn1_left_rules) simp_all

lemma left_read_OctetString [asn1_left_rules]: "asn1_left d \<le> k \<Longrightarrow> left_le k state3 (asn1_read_OctetString d)"
  unfolding asn1_read_OctetString_def by (intro left_rules asn1_left_rules) simp_all

lemma left_read_GeneralString [asn1_left_rules]: "asn1_left d \<le> k \<Longrightarrow> left_le k state3 (asn1_read_GeneralString d)"
  unfolding asn1_read_GeneralString_def asn1_read_LDAPString_def by (intro left_rules asn1_left_rules) simp_all

lemma left_write_uint8 [asn1_left_rules]: "asn1_left d \<le> k \<Longrightarrow> left_le k state2 (asn1_write_uint8 d b)"
  by (auto simp: left_le_def asn1_write_uint8_def asn1_write_def put_bytes_def asn1_free_def asn1_left_def
      split: if_splits option.splits bind_splits)

lemma left_push_tag [asn1_left_rules]: "asn1_left d \<le> k \<Longrightarrow> left_le k state2 (asn1_push_tag d tag)"
  unfolding asn1_push_tag_def by (intro left_rules asn1_left_rules) simp_all

lemma left_write_zeros [asn1_left_rules]: "asn1_left d \<le> k \<Longrightarrow> left_le k state2 (write_zeros n d)"
  by (induction n arbitrary: d) (auto intro!: left_rules asn1_left_rules)

lemma left_poke [asn1_left_rules]: "asn1_left d \<le> k \<Longrightarrow> left_le k (\<lambda>d. d) (poke d i v)"
  by (auto simp: poke_def left_le_def split: option.splits if_splits)

lemma left_pokes [asn1_left_rules]: "asn1_left d \<le> k \<Longrightarrow> left_le k (\<lambda>d. d) (pokes d i vs)"
  by (induction vs arbitrary: d i) (auto intro!: left_bind1 left_Some asn1_left_rules)

lemma left_memmove [asn1_left_rules]: "asn1_left d \<le> k \<Longrightarrow> left_le k (\<lambda>d. d) (memmove d i j n)"
  by (auto simp: memmove_def left_le_def split: option.splits if_splits)

lemma left_pop_tag [asn1_left_rules]: "asn1_left d \<le> k \<Longrightarrow> left_le k state2 (asn1_pop_tag d)"
proof -
  assume k: "asn1_left d \<le> k"
  have "left_le k state2 (long_length d start len first vs)" for start len first vs
    unfolding long_length_def using k by (intro left_bind1 left_rules asn1_left_rules) simp_all
  moreover have "left_le k state2 (do { d \<leftarrow> poke d i v; Some (True, d\<lparr>asn1_nesting := tl (asn1_nesting d)\<rparr>) })" for i v
    using k by (intro left_bind1 left_rules asn1_left_rules) simp_all
  ultimately show ?thesis using k unfolding asn1_pop_tag_def Let_def by (auto split: list.splits intro!: left_Some)
qed

text \<open>An element takes at least the byte of its tag.\<close>

lemma start_tag_left:
  assumes "asn1_start_tag d tag = Some (ok, d')" shows "asn1_left d' < asn1_left d \<or> has_error d'"
proof -
  obtain r d1 where r: "asn1_read_uint8 d = Some (r, d1)" using assms by (auto simp: asn1_start_tag_def split: bind_splits)
  show ?thesis
  proof (cases r)
    case None
    then show ?thesis using assms r read_uint8_left [OF r] by (simp add: asn1_start_tag_def)
  next
    case (Some b)
    have k: "asn1_left d1 < asn1_left d" using read_uint8_left [OF r] Some by simp
    then have "left_le (asn1_left d - 1) state2 (asn1_start_tag d tag)"
      unfolding asn1_start_tag_def r Some by simp (intro conjI impI left_rules asn1_left_rules; simp)
    then show ?thesis using assms k by (auto simp: left_le_def)
  qed
qed

section \<open>Reading messages\<close>

lemma read_OID_left:
  assumes "asn1_read_OID d = Some (ok, oid, d')" shows "asn1_left d' < asn1_left d \<or> has_error d'"
proof -
  obtain b d1 where s: "asn1_start_tag d ASN1_OID = Some (b, d1)" using assms by (auto simp: asn1_read_OID_def split: bind_splits)
  have "left_le (asn1_left d1) state3 (asn1_read_OID d)"
    unfolding asn1_read_OID_def s Let_def by simp (intro conjI impI left_rules asn1_left_rules; simp)
  then have le: "asn1_left d' \<le> asn1_left d1" using assms by (simp add: left_le_def)
  show ?thesis
  proof (cases b)
    case True
    then have "\<not> has_error d1" using s by (auto simp: asn1_start_tag_def split: bind_splits if_splits option.splits)
    then show ?thesis using start_tag_left [OF s] le by simp
  next
    case False
    then have "d' = d1" using assms s by (simp add: asn1_read_OID_def)
    then show ?thesis using start_tag_left [OF s] by simp
  qed
qed

text \<open>
  The loop over the mechanisms.  \<open>asn1_read_OID\<close> leaves the pointer unset where the element is not an object identifier,
  and the caller then looks at it.
\<close>

function read_mechTypes :: "asn1_data \<Rightarrow> string list \<Rightarrow> (string list \<times> asn1_data) option" where
  "read_mechTypes d oids =
     (if has_error d then Some (oids, d)
      else case asn1_tag_remaining d of
             None \<Rightarrow> None
           | Some (remaining, d) \<Rightarrow>
               if 0 < remaining
               then if MAX_TALLOC_SIZE \<le> 8 * (length oids + 2) then None
                    else (case asn1_read_OID d of
                            None \<Rightarrow> None
                          | Some (_, None, _) \<Rightarrow> None
                          | Some (_, Some oid, d) \<Rightarrow> read_mechTypes d (oids @ [oid]))
               else Some (oids, d))"
  by pat_completeness auto

termination
proof (relation "measure (\<lambda>(d, _). if has_error d then 0 else Suc (asn1_left d))")
  fix d oids x r d1 y ok z oo d2 oid
  assume "\<not> has_error d" and t: "asn1_tag_remaining d = Some x" "(r, d1) = x" and a: "asn1_read_OID d1 = Some y" "(ok, z) = y" "(oo, d2) = z"
  then show "((d2, oids @ [oid]), d, oids) \<in> measure (\<lambda>(d, _). if has_error d then 0 else Suc (asn1_left d))"
    using tag_remaining_left [of d r d1] read_OID_left [of d1 ok oo d2] by auto
qed simp

declare read_mechTypes.simps [simp del]

definition read_mechListMIC :: "asn1_data \<Rightarrow> spnego_negTokenInit \<Rightarrow> (spnego_negTokenInit \<times> asn1_data) option" where
  "read_mechListMIC d token =
     do { (_, d) \<leftarrow> asn1_start_tag d (ASN1_CONTEXT 3);
          (type_peek, d) \<leftarrow> asn1_peek_uint8 d;
          case type_peek of
            None \<Rightarrow> Some (token, d\<lparr>has_error := True\<rparr>)
          | Some type_peek \<Rightarrow>
              if type_peek = ASN1_OCTET_STRING
              then do { (_, mic, d) \<leftarrow> asn1_read_OctetString d;
                        (_, d) \<leftarrow> asn1_end_tag d;
                        Some (token\<lparr>mechListMIC := mic\<rparr>, d) }
              else do { (_, d) \<leftarrow> asn1_push_tag d (ASN1_SEQUENCE 0);
                        (_, d) \<leftarrow> asn1_push_tag d (ASN1_CONTEXT 0);
                        (_, mic, d) \<leftarrow> asn1_read_GeneralString d;
                        (_, d) \<leftarrow> asn1_pop_tag d;
                        (_, d) \<leftarrow> asn1_pop_tag d;
                        (_, d) \<leftarrow> asn1_end_tag d;
                        Some (token\<lparr>targetPrincipal := mic\<rparr>, d) } }"

definition init_field :: "u8 \<Rightarrow> asn1_data \<Rightarrow> spnego_negTokenInit \<Rightarrow> (spnego_negTokenInit \<times> asn1_data) option" where
  "init_field context d token =
     (if context = ASN1_CONTEXT 0
      then do { (_, d) \<leftarrow> asn1_start_tag d (ASN1_CONTEXT 0);
                (_, d) \<leftarrow> asn1_start_tag d (ASN1_SEQUENCE 0);
                (oids, d) \<leftarrow> read_mechTypes d [];
                (_, d) \<leftarrow> asn1_end_tag d;
                (_, d) \<leftarrow> asn1_end_tag d;
                Some (token\<lparr>mechTypes := Some oids\<rparr>, d) }
      else if context = ASN1_CONTEXT 1
      then do { (_, d) \<leftarrow> asn1_start_tag d (ASN1_CONTEXT 1);
                (_, flags, d) \<leftarrow> asn1_read_Integer d;
                (_, d) \<leftarrow> asn1_end_tag d;
                Some (token\<lparr>reqFlags := flags OR SPNEGO_REQ_FLAG\<rparr>, d) }
      else if context = ASN1_CONTEXT 2
      then do { (_, d) \<leftarrow> asn1_start_tag d (ASN1_CONTEXT 2);
                (_, blob, d) \<leftarrow> asn1_read_OctetString d;
                (_, d) \<leftarrow> asn1_end_tag d;
                Some (token\<lparr>mechToken := blob\<rparr>, d) }
      else if context = ASN1_CONTEXT 3 then read_mechListMIC d token
      else Some (token, d\<lparr>has_error := True\<rparr>))"

definition targ_field :: "u8 \<Rightarrow> asn1_data \<Rightarrow> spnego_negTokenTarg \<Rightarrow> (spnego_negTokenTarg \<times> asn1_data) option" where
  "targ_field context d token =
     (if context = ASN1_CONTEXT 0
      then do { (_, d) \<leftarrow> asn1_start_tag d (ASN1_CONTEXT 0);
                (_, d) \<leftarrow> asn1_start_tag d ASN1_ENUMERATED;
                (b, d) \<leftarrow> asn1_read_uint8 d;
                (_, d) \<leftarrow> asn1_end_tag d;
                (_, d) \<leftarrow> asn1_end_tag d;
                Some (case b of None \<Rightarrow> token | Some b \<Rightarrow> token\<lparr>negResult := b\<rparr>, d) }
      else if context = ASN1_CONTEXT 1
      then do { (_, d) \<leftarrow> asn1_start_tag d (ASN1_CONTEXT 1);
                (_, oid, d) \<leftarrow> asn1_read_OID d;
                (_, d) \<leftarrow> asn1_end_tag d;
                Some (case oid of None \<Rightarrow> token | Some oid \<Rightarrow> token\<lparr>supportedMech := Some oid\<rparr>, d) }
      else if context = ASN1_CONTEXT 2
      then do { (_, d) \<leftarrow> asn1_start_tag d (ASN1_CONTEXT 2);
                (_, blob, d) \<leftarrow> asn1_read_OctetString d;
                (_, d) \<leftarrow> asn1_end_tag d;
                Some (token\<lparr>responseToken := blob\<rparr>, d) }
      else if context = ASN1_CONTEXT 3
      then do { (_, d) \<leftarrow> asn1_start_tag d (ASN1_CONTEXT 3);
                (_, blob, d) \<leftarrow> asn1_read_OctetString d;
                (_, d) \<leftarrow> asn1_end_tag d;
                Some (token\<lparr>targ_mechListMIC := blob\<rparr>, d) }
      else Some (token, d\<lparr>has_error := True\<rparr>))"

text \<open>Each field takes a part of the buffer, or there is an error.\<close>

lemma left_read_mechTypes [asn1_left_rules]: "asn1_left d \<le> k \<Longrightarrow> left_le k state2 (read_mechTypes d oids)"
proof (induction d oids rule: read_mechTypes.induct)
  case (1 d oids)
  show ?case
  proof (cases "has_error d \<or> asn1_tag_remaining d = None")
    case True
    then show ?thesis using "1.prems" by (auto simp: read_mechTypes.simps [of d oids] left_le_def)
  next
    case False
    then obtain r d1 where r: "asn1_tag_remaining d = Some (r, d1)" "\<not> has_error d" by auto
    have k: "asn1_left d1 \<le> k" using tag_remaining_left [OF r(1)] "1.prems" by simp
    show ?thesis
    proof (cases "0 < r \<and> \<not> MAX_TALLOC_SIZE \<le> 8 * (length oids + 2) \<and> (\<exists>ok oid d2. asn1_read_OID d1 = Some (ok, Some oid, d2))")
      case True
      then obtain ok oid d2 where o: "asn1_read_OID d1 = Some (ok, Some oid, d2)" "0 < r" "\<not> MAX_TALLOC_SIZE \<le> 8 * (length oids + 2)" by auto
      have "asn1_left d2 \<le> k" using left_read_OID [OF k] o(1) by (auto simp: left_le_def)
      from "1.IH" [OF r(2,1) refl o(2,3,1) refl refl refl this] show ?thesis using r o by (simp add: read_mechTypes.simps [of d oids])
    next
      case False
      then show ?thesis using r k by (auto simp: read_mechTypes.simps [of d oids] left_le_def split: if_splits option.splits)
    qed
  qed
qed

lemma peeked_start:
  assumes "asn1_peek_uint8 d0 = Some (Some b, d)"
  shows "0 < asn1_left d" "left_le (asn1_left d - 1) state2 (asn1_start_tag d tag)"
proof -
  have d: "d = d0" "asn1_ofs d < asn1_length d"
    using assms by (auto simp: asn1_peek_uint8_def asn1_peek_def split: if_splits option.splits)
  then show pos: "0 < asn1_left d" by (simp add: asn1_left_def)
  obtain p where "asn1_read_uint8 d = Some (Some p, d\<lparr>asn1_ofs := asn1_ofs d + 1\<rparr>)"
    using assms d by (auto simp: asn1_peek_uint8_def asn1_read_uint8_def asn1_read_def asn1_peek_def split: if_splits option.splits)
  moreover have "asn1_left (d\<lparr>asn1_ofs := asn1_ofs d + 1\<rparr>) \<le> asn1_left d - 1" by (simp add: asn1_left_def)
  ultimately show "left_le (asn1_left d - 1) state2 (asn1_start_tag d tag)"
    unfolding asn1_start_tag_def by simp (intro conjI impI left_rules asn1_left_rules; simp)
qed

lemma init_field_left:
  assumes "asn1_peek_uint8 d0 = Some (Some b, d)" "init_field c d token = Some (token', d')"
  shows "asn1_left d' < asn1_left d \<or> has_error d'"
proof (cases "c = ASN1_CONTEXT 0 \<or> c = ASN1_CONTEXT 1 \<or> c = ASN1_CONTEXT 2 \<or> c = ASN1_CONTEXT 3")
  case True
  obtain k where k: "asn1_left d = Suc k" using peeked_start(1) [OF assms(1)] gr0_implies_Suc by blast
  have "left_le k state2 (asn1_start_tag d tag)" for tag using peeked_start(2) [OF assms(1), of tag] by (simp add: k)
  note start = left_bind2 [OF this]
  have "left_le k state2 (init_field c d token)"
    using True unfolding init_field_def read_mechListMIC_def
    by (elim disjE; simp add: asn1_tag_defs; intro start left_rules asn1_left_rules; simp)
  then show ?thesis using assms(2) by (simp add: left_le_def k)
next
  case False
  then show ?thesis using assms(2) by (auto simp: init_field_def)
qed

lemma targ_field_left:
  assumes "asn1_peek_uint8 d0 = Some (Some b, d)" "targ_field c d token = Some (token', d')"
  shows "asn1_left d' < asn1_left d \<or> has_error d'"
proof (cases "c = ASN1_CONTEXT 0 \<or> c = ASN1_CONTEXT 1 \<or> c = ASN1_CONTEXT 2 \<or> c = ASN1_CONTEXT 3")
  case True
  obtain k where k: "asn1_left d = Suc k" using peeked_start(1) [OF assms(1)] gr0_implies_Suc by blast
  have "left_le k state2 (asn1_start_tag d tag)" for tag using peeked_start(2) [OF assms(1), of tag] by (simp add: k)
  note start = left_bind2 [OF this]
  have "left_le k state2 (targ_field c d token)"
    using True unfolding targ_field_def
    by (elim disjE; simp add: asn1_tag_defs; intro start left_rules asn1_left_rules; simp)
  then show ?thesis using assms(2) by (simp add: left_le_def k)
next
  case False
  then show ?thesis using assms(2) by (auto simp: targ_field_def)
qed

text \<open>The loop over the fields, for either kind of message.\<close>

lemma peek_left: "asn1_peek_uint8 d = Some (r, d') \<Longrightarrow> asn1_left d' \<le> asn1_left d"
  using left_peek_uint8 [of d "asn1_left d"] by (simp add: left_le_def)

function read_init_fields :: "asn1_data \<Rightarrow> spnego_negTokenInit \<Rightarrow> (spnego_negTokenInit \<times> asn1_data) option" where
  "read_init_fields d token =
     (if has_error d then Some (token, d)
      else case asn1_tag_remaining d of
             None \<Rightarrow> None
           | Some (remaining, d) \<Rightarrow>
               if 0 < remaining
               then (case asn1_peek_uint8 d of
                       None \<Rightarrow> None
                     | Some (None, d) \<Rightarrow> Some (token, d\<lparr>has_error := True\<rparr>)
                     | Some (Some context, d) \<Rightarrow>
                         (case init_field context d token of
                            None \<Rightarrow> None
                          | Some (token, d) \<Rightarrow> read_init_fields d token))
               else Some (token, d))"
  by pat_completeness auto

termination
proof (relation "measure (\<lambda>(d, _). if has_error d then 0 else Suc (asn1_left d))")
  fix d token x r d1 y co d2 c z token' d3
  assume "\<not> has_error d" and t: "asn1_tag_remaining d = Some x" "(r, d1) = x" and p: "asn1_peek_uint8 d1 = Some y" "(co, d2) = y" "co = Some c"
    and f: "init_field c d2 token = Some z" "(token', d3) = z"
  then show "((d3, token'), d, token) \<in> measure (\<lambda>(d, _). if has_error d then 0 else Suc (asn1_left d))"
    using tag_remaining_left [of d r d1] peek_left [of d1 co d2] init_field_left [of d1 c d2 c token token' d3] by auto
qed simp

declare read_init_fields.simps [simp del]

function read_targ_fields :: "asn1_data \<Rightarrow> spnego_negTokenTarg \<Rightarrow> (spnego_negTokenTarg \<times> asn1_data) option" where
  "read_targ_fields d token =
     (if has_error d then Some (token, d)
      else case asn1_tag_remaining d of
             None \<Rightarrow> None
           | Some (remaining, d) \<Rightarrow>
               if 0 < remaining
               then (case asn1_peek_uint8 d of
                       None \<Rightarrow> None
                     | Some (None, d) \<Rightarrow> Some (token, d\<lparr>has_error := True\<rparr>)
                     | Some (Some context, d) \<Rightarrow>
                         (case targ_field context d token of
                            None \<Rightarrow> None
                          | Some (token, d) \<Rightarrow> read_targ_fields d token))
               else Some (token, d))"
  by pat_completeness auto

termination
proof (relation "measure (\<lambda>(d, _). if has_error d then 0 else Suc (asn1_left d))")
  fix d token x r d1 y co d2 c z token' d3
  assume "\<not> has_error d" and t: "asn1_tag_remaining d = Some x" "(r, d1) = x" and p: "asn1_peek_uint8 d1 = Some y" "(co, d2) = y" "co = Some c"
    and f: "targ_field c d2 token = Some z" "(token', d3) = z"
  then show "((d3, token'), d, token) \<in> measure (\<lambda>(d, _). if has_error d then 0 else Suc (asn1_left d))"
    using tag_remaining_left [of d r d1] peek_left [of d1 co d2] targ_field_left [of d1 c d2 c token token' d3] by auto
qed simp

declare read_targ_fields.simps [simp del]

definition read_negTokenInit :: "asn1_data \<Rightarrow> (bool \<times> spnego_negTokenInit \<times> asn1_data) option" where
  "read_negTokenInit d =
     do { (_, d) \<leftarrow> asn1_start_tag d (ASN1_CONTEXT 0);
          (_, d) \<leftarrow> asn1_start_tag d (ASN1_SEQUENCE 0);
          (token, d) \<leftarrow> read_init_fields d init_zero;
          (_, d) \<leftarrow> asn1_end_tag d;
          (_, d) \<leftarrow> asn1_end_tag d;
          Some (\<not> has_error d, token, d) }"

definition read_negTokenTarg :: "asn1_data \<Rightarrow> (bool \<times> spnego_negTokenTarg \<times> asn1_data) option" where
  "read_negTokenTarg d =
     do { (_, d) \<leftarrow> asn1_start_tag d (ASN1_CONTEXT 1);
          (_, d) \<leftarrow> asn1_start_tag d (ASN1_SEQUENCE 0);
          (token, d) \<leftarrow> read_targ_fields d targ_zero;
          (_, d) \<leftarrow> asn1_end_tag d;
          (_, d) \<leftarrow> asn1_end_tag d;
          Some (\<not> has_error d, token, d) }"

text \<open>The number of bytes read, \<open>None\<close> for \<open>-1\<close>, and the message.\<close>

definition spnego_read_data :: "u8 list \<Rightarrow> (nat option \<times> spnego_data) option" where
  "spnego_read_data data =
     (let token = \<lparr>sp_type = 0, negTokenInit = init_zero, negTokenTarg = targ_zero\<rparr>
      in if data = [] then Some (None, token)
         else do {
           (context, d) \<leftarrow> asn1_peek_uint8 (snd (asn1_load data));
           (token, d) \<leftarrow>
             (case context of
                None \<Rightarrow> Some (token, d\<lparr>has_error := True\<rparr>)
              | Some context \<Rightarrow>
                  if context = ASN1_APPLICATION 0
                  then do { (_, d) \<leftarrow> asn1_start_tag d (ASN1_APPLICATION 0);
                            (_, d) \<leftarrow> asn1_check_OID d GENSEC_OID_SPNEGO;
                            (ok, init, d) \<leftarrow> read_negTokenInit d;
                            (_, d) \<leftarrow> asn1_end_tag d;
                            let token = token\<lparr>negTokenInit := init\<rparr>
                            in Some (if ok then token\<lparr>sp_type := SPNEGO_NEG_TOKEN_INIT\<rparr> else token, d) }
                  else if context = ASN1_CONTEXT 1
                  then do { (ok, targ, d) \<leftarrow> read_negTokenTarg d;
                            let token = token\<lparr>negTokenTarg := targ\<rparr>
                            in Some (if ok then token\<lparr>sp_type := SPNEGO_NEG_TOKEN_TARG\<rparr> else token, d) }
                  else Some (token, d\<lparr>has_error := True\<rparr>));
           _ \<leftarrow> asn1_free d;
           Some (if has_error d then None else Some (asn1_ofs d), token) })"

text \<open>\<open>spnego_free_data\<close>: the memory of the message is released and the structure cleared.\<close>

definition spnego_free_data :: "spnego_data option \<Rightarrow> bool \<times> spnego_data option" where
  "spnego_free_data spnego =
     (case spnego of
        None \<Rightarrow> (True, None)
      | Some sp \<Rightarrow> (sp_type sp = SPNEGO_NEG_TOKEN_INIT \<or> sp_type sp = SPNEGO_NEG_TOKEN_TARG,
                    Some \<lparr>sp_type = 0, negTokenInit = init_zero, negTokenTarg = targ_zero\<rparr>))"

end
