(* ===== verification/SpnegoCodec.thy ===== *)
theory SpnegoCodec
  imports Spnego
begin

text \<open>
  The messages of \<open>spnego_parse.c\<close> are read back as they were written, with one exception that the source announces
  (\<open>mechListMIC\<close> of an initial message comes back as \<open>targetPrincipal\<close>) and one that it does not (from 124 bytes on it
  is not read at all).
\<close>

section \<open>Writing\<close>

definition puts :: "(asn1_data \<Rightarrow> asn1_data option) \<Rightarrow> u8 list \<Rightarrow> bool" where
  "puts f e \<longleftrightarrow> (\<forall>bs ns. length bs + length e < MAX_TALLOC_SIZE \<longrightarrow> f (W bs ns) = Some (W (bs @ e) ns))"

definition tagged :: "u8 \<Rightarrow> (asn1_data \<Rightarrow> asn1_data option) \<Rightarrow> asn1_data \<Rightarrow> asn1_data option" where
  "tagged tag f d = do { (_, d) \<leftarrow> asn1_push_tag d tag; d \<leftarrow> f d; (_, d) \<leftarrow> asn1_pop_tag d; Some d }"

definition quiet :: "(asn1_data \<Rightarrow> (bool \<times> asn1_data) option) \<Rightarrow> asn1_data \<Rightarrow> asn1_data option" where
  "quiet f d = map_option snd (f d)"

lemma bind_map: "map_option f m \<bind> g = m \<bind> (\<lambda>x. g (f x))"
  by (cases m) simp_all

lemma puts_quiet: "writes f e \<Longrightarrow> puts (quiet f) e"
  by (simp add: puts_def writes_def quiet_def)

lemma puts_raw: "puts (quiet (\<lambda>d. asn1_write d p)) p"
  by (simp add: puts_def quiet_def)

lemma puts_nothing: "puts Some []"
  by (simp add: puts_def)

lemma puts_seq: "puts f e \<Longrightarrow> puts g e' \<Longrightarrow> puts (\<lambda>d. f d \<bind> g) (e @ e')"
  by (simp add: puts_def)

lemma puts_tagged: assumes "puts f c" shows "puts (tagged tag f) (tlv tag c)"
proof -
  have "writes_in (\<lambda>d. map_option (Pair True) (f d)) c" using assms by (simp add: writes_in_def puts_def)
  note e = element_W [OF this, of _ tag]
  show ?thesis unfolding puts_def
  proof (intro allI impI)
    fix bs :: "u8 list" and ns assume l: "length bs + length (tlv tag c) < MAX_TALLOC_SIZE"
    from e(1) [OF l, of ns] have "f (W (bs @ [tag, 0xff]) (tag_open (Suc (length bs)) # ns)) = Some (W (bs @ tag # 0xff # c) (tag_open (Suc (length bs)) # ns))"
      by (auto split: option.splits)
    then show "tagged tag f (W bs ns) = Some (W (bs @ tlv tag c) ns)" using e(2,3) [OF l, of ns] by (simp add: tagged_def)
  qed
qed

definition opt_enc :: "('a \<Rightarrow> u8 list) \<Rightarrow> 'a option \<Rightarrow> u8 list" where
  "opt_enc enc v = (case v of None \<Rightarrow> [] | Some v \<Rightarrow> enc v)"

lemma mechToken_tagged: "write_mechToken d num blob = (case blob of None \<Rightarrow> Some d | Some p \<Rightarrow> tagged (ASN1_CONTEXT num) (quiet (\<lambda>d. asn1_write_OctetString d p)) d)"
  by (cases blob) (auto simp: write_mechToken_def tagged_def quiet_def split_def split: bind_splits)

lemma puts_mechToken: "puts (\<lambda>d. write_mechToken d num blob) (opt_enc (\<lambda>p. tlv (ASN1_CONTEXT num) (tlv ASN1_OCTET_STRING p)) blob)"
proof (cases blob)
  case None
  then show ?thesis using puts_nothing by (simp add: mechToken_tagged opt_enc_def)
next
  case (Some p)
  have "puts (tagged (ASN1_CONTEXT num) (quiet (\<lambda>d. asn1_write_OctetString d p))) (tlv (ASN1_CONTEXT num) (tlv ASN1_OCTET_STRING p))"
    by (intro puts_tagged puts_quiet writes_OctetString)
  then show ?thesis by (simp only: mechToken_tagged opt_enc_def Some option.case)
qed

text \<open>The fields of an initial message, whose mechanisms are given by the numbers of their identifiers.\<close>

definition oid_enc :: "nat \<times> nat \<times> u32 list \<Rightarrow> u8 list" where
  "oid_enc = (\<lambda>(a, b, vs). tlv ASN1_OID (oid_bytes a b vs))"

definition oid_str :: "nat \<times> nat \<times> u32 list \<Rightarrow> string" where
  "oid_str = (\<lambda>(a, b, vs). oid_text a b vs)"

lemma writes_oid: "oid_fits oid \<Longrightarrow> writes (\<lambda>d. asn1_write_OID d (oid_str oid)) (oid_enc oid)"
  by (auto simp: oid_fits_def oid_str_def oid_enc_def intro!: writes_OID)

lemma reads_oid: "oid_fits oid \<Longrightarrow> reads asn1_read_OID (oid_enc oid) (Some (oid_str oid))"
  by (auto simp: oid_fits_def oid_str_def oid_enc_def intro!: reads_OID)

lemma puts_mechTypes: "list_all oid_fits oids \<Longrightarrow> puts (write_mechTypes (map oid_str oids)) (concat (map oid_enc oids))"
proof (induction oids)
  case Nil
  then show ?case by (simp add: puts_def)
next
  case (Cons oid oids)
  then have "puts (\<lambda>d. quiet (\<lambda>d. asn1_write_OID d (oid_str oid)) d \<bind> write_mechTypes (map oid_str oids)) (oid_enc oid @ concat (map oid_enc oids))"
    by (intro puts_seq puts_quiet writes_oid) simp_all
  then show ?case by (simp add: puts_def quiet_def bind_map split_def)
qed

definition write_flags :: "u32 \<Rightarrow> asn1_data \<Rightarrow> asn1_data option" where
  "write_flags flags d =
     (if flags AND SPNEGO_REQ_FLAG \<noteq> 0
      then tagged (ASN1_CONTEXT 1) (quiet (\<lambda>d. asn1_write_Integer d (flags AND NOT SPNEGO_REQ_FLAG))) d else Some d)"

definition write_mechs :: "string list option \<Rightarrow> asn1_data \<Rightarrow> asn1_data option" where
  "write_mechs oids d =
     (case oids of
        Some (oid # oids) \<Rightarrow> tagged (ASN1_CONTEXT 0) (tagged (ASN1_SEQUENCE 0) (write_mechTypes (oid # oids))) d
      | _ \<Rightarrow> Some d)"

definition write_mic :: "u8 list option \<Rightarrow> asn1_data \<Rightarrow> asn1_data option" where
  "write_mic mic d =
     (case mic of
        None \<Rightarrow> Some d
      | Some p \<Rightarrow> tagged (ASN1_CONTEXT 3) (tagged (ASN1_SEQUENCE 0) (tagged (ASN1_CONTEXT 0)
                    (tagged ASN1_GENERAL_STRING (quiet (\<lambda>d. asn1_write d p))))) d)"

lemma write_negTokenInit_tagged:
  "write_negTokenInit d token =
     do { d \<leftarrow> tagged (ASN1_CONTEXT 0) (tagged (ASN1_SEQUENCE 0)
            (\<lambda>d. do { d \<leftarrow> write_mechs (mechTypes token) d; d \<leftarrow> write_flags (reqFlags token) d;
                      d \<leftarrow> write_mechToken d 2 (mechToken token); write_mic (mechListMIC token) d })) d;
          Some (\<not> has_error d, d) }"
proof -
  have mechs: "(case mechTypes token of
                 Some (oid # oids) \<Rightarrow>
                   do { (_, d) \<leftarrow> asn1_push_tag d (ASN1_CONTEXT 0);
                        (_, d) \<leftarrow> asn1_push_tag d (ASN1_SEQUENCE 0);
                        d \<leftarrow> write_mechTypes (oid # oids) d;
                        (_, d) \<leftarrow> asn1_pop_tag d;
                        (_, d) \<leftarrow> asn1_pop_tag d;
                        Some d }
               | _ \<Rightarrow> Some d) = write_mechs (mechTypes token) d" for d
    by (auto simp: write_mechs_def tagged_def split_def split: option.splits list.splits)
  have flags: "(if reqFlags token AND SPNEGO_REQ_FLAG \<noteq> 0
                then do { (_, d) \<leftarrow> asn1_push_tag d (ASN1_CONTEXT 1);
                          (_, d) \<leftarrow> asn1_write_Integer d (reqFlags token AND NOT SPNEGO_REQ_FLAG);
                          (_, d) \<leftarrow> asn1_pop_tag d;
                          Some d }
                else Some d) = write_flags (reqFlags token) d" for d
    by (simp add: write_flags_def tagged_def quiet_def bind_map split_def)
  have mic: "(case mechListMIC token of
                 None \<Rightarrow> Some d
               | Some mic \<Rightarrow>
                   do { (_, d) \<leftarrow> asn1_push_tag d (ASN1_CONTEXT 3);
                        (_, d) \<leftarrow> asn1_push_tag d (ASN1_SEQUENCE 0);
                        (_, d) \<leftarrow> asn1_push_tag d (ASN1_CONTEXT 0);
                        (_, d) \<leftarrow> asn1_push_tag d ASN1_GENERAL_STRING;
                        (_, d) \<leftarrow> asn1_write d mic;
                        (_, d) \<leftarrow> asn1_pop_tag d;
                        (_, d) \<leftarrow> asn1_pop_tag d;
                        (_, d) \<leftarrow> asn1_pop_tag d;
                        (_, d) \<leftarrow> asn1_pop_tag d;
                        Some d }) = write_mic (mechListMIC token) d" for d
    by (simp add: write_mic_def tagged_def quiet_def bind_map split_def split: option.splits)
  show ?thesis
    unfolding write_negTokenInit_def mechs flags mic by (simp add: tagged_def split_def)
qed

text \<open>An initial message in terms of the numbers of its mechanisms, and its encoding.\<close>

record init_message =
  im_mechs :: "(nat \<times> nat \<times> u32 list) list option"
  im_flags :: u32
  im_token :: "u8 list option"
  im_mic :: "u8 list option"

definition init_of :: "init_message \<Rightarrow> spnego_negTokenInit" where
  "init_of m = \<lparr>mechTypes = map_option (map oid_str) (im_mechs m), reqFlags = im_flags m, mechToken = im_token m,
     mechListMIC = im_mic m, targetPrincipal = None\<rparr>"

definition enc_mechs :: "(nat \<times> nat \<times> u32 list) list option \<Rightarrow> u8 list" where
  "enc_mechs oids =
     (case oids of Some (oid # oids) \<Rightarrow> tlv (ASN1_CONTEXT 0) (tlv (ASN1_SEQUENCE 0) (concat (map oid_enc (oid # oids)))) | _ \<Rightarrow> [])"

definition enc_flags :: "u32 \<Rightarrow> u8 list" where
  "enc_flags flags =
     (if flags AND SPNEGO_REQ_FLAG \<noteq> 0
      then tlv (ASN1_CONTEXT 1) (tlv ASN1_INTEGER (int_bytes (flags AND NOT SPNEGO_REQ_FLAG))) else [])"

definition enc_token :: "u8 \<Rightarrow> u8 list option \<Rightarrow> u8 list" where
  "enc_token num = opt_enc (\<lambda>p. tlv (ASN1_CONTEXT num) (tlv ASN1_OCTET_STRING p))"

definition enc_mic :: "u8 list option \<Rightarrow> u8 list" where
  "enc_mic = opt_enc (\<lambda>p. tlv (ASN1_CONTEXT 3) (tlv (ASN1_SEQUENCE 0) (tlv (ASN1_CONTEXT 0) (tlv ASN1_GENERAL_STRING p))))"

definition enc_init :: "init_message \<Rightarrow> u8 list" where
  "enc_init m = enc_mechs (im_mechs m) @ enc_flags (im_flags m) @ enc_token 2 (im_token m) @ enc_mic (im_mic m)"

lemma puts_mechs: "pred_option (list_all oid_fits) oids \<Longrightarrow> puts (write_mechs (map_option (map oid_str) oids)) (enc_mechs oids)"
proof (cases "\<exists>oid os. oids = Some (oid # os)")
  case True
  assume "pred_option (list_all oid_fits) oids"
  from True obtain oid os where o: "oids = Some (oid # os)" by blast
  have "list_all oid_fits (oid # os)" using \<open>pred_option (list_all oid_fits) oids\<close> o by simp
  then have "puts (tagged (ASN1_CONTEXT 0) (tagged (ASN1_SEQUENCE 0) (write_mechTypes (map oid_str (oid # os)))))
      (tlv (ASN1_CONTEXT 0) (tlv (ASN1_SEQUENCE 0) (concat (map oid_enc (oid # os)))))"
    by (intro puts_tagged puts_mechTypes)
  then show ?thesis by (simp add: o puts_def write_mechs_def enc_mechs_def)
next
  case False
  then show ?thesis by (auto simp: puts_def write_mechs_def enc_mechs_def split: option.splits list.splits)
qed

lemma puts_flags: "puts (write_flags flags) (enc_flags flags)"
proof -
  have "puts (tagged (ASN1_CONTEXT 1) (quiet (\<lambda>d. asn1_write_Integer d (flags AND NOT SPNEGO_REQ_FLAG))))
      (tlv (ASN1_CONTEXT 1) (tlv ASN1_INTEGER (int_bytes (flags AND NOT SPNEGO_REQ_FLAG))))"
    by (intro puts_tagged puts_quiet writes_Integer)
  then show ?thesis by (simp add: puts_def write_flags_def enc_flags_def)
qed

lemma puts_mic: "puts (write_mic mic) (enc_mic mic)"
proof (cases mic)
  case None
  then show ?thesis by (simp add: puts_def write_mic_def enc_mic_def opt_enc_def)
next
  case (Some p)
  have "puts (tagged (ASN1_CONTEXT 3) (tagged (ASN1_SEQUENCE 0) (tagged (ASN1_CONTEXT 0) (tagged ASN1_GENERAL_STRING (quiet (\<lambda>d. asn1_write d p))))))
     (tlv (ASN1_CONTEXT 3) (tlv (ASN1_SEQUENCE 0) (tlv (ASN1_CONTEXT 0) (tlv ASN1_GENERAL_STRING p))))"
    by (intro puts_tagged puts_raw)
  then show ?thesis by (simp add: Some puts_def write_mic_def enc_mic_def opt_enc_def)
qed

lemma writes_init:
  assumes "pred_option (list_all oid_fits) (im_mechs m)"
  shows "writes (\<lambda>d. write_negTokenInit d (init_of m)) (tlv (ASN1_CONTEXT 0) (tlv (ASN1_SEQUENCE 0) (enc_init m)))"
proof -
  have "puts (\<lambda>d. write_mechs (mechTypes (init_of m)) d \<bind> (\<lambda>d. write_flags (reqFlags (init_of m)) d \<bind>
      (\<lambda>d. write_mechToken d 2 (mechToken (init_of m)) \<bind> write_mic (mechListMIC (init_of m))))) (enc_init m)"
    unfolding enc_init_def enc_token_def init_of_def spnego_negTokenInit.simps
    by (intro puts_seq puts_mechs puts_flags puts_mechToken puts_mic assms)
  then have "puts (tagged (ASN1_CONTEXT 0) (tagged (ASN1_SEQUENCE 0) (\<lambda>d. write_mechs (mechTypes (init_of m)) d \<bind>
      (\<lambda>d. write_flags (reqFlags (init_of m)) d \<bind> (\<lambda>d. write_mechToken d 2 (mechToken (init_of m)) \<bind> write_mic (mechListMIC (init_of m)))))))
      (tlv (ASN1_CONTEXT 0) (tlv (ASN1_SEQUENCE 0) (enc_init m)))"
    by (intro puts_tagged)
  then show ?thesis unfolding write_negTokenInit_tagged by (simp add: writes_def puts_def)
qed

section \<open>Reading\<close>

text \<open>
  The loops of both readers have the same form: the field is chosen by the byte that comes next.  The interface is the
  equation of the loop; a sequence of fields is then read one after the other.
\<close>

definition field_ok :: "(u8 \<Rightarrow> asn1_data \<Rightarrow> 't \<Rightarrow> ('t \<times> asn1_data) option) \<Rightarrow> u8 list \<Rightarrow> ('t \<Rightarrow> 't) \<Rightarrow> bool" where
  "field_ok field e upd \<longleftrightarrow> e \<noteq> [] \<and> (\<forall>pre post ns token. length (pre @ e @ post) < MAX_TALLOC_SIZE \<longrightarrow>
     field (hd e) (R (pre @ e @ post) (length pre) ns) token = Some (upd token, R (pre @ e @ post) (length pre + length e) ns))"

lemma peek_R: "drop pos bs = b # rest \<Longrightarrow> asn1_peek_uint8 (R bs pos ns) = Some (Some b, R bs pos ns)"
proof -
  assume d: "drop pos bs = b # rest"
  then have "pos < length bs" by (metis drop_all list.distinct(1) not_le)
  then show ?thesis using d by (simp add: asn1_peek_uint8_def asn1_peek_def)
qed

locale spnego_loop =
  fixes field :: "u8 \<Rightarrow> asn1_data \<Rightarrow> 't \<Rightarrow> ('t \<times> asn1_data) option"
    and read_fields :: "asn1_data \<Rightarrow> 't \<Rightarrow> ('t \<times> asn1_data) option"
  assumes loop: "read_fields d token =
     (if has_error d then Some (token, d)
      else case asn1_tag_remaining d of
             None \<Rightarrow> None
           | Some (remaining, d) \<Rightarrow>
               if 0 < remaining
               then (case asn1_peek_uint8 d of
                       None \<Rightarrow> None
                     | Some (None, d) \<Rightarrow> Some (token, d\<lparr>has_error := True\<rparr>)
                     | Some (Some context, d) \<Rightarrow>
                         (case field context d token of None \<Rightarrow> None | Some (token, d) \<Rightarrow> read_fields d token))
               else Some (token, d))"
begin

lemma fields_R:
  "list_all (\<lambda>(e, upd). field_ok field e upd) fs \<Longrightarrow> s \<le> length pre \<Longrightarrow> length pre + length (concat (map fst fs)) = s + n \<Longrightarrow>
   length (pre @ concat (map fst fs) @ post) < MAX_TALLOC_SIZE \<Longrightarrow>
   read_fields (R (pre @ concat (map fst fs) @ post) (length pre) (tag_read s n # ns)) token =
     Some (fold (\<lambda>(e, upd). upd) fs token, R (pre @ concat (map fst fs) @ post) (s + n) (tag_read s n # ns))"
proof (induction fs arbitrary: pre token)
  case Nil
  then show ?case by (subst loop) (simp add: remaining_R)
next
  case (Cons f fs)
  obtain e upd where f: "f = (e, upd)" by fastforce
  let ?bs = "pre @ concat (map fst (f # fs)) @ post" and ?ns = "tag_read s n # ns"
  have e: "e \<noteq> []" and field: "field (hd e) (R ?bs (length pre) ?ns) token = Some (upd token, R ?bs (length (pre @ e)) ?ns)"
    using Cons.prems(1,4) by (auto simp: f field_ok_def)
  have "drop (length pre) ?bs = hd e # tl e @ concat (map fst fs) @ post" using e by (simp add: f)
  note peek = peek_R [OF this, of ?ns]
  have pos: "length pre < s + n" using Cons.prems(3) e by (simp add: f) (metis length_greater_0_conv less_add_same_cancel1 trans_less_add1 add.assoc)
  have "asn1_tag_remaining (R ?bs (length pre) ?ns) = Some (int (s + n - length pre), R ?bs (length pre) ?ns)"
    using Cons.prems by (intro remaining_R) simp_all
  then have "read_fields (R ?bs (length pre) ?ns) token = read_fields (R ?bs (length (pre @ e)) ?ns) (upd token)"
    using peek field pos by (subst loop) simp
  also have "\<dots> = Some (fold (\<lambda>(e, upd). upd) fs (upd token), R ?bs (s + n) ?ns)"
    using Cons.IH [of "pre @ e" "upd token"] Cons.prems by (simp add: f)
  finally show ?case by (simp add: f)
qed

end

interpretation init_loop: spnego_loop init_field read_init_fields
  by unfold_locales (rule read_init_fields.simps)

interpretation targ_loop: spnego_loop targ_field read_targ_fields
  by unfold_locales (rule read_targ_fields.simps)

text \<open>A reader between \<open>asn1_start_tag\<close> and \<open>asn1_end_tag\<close>, whose results are not looked at.\<close>

definition within :: "u8 \<Rightarrow> (asn1_data \<Rightarrow> (bool \<times> 'a \<times> asn1_data) option) \<Rightarrow> asn1_data \<Rightarrow> (bool \<times> 'a \<times> asn1_data) option" where
  "within tag rd d =
     do { (_, d) \<leftarrow> asn1_start_tag d tag; (_, v, d) \<leftarrow> rd d; (_, d) \<leftarrow> asn1_end_tag d; Some (True, v, d) }"

lemma reads_within: "reads_in rd c v \<Longrightarrow> length c < 2 ^ 24 \<Longrightarrow> reads (within tag rd) (tlv tag c) v"
  using element_R [of rd c v _ tag] by (intro readsI) (simp add: within_def)

lemma hd_tlv [simp]: "hd (tlv tag c) = tag" "tlv tag c \<noteq> []"
  by (simp_all add: tlv_def)

lemma length_tlv_ge: "length c < length (tlv tag c)"
  by (simp add: tlv_def)

lemma length_tlv_le: "length (tlv tag c) \<le> length c + 5"
  by (simp add: tlv_def der_len_def)

lemma field_within:
  assumes "reads (within tag rd) (tlv tag c) v"
    and "\<And>d token. field tag d token = do { (_, v, d) \<leftarrow> within tag rd d; Some (upd v token, d) }"
  shows "field_ok field (tlv tag c) (upd v)"
  unfolding field_ok_def by (simp add: assms(2) readsD [OF assms(1)])

lemma init_field_cases:
  "init_field (ASN1_CONTEXT 0) d token =
     do { (_, oids, d) \<leftarrow> within (ASN1_CONTEXT 0) (within (ASN1_SEQUENCE 0) (\<lambda>d. map_option (Pair True) (read_mechTypes d []))) d;
          Some (token\<lparr>mechTypes := Some oids\<rparr>, d) }"
  "init_field (ASN1_CONTEXT 1) d token =
     do { (_, flags, d) \<leftarrow> within (ASN1_CONTEXT 1) asn1_read_Integer d; Some (token\<lparr>reqFlags := flags OR SPNEGO_REQ_FLAG\<rparr>, d) }"
  "init_field (ASN1_CONTEXT 2) d token =
     do { (_, blob, d) \<leftarrow> within (ASN1_CONTEXT 2) asn1_read_OctetString d; Some (token\<lparr>mechToken := blob\<rparr>, d) }"
  "init_field (ASN1_CONTEXT 3) d token = read_mechListMIC d token"
  by (simp_all add: init_field_def asn1_tag_defs within_def split_def bind_map)

lemma targ_field_cases:
  "targ_field (ASN1_CONTEXT 1) d token =
     do { (_, oid, d) \<leftarrow> within (ASN1_CONTEXT 1) asn1_read_OID d;
          Some (case oid of None \<Rightarrow> token | Some oid \<Rightarrow> token\<lparr>supportedMech := Some oid\<rparr>, d) }"
  "targ_field (ASN1_CONTEXT 2) d token =
     do { (_, blob, d) \<leftarrow> within (ASN1_CONTEXT 2) asn1_read_OctetString d; Some (token\<lparr>responseToken := blob\<rparr>, d) }"
  "targ_field (ASN1_CONTEXT 3) d token =
     do { (_, blob, d) \<leftarrow> within (ASN1_CONTEXT 3) asn1_read_OctetString d; Some (token\<lparr>targ_mechListMIC := blob\<rparr>, d) }"
  by (simp_all add: targ_field_def asn1_tag_defs within_def split_def bind_map)

lemma reads_mechTypes:
  "list_all oid_fits oids \<Longrightarrow> s \<le> length pre \<Longrightarrow> length pre + length (concat (map oid_enc oids)) = s + n \<Longrightarrow>
   length (pre @ concat (map oid_enc oids) @ post) < MAX_TALLOC_SIZE \<Longrightarrow> 8 * (length os + length oids + 2) < MAX_TALLOC_SIZE \<Longrightarrow>
   read_mechTypes (R (pre @ concat (map oid_enc oids) @ post) (length pre) (tag_read s n # ns)) os =
     Some (os @ map oid_str oids, R (pre @ concat (map oid_enc oids) @ post) (s + n) (tag_read s n # ns))"
proof (induction oids arbitrary: pre os)
  case Nil
  then show ?case by (subst read_mechTypes.simps) (simp add: remaining_R)
next
  case (Cons oid oids)
  let ?bs = "pre @ concat (map oid_enc (oid # oids)) @ post" and ?ns = "tag_read s n # ns"
  have read: "asn1_read_OID (R ?bs (length pre) ?ns) = Some (True, Some (oid_str oid), R ?bs (length (pre @ oid_enc oid)) ?ns)"
    using readsD [OF reads_oid, of oid pre "concat (map oid_enc oids) @ post" ?ns] Cons.prems(1,4) by simp
  have "oid_enc oid \<noteq> []" by (simp add: oid_enc_def tlv_def split_def)
  then have pos: "length pre < s + n" using Cons.prems(3) by simp (metis length_greater_0_conv less_add_same_cancel1 trans_less_add1 add.assoc)
  have "asn1_tag_remaining (R ?bs (length pre) ?ns) = Some (int (s + n - length pre), R ?bs (length pre) ?ns)"
    using Cons.prems by (intro remaining_R) simp_all
  then have "read_mechTypes (R ?bs (length pre) ?ns) os = read_mechTypes (R ?bs (length (pre @ oid_enc oid)) ?ns) (os @ [oid_str oid])"
    using read pos Cons.prems(5) by (subst read_mechTypes.simps) simp
  also have "\<dots> = Some ((os @ [oid_str oid]) @ map oid_str oids, R ?bs (s + n) ?ns)"
    using Cons.IH [of "pre @ oid_enc oid" "os @ [oid_str oid]"] Cons.prems by simp
  finally show ?case by simp
qed

lemma length_oids: "3 * length oids \<le> length (concat (map oid_enc oids))"
proof (induction oids)
  case (Cons oid oids)
  have "3 \<le> length (oid_enc oid)" by (cases oid) (simp add: oid_enc_def tlv_def der_len_def oid_bytes_def)
  with Cons show ?case by simp
qed simp

lemma reads_mechs:
  assumes "list_all oid_fits oids" "length (concat (map oid_enc oids)) < 2 ^ 24"
  shows "reads_in (\<lambda>d. map_option (Pair True) (read_mechTypes d [])) (concat (map oid_enc oids)) (map oid_str oids)"
proof (rule reads_inI)
  have "8 * (length ([] :: string list) + length oids + 2) < MAX_TALLOC_SIZE"
    using length_oids [of oids] assms(2) by (simp add: MAX_TALLOC_SIZE_def)
  moreover fix pre post ns assume "length (pre @ concat (map oid_enc oids) @ post) < MAX_TALLOC_SIZE"
  ultimately show "map_option (Pair True) (read_mechTypes (R (pre @ concat (map oid_enc oids) @ post) (length pre)
      (tag_read (length pre) (length (concat (map oid_enc oids))) # ns)) []) =
      Some (True, map oid_str oids, R (pre @ concat (map oid_enc oids) @ post) (length pre + length (concat (map oid_enc oids)))
        (tag_read (length pre) (length (concat (map oid_enc oids))) # ns))"
    using reads_mechTypes [OF assms(1), of "length pre" pre "length (concat (map oid_enc oids))" post "[]" ns] by simp
qed

section \<open>The fields of an initial message\<close>

lemma field_mechs:
  assumes "list_all oid_fits oids" "length (tlv (ASN1_SEQUENCE 0) (concat (map oid_enc oids))) < 2 ^ 24"
  shows "field_ok init_field (tlv (ASN1_CONTEXT 0) (tlv (ASN1_SEQUENCE 0) (concat (map oid_enc oids)))) (\<lambda>t. t\<lparr>mechTypes := Some (map oid_str oids)\<rparr>)"
proof -
  have "length (concat (map oid_enc oids)) < 2 ^ 24" using assms(2) length_tlv_ge less_trans by blast
  then have "reads (within (ASN1_CONTEXT 0) (within (ASN1_SEQUENCE 0) (\<lambda>d. map_option (Pair True) (read_mechTypes d []))))
      (tlv (ASN1_CONTEXT 0) (tlv (ASN1_SEQUENCE 0) (concat (map oid_enc oids)))) (map oid_str oids)"
    using assms by (intro reads_within reads_in reads_mechs)
  from field_within [OF this, of init_field "\<lambda>oids t. t\<lparr>mechTypes := Some oids\<rparr>"] show ?thesis
    by (simp add: init_field_cases)
qed

lemma field_flags:
  "field_ok init_field (tlv (ASN1_CONTEXT 1) (tlv ASN1_INTEGER (int_bytes i))) (\<lambda>t. t\<lparr>reqFlags := of_nat (be_nat 0 (int_bytes i)) OR SPNEGO_REQ_FLAG\<rparr>)"
proof -
  have "length (tlv ASN1_INTEGER (int_bytes i)) < 2 ^ 24"
    using length_int_bytes [of i] length_tlv_le [of ASN1_INTEGER "int_bytes i"] by simp
  then have "reads (within (ASN1_CONTEXT 1) asn1_read_Integer) (tlv (ASN1_CONTEXT 1) (tlv ASN1_INTEGER (int_bytes i))) (of_nat (be_nat 0 (int_bytes i)))"
    by (intro reads_within reads_in reads_Integer)
  from field_within [OF this, of init_field "\<lambda>flags t. t\<lparr>reqFlags := flags OR SPNEGO_REQ_FLAG\<rparr>"] show ?thesis
    by (simp add: init_field_cases)
qed

lemma reads_token:
  assumes "length (tlv ASN1_OCTET_STRING p) < 2 ^ 24"
  shows "reads (within tag asn1_read_OctetString) (tlv tag (tlv ASN1_OCTET_STRING p)) (Some p)"
proof -
  have "length p < 2 ^ 24" using assms length_tlv_ge less_trans by blast
  then show ?thesis using assms by (intro reads_within reads_in reads_OctetString)
qed

lemma field_token:
  "length (tlv ASN1_OCTET_STRING p) < 2 ^ 24 \<Longrightarrow>
   field_ok init_field (tlv (ASN1_CONTEXT 2) (tlv ASN1_OCTET_STRING p)) (\<lambda>t. t\<lparr>mechToken := Some p\<rparr>)"
  using field_within [OF reads_token [of p "ASN1_CONTEXT 2"], of init_field "\<lambda>blob t. t\<lparr>mechToken := blob\<rparr>"]
  by (simp add: init_field_cases)

text \<open>
  \<open>mechListMIC\<close>: the reader writes tags and lengths over the ones it has received, and where these have one byte it
  restores them.
\<close>

lemma write_uint8_R:
  "asn1_write_uint8 (R (pre @ b # post) (length pre) ns) v = Some (True, R (pre @ v # post) (Suc (length pre)) ns)"
  by (simp add: asn1_write_uint8_def asn1_write_def put_bytes_def R_def)

lemma push_R:
  "asn1_push_tag (R (pre @ a # b # post) (length pre) ns) tag =
     Some (True, R (pre @ tag # 0xff # post) (Suc (Suc (length pre))) (tag_open (Suc (length pre)) # ns))"
  using write_uint8_R [of pre a "b # post" ns tag] write_uint8_R [of "pre @ [tag]" b post "tag_open (Suc (length pre)) # ns" "0xff"]
  by (simp add: asn1_push_tag_def)

lemma pop_R:
  assumes "n < 128"
  shows "asn1_pop_tag (R (pre @ b # post) (Suc (length pre) + n) (tag_open (length pre) # ns)) =
     Some (True, R (pre @ of_nat n # post) (Suc (length pre) + n) ns)"
proof -
  have len: "of_nat (Suc (length pre) + n) - of_nat (length pre + 1) = (of_nat n :: u64)" by simp
  have u: "unat (of_nat n :: u64) = n" using assms by (simp add: unat_of_nat_small)
  have cmp: "\<not> (of_nat n :: u64) > 0xFFFF" "\<not> (of_nat n :: u64) > 255" "\<not> (of_nat n :: u64) > 127"
    unfolding word_less_nat_alt u using assms by simp_all
  have "ucast (of_nat n :: u64) = (of_nat n :: u8)" using ucast_drop_of_nat [of n 0] assms by simp
  then show ?thesis
    unfolding asn1_pop_tag_def R_sel list.case nesting.simps len Let_def using cmp
    by (simp add: poke_def R_def)
qed

lemma der_len_short: "n < 128 \<Longrightarrow> der_len n = [of_nat n]"
  by (simp add: der_len_def)

lemma field_mic:
  assumes "length p < 124"
  shows "field_ok init_field (tlv (ASN1_CONTEXT 3) (tlv (ASN1_SEQUENCE 0) (tlv (ASN1_CONTEXT 0) (tlv ASN1_GENERAL_STRING p))))
     (\<lambda>t. t\<lparr>targetPrincipal := Some p\<rparr>)"
proof -
  let ?n = "length p" and ?g = "tlv ASN1_GENERAL_STRING p"
  let ?e = "tlv (ASN1_CONTEXT 3) (tlv (ASN1_SEQUENCE 0) (tlv (ASN1_CONTEXT 0) ?g))"
  have g: "length ?g = ?n + 2" using assms by (simp add: tlv_def der_len_short)
  have c: "tlv (ASN1_SEQUENCE 0) (tlv (ASN1_CONTEXT 0) ?g) = ASN1_SEQUENCE 0 # of_nat (?n + 4) # ASN1_CONTEXT 0 # of_nat (?n + 2) # ?g"
    using assms g by (simp add: tlv_def [of "ASN1_SEQUENCE 0"] tlv_def [of "ASN1_CONTEXT 0"] der_len_short)
  have lc: "length (tlv (ASN1_SEQUENCE 0) (tlv (ASN1_CONTEXT 0) ?g)) = ?n + 6" unfolding c using g by simp
  show ?thesis unfolding field_ok_def
  proof (intro conjI allI impI)
    fix pre post ns and token :: spnego_negTokenInit
    assume l: "length (pre @ ?e @ post) < MAX_TALLOC_SIZE"
    define hdr where "hdr = pre @ ASN1_CONTEXT 3 # der_len (?n + 6)"
    let ?ms = "tag_read (length hdr) (?n + 6) # ns"
    define bs where "bs = pre @ ?e @ post"
    have bs: "bs = hdr @ ASN1_SEQUENCE 0 # of_nat (?n + 4) # ASN1_CONTEXT 0 # of_nat (?n + 2) # ?g @ post"
      unfolding bs_def hdr_def tlv_def [of "ASN1_CONTEXT 3"] lc unfolding c by simp
    have small: "length bs < MAX_TALLOC_SIZE" using l by (simp only: bs_def)
    have e: "length pre + length ?e = length hdr + (?n + 6)" unfolding tlv_def [of "ASN1_CONTEXT 3"] lc by (simp add: hdr_def lc)
    have start: "asn1_start_tag (R bs (length pre) ns) (ASN1_CONTEXT 3) = Some (True, R bs (length hdr) ?ms)"
      using raw_R(1) [of "tlv (ASN1_SEQUENCE 0) (tlv (ASN1_CONTEXT 0) ?g)" pre "ASN1_CONTEXT 3" post ns] l assms g
      by (simp only: bs_def hdr_def lc) simp
    have peek: "asn1_peek_uint8 (R bs (length hdr) ?ms) = Some (Some (ASN1_SEQUENCE 0), R bs (length hdr) ?ms)"
      by (rule peek_R [of _ _ _ "of_nat (?n + 4) # ASN1_CONTEXT 0 # of_nat (?n + 2) # ?g @ post"]) (simp add: bs)
    let ?h1 = "hdr @ [ASN1_SEQUENCE 0, 0xff]" and ?h2 = "hdr @ [ASN1_SEQUENCE 0, 0xff, ASN1_CONTEXT 0, 0xff]"
    let ?n1 = "tag_open (Suc (length hdr)) # ?ms"
    let ?n2 = "tag_open (Suc (length ?h1)) # ?n1"
    have push1: "asn1_push_tag (R bs (length hdr) ?ms) (ASN1_SEQUENCE 0) = Some (True, R (?h1 @ ASN1_CONTEXT 0 # of_nat (?n + 2) # ?g @ post) (length ?h1) ?n1)"
      unfolding bs using push_R [of hdr "ASN1_SEQUENCE 0" "of_nat (?n + 4)" "ASN1_CONTEXT 0 # of_nat (?n + 2) # ?g @ post" ?ms "ASN1_SEQUENCE 0"] by simp
    have push2: "asn1_push_tag (R (?h1 @ ASN1_CONTEXT 0 # of_nat (?n + 2) # ?g @ post) (length ?h1) ?n1) (ASN1_CONTEXT 0) =
        Some (True, R (?h2 @ ?g @ post) (length ?h2) ?n2)"
      using push_R [of ?h1 "ASN1_CONTEXT 0" "of_nat (?n + 2)" "?g @ post" ?n1 "ASN1_CONTEXT 0"] by simp
    have read: "asn1_read_GeneralString (R (?h2 @ ?g @ post) (length ?h2) ?n2) = Some (True, Some p, R (?h2 @ ?g @ post) (length ?h2 + length ?g) ?n2)"
      using small assms unfolding bs by (intro readsD [OF reads_GeneralString]) simp_all
    have pop1: "asn1_pop_tag (R (?h2 @ ?g @ post) (length ?h2 + length ?g) ?n2) =
        Some (True, R (?h1 @ ASN1_CONTEXT 0 # of_nat (?n + 2) # ?g @ post) (length hdr + (?n + 6)) ?n1)"
      using pop_R [of "?n + 2" "?h1 @ [ASN1_CONTEXT 0]" "0xff" "?g @ post" ?n1] assms g by (simp add: numeral_eq_Suc)
    have pop2: "asn1_pop_tag (R (?h1 @ ASN1_CONTEXT 0 # of_nat (?n + 2) # ?g @ post) (length hdr + (?n + 6)) ?n1) = Some (True, R bs (length hdr + (?n + 6)) ?ms)"
      unfolding bs using pop_R [of "?n + 4" "hdr @ [ASN1_SEQUENCE 0]" "0xff" "ASN1_CONTEXT 0 # of_nat (?n + 2) # ?g @ post" ?ms] assms by (simp add: numeral_eq_Suc)
    have fin: "asn1_end_tag (R bs (length hdr + (?n + 6)) ?ms) = Some (True, R bs (length hdr + (?n + 6)) ns)"
      using small g by (intro end_tag_R) (simp_all add: bs)
    have "ASN1_SEQUENCE 0 \<noteq> ASN1_OCTET_STRING" by (simp add: asn1_tag_defs)
    then have "read_mechListMIC (R bs (length pre) ns) token = Some (token\<lparr>targetPrincipal := Some p\<rparr>, R bs (length hdr + (?n + 6)) ns)"
      by (simp only: read_mechListMIC_def start peek push1 push2 read pop1 pop2 fin Option.bind.simps split option.case if_False)
    then show "init_field (hd ?e) (R (pre @ ?e @ post) (length pre) ns) token = Some (token\<lparr>targetPrincipal := Some p\<rparr>, R (pre @ ?e @ post) (length pre + length ?e) ns)"
      unfolding hd_tlv init_field_cases e by (simp only: bs_def)
  qed simp
qed

section \<open>Initial messages\<close>

text \<open>What a receiver makes of a message: an empty list of mechanisms is missing, flags count only with \<open>SPNEGO_REQ_FLAG\<close>,
  and the integrity code is taken for the name of the target.\<close>

definition received_init :: "init_message \<Rightarrow> spnego_negTokenInit" where
  "received_init m =
     \<lparr>mechTypes = (if im_mechs m = Some [] then None else map_option (map oid_str) (im_mechs m)),
      reqFlags = (if im_flags m AND SPNEGO_REQ_FLAG \<noteq> 0 then im_flags m else 0), mechToken = im_token m,
      mechListMIC = None, targetPrincipal = im_mic m\<rparr>"

definition init_fields :: "init_message \<Rightarrow> (u8 list \<times> (spnego_negTokenInit \<Rightarrow> spnego_negTokenInit)) list" where
  "init_fields m =
     (case im_mechs m of
        Some (oid # oids) \<Rightarrow> [(enc_mechs (im_mechs m), \<lambda>t. t\<lparr>mechTypes := Some (map oid_str (oid # oids))\<rparr>)] | _ \<Rightarrow> []) @
     (if im_flags m AND SPNEGO_REQ_FLAG \<noteq> 0
      then [(enc_flags (im_flags m), \<lambda>t. t\<lparr>reqFlags := of_nat (be_nat 0 (int_bytes (im_flags m AND NOT SPNEGO_REQ_FLAG))) OR SPNEGO_REQ_FLAG\<rparr>)]
      else []) @
     (case im_token m of Some p \<Rightarrow> [(enc_token 2 (Some p), \<lambda>t. t\<lparr>mechToken := Some p\<rparr>)] | None \<Rightarrow> []) @
     (case im_mic m of Some p \<Rightarrow> [(enc_mic (Some p), \<lambda>t. t\<lparr>targetPrincipal := Some p\<rparr>)] | None \<Rightarrow> [])"

definition init_ok :: "init_message \<Rightarrow> bool" where
  "init_ok m \<longleftrightarrow> pred_option (list_all oid_fits) (im_mechs m) \<and> 0 \<le> sint (im_flags m) \<and> length (enc_init m) < 2 ^ 23"

lemma enc_init_fields: "concat (map fst (init_fields m)) = enc_init m"
  by (auto simp: init_fields_def enc_init_def enc_mechs_def enc_flags_def enc_token_def enc_mic_def opt_enc_def split: option.splits list.splits)

lemma flags_nonneg: assumes "0 \<le> sint flags" shows "0 \<le> sint (flags AND NOT SPNEGO_REQ_FLAG)"
proof -
  have "\<not> bit flags 31" using assms by (simp add: sint_uint bit_uint_iff flip: not_less)
  then have "\<not> bit (flags AND NOT SPNEGO_REQ_FLAG) 31" by (simp add: bit_and_iff)
  then show ?thesis by (simp add: sint_uint bit_uint_iff flip: not_less)
qed

lemma flags_restored:
  assumes "0 \<le> sint flags" "flags AND SPNEGO_REQ_FLAG \<noteq> 0"
  shows "of_nat (be_nat 0 (int_bytes (flags AND NOT SPNEGO_REQ_FLAG))) OR SPNEGO_REQ_FLAG = flags"
proof -
  have b: "bit flags 7" using assms(2) and_exp_eq_0_iff_not_bit [of flags 7] by (simp add: SPNEGO_REQ_FLAG_def)
  have f: "bit SPNEGO_REQ_FLAG n \<longleftrightarrow> n = 7" for n using bit_exp_iff [where 'a = u32, of 7 n] by (auto simp: SPNEGO_REQ_FLAG_def)
  have "(flags AND NOT SPNEGO_REQ_FLAG) OR SPNEGO_REQ_FLAG = flags"
    by (rule bit_word_eqI) (use b in \<open>auto simp: bit_simps f\<close>)
  then show ?thesis using Integer_value [of "flags AND NOT SPNEGO_REQ_FLAG"] flags_nonneg [OF assms(1)] by simp
qed

lemma init_fields_ok:
  assumes "init_ok m" "pred_option (\<lambda>p. length p < 124) (im_mic m)"
  shows "list_all (\<lambda>(e, upd). field_ok init_field e upd) (init_fields m)"
proof -
  have small: "length (enc_mechs (im_mechs m)) < 2 ^ 23" "length (enc_token 2 (im_token m)) < 2 ^ 23"
    using assms(1) by (simp_all add: init_ok_def enc_init_def)
  have mechs: "field_ok init_field (enc_mechs (Some (oid # oids))) (\<lambda>t. t\<lparr>mechTypes := Some (map oid_str (oid # oids))\<rparr>)"
    if "im_mechs m = Some (oid # oids)" for oid oids
    unfolding enc_mechs_def option.case list.case
    by (rule field_mechs)
      (use assms(1) small(1) that length_tlv_ge [of "tlv (ASN1_SEQUENCE 0) (concat (map oid_enc (oid # oids)))" "ASN1_CONTEXT 0"]
       in \<open>simp_all add: init_ok_def enc_mechs_def\<close>)
  have token: "field_ok init_field (enc_token 2 (Some p)) (\<lambda>t. t\<lparr>mechToken := Some p\<rparr>)" if "im_token m = Some p" for p
    unfolding enc_token_def opt_enc_def option.case
    by (rule field_token) (use small(2) that length_tlv_ge [of "tlv ASN1_OCTET_STRING p" "ASN1_CONTEXT 2"] in \<open>simp add: enc_token_def opt_enc_def\<close>)
  have mic: "field_ok init_field (enc_mic (Some p)) (\<lambda>t. t\<lparr>targetPrincipal := Some p\<rparr>)" if "im_mic m = Some p" for p
    unfolding enc_mic_def opt_enc_def option.case by (rule field_mic) (use assms(2) that in simp)
  have flags: "field_ok init_field (enc_flags (im_flags m)) (\<lambda>t. t\<lparr>reqFlags := of_nat (be_nat 0 (int_bytes (im_flags m AND NOT SPNEGO_REQ_FLAG))) OR SPNEGO_REQ_FLAG\<rparr>)"
    if "im_flags m AND SPNEGO_REQ_FLAG \<noteq> 0"
    using field_flags [of "im_flags m AND NOT SPNEGO_REQ_FLAG"] that by (simp add: enc_flags_def)
  show ?thesis
    unfolding init_fields_def using mechs token mic flags by (auto split: option.splits list.splits)
qed

lemma init_fields_fold:
  assumes "init_ok m" shows "fold (\<lambda>(e, upd). upd) (init_fields m) init_zero = received_init m"
  using flags_restored [of "im_flags m"] assms
  by (auto simp: init_fields_def received_init_def init_zero_def init_ok_def split: option.splits list.splits)

lemma reads_init:
  assumes "init_ok m" "pred_option (\<lambda>p. length p < 124) (im_mic m)"
  shows "reads read_negTokenInit (tlv (ASN1_CONTEXT 0) (tlv (ASN1_SEQUENCE 0) (enc_init m))) (received_init m)"
proof -
  have "reads_in (\<lambda>d. map_option (Pair True) (read_init_fields d init_zero)) (enc_init m) (received_init m)"
  proof (rule reads_inI)
    fix pre post ns assume "length (pre @ enc_init m @ post) < MAX_TALLOC_SIZE"
    then show "map_option (Pair True) (read_init_fields (R (pre @ enc_init m @ post) (length pre) (tag_read (length pre) (length (enc_init m)) # ns)) init_zero) =
        Some (True, received_init m, R (pre @ enc_init m @ post) (length pre + length (enc_init m)) (tag_read (length pre) (length (enc_init m)) # ns))"
      using init_loop.fields_R [OF init_fields_ok [OF assms], of "length pre" pre "length (enc_init m)" post ns init_zero]
        init_fields_fold [OF assms(1)] by (simp add: enc_init_fields)
  qed
  moreover have "length (enc_init m) < 2 ^ 24" "length (tlv (ASN1_SEQUENCE 0) (enc_init m)) < 2 ^ 24"
    using assms(1) length_tlv_le [of "ASN1_SEQUENCE 0" "enc_init m"] by (simp_all add: init_ok_def)
  ultimately have "reads (within (ASN1_CONTEXT 0) (within (ASN1_SEQUENCE 0) (\<lambda>d. map_option (Pair True) (read_init_fields d init_zero))))
      (tlv (ASN1_CONTEXT 0) (tlv (ASN1_SEQUENCE 0) (enc_init m))) (received_init m)"
    by (rule reads_within [OF reads_in [OF reads_within]])
  moreover have "read_negTokenInit d = map_option (\<lambda>(_, t, d). (\<not> has_error d, t, d))
      (within (ASN1_CONTEXT 0) (within (ASN1_SEQUENCE 0) (\<lambda>d. map_option (Pair True) (read_init_fields d init_zero))) d)" for d
    by (simp add: read_negTokenInit_def within_def split_def bind_map map_option_bind o_def)
  ultimately show ?thesis by (simp add: reads_def)
qed

section \<open>Whole messages\<close>

definition spnego_oid :: "nat \<times> nat \<times> u32 list" where
  "spnego_oid = (1, 3, [6, 1, 5, 5, 2])"

lemma GENSEC_OID_SPNEGO_str: "GENSEC_OID_SPNEGO = oid_str spnego_oid"
  by code_simp

lemma spnego_oid_fits: "oid_fits spnego_oid"
  by (simp add: spnego_oid_def oid_fits_def oid_bytes_def arc_bytes_def)

definition init_body :: "init_message \<Rightarrow> u8 list" where
  "init_body m = oid_enc spnego_oid @ tlv (ASN1_CONTEXT 0) (tlv (ASN1_SEQUENCE 0) (enc_init m))"

lemma length_spnego_oid: "length (oid_enc spnego_oid) = 8"
  by (simp add: oid_enc_def spnego_oid_def oid_bytes_def arc_bytes_def tlv_def der_len_def word_le_nat_alt)

lemma length_init_body: "length (init_body m) \<le> length (enc_init m) + 18"
  using length_tlv_le [of "ASN1_CONTEXT 0" "tlv (ASN1_SEQUENCE 0) (enc_init m)"] length_tlv_le [of "ASN1_SEQUENCE 0" "enc_init m"]
  by (simp add: init_body_def length_spnego_oid)

definition init_data :: "init_message \<Rightarrow> spnego_data" where
  "init_data m = \<lparr>sp_type = SPNEGO_NEG_TOKEN_INIT, negTokenInit = init_of m, negTokenTarg = targ_zero\<rparr>"

lemma spnego_write_init:
  assumes "pred_option (list_all oid_fits) (im_mechs m)" "length (tlv (ASN1_APPLICATION 0) (init_body m)) < MAX_TALLOC_SIZE"
  shows "spnego_write_data (init_data m) =
    Some (Some (tlv (ASN1_APPLICATION 0) (init_body m), length (tlv (ASN1_APPLICATION 0) (init_body m))))"
proof -
  let ?f = "\<lambda>d. quiet (\<lambda>d. asn1_write_OID d GENSEC_OID_SPNEGO) d \<bind> quiet (\<lambda>d. write_negTokenInit d (init_of m))"
  have "puts (tagged (ASN1_APPLICATION 0) ?f) (tlv (ASN1_APPLICATION 0) (init_body m))"
    unfolding init_body_def GENSEC_OID_SPNEGO_str
    by (intro puts_tagged puts_seq puts_quiet writes_oid writes_init spnego_oid_fits assms)
  then have "tagged (ASN1_APPLICATION 0) ?f (W [] []) = Some (W (tlv (ASN1_APPLICATION 0) (init_body m)) [])"
    using assms(2) by (simp add: puts_def)
  then show ?thesis
    by (simp add: spnego_write_data_def init_data_def SPNEGO_NEG_TOKEN_INIT_def asn1_zero_W tagged_def quiet_def bind_map split_def)
qed

lemma check_spnego:
  "length (pre @ oid_enc spnego_oid @ post) < MAX_TALLOC_SIZE \<Longrightarrow>
   asn1_check_OID (R (pre @ oid_enc spnego_oid @ post) (length pre) ns) GENSEC_OID_SPNEGO =
     Some (True, R (pre @ oid_enc spnego_oid @ post) (length pre + length (oid_enc spnego_oid)) ns)"
  by (simp add: asn1_check_OID_def readsD [OF reads_oid [OF spnego_oid_fits]] GENSEC_OID_SPNEGO_str)

lemma reads_init_body:
  assumes "init_ok m" "pred_option (\<lambda>p. length p < 124) (im_mic m)"
  shows "reads (\<lambda>d. do { (_, d) \<leftarrow> asn1_check_OID d GENSEC_OID_SPNEGO; read_negTokenInit d }) (init_body m) (received_init m)"
proof (rule readsI)
  let ?t = "tlv (ASN1_CONTEXT 0) (tlv (ASN1_SEQUENCE 0) (enc_init m))"
  fix pre post ns assume l: "length (pre @ init_body m @ post) < MAX_TALLOC_SIZE"
  then show "do { (_, d) \<leftarrow> asn1_check_OID (R (pre @ init_body m @ post) (length pre) ns) GENSEC_OID_SPNEGO; read_negTokenInit d } =
      Some (True, received_init m, R (pre @ init_body m @ post) (length pre + length (init_body m)) ns)"
    using check_spnego [of pre "?t @ post" ns] readsD [OF reads_init [OF assms], of "pre @ oid_enc spnego_oid" post ns]
    by (simp add: init_body_def)
qed

lemma spnego_read_init:
  assumes "init_ok m" "pred_option (\<lambda>p. length p < 124) (im_mic m)"
  defines "data \<equiv> tlv (ASN1_APPLICATION 0) (init_body m)"
  shows "spnego_read_data data = Some (Some (length data), \<lparr>sp_type = SPNEGO_NEG_TOKEN_INIT, negTokenInit = received_init m, negTokenTarg = targ_zero\<rparr>)"
proof -
  have body: "length (init_body m) < 2 ^ 24" using length_init_body [of m] assms(1) by (simp add: init_ok_def)
  have l: "length data < MAX_TALLOC_SIZE"
    using body length_tlv_le [of "ASN1_APPLICATION 0" "init_body m"] by (simp add: data_def MAX_TALLOC_SIZE_def)
  have load: "snd (asn1_load data) = R data 0 []" using l by (simp add: load_R)
  have peek: "asn1_peek_uint8 (R data 0 []) = Some (Some (ASN1_APPLICATION 0), R data 0 [])"
    by (rule peek_R [of _ _ _ "tl data"]) (simp add: data_def tlv_def)
  note e = element_R [OF reads_in [OF reads_init_body [OF assms(1,2)]] body, of "[]" "ASN1_APPLICATION 0" "[]", folded data_def, simplified, OF l, of "[]"]
  obtain d2 where ck: "asn1_check_OID (R data (Suc (length (der_len (length (init_body m))))) [tag_read (Suc (length (der_len (length (init_body m))))) (length (init_body m))]) GENSEC_OID_SPNEGO = Some d2"
    and rd: "read_negTokenInit (snd d2) = Some (True, received_init m, R data (length data) [tag_read (Suc (length (der_len (length (init_body m))))) (length (init_body m))])"
    using e(2) by (auto simp: split_def split: bind_splits)
  have "data \<noteq> []" by (simp add: data_def)
  then show ?thesis
    by (simp add: spnego_read_data_def Let_def load peek e(1,3) ck rd split_def asn1_free_def SPNEGO_NEG_TOKEN_INIT_def)
qed

lemma tlv_short: "length c < 128 \<Longrightarrow> tlv tag c = tag # of_nat (length c) # c"
  by (simp add: tlv_def der_len_short)




section \<open>Answers\<close>

record targ_message =
  tm_result :: u8
  tm_mech :: "(nat \<times> nat \<times> u32 list) option"
  tm_token :: "u8 list option"
  tm_mic :: "u8 list option"

definition targ_of :: "targ_message \<Rightarrow> spnego_negTokenTarg" where
  "targ_of m = \<lparr>negResult = tm_result m, supportedMech = map_option oid_str (tm_mech m), responseToken = tm_token m, targ_mechListMIC = tm_mic m\<rparr>"

definition enc_result :: "u8 \<Rightarrow> u8 list" where
  "enc_result b = (if b \<noteq> SPNEGO_NONE_RESULT then tlv (ASN1_CONTEXT 0) (tlv ASN1_ENUMERATED [b]) else [])"

definition enc_mech :: "(nat \<times> nat \<times> u32 list) option \<Rightarrow> u8 list" where
  "enc_mech = opt_enc (\<lambda>oid. tlv (ASN1_CONTEXT 1) (oid_enc oid))"

definition enc_targ :: "targ_message \<Rightarrow> u8 list" where
  "enc_targ m = enc_result (tm_result m) @ enc_mech (tm_mech m) @ enc_token 2 (tm_token m) @ enc_token 3 (tm_mic m)"

definition write_result :: "u8 \<Rightarrow> asn1_data \<Rightarrow> asn1_data option" where
  "write_result b d =
     (if b \<noteq> SPNEGO_NONE_RESULT then tagged (ASN1_CONTEXT 0) (quiet (\<lambda>d. asn1_write_enumerated d b)) d else Some d)"

definition write_mech :: "string option \<Rightarrow> asn1_data \<Rightarrow> asn1_data option" where
  "write_mech oid d =
     (case oid of None \<Rightarrow> Some d | Some oid \<Rightarrow> tagged (ASN1_CONTEXT 1) (quiet (\<lambda>d. asn1_write_OID d oid)) d)"

lemma write_negTokenTarg_tagged:
  "write_negTokenTarg d token =
     do { d \<leftarrow> tagged (ASN1_CONTEXT 1) (tagged (ASN1_SEQUENCE 0)
            (\<lambda>d. do { d \<leftarrow> write_result (negResult token) d; d \<leftarrow> write_mech (supportedMech token) d;
                      d \<leftarrow> write_mechToken d 2 (responseToken token); write_mechToken d 3 (targ_mechListMIC token) })) d;
          Some (\<not> has_error d, d) }"
proof -
  have result: "(if negResult token \<noteq> SPNEGO_NONE_RESULT
                then do { (_, d) \<leftarrow> asn1_push_tag d (ASN1_CONTEXT 0);
                          (_, d) \<leftarrow> asn1_write_enumerated d (negResult token);
                          (_, d) \<leftarrow> asn1_pop_tag d;
                          Some d }
                else Some d) = write_result (negResult token) d" for d
    by (simp add: write_result_def tagged_def quiet_def bind_map split_def)
  have mech: "(case supportedMech token of
                 None \<Rightarrow> Some d
               | Some oid \<Rightarrow>
                   do { (_, d) \<leftarrow> asn1_push_tag d (ASN1_CONTEXT 1);
                        (_, d) \<leftarrow> asn1_write_OID d oid;
                        (_, d) \<leftarrow> asn1_pop_tag d;
                        Some d }) = write_mech (supportedMech token) d" for d
    by (simp add: write_mech_def tagged_def quiet_def bind_map split_def split: option.splits)
  show ?thesis unfolding write_negTokenTarg_def result mech by (simp add: tagged_def split_def)
qed

lemma puts_result: "puts (write_result b) (enc_result b)"
proof -
  have "puts (tagged (ASN1_CONTEXT 0) (quiet (\<lambda>d. asn1_write_enumerated d b))) (tlv (ASN1_CONTEXT 0) (tlv ASN1_ENUMERATED [b]))"
    by (intro puts_tagged puts_quiet writes_enumerated)
  then show ?thesis by (simp add: puts_def write_result_def enc_result_def)
qed

lemma puts_mech: "pred_option oid_fits oid \<Longrightarrow> puts (write_mech (map_option oid_str oid)) (enc_mech oid)"
proof (cases oid)
  case None
  then show ?thesis by (simp add: puts_def write_mech_def enc_mech_def opt_enc_def)
next
  case (Some o')
  assume "pred_option oid_fits oid"
  then have "puts (tagged (ASN1_CONTEXT 1) (quiet (\<lambda>d. asn1_write_OID d (oid_str o')))) (tlv (ASN1_CONTEXT 1) (oid_enc o'))"
    using Some by (intro puts_tagged puts_quiet writes_oid) simp
  then show ?thesis by (simp add: Some puts_def write_mech_def enc_mech_def opt_enc_def)
qed

definition targ_data :: "targ_message \<Rightarrow> spnego_data" where
  "targ_data m = \<lparr>sp_type = SPNEGO_NEG_TOKEN_TARG, negTokenInit = init_zero, negTokenTarg = targ_of m\<rparr>"

definition targ_bytes :: "targ_message \<Rightarrow> u8 list" where
  "targ_bytes m = tlv (ASN1_CONTEXT 1) (tlv (ASN1_SEQUENCE 0) (enc_targ m))"

lemma spnego_write_targ:
  assumes "pred_option oid_fits (tm_mech m)" "length (targ_bytes m) < MAX_TALLOC_SIZE"
  shows "spnego_write_data (targ_data m) = Some (Some (targ_bytes m, length (targ_bytes m)))"
proof -
  let ?f = "\<lambda>d. write_result (negResult (targ_of m)) d \<bind> (\<lambda>d. write_mech (supportedMech (targ_of m)) d \<bind>
      (\<lambda>d. write_mechToken d 2 (responseToken (targ_of m)) \<bind> (\<lambda>d. write_mechToken d 3 (targ_mechListMIC (targ_of m)))))"
  have "puts (tagged (ASN1_CONTEXT 1) (tagged (ASN1_SEQUENCE 0) ?f)) (targ_bytes m)"
    unfolding targ_bytes_def enc_targ_def enc_token_def targ_of_def spnego_negTokenTarg.simps
    by (intro puts_tagged puts_seq puts_result puts_mech puts_mechToken assms)
  then have "tagged (ASN1_CONTEXT 1) (tagged (ASN1_SEQUENCE 0) ?f) (W [] []) = Some (W (targ_bytes m) [])"
    using assms(2) by (simp add: puts_def)
  then show ?thesis
    by (simp add: spnego_write_data_def targ_data_def SPNEGO_NEG_TOKEN_INIT_def SPNEGO_NEG_TOKEN_TARG_def asn1_zero_W
        write_negTokenTarg_tagged)
qed


lemma targ_result_field:
  "targ_field (ASN1_CONTEXT 0) d token =
     do { (_, b, d) \<leftarrow> within (ASN1_CONTEXT 0) (within ASN1_ENUMERATED (\<lambda>d. map_option (Pair True) (asn1_read_uint8 d))) d;
          Some (case b of None \<Rightarrow> token | Some b \<Rightarrow> token\<lparr>negResult := b\<rparr>, d) }"
  by (simp add: targ_field_def within_def split_def bind_map)

lemma field_result: "field_ok targ_field (tlv (ASN1_CONTEXT 0) (tlv ASN1_ENUMERATED [b])) (\<lambda>t. t\<lparr>negResult := b\<rparr>)"
proof -
  have "reads (\<lambda>d. map_option (Pair True) (asn1_read_uint8 d)) [b] (Some b)"
  proof (rule readsI)
    fix pre post ns
    show "map_option (Pair True) (asn1_read_uint8 (R (pre @ [b] @ post) (length pre) ns)) = Some (True, Some b, R (pre @ [b] @ post) (length pre + length [b]) ns)"
      using next_R(1) [of "length pre" "pre @ b # post" b post ns] by simp
  qed
  then have "reads (within (ASN1_CONTEXT 0) (within ASN1_ENUMERATED (\<lambda>d. map_option (Pair True) (asn1_read_uint8 d))))
      (tlv (ASN1_CONTEXT 0) (tlv ASN1_ENUMERATED [b])) (Some b)"
    by (intro reads_within reads_in) (simp_all add: tlv_short)
  from field_within [OF this, of targ_field "\<lambda>b t. case b of None \<Rightarrow> t | Some b \<Rightarrow> t\<lparr>negResult := b\<rparr>"] show ?thesis
    by (simp add: targ_result_field)
qed

lemma field_mech:
  assumes "oid_fits oid" "length (oid_enc oid) < 2 ^ 24"
  shows "field_ok targ_field (tlv (ASN1_CONTEXT 1) (oid_enc oid)) (\<lambda>t. t\<lparr>supportedMech := Some (oid_str oid)\<rparr>)"
proof -
  have "reads (within (ASN1_CONTEXT 1) asn1_read_OID) (tlv (ASN1_CONTEXT 1) (oid_enc oid)) (Some (oid_str oid))"
    using assms by (intro reads_within reads_in reads_oid)
  from field_within [OF this, of targ_field "\<lambda>oid t. case oid of None \<Rightarrow> t | Some oid \<Rightarrow> t\<lparr>supportedMech := Some oid\<rparr>"] show ?thesis
    by (simp add: targ_field_cases)
qed

lemma field_response:
  assumes "length (tlv ASN1_OCTET_STRING p) < 2 ^ 24"
  shows "field_ok targ_field (tlv (ASN1_CONTEXT 2) (tlv ASN1_OCTET_STRING p)) (\<lambda>t. t\<lparr>responseToken := Some p\<rparr>)"
    "field_ok targ_field (tlv (ASN1_CONTEXT 3) (tlv ASN1_OCTET_STRING p)) (\<lambda>t. t\<lparr>targ_mechListMIC := Some p\<rparr>)"
  using field_within [OF reads_token [OF assms, of "ASN1_CONTEXT 2"], of targ_field "\<lambda>blob t. t\<lparr>responseToken := blob\<rparr>"]
    field_within [OF reads_token [OF assms, of "ASN1_CONTEXT 3"], of targ_field "\<lambda>blob t. t\<lparr>targ_mechListMIC := blob\<rparr>"]
  by (simp_all add: targ_field_cases)

text \<open>A result that is not sent comes back as 0, which is \<open>SPNEGO_ACCEPT_COMPLETED\<close>.\<close>

definition received_targ :: "targ_message \<Rightarrow> spnego_negTokenTarg" where
  "received_targ m = (targ_of m)\<lparr>negResult := if tm_result m = SPNEGO_NONE_RESULT then 0 else tm_result m\<rparr>"

definition targ_ok :: "targ_message \<Rightarrow> bool" where
  "targ_ok m \<longleftrightarrow> pred_option oid_fits (tm_mech m) \<and> length (enc_targ m) < 2 ^ 23"

definition targ_fields :: "targ_message \<Rightarrow> (u8 list \<times> (spnego_negTokenTarg \<Rightarrow> spnego_negTokenTarg)) list" where
  "targ_fields m =
     (if tm_result m \<noteq> SPNEGO_NONE_RESULT then [(enc_result (tm_result m), \<lambda>t. t\<lparr>negResult := tm_result m\<rparr>)] else []) @
     (case tm_mech m of Some oid \<Rightarrow> [(enc_mech (Some oid), \<lambda>t. t\<lparr>supportedMech := Some (oid_str oid)\<rparr>)] | None \<Rightarrow> []) @
     (case tm_token m of Some p \<Rightarrow> [(enc_token 2 (Some p), \<lambda>t. t\<lparr>responseToken := Some p\<rparr>)] | None \<Rightarrow> []) @
     (case tm_mic m of Some p \<Rightarrow> [(enc_token 3 (Some p), \<lambda>t. t\<lparr>targ_mechListMIC := Some p\<rparr>)] | None \<Rightarrow> [])"

lemma enc_targ_fields: "concat (map fst (targ_fields m)) = enc_targ m"
  by (auto simp: targ_fields_def enc_targ_def enc_result_def enc_mech_def enc_token_def opt_enc_def split: option.splits)

lemma targ_fields_fold: "fold (\<lambda>(e, upd). upd) (targ_fields m) targ_zero = received_targ m"
  by (auto simp: targ_fields_def received_targ_def targ_of_def targ_zero_def split: option.splits)

lemma targ_fields_ok:
  assumes "targ_ok m" shows "list_all (\<lambda>(e, upd). field_ok targ_field e upd) (targ_fields m)"
proof -
  have small: "length (enc_mech (tm_mech m)) < 2 ^ 23" "length (enc_token 2 (tm_token m)) < 2 ^ 23" "length (enc_token 3 (tm_mic m)) < 2 ^ 23"
    using assms by (simp_all add: targ_ok_def enc_targ_def)
  have inner: "length c < 2 ^ 24" if "length (tlv tag c) < 2 ^ 23" for c :: "u8 list" and tag
    using that length_tlv_ge [of c tag] by simp
  have mech: "field_ok targ_field (enc_mech (Some oid)) (\<lambda>t. t\<lparr>supportedMech := Some (oid_str oid)\<rparr>)" if "tm_mech m = Some oid" for oid
    unfolding enc_mech_def opt_enc_def option.case
    by (rule field_mech) (use assms that small(1) inner in \<open>simp_all add: targ_ok_def enc_mech_def opt_enc_def\<close>)
  have token: "field_ok targ_field (enc_token 2 (Some p)) (\<lambda>t. t\<lparr>responseToken := Some p\<rparr>)" if "tm_token m = Some p" for p
    unfolding enc_token_def opt_enc_def option.case
    by (rule field_response(1)) (use that small(2) inner in \<open>simp add: enc_token_def opt_enc_def\<close>)
  have mic: "field_ok targ_field (enc_token 3 (Some p)) (\<lambda>t. t\<lparr>targ_mechListMIC := Some p\<rparr>)" if "tm_mic m = Some p" for p
    unfolding enc_token_def opt_enc_def option.case
    by (rule field_response(2)) (use that small(3) inner in \<open>simp add: enc_token_def opt_enc_def\<close>)
  show ?thesis
    unfolding targ_fields_def using mech token mic field_result by (auto simp: enc_result_def split: option.splits)
qed

lemma reads_targ:
  assumes "targ_ok m"
  shows "reads read_negTokenTarg (targ_bytes m) (received_targ m)"
proof -
  have "reads_in (\<lambda>d. map_option (Pair True) (read_targ_fields d targ_zero)) (enc_targ m) (received_targ m)"
  proof (rule reads_inI)
    fix pre post ns assume "length (pre @ enc_targ m @ post) < MAX_TALLOC_SIZE"
    then show "map_option (Pair True) (read_targ_fields (R (pre @ enc_targ m @ post) (length pre) (tag_read (length pre) (length (enc_targ m)) # ns)) targ_zero) =
        Some (True, received_targ m, R (pre @ enc_targ m @ post) (length pre + length (enc_targ m)) (tag_read (length pre) (length (enc_targ m)) # ns))"
      using targ_loop.fields_R [OF targ_fields_ok [OF assms], of "length pre" pre "length (enc_targ m)" post ns targ_zero]
        targ_fields_fold [of m] by (simp add: enc_targ_fields)
  qed
  moreover have "length (enc_targ m) < 2 ^ 24" "length (tlv (ASN1_SEQUENCE 0) (enc_targ m)) < 2 ^ 24"
    using assms(1) length_tlv_le [of "ASN1_SEQUENCE 0" "enc_targ m"] by (simp_all add: targ_ok_def)
  ultimately have "reads (within (ASN1_CONTEXT 1) (within (ASN1_SEQUENCE 0) (\<lambda>d. map_option (Pair True) (read_targ_fields d targ_zero))))
      (targ_bytes m) (received_targ m)"
    unfolding targ_bytes_def by (rule reads_within [OF reads_in [OF reads_within]])
  moreover have "read_negTokenTarg d = map_option (\<lambda>(_, t, d). (\<not> has_error d, t, d))
      (within (ASN1_CONTEXT 1) (within (ASN1_SEQUENCE 0) (\<lambda>d. map_option (Pair True) (read_targ_fields d targ_zero))) d)" for d
    by (simp add: read_negTokenTarg_def within_def split_def bind_map map_option_bind o_def)
  ultimately show ?thesis by (simp add: reads_def)
qed

lemma length_targ_bytes: "length (targ_bytes m) \<le> length (enc_targ m) + 10"
  using length_tlv_le [of "ASN1_CONTEXT 1" "tlv (ASN1_SEQUENCE 0) (enc_targ m)"] length_tlv_le [of "ASN1_SEQUENCE 0" "enc_targ m"]
  by (simp add: targ_bytes_def)

lemma spnego_read_targ:
  assumes "targ_ok m"
  shows "spnego_read_data (targ_bytes m) =
    Some (Some (length (targ_bytes m)), \<lparr>sp_type = SPNEGO_NEG_TOKEN_TARG, negTokenInit = init_zero, negTokenTarg = received_targ m\<rparr>)"
proof -
  have l: "length (targ_bytes m) < MAX_TALLOC_SIZE" using length_targ_bytes [of m] assms by (simp add: targ_ok_def MAX_TALLOC_SIZE_def)
  have load: "snd (asn1_load (targ_bytes m)) = R (targ_bytes m) 0 []" using l by (simp add: load_R)
  have peek: "asn1_peek_uint8 (R (targ_bytes m) 0 []) = Some (Some (ASN1_CONTEXT 1), R (targ_bytes m) 0 [])"
    by (rule peek_R [of _ _ _ "tl (targ_bytes m)"]) (simp add: targ_bytes_def tlv_def)
  have "targ_bytes m \<noteq> []" "ASN1_CONTEXT 1 \<noteq> ASN1_APPLICATION 0" by (simp_all add: targ_bytes_def asn1_tag_defs)
  moreover have "read_negTokenTarg (R (targ_bytes m) 0 []) = Some (True, received_targ m, R (targ_bytes m) (length (targ_bytes m)) [])"
    using readsD [OF reads_targ [OF assms], of "[]" "[]" "[]"] l by simp
  ultimately show ?thesis
    by (simp add: spnego_read_data_def Let_def load peek asn1_free_def)
qed

text \<open>C22: an answer of the SPNEGO negotiation is read back as it was written, except that an answer without a result is read as
  one that accepts: the writer leaves the result out, and the reader starts from a structure of zeros.\<close>

theorem spnego_targ_roundtrip:
  assumes "targ_ok m"
  shows "\<exists>data. spnego_write_data (targ_data m) = Some (Some (data, length data)) \<and>
     spnego_read_data data =
       Some (Some (length data), \<lparr>sp_type = SPNEGO_NEG_TOKEN_TARG, negTokenInit = init_zero,
         negTokenTarg = (targ_of m)\<lparr>negResult := if tm_result m = SPNEGO_NONE_RESULT then 0 else tm_result m\<rparr>\<rparr>)"
proof -
  have "length (targ_bytes m) < MAX_TALLOC_SIZE" using length_targ_bytes [of m] assms by (simp add: targ_ok_def MAX_TALLOC_SIZE_def)
  then show ?thesis using spnego_write_targ [of m] spnego_read_targ [OF assms] assms by (simp add: targ_ok_def received_targ_def)
qed

theorem spnego_targ_roundtrip_witness:
  defines "m \<equiv> \<lparr>tm_result = SPNEGO_NONE_RESULT, tm_mech = Some (1, 3, [6, 1, 4, 1, 311, 2, 2, 10]), tm_token = Some [0x4e, 0x54], tm_mic = None\<rparr>"
  shows "\<exists>data. spnego_write_data (targ_data m) = Some (Some (data, length data)) \<and>
     spnego_read_data data =
       Some (Some (length data), \<lparr>sp_type = SPNEGO_NEG_TOKEN_TARG, negTokenInit = init_zero,
         negTokenTarg = (targ_of m)\<lparr>negResult := if tm_result m = SPNEGO_NONE_RESULT then 0 else tm_result m\<rparr>\<rparr>)"
proof (rule spnego_targ_roundtrip)
  have o: "oid_bytes 1 3 [6, 1, 4, 1, 311, 2, 2, 10] = [43, 6, 1, 4, 1, 130, 55, 2, 2, 10]" by code_simp
  show "targ_ok m"
    by (simp add: m_def targ_ok_def oid_fits_def o [simplified] enc_targ_def enc_result_def enc_mech_def enc_token_def opt_enc_def oid_enc_def tlv_short)
qed


end
