(* ===== verification/Spec2Isabelle.thy ===== *)
theory Spec2Isabelle
  imports PacketStream NdrCore NdrSec ErrorMap Guid WbemPage Composite SmartEnum Wmic Ntlmssp SpnegoCodec
begin

text \<open>
  A verification development for the WMI client \<open>wmic\<close>.

  \<^bold>\<open>The program.\<close>  The repository is a Samba 4 tree (\<open>src/Samba/source\<close>, C) around a client that runs a
  WQL query on a Windows host and prints the objects of the result.  Bottom up, its own parts and their way through
  the code are: byte order macros and counted blobs; the NDR engine that all remote calls are marshalled with;
  security identifiers, tokens, descriptors and the access check, and their wire form; the translation of error codes;
  unique identifiers; packets on a stream socket; ciphers and digests, the protection of messages by NTLMSSP, ASN.1
  elements and the SPNEGO messages made of them; WMI objects on the wire and the parser of result blocks; composite
  (asynchronous) calls; the enumeration of a query's result as a chain of remote calls; and the client, which prints the
  pages it receives.

  \<^bold>\<open>The theories, and the code they model.\<close>
  \<^item> \<open>Prelude\<close>: words, computations that fail with a status or with \<open>Fault\<close> (an access outside a buffer), and their
    contracts (\<open>comp_spec\<close>, \<open>keeps\<close>), generic lemmas on lists and words.
  \<^item> \<open>Byteorder\<close> (\<open>lib/util/byteorder.h\<close>) and \<open>DataBlob\<close> (\<open>lib/util/data_blob.c\<close>; of \<open>lib/talloc\<close> the size limit
    and the contents of buffers).
  \<^item> \<open>Ndr\<close>, \<open>NdrWire\<close>, \<open>NdrCore\<close> (\<open>librpc/ndr/libndr.h\<close>, \<open>ndr.c\<close>, \<open>ndr_basic.c\<close>): the two contexts as records,
    every basic type in both directions, tokens, pointers, relative pointers, sub-contexts, blobs.  A codec is stated as
    the locale \<open>ndr_codec\<close> (a writer appends an encoding, a reader of that encoding gives the value back and stops
    behind it, a reader of anything stays inside the buffer), interpreted for every basic type and closed under
    sequences, lists and sub-contexts; token lists as \<open>token_stack\<close>.
  \<^item> \<open>DomSid\<close>, \<open>Security\<close>, \<open>NdrSec\<close> (\<open>libcli/security/*.c\<close>, \<open>librpc/idl/security.idl\<close>,
    \<open>librpc/ndr/ndr_sec_helper.c\<close>): identifiers with their text and comparison, tokens and privileges, descriptors and
    their editing, the access check with its exact meaning as a specification by the first deciding entry, and the two
    wire forms of identifiers.
  \<^item> \<open>ErrorMap\<close> (\<open>libcli/util/errormap.c\<close>): both tables, row by row, and the translations.
  \<^item> \<open>Guid\<close> (\<open>librpc/ndr/uuid.c\<close>): identifiers, their text, their comparison.
  \<^item> \<open>Packet\<close>, \<open>PacketStream\<close> (\<open>lib/stream/packet.c\<close>, the check for fragments in \<open>librpc/rpc/dcerpc_sock.c\<close>): the
    packet context, receiving with its buffer, limits and timers, the send queue, the checks for full packets; what a
    check must satisfy is the locale \<open>framing\<close>, interpreted on the NetBIOS and the DCE/RPC header.
  \<^item> \<open>Crypto\<close> (\<open>lib/crypto/arcfour.c\<close>, \<open>crc32.c\<close>, \<open>md5.c\<close>, \<open>hmacmd5.c\<close>): RC4 with its state, the table of CRC-32,
    MD5 with its buffer and counters, HMAC-MD5, each with a definition to compare it with.
  \<^item> \<open>Ntlmssp\<close> (\<open>auth/ntlmssp/ntlmssp_sign.c\<close>): the key schedule, signing, checking, sealing, unsealing and wrapping of
    messages; the relation \<open>paired\<close> between the states of the two ends.
  \<^item> \<open>Asn1\<close>, \<open>Asn1Codec\<close>, \<open>Asn1Safe\<close> (\<open>libcli/util/asn1.c\<close>): the buffer with its nesting, every writer and reader.  What a
    writer and a reader of an element owe each other is the locale \<open>asn1_codec\<close>, interpreted for the seven kinds of
    elements; what keeps a reader inside the buffer is the locale \<open>asn1_reader\<close>.
  \<^item> \<open>Spnego\<close>, \<open>SpnegoCodec\<close> (\<open>auth/gensec/spnego_parse.c\<close>): the two kinds of messages; the loops over their fields are
    two interpretations of the locale \<open>spnego_loop\<close>.
  \<^item> \<open>Wbem\<close>, \<open>WbemPage\<close> (\<open>librpc/idl/dcom_wmi.inc\<close>, \<open>librpc/ndr/ndr_dcom.c\<close>, \<open>wmi/wbemdata.c\<close>): WMI classes,
    instances and values, the framing of structures with a stack, the object reader and writer, the class cache, the
    parser of result blocks.
  \<^item> \<open>Composite\<close> (\<open>libcli/composite/composite.c\<close>): contexts of asynchronous calls; all orders of finishing,
    registering and firing timers as the step relation \<open>cstep\<close>; the waiting loop, with the locale \<open>event_progress\<close>.
  \<^item> \<open>SmartEnum\<close> (\<open>wmi/wbemdata.c\<close>, second half): the enumeration state, its three continuations, sending, waiting and
    receiving; \<open>event_progress\<close> is interpreted on it.
  \<^item> \<open>Wmic\<close> (\<open>wmi/wmic.c\<close>): the text of values, the table, the loop over the pages, the exits.

  \<^bold>\<open>What is shown.\<close>  Reading is memory safe for buffers below \<open>2\<^sup>3\<^sup>1\<close> bytes whatever they hold, and not beyond;
  every writer is inverted by its reader; relative pointers, sub-contexts and framed blocks compose; the access check
  grants exactly what its specification grants; texts of identifiers parse back; error translations are total.
  However the bytes of a stream arrive, the receiver delivers exactly its packets, in order and once, and makes
  progress with every event; the send queue writes what was queued.  MD5, HMAC-MD5 and CRC-32 compute what their
  definitions say, in any pieces; two NTLMSSP ends that start from the same key accept each other's messages for ever, and
  nothing else, and no message twice; ASN.1 documents and SPNEGO messages are read back as written, and reading ASN.1 is
  memory safe.  A well-formed result block is parsed into its objects, the parser stays inside the block for every input but writes
  behind the caller's array when the server returns more objects than were asked for.  A call of the enumeration
  always returns after at most three requests; a continuation that frees its context runs exactly once.  The client
  prints every object of every page once, in order, with headers at the changes of the class
  (\<open>wmic_prints_result\<close>), which composes the parser, the error translation, the enumeration and the printing loop.
  Where the code falls short (wrapping sums and lengths, signs that are not extended, checks that check nothing, a lost wake-up, a lost descriptor type, a table without terminator, a null interface after
  a failed call, arrays of reals), the shortcoming is a theorem of its own.

  \<^bold>\<open>Bounds and loops.\<close>  Loops of the code are structural recursions, except three: the waiting loop, the loop of the
  client and the loop over the packets of a buffer are partial functions into options, where \<open>None\<close> is not returning;
  that they return is proved, from the rank of the pending request, the list of pages and the length of the buffer.
  There is no fuel.  The loops of ASN.1 and SPNEGO end because each turn takes a part of the buffer or sets the error; the
  one that writes object identifiers ends because the buffer has a limit.  Buffers obey
  talloc's limit of \<open>2\<^sup>2\<^sup>8\<close> bytes where they are allocated.

  \<^bold>\<open>Parameters.\<close>  Code that is not in the repository is an argument: the readers and writers generated from the IDL
  files (\<open>ndr_pull_GUID\<close>, \<open>ndr_push_dom_sid\<close> and their kin), with the readers of the parts of WMI objects that call
  them, and the remote calls of the enumeration (\<open>remote\<close>).  What is assumed of them is stated with each theorem and
  met by concrete readers and servers in the witnesses.

  \<^bold>\<open>Not modelled.\<close>  Vendored and foreign code (heimdal, appweb and ejs, popt, ldb, tdb), the servers (SMB, RPC, LDAP,
  KDC, NBT, ntvfs, dsdb), torture tests, scripting and the Perl compiler pidl, which the client does not run or only
  links; event loop and sockets (input and output); the \<open>ndr_print\<close> functions (debug output); character set
  conversion, DCE/RPC connections beyond their framing, the exchange of messages by which NTLMSSP and SPNEGO agree on a
  key, Kerberos, DCOM activation, and of \<open>wbemdata.c\<close> the copies and the marshalling of single objects.
\<close>

end
